(* ===== verification/Prelude.thy ===== *)
theory Prelude
  imports Main "HOL-Library.Word" "HOL-Library.Char_ord" "HOL-Library.List_Lexorder"
begin

text \<open>
  Shared vocabulary of the development: the model's base types, the operations of
  Rust's \<open>Vec\<close>, slices and unsigned integers that more than one component uses, and
  the generic lemmas about them.

  A Rust \<open>u8\<close> is a \<^typ>\<open>char\<close> (an Isabelle \<^typ>\<open>char\<close> has exactly eight bits), so a
  \<open>Vec<u8>\<close>, a byte slice and a \<open>str\<close> (which Rust stores as its UTF-8 octets) are all
  character lists and ASCII literals are readable.  A \<open>u64\<close> is a 64-bit word.  A
  \<open>usize\<close> that counts elements in memory is a \<^typ>\<open>nat\<close>.
\<close>

type_synonym byte = char
type_synonym bytes = "char list"
type_synonym u16 = "16 word"
type_synonym u64 = "64 word"

named_theorems word_nat \<open>facts that move unsigned word arithmetic to natural numbers\<close>
named_theorems result_simps \<open>unfolding rules of the Result combinators\<close>

section \<open>Unsigned words\<close>

definition sat_sub :: "'a::len word \<Rightarrow> 'a word \<Rightarrow> 'a word" where
  "sat_sub a b = (if b \<le> a then a - b else 0)"

definition sat_add :: "'a::len word \<Rightarrow> 'a word \<Rightarrow> 'a word" where
  "sat_add a b = (if unat a + unat b < 2 ^ LENGTH('a) then a + b else - 1)"

lemmas [word_nat] = word_less_nat_alt word_le_nat_alt

lemma unat_sat_sub [word_nat]: "unat (sat_sub a b) = unat a - unat b"
  by (auto simp: sat_sub_def unat_sub word_le_nat_alt)

lemma unat_lt_pow: "unat (w :: 'a::len word) < 2 ^ LENGTH('a)"
  by (rule unsigned_less)

lemma unat_minus_1: "unat (- 1 :: 'a::len word) = 2 ^ LENGTH('a) - 1"
  by (simp add: unat_eq_nat_uint unsigned_minus_1_eq_mask mask_eq_exp_minus_1 nat_diff_distrib nat_power_eq)

lemma unat_sat_add [word_nat]:
  "unat (sat_add a (b :: 'a::len word)) = min (unat a + unat b) (2 ^ LENGTH('a) - 1)"
proof (cases "unat a + unat b < 2 ^ LENGTH('a)")
  case True
  then have "unat (a + b) = unat a + unat b" by (simp add: unat_add_lem)
  moreover have "min (unat a + unat b) (2 ^ LENGTH('a) - 1) = unat a + unat b"
    using True by linarith
  ultimately show ?thesis using True by (simp add: sat_add_def)
next
  case False
  then show ?thesis by (simp add: sat_add_def unat_minus_1)
qed

lemma unat_inc [word_nat]: "a < b \<Longrightarrow> unat (a + 1) = unat a + 1"
  for a b :: "'a::len word"
proof -
  assume "a < b"
  then have "unat a + 1 < 2 ^ LENGTH('a)"
    using unat_lt_pow [of b] by (simp add: word_less_nat_alt del: unsigned_less)
  then show ?thesis by (simp add: unat_plus_if')
qed

lemma unat_dec [word_nat]: "0 < a \<Longrightarrow> unat (a - 1) = unat a - 1"
  for a :: "'a::len word"
  by (simp add: unat_minus_one word_greater_zero_iff)

lemma unat_of_nat_small: "k < 2 ^ LENGTH('a) \<Longrightarrow> unat (of_nat k :: 'a::len word) = k"
  by (simp add: unsigned_of_nat take_bit_nat_eq_self)

lemma of_nat_unat_word: "of_nat (unat w) = (w :: 'a::len word)"
  by simp

lemma unat_max [word_nat]: "unat (max a b) = max (unat a) (unat b)"
  by (auto simp: max_def word_le_nat_alt)

lemma unat_min [word_nat]: "unat (min a b) = min (unat a) (unat b)"
  by (auto simp: min_def word_le_nat_alt)

lemma unat_lt_u64: "unat (w :: u64) < 2 ^ 64"
  using unat_lt_pow [of w] by simp

lemma unat_span [word_nat]:
  fixes a b :: "'a::len word"
  assumes "a \<le> b" and "0 < a"
  shows "unat (b - a + 1) = unat b - unat a + 1"
proof -
  have "unat (b - a) = unat b - unat a" using assms(1) by (simp add: unat_sub)
  moreover have "unat b - unat a + 1 < 2 ^ LENGTH('a)"
    using assms unat_lt_pow [of b]
    by (simp add: word_less_nat_alt word_le_nat_alt del: unsigned_less)
  ultimately show ?thesis by (simp add: unat_plus_if')
qed

text \<open>An arithmetic overflow, which is a panic in a build with overflow checks.\<close>

datatype panic = Overflow

section \<open>Vec and slice operations\<close>

text \<open>
  \<open>slice::partition_point\<close> returns the index of the first element that fails the
  predicate, for a slice that is partitioned by it.
\<close>

definition partition_point :: "('a \<Rightarrow> bool) \<Rightarrow> 'a list \<Rightarrow> nat" where
  "partition_point P xs = length (takeWhile P xs)"

definition vec_insert :: "nat \<Rightarrow> 'a \<Rightarrow> 'a list \<Rightarrow> 'a list" where
  "vec_insert i x xs = take i xs @ x # drop i xs"

text \<open>\<open>Vec::splice(a..b, ys)\<close>.\<close>

definition vec_splice :: "nat \<Rightarrow> nat \<Rightarrow> 'a list \<Rightarrow> 'a list \<Rightarrow> 'a list" where
  "vec_splice a b ys xs = take a xs @ ys @ drop b xs"

definition vec_remove :: "nat \<Rightarrow> 'a list \<Rightarrow> 'a list" where
  "vec_remove i xs = take i xs @ drop (Suc i) xs"

definition get_opt :: "'a list \<Rightarrow> nat \<Rightarrow> 'a option" where
  "get_opt xs i = (if i < length xs then Some (xs ! i) else None)"

text \<open>\<open>Iterator::position\<close>.\<close>

definition position :: "('a \<Rightarrow> bool) \<Rightarrow> 'a list \<Rightarrow> nat option" where
  "position P xs =
     (let i = length (takeWhile (\<lambda>x. \<not> P x) xs) in if i < length xs then Some i else None)"

lemma position_append:
  assumes "\<And>x. x \<in> set p \<Longrightarrow> \<not> P x" and "P y"
  shows "position P (p @ y # s) = Some (length p)"
proof -
  have "takeWhile (\<lambda>x. \<not> P x) (p @ y # s) = p @ takeWhile (\<lambda>x. \<not> P x) (y # s)"
    by (rule takeWhile_append2) (use assms(1) in auto)
  with assms(2) show ?thesis by (simp add: position_def)
qed

lemma position_None: "position P xs = None \<longleftrightarrow> (\<forall>x \<in> set xs. \<not> P x)"
proof -
  have "length (takeWhile (\<lambda>x. \<not> P x) xs) < length xs \<longleftrightarrow> takeWhile (\<lambda>x. \<not> P x) xs \<noteq> xs"
    by (metis length_takeWhile_le nat_less_le takeWhile_dropWhile_id append_eq_conv_conj
        take_all_iff dropWhile_eq_drop)
  then show ?thesis by (auto simp: position_def Let_def takeWhile_eq_all_conv)
qed

lemma position_Some:
  assumes "position P xs = Some i"
  obtains p y s where "xs = p @ y # s" "length p = i" "P y" "\<And>x. x \<in> set p \<Longrightarrow> \<not> P x"
proof -
  have "\<exists>x \<in> set xs. P x" using assms position_None [of P xs] by auto
  then obtain p y s where s: "xs = p @ y # s" "P y" "\<forall>x \<in> set p. \<not> P x"
    by (metis split_list_first_prop)
  with position_append [of p P y s] assms that show ?thesis by auto
qed

text \<open>\<open>xs.get(a..b).unwrap_or_default()\<close>.\<close>

definition slice_or_empty :: "nat \<Rightarrow> nat \<Rightarrow> 'a list \<Rightarrow> 'a list" where
  "slice_or_empty a b xs = (if a \<le> b \<and> b \<le> length xs then take (b - a) (drop a xs) else [])"

lemma get_opt_Some_iff: "get_opt xs i = Some x \<longleftrightarrow> i < length xs \<and> xs ! i = x"
  by (simp add: get_opt_def)

lemma get_opt_None_iff: "get_opt xs i = None \<longleftrightarrow> length xs \<le> i"
  by (simp add: get_opt_def not_less)

lemma get_opt_append_mid [simp]: "get_opt (xs @ x # ys) (length xs) = Some x"
  by (simp add: get_opt_def)

lemma get_opt_in_set: "get_opt xs i = Some x \<Longrightarrow> x \<in> set xs"
  by (auto simp: get_opt_def split: if_splits)

lemma take_partition_point [simp]: "take (partition_point P xs) xs = takeWhile P xs"
  by (simp add: partition_point_def takeWhile_eq_take [symmetric])

lemma drop_partition_point [simp]: "drop (partition_point P xs) xs = dropWhile P xs"
  by (simp add: partition_point_def dropWhile_eq_drop [symmetric])

lemma partition_point_le [simp]: "partition_point P xs \<le> length xs"
  by (simp add: partition_point_def length_takeWhile_le)

lemma dropWhile_sorted_not:
  assumes "sorted_wrt R xs"
    and "\<And>x y. x \<in> set xs \<Longrightarrow> y \<in> set xs \<Longrightarrow> R x y \<Longrightarrow> P y \<Longrightarrow> P x"
    and "x \<in> set (dropWhile P xs)"
  shows "\<not> P x"
  using assms
proof (induction xs)
  case (Cons a xs)
  show ?case
  proof (cases "P a")
    case True
    show ?thesis
      by (rule Cons.IH) (use Cons.prems True in auto)
  next
    case False
    from Cons.prems(3) False have "x = a \<or> x \<in> set xs" by simp
    with Cons.prems(1,2) False show ?thesis by (metis list.set_intros sorted_wrt.simps(2))
  qed
qed simp

end
