(* ===== verification/Rust_Str.thy ===== *)
theory Rust_Str
  imports Prelude
begin

text \<open>
  The operations of Rust's \<open>u8\<close>, \<open>str\<close> and \<open>String\<close> that the repository uses, over
  the UTF-8 octets of the text.  Splitting, searching and case folding on ASCII patterns
  work on octets exactly as Rust's own implementation does, because no octet of a
  multi-octet scalar is ASCII.  \<open>char::is_whitespace\<close> (used by \<open>str::trim\<close>) is the
  Unicode \<open>White_Space\<close> set, spelt here as the octet sequences that encode it.
  Numbers are printed and parsed as \<open>u64::to_string\<close> and \<open>str::parse::<u64>\<close> do,
  the leading \<open>+\<close> that Rust accepts included.
\<close>

section \<open>ASCII classes\<close>

abbreviation code :: "char \<Rightarrow> nat" where
  "code c \<equiv> of_char c"

abbreviation CR :: char where "CR \<equiv> CHR 0x0D"
abbreviation LF :: char where "LF \<equiv> CHR 0x0A"
abbreviation TAB :: char where "TAB \<equiv> CHR 0x09"
abbreviation SP :: char where "SP \<equiv> CHR 0x20"

definition is_ascii :: "char \<Rightarrow> bool" where
  "is_ascii c \<longleftrightarrow> code c < 128"

definition is_ascii_digit :: "char \<Rightarrow> bool" where
  "is_ascii_digit c \<longleftrightarrow> 48 \<le> code c \<and> code c \<le> 57"

definition is_ascii_graphic :: "char \<Rightarrow> bool" where
  "is_ascii_graphic c \<longleftrightarrow> 33 \<le> code c \<and> code c \<le> 126"

definition is_ascii_control :: "char \<Rightarrow> bool" where
  "is_ascii_control c \<longleftrightarrow> code c < 32 \<or> code c = 127"

definition is_ascii_whitespace :: "char \<Rightarrow> bool" where
  "is_ascii_whitespace c \<longleftrightarrow> code c \<in> {9, 10, 12, 13, 32}"

definition is_ascii_upper :: "char \<Rightarrow> bool" where
  "is_ascii_upper c \<longleftrightarrow> 65 \<le> code c \<and> code c \<le> 90"

definition is_ascii_lower :: "char \<Rightarrow> bool" where
  "is_ascii_lower c \<longleftrightarrow> 97 \<le> code c \<and> code c \<le> 122"

definition is_ascii_alphabetic :: "char \<Rightarrow> bool" where
  "is_ascii_alphabetic c \<longleftrightarrow> is_ascii_upper c \<or> is_ascii_lower c"

definition to_lower :: "char \<Rightarrow> char" where
  "to_lower c = (if is_ascii_upper c then char_of (code c + 32) else c)"

definition to_upper :: "char \<Rightarrow> char" where
  "to_upper c = (if is_ascii_lower c then char_of (code c - 32) else c)"

definition to_ascii_lowercase :: "string \<Rightarrow> string" where
  "to_ascii_lowercase = map to_lower"

definition to_ascii_uppercase :: "string \<Rightarrow> string" where
  "to_ascii_uppercase = map to_upper"

definition eq_ignore_ascii_case :: "string \<Rightarrow> string \<Rightarrow> bool" where
  "eq_ignore_ascii_case a b \<longleftrightarrow> to_ascii_lowercase a = to_ascii_lowercase b"

lemmas ascii_defs = is_ascii_def is_ascii_digit_def is_ascii_graphic_def is_ascii_control_def
  is_ascii_whitespace_def is_ascii_upper_def is_ascii_lower_def is_ascii_alphabetic_def

lemma code_lt_256: "code c < 256"
  by (rule nat_of_char_less_256)

lemma eq_ignore_ascii_case_refl [simp]: "eq_ignore_ascii_case a a"
  by (simp add: eq_ignore_ascii_case_def)

lemma eq_ignore_ascii_case_sym: "eq_ignore_ascii_case a b \<longleftrightarrow> eq_ignore_ascii_case b a"
  by (auto simp: eq_ignore_ascii_case_def)

lemma eq_ignore_ascii_case_trans:
  "eq_ignore_ascii_case a b \<Longrightarrow> eq_ignore_ascii_case b c \<Longrightarrow> eq_ignore_ascii_case a c"
  by (simp add: eq_ignore_ascii_case_def)

lemma graphic_not_control: "is_ascii_graphic c \<Longrightarrow> \<not> is_ascii_control c"
  by (auto simp: ascii_defs)

lemma digit_graphic: "is_ascii_digit c \<Longrightarrow> is_ascii_graphic c"
  by (auto simp: ascii_defs)

lemma graphic_not_space: "is_ascii_graphic c \<Longrightarrow> \<not> is_ascii_whitespace c"
  by (auto simp: ascii_defs)

section \<open>Splitting, joining, prefixes\<close>

fun split_by :: "('a \<Rightarrow> bool) \<Rightarrow> 'a list \<Rightarrow> 'a list list" where
  "split_by P [] = [[]]"
| "split_by P (c # s) =
     (if P c then [] # split_by P s
      else (case split_by P s of [] \<Rightarrow> [[c]] | p # ps \<Rightarrow> (c # p) # ps))"

abbreviation split_on :: "'a \<Rightarrow> 'a list \<Rightarrow> 'a list list" where
  "split_on d \<equiv> split_by (\<lambda>c. c = d)"

definition split_ascii_whitespace :: "string \<Rightarrow> string list" where
  "split_ascii_whitespace s = filter (\<lambda>p. p \<noteq> []) (split_by is_ascii_whitespace s)"

fun split_once :: "char \<Rightarrow> string \<Rightarrow> (string \<times> string) option" where
  "split_once d [] = None"
| "split_once d (c # s) =
     (if c = d then Some ([], s) else map_option (\<lambda>(a, b). (c # a, b)) (split_once d s))"

fun join :: "string \<Rightarrow> string list \<Rightarrow> string" where
  "join sep [] = []"
| "join sep [x] = x"
| "join sep (x # y # ys) = x @ sep @ join sep (y # ys)"

definition strip_prefix :: "string \<Rightarrow> string \<Rightarrow> string option" where
  "strip_prefix p s = (if take (length p) s = p then Some (drop (length p) s) else None)"

definition strip_suffix :: "string \<Rightarrow> string \<Rightarrow> string option" where
  "strip_suffix p s =
     (if length p \<le> length s \<and> drop (length s - length p) s = p
      then Some (take (length s - length p) s) else None)"

definition starts_with :: "string \<Rightarrow> string \<Rightarrow> bool" where
  "starts_with p s \<longleftrightarrow> take (length p) s = p"

lemma split_by_ne [simp]: "split_by P s \<noteq> []"
  by (induction s) (auto split: list.splits)

lemma split_by_none: "list_all (\<lambda>c. \<not> P c) s \<Longrightarrow> split_by P s = [s]"
  by (induction s) auto

lemma split_by_append:
  assumes "list_all (\<lambda>c. \<not> P c) a" and "P d"
  shows "split_by P (a @ d # s) = a # split_by P s"
  using assms by (induction a) auto

lemma split_by_pieces: "p \<in> set (split_by P s) \<Longrightarrow> list_all (\<lambda>c. \<not> P c) p"
  by (induction s arbitrary: p) (auto split: list.splits if_splits)

lemma split_by_subset: "p \<in> set (split_by P s) \<Longrightarrow> set p \<subseteq> set s"
  by (induction s arbitrary: p) (fastforce split: list.splits if_splits)+

lemma split_on_join:
  assumes "xs \<noteq> []" and "\<And>x. x \<in> set xs \<Longrightarrow> d \<notin> set x"
  shows "split_on d (join [d] xs) = xs"
  using assms
proof (induction "[d]" xs rule: join.induct)
  case (3 x y ys)
  have "list_all (\<lambda>c. c \<noteq> d) x" using "3.prems" by (auto simp: list_all_iff)
  then have "split_on d (x @ d # join [d] (y # ys)) = x # split_on d (join [d] (y # ys))"
    by (rule split_by_append) simp
  with 3 show ?case by simp
qed (auto simp: list_all_iff intro!: split_by_none)

lemma join_split_on: "join [d] (split_on d s) = (s :: string)"
proof (induction s)
  case (Cons c s)
  obtain p ps where ps: "split_on d s = p # ps"
    by (cases "split_on d s") auto
  with Cons show ?case by (cases ps) auto
qed simp

lemma split_once_Some_iff:
  "split_once d s = Some (a, b) \<longleftrightarrow> s = a @ d # b \<and> d \<notin> set a"
proof (induction s arbitrary: a)
  case (Cons c s)
  show ?case
  proof (cases a)
    case Nil
    then show ?thesis by auto
  next
    case (Cons c' a')
    with Cons.IH [of a'] show ?thesis by (auto simp: split_paired_all)
  qed
qed simp

lemma split_once_None_iff: "split_once d s = None \<longleftrightarrow> d \<notin> set s"
  by (induction s) auto

lemma strip_prefix_append [simp]: "strip_prefix p (p @ s) = Some s"
  by (simp add: strip_prefix_def)

lemma strip_prefix_Some_iff: "strip_prefix p s = Some r \<longleftrightarrow> s = p @ r"
  by (auto simp: strip_prefix_def) (metis append_take_drop_id)

lemma strip_suffix_Some_iff: "strip_suffix p s = Some r \<longleftrightarrow> s = r @ p"
  by (auto simp: strip_suffix_def) (metis append_take_drop_id)

section \<open>Unicode white space and trimming\<close>

text \<open>
  The \<open>White_Space\<close> scalars are U+0009..U+000D, U+0020 (one octet), U+0085, U+00A0
  (two octets) and U+1680, U+2000..U+200A, U+2028, U+2029, U+202F, U+205F, U+3000
  (three octets).
\<close>

definition uws1 :: "char \<Rightarrow> bool" where
  "uws1 a \<longleftrightarrow> (9 \<le> code a \<and> code a \<le> 13) \<or> code a = 32"

definition uws2 :: "char \<Rightarrow> char \<Rightarrow> bool" where
  "uws2 a b \<longleftrightarrow> code a = 0xC2 \<and> (code b = 0x85 \<or> code b = 0xA0)"

definition uws3 :: "char \<Rightarrow> char \<Rightarrow> char \<Rightarrow> bool" where
  "uws3 a b c \<longleftrightarrow>
     (code a = 0xE1 \<and> code b = 0x9A \<and> code c = 0x80) \<or>
     (code a = 0xE2 \<and> code b = 0x80 \<and>
        ((0x80 \<le> code c \<and> code c \<le> 0x8A) \<or> code c = 0xA8 \<or> code c = 0xA9 \<or> code c = 0xAF)) \<or>
     (code a = 0xE2 \<and> code b = 0x81 \<and> code c = 0x9F) \<or>
     (code a = 0xE3 \<and> code b = 0x80 \<and> code c = 0x80)"

fun trim_start :: "string \<Rightarrow> string" where
  "trim_start (a # b # c # s) =
     (if uws1 a then trim_start (b # c # s)
      else if uws2 a b then trim_start (c # s)
      else if uws3 a b c then trim_start s else a # b # c # s)"
| "trim_start [a, b] = (if uws1 a then trim_start [b] else if uws2 a b then [] else [a, b])"
| "trim_start [a] = (if uws1 a then [] else [a])"
| "trim_start [] = []"

text \<open>The same from the end: the argument is the reversed text.\<close>

fun trim_rev :: "string \<Rightarrow> string" where
  "trim_rev (c # b # a # s) =
     (if uws1 c then trim_rev (b # a # s)
      else if uws2 b c then trim_rev (a # s)
      else if uws3 a b c then trim_rev s else c # b # a # s)"
| "trim_rev [c, b] = (if uws1 c then trim_rev [b] else if uws2 b c then [] else [c, b])"
| "trim_rev [c] = (if uws1 c then [] else [c])"
| "trim_rev [] = []"

definition trim_end :: "string \<Rightarrow> string" where
  "trim_end s = rev (trim_rev (rev s))"

definition trim :: "string \<Rightarrow> string" where
  "trim s = trim_end (trim_start s)"

text \<open>A scalar that no white space octet sequence can start or end with.\<close>

definition solid :: "char \<Rightarrow> bool" where
  "solid c \<longleftrightarrow> is_ascii_graphic c"

lemma solid_not_ws:
  "solid c \<Longrightarrow> \<not> uws1 c" "solid c \<Longrightarrow> \<not> uws2 c b" "solid c \<Longrightarrow> \<not> uws2 b c"
  "solid c \<Longrightarrow> \<not> uws3 c b a" "solid c \<Longrightarrow> \<not> uws3 b a c"
  by (auto simp: solid_def is_ascii_graphic_def uws1_def uws2_def uws3_def)

lemma trim_start_solid [simp]: "solid c \<Longrightarrow> trim_start (c # s) = c # s"
  by (cases s; cases "tl s") (auto simp: solid_not_ws)

lemma trim_rev_solid [simp]: "solid c \<Longrightarrow> trim_rev (c # s) = c # s"
  by (cases s; cases "tl s") (auto simp: solid_not_ws)

lemma trim_end_solid [simp]: "solid c \<Longrightarrow> trim_end (s @ [c]) = s @ [c]"
  by (simp add: trim_end_def)

lemma trim_Nil [simp]: "trim [] = []"
  by (simp add: trim_def trim_end_def)

lemma trim_graphic_ends:
  assumes "s \<noteq> []" and "solid (hd s)" and "solid (last s)"
  shows "trim s = s"
proof -
  have "trim_start s = s" using assms by (cases s) auto
  moreover have "trim_end s = s"
    using assms(1,3) by (cases s rule: rev_cases) auto
  ultimately show ?thesis by (simp add: trim_def)
qed

lemma trim_graphic: "list_all is_ascii_graphic s \<Longrightarrow> trim s = s"
proof (cases "s = []")
  case False
  assume "list_all is_ascii_graphic s"
  then have "solid (hd s)" "solid (last s)"
    using False by (auto simp: solid_def list_all_iff)
  with False show ?thesis by (intro trim_graphic_ends)
qed simp

lemma trim_start_sp [simp]: "trim_start (SP # s) = trim_start s"
  by (cases s; cases "tl s") (auto simp: uws1_def)

lemma trim_sp [simp]: "trim (SP # s) = trim s"
  by (simp add: trim_def)

lemma trim_end_sp [simp]: "trim_end (s @ [SP]) = trim_end s"
  by (cases "rev s"; cases "tl (rev s)") (auto simp: trim_end_def uws1_def)

lemma trim_solid_ends_sp:
  assumes "s \<noteq> []" and "solid (hd s)" and "solid (last s)"
  shows "trim (s @ [SP]) = s"
proof -
  have "trim_start (s @ [SP]) = s @ [SP]" using assms by (cases s) auto
  moreover have "trim_end s = s"
    using assms(1,3) by (cases s rule: rev_cases) auto
  ultimately show ?thesis by (simp add: trim_def)
qed

lemma trim_start_suffix: "\<exists>p. s = p @ trim_start s"
proof (induction s rule: trim_start.induct)
  case (1 a b c s)
  then show ?case
    by (auto intro: exI [of _ "a # p" for p] exI [of _ "a # b # p" for p]
        exI [of _ "a # b # c # p" for p])
       (metis append_Cons append_Nil)+
qed auto

lemma trim_rev_suffix: "\<exists>p. s = p @ trim_rev s"
proof (induction s rule: trim_rev.induct)
  case (1 c b a s)
  then show ?case
    by (auto intro: exI [of _ "a # p" for p]) (metis append_Cons append_Nil)+
qed auto

lemma trim_infix: "\<exists>p q. s = p @ trim s @ q"
proof -
  obtain p where p: "s = p @ trim_start s" using trim_start_suffix by blast
  obtain q where "rev (trim_start s) = q @ trim_rev (rev (trim_start s))"
    using trim_rev_suffix by blast
  then have "trim_start s = trim s @ rev q"
    by (metis rev_append rev_rev_ident trim_def trim_end_def)
  with p have "s = p @ trim s @ rev q" by simp
  then show ?thesis by blast
qed

lemma set_trim_subset: "set (trim s) \<subseteq> set s"
  using trim_infix [of s] by (metis set_append Un_upper1 Un_upper2 subset_trans)

lemma length_trim_le: "length (trim s) \<le> length s"
  using trim_infix [of s] by (metis length_append le_add1 le_add2 le_trans)

section \<open>Decimal numbers\<close>

fun dec :: "nat \<Rightarrow> string" where
  "dec n = (if n < 10 then [char_of (48 + n)] else dec (n div 10) @ [char_of (48 + n mod 10)])"

declare dec.simps [simp del]

definition digits_value :: "string \<Rightarrow> nat" where
  "digits_value s = foldl (\<lambda>v c. 10 * v + (code c - 48)) 0 s"

definition u64_to_string :: "u64 \<Rightarrow> string" where
  "u64_to_string w = dec (unat w)"

text \<open>
  \<open>parse::<u64>()\<close>: one leading plus sign is allowed before at least one digit; anything
  else that is not a digit, the empty text, and a value of 2^64 or more are errors.
\<close>

definition parse_nat_below :: "nat \<Rightarrow> string \<Rightarrow> nat option" where
  "parse_nat_below bound s =
     (let ds = (case s of [] \<Rightarrow> [] | c # r \<Rightarrow> if c = CHR ''+'' \<and> r \<noteq> [] then r else s)
      in if ds \<noteq> [] \<and> list_all is_ascii_digit ds \<and> digits_value ds < bound
         then Some (digits_value ds) else None)"

definition parse_u64 :: "string \<Rightarrow> u64 option" where
  "parse_u64 s = map_option of_nat (parse_nat_below (2 ^ 64) s)"

lemma code_digit [simp]: "n < 10 \<Longrightarrow> code (char_of (48 + n)) = 48 + n"
  by (simp add: of_char_of)

lemma is_ascii_digit_code [simp]: "(n :: nat) < 10 \<Longrightarrow> is_ascii_digit (char_of (48 + n))"
  by (simp add: is_ascii_digit_def)

lemma dec_digits: "list_all is_ascii_digit (dec n)"
proof (induction n rule: dec.induct)
  case (1 n)
  then show ?case by (subst dec.simps) auto
qed

lemma dec_ne [simp]: "dec n \<noteq> []"
  by (subst dec.simps) simp

lemma digits_value_snoc: "digits_value (s @ [c]) = 10 * digits_value s + (code c - 48)"
  by (simp add: digits_value_def)

lemma digits_value_dec: "digits_value (dec n) = n"
proof (induction n rule: dec.induct)
  case (1 n)
  show ?case
  proof (cases "n < 10")
    case True
    then show ?thesis
      by (subst dec.simps) (simp add: digits_value_def of_char_of)
  next
    case False
    then show ?thesis
      using 1 by (subst dec.simps) (simp add: digits_value_snoc of_char_of)
  qed
qed

lemma dec_graphic: "list_all is_ascii_graphic (dec n)"
  using dec_digits [of n] by (auto simp: list_all_iff digit_graphic)

lemma hd_dec_not_plus: "hd (dec n) \<noteq> CHR ''+''"
proof -
  have "is_ascii_digit (hd (dec n))"
    using dec_digits [of n] by (cases "dec n") auto
  then show ?thesis by (auto simp: is_ascii_digit_def)
qed

lemma parse_nat_below_dec: "n < bound \<Longrightarrow> parse_nat_below bound (dec n) = Some n"
  using hd_dec_not_plus [of n] dec_digits [of n] digits_value_dec [of n]
  by (cases "dec n") (auto simp: parse_nat_below_def Let_def)

lemma parse_u64_to_string [simp]: "parse_u64 (u64_to_string w) = Some w"
  using parse_nat_below_dec [of "unat w" "2 ^ 64"] unat_lt_u64 [of w]
  by (simp add: parse_u64_def u64_to_string_def)

lemma u64_to_string_digits: "list_all is_ascii_digit (u64_to_string w)"
  by (simp add: u64_to_string_def dec_digits)

lemma u64_to_string_graphic: "list_all is_ascii_graphic (u64_to_string w)"
  by (simp add: u64_to_string_def dec_graphic)

lemma u64_to_string_ne [simp]: "u64_to_string w \<noteq> []"
  by (simp add: u64_to_string_def)

lemma length_dec_le: "n < 10 ^ k \<Longrightarrow> 0 < k \<Longrightarrow> length (dec n) \<le> k"
proof (induction n arbitrary: k rule: dec.induct)
  case (1 n)
  show ?case
  proof (cases "n < 10")
    case True
    with 1 show ?thesis by (subst dec.simps) simp
  next
    case False
    with 1 obtain k' where k: "k = Suc k'" "0 < k'"
      by (cases k; cases "k - 1") auto
    with 1 False have "length (dec (n div 10)) \<le> k'"
      by (intro "1.IH") (auto simp: less_mult_imp_div_less mult.commute)
    with False k show ?thesis by (subst dec.simps) simp
  qed
qed

lemma length_u64_to_string: "length (u64_to_string w) \<le> 20"
proof -
  have "unat w < 10 ^ 20" using unat_lt_u64 [of w] by simp
  then show ?thesis unfolding u64_to_string_def by (rule length_dec_le) simp
qed

section \<open>UTF-8\<close>

text \<open>
  \<open>utf8_step s\<close> looks at the front of a non-empty octet list as \<open>core::str::from_utf8\<close>
  does: \<open>(True, n)\<close> when a scalar of \<open>n\<close> octets is there, \<open>(False, n)\<close> when the first
  \<open>n\<close> octets are a maximal invalid piece.
\<close>

definition cont :: "char \<Rightarrow> bool" where
  "cont c \<longleftrightarrow> 0x80 \<le> code c \<and> code c \<le> 0xBF"

definition second_ok :: "char \<Rightarrow> char \<Rightarrow> bool" where
  "second_ok a b \<longleftrightarrow>
     (let x = code a; y = code b in
      if x = 0xE0 then 0xA0 \<le> y \<and> y \<le> 0xBF
      else if x = 0xED then 0x80 \<le> y \<and> y \<le> 0x9F
      else if x = 0xF0 then 0x90 \<le> y \<and> y \<le> 0xBF
      else if x = 0xF4 then 0x80 \<le> y \<and> y \<le> 0x8F
      else cont b)"

definition utf8_width :: "char \<Rightarrow> nat" where
  "utf8_width a =
     (let x = code a in
      if x < 0x80 then 1 else if x < 0xC2 then 0 else if x < 0xE0 then 2
      else if x < 0xF0 then 3 else if x < 0xF5 then 4 else 0)"

fun utf8_step :: "bytes \<Rightarrow> bool \<times> nat" where
  "utf8_step [] = (False, 0)"
| "utf8_step (a # s) =
     (let w = utf8_width a in
      if w = 0 then (False, 1)
      else if w = 1 then (True, 1)
      else (case s of [] \<Rightarrow> (False, 1)
            | b # t \<Rightarrow>
                if \<not> second_ok a b then (False, 1)
                else if w = 2 then (True, 2)
                else (case t of [] \<Rightarrow> (False, 2)
                      | c # u \<Rightarrow>
                          if \<not> cont c then (False, 2)
                          else if w = 3 then (True, 3)
                          else (case u of [] \<Rightarrow> (False, 3)
                                | d # _ \<Rightarrow> if cont d then (True, 4) else (False, 3)))))"

lemma utf8_step_pos: "s \<noteq> [] \<Longrightarrow> 0 < snd (utf8_step s)"
  by (cases s) (auto simp: Let_def split: list.splits)

lemma utf8_step_le: "snd (utf8_step s) \<le> length s"
  by (cases s) (auto simp: Let_def split: list.splits)

declare utf8_step.simps [simp del]

lemma utf8_step_shrinks:
  "(ok, n) = utf8_step (a # s) \<Longrightarrow> length (drop n (a # s)) < length (a # s)"
  using utf8_step_pos [of "a # s"] by (cases "utf8_step (a # s)") (auto simp: less_Suc_eq_le)

lemma utf8_step_shrinks_snd:
  "length (drop (snd (utf8_step (a # s))) (a # s)) < length (a # s)"
  using utf8_step_shrinks [of "fst (utf8_step (a # s))" "snd (utf8_step (a # s))"] by simp

function utf8_valid :: "bytes \<Rightarrow> bool" where
  "utf8_valid [] = True"
| "utf8_valid (a # s) =
     (let (ok, n) = utf8_step (a # s) in ok \<and> utf8_valid (drop n (a # s)))"
  by pat_completeness auto
termination
  by (relation "measure length")
     (simp_all only: wf_measure in_measure utf8_step_shrinks utf8_step_shrinks_snd)

text \<open>\<open>String::from_utf8_lossy\<close>: each maximal invalid piece becomes U+FFFD.\<close>

definition replacement :: bytes where
  "replacement = [CHR 0xEF, CHR 0xBF, CHR 0xBD]"

function lossy :: "bytes \<Rightarrow> string" where
  "lossy [] = []"
| "lossy (a # s) =
     (let (ok, n) = utf8_step (a # s)
      in (if ok then take n (a # s) else replacement) @ lossy (drop n (a # s)))"
  by pat_completeness auto
termination
  by (relation "measure length")
     (simp_all only: wf_measure in_measure utf8_step_shrinks utf8_step_shrinks_snd)

text \<open>\<open>str::chars\<close>: the scalars of a text, each as the octets that encode it.\<close>

function chars :: "string \<Rightarrow> string list" where
  "chars [] = []"
| "chars (a # s) =
     (let n = snd (utf8_step (a # s)) in take n (a # s) # chars (drop n (a # s)))"
  by pat_completeness auto
termination
  by (relation "measure length")
     (simp_all only: wf_measure in_measure utf8_step_shrinks utf8_step_shrinks_snd)

lemma concat_chars [simp]: "concat (chars s) = s"
  by (induction s rule: chars.induct) (auto simp: Let_def)

lemma utf8_step_ascii: "is_ascii a \<Longrightarrow> utf8_step (a # s) = (True, 1)"
  by (simp add: utf8_step.simps is_ascii_def utf8_width_def)

lemma utf8_valid_ascii: "list_all is_ascii s \<Longrightarrow> utf8_valid s"
  by (induction s) (auto simp: utf8_step_ascii)

lemma lossy_valid: "utf8_valid s \<Longrightarrow> lossy s = s"
  by (induction s rule: lossy.induct) auto

lemma lossy_ascii: "list_all is_ascii s \<Longrightarrow> lossy s = s"
  by (simp add: lossy_valid utf8_valid_ascii)

lemma chars_ascii: "list_all is_ascii s \<Longrightarrow> chars s = map (\<lambda>c. [c]) s"
  by (induction s) (auto simp: utf8_step_ascii)

lemma graphic_ascii: "is_ascii_graphic c \<Longrightarrow> is_ascii c"
  by (simp add: ascii_defs)

lemma list_all_mono: "list_all P xs \<Longrightarrow> (\<And>x. P x \<Longrightarrow> Q x) \<Longrightarrow> list_all Q xs"
  by (auto simp: list_all_iff)

text \<open>\<open>str::lines\<close>: lines end at a line feed, a carriage return before it is dropped, and
  a last line without a line feed is kept as it is.\<close>

definition strip_cr :: "string \<Rightarrow> string" where
  "strip_cr l = (if l \<noteq> [] \<and> last l = CR then butlast l else l)"

definition str_lines :: "string \<Rightarrow> string list" where
  "str_lines s =
     (let ps = split_on LF s
      in map strip_cr (butlast ps) @ (if last ps = [] then [] else [last ps]))"

lemma split_on_concat_lines:
  assumes "\<And>l. l \<in> set ls \<Longrightarrow> d \<notin> set l"
  shows "split_on d (concat (map (\<lambda>l. l @ [d]) ls) @ s) = ls @ split_on d s"
  using assms
proof (induction ls)
  case (Cons l ls)
  then have "list_all (\<lambda>c. c \<noteq> d) l" by (auto simp: list_all_iff)
  then show ?case using Cons by (simp add: split_by_append)
qed simp

lemma str_lines_concat:
  assumes "\<And>l. l \<in> set ls \<Longrightarrow> LF \<notin> set l \<and> CR \<notin> set l"
  shows "str_lines (concat (map (\<lambda>l. l @ [LF]) ls)) = ls"
proof -
  have "split_on LF (concat (map (\<lambda>l. l @ [LF]) ls)) = ls @ [[]]"
    using split_on_concat_lines [of ls LF "[]"] assms by simp
  moreover have "map strip_cr ls = ls"
    using assms by (intro map_idI) (metis last_in_set strip_cr_def)
  ultimately show ?thesis by (simp add: str_lines_def Let_def)
qed

lemma utf8_step_append: "fst (utf8_step s) \<Longrightarrow> utf8_step (s @ t) = utf8_step s"
  by (cases s) (auto simp: utf8_step.simps Let_def split: list.splits if_splits)

lemma utf8_step_take: "utf8_step s = (True, n) \<Longrightarrow> utf8_step (take n s) = (True, n)"
proof -
  have flip: "Suc 0 = utf8_width a \<longleftrightarrow> utf8_width a = 1" for a by auto
  show "utf8_step s = (True, n) \<Longrightarrow> utf8_step (take n s) = (True, n)"
    by (cases s) (auto simp: utf8_step.simps Let_def flip split: list.splits if_splits)
qed

lemma utf8_step_le4: "snd (utf8_step s) \<le> 4"
  by (cases s) (auto simp: utf8_step.simps Let_def split: list.splits)

lemma utf8_valid_append: "utf8_valid a \<Longrightarrow> utf8_valid b \<Longrightarrow> utf8_valid (a @ b)"
proof (induction a rule: utf8_valid.induct)
  case (2 c s)
  obtain ok n where st: "utf8_step (c # s) = (ok, n)" by fastforce
  have ok: "ok" and rest: "utf8_valid (drop n (c # s))" using "2.prems"(1) st by auto
  have app: "utf8_step (c # s @ b) = (True, n)"
    using utf8_step_append [of "c # s" b] st ok by simp
  have len: "n \<le> length (c # s)" using utf8_step_le [of "c # s"] st by simp
  have "utf8_valid (drop n (c # s) @ b)"
    using "2.IH" [OF st [symmetric]] rest "2.prems"(2) st ok by simp
  moreover have "drop n (c # s @ b) = drop n (c # s) @ b"
    using len by (metis append_Cons drop_append diff_is_0_eq drop0)
  ultimately show ?case using app by simp
qed simp

lemma utf8_valid_concat: "(\<And>x. x \<in> set xs \<Longrightarrow> utf8_valid x) \<Longrightarrow> utf8_valid (concat xs)"
  by (induction xs) (simp_all add: utf8_valid_append)

lemma chars_valid:
  "utf8_valid s \<Longrightarrow> c \<in> set (chars s) \<Longrightarrow>
     utf8_valid c \<and> c \<noteq> [] \<and> length c \<le> 4 \<and> utf8_step c = (True, length c)"
proof (induction s rule: chars.induct)
  case (2 a s)
  obtain ok n where st: "utf8_step (a # s) = (ok, n)" by fastforce
  have ok: "ok" and rest: "utf8_valid (drop n (a # s))" using "2.prems"(1) st by auto
  have n: "0 < n" "n \<le> length (a # s)" "n \<le> 4"
    using utf8_step_pos [of "a # s"] utf8_step_le [of "a # s"] utf8_step_le4 [of "a # s"] st by simp_all
  let ?t = "take n (a # s)"
  have t: "utf8_step ?t = (True, n)" using utf8_step_take st ok by simp
  have len: "length ?t = n" using n(2) by simp
  obtain u where u: "?t = a # u" using n(1) by (cases n) auto
  have "drop n ?t = []" by simp
  then have "utf8_valid ?t" using t by (simp add: u)
  moreover have "c = ?t \<or> c \<in> set (chars (drop n (a # s)))"
    using "2.prems"(2) st by simp
  moreover have "?t \<noteq> []" by (simp add: u)
  moreover have "utf8_valid c \<and> c \<noteq> [] \<and> length c \<le> 4 \<and> utf8_step c = (True, length c)"
    if "c \<in> set (chars (drop n (a # s)))"
    using "2.IH" [of n] rest st that by simp
  ultimately show ?case using t n(3) len by metis
qed simp

lemma utf8_step_multi:
  "utf8_step s = (True, n) \<Longrightarrow> n \<noteq> 1 \<Longrightarrow> c \<in> set (take n s) \<Longrightarrow> \<not> is_ascii c"
  by (cases s) (auto simp: utf8_step.simps Let_def utf8_width_def second_ok_def cont_def is_ascii_def
      split: list.splits if_splits)

lemma chars_ascii_mem:
  "utf8_valid s \<Longrightarrow> c \<in> set s \<Longrightarrow> is_ascii c \<Longrightarrow> [c] \<in> set (chars s)"
proof (induction s rule: chars.induct)
  case (2 a s)
  obtain ok n where st: "utf8_step (a # s) = (ok, n)" by fastforce
  have ok: "ok" and rest: "utf8_valid (drop n (a # s))" using "2.prems"(1) st by auto
  show ?case
  proof (cases "c \<in> set (take n (a # s))")
    case True
    then have "n = 1" using utf8_step_multi [of "a # s" n c] st ok "2.prems"(3) by auto
    with True st show ?thesis by simp
  next
    case False
    with "2.prems"(2) have "c \<in> set (drop n (a # s))"
      by (metis Un_iff append_take_drop_id set_append)
    with "2.IH" [of n] rest st "2.prems"(3) show ?thesis by simp
  qed
qed simp

text \<open>\<open>char::is_whitespace\<close> and \<open>char::is_control\<close> on the octets of one scalar.\<close>

definition char_is_whitespace :: "string \<Rightarrow> bool" where
  "char_is_whitespace ch =
     (case ch of [a] \<Rightarrow> uws1 a | [a, b] \<Rightarrow> uws2 a b | [a, b, c] \<Rightarrow> uws3 a b c | _ \<Rightarrow> False)"

definition char_is_control :: "string \<Rightarrow> bool" where
  "char_is_control ch =
     (case ch of
        [a] \<Rightarrow> is_ascii_control a
      | [a, b] \<Rightarrow> code a = 0xC2 \<and> 0x80 \<le> code b \<and> code b \<le> 0x9F
      | _ \<Rightarrow> False)"

text \<open>\<open>s.get(..n)\<close> is \<^const>\<open>None\<close> past the end or inside a scalar.\<close>

definition str_prefix :: "nat \<Rightarrow> string \<Rightarrow> string option" where
  "str_prefix n s =
     (if n \<le> length s \<and> (n = length s \<or> \<not> cont (s ! n)) then Some (take n s) else None)"

text \<open>\<open>parse::<i32>()\<close>.\<close>

definition parse_i32 :: "string \<Rightarrow> int option" where
  "parse_i32 s =
     (case s of
        [] \<Rightarrow> None
      | c # r \<Rightarrow>
          if c = CHR ''-'' then
            (if r \<noteq> [] \<and> list_all is_ascii_digit r \<and> digits_value r \<le> 2 ^ 31
             then Some (- int (digits_value r)) else None)
          else map_option int (parse_nat_below (2 ^ 31) s))"

definition parse_u32 :: "string \<Rightarrow> nat option" where
  "parse_u32 = parse_nat_below (2 ^ 32)"

lemma graphic_all_ascii: "list_all is_ascii_graphic s \<Longrightarrow> list_all is_ascii s"
  by (auto simp: list_all_iff graphic_ascii)

lemma split_ws_single:
  assumes "s \<noteq> []" and "list_all is_ascii_graphic s"
  shows "split_ascii_whitespace s = [s]"
    "is_ascii_whitespace d \<Longrightarrow> split_ascii_whitespace (s @ d # t) = s # split_ascii_whitespace t"
proof -
  have n: "list_all (\<lambda>c. \<not> is_ascii_whitespace c) s"
    using assms(2) by (auto simp: list_all_iff graphic_not_space)
  show "split_ascii_whitespace s = [s]"
    using split_by_none [OF n] assms(1) by (simp add: split_ascii_whitespace_def)
  show "is_ascii_whitespace d \<Longrightarrow> split_ascii_whitespace (s @ d # t) = s # split_ascii_whitespace t"
    using split_by_append [OF n] assms(1) by (simp add: split_ascii_whitespace_def)
qed

end
