(* ===== verification/Read_Set.thy ===== *)
theory Read_Set
  imports Rust_Str
begin

text \<open>
  \<open>crates/nntp-tui/src/readstate/set.rs\<close>: the compact set of article numbers behind a
  group's read state.  The record and every operation follow the code; the invariant
  \<open>rs_inv\<close> is the one its documentation states (sorted, disjoint, non-adjacent ranges
  with bounds of at least 1), and \<open>members\<close> is the abstraction to a set of article
  numbers.  The lemmas show that every operation keeps the invariant and is the obvious
  operation on that set, and that the representation is canonical.
\<close>

section \<open>Data and operations\<close>

type_synonym range = "u64 \<times> u64"

record read_set =
  ranges :: "range list"

definition rs_new :: read_set where
  "rs_new = \<lparr>ranges = []\<rparr>"

definition rs_is_empty :: "read_set \<Rightarrow> bool" where
  "rs_is_empty s \<longleftrightarrow> ranges s = []"

definition rs_count :: "read_set \<Rightarrow> u64" where
  "rs_count s = sum_list (map (\<lambda>(low, high). high - low + 1) (ranges s))"

definition rs_range_count :: "read_set \<Rightarrow> nat" where
  "rs_range_count s = length (ranges s)"

definition rs_highest :: "read_set \<Rightarrow> u64 option" where
  "rs_highest s = (if ranges s = [] then None else Some (snd (last (ranges s))))"

text \<open>
  \<open>slice::binary_search_by(|&(low, _)| low.cmp(&number))\<close>: \<open>Inr i\<close> when the range at
  \<open>i\<close> starts at \<open>number\<close>, otherwise \<open>Inl\<close> of the insertion point.
\<close>

definition search_low :: "range list \<Rightarrow> u64 \<Rightarrow> nat + nat" where
  "search_low rs number =
     (let i = partition_point (\<lambda>(low, _). low < number) rs
      in if i < length rs \<and> fst (rs ! i) = number then Inr i else Inl i)"

definition rs_contains :: "read_set \<Rightarrow> u64 \<Rightarrow> bool" where
  "rs_contains s number =
     (if number = 0 then False
      else (case search_low (ranges s) number of
              Inr _ \<Rightarrow> True
            | Inl 0 \<Rightarrow> False
            | Inl (Suc i) \<Rightarrow>
                (case get_opt (ranges s) i of None \<Rightarrow> False | Some (_, high) \<Rightarrow> number \<le> high)))"

definition rs_insert_range :: "u64 \<Rightarrow> u64 \<Rightarrow> read_set \<Rightarrow> read_set" where
  "rs_insert_range low0 high0 s =
     (let (low1, high) = (if low0 \<le> high0 then (low0, high0) else (high0, low0)) in
      if high = 0 then s
      else
        let low = max low1 1;
            merge_from = sat_sub low 1;
            merge_to = sat_add high 1;
            first = partition_point (\<lambda>(_, h). h < merge_from) (ranges s);
            last = partition_point (\<lambda>(l, _). l \<le> merge_to) (ranges s)
        in if last \<le> first then s\<lparr>ranges := vec_insert first (low, high) (ranges s)\<rparr>
           else
             let merged = foldl (\<lambda>(ml, mh) (l, h). (min ml l, max mh h)) (low, high)
                            (slice_or_empty first last (ranges s))
             in s\<lparr>ranges := vec_splice first last [merged] (ranges s)\<rparr>)"

definition rs_insert :: "u64 \<Rightarrow> read_set \<Rightarrow> read_set" where
  "rs_insert number = rs_insert_range number number"

definition rs_remove :: "u64 \<Rightarrow> read_set \<Rightarrow> read_set" where
  "rs_remove number s =
     (if number = 0 then s
      else
        case (case search_low (ranges s) number of
                Inr i \<Rightarrow> Some i | Inl 0 \<Rightarrow> None | Inl (Suc i) \<Rightarrow> Some i) of
          None \<Rightarrow> s
        | Some index \<Rightarrow>
            (case get_opt (ranges s) index of
               None \<Rightarrow> s
             | Some (low, high) \<Rightarrow>
                 if number < low \<or> high < number then s
                 else s\<lparr>ranges :=
                   (if number = low
                    then (if number = high then vec_remove index (ranges s)
                          else vec_splice index (Suc index) [(low + 1, high)] (ranges s))
                    else (if number = high
                          then vec_splice index (Suc index) [(low, high - 1)] (ranges s)
                          else vec_splice index (Suc index)
                                 [(low, number - 1), (number + 1, high)] (ranges s)))\<rparr>))"

text \<open>The body of the loop of \<open>remove_range\<close>: what is kept of one range.\<close>

definition cut :: "u64 \<Rightarrow> u64 \<Rightarrow> range \<Rightarrow> range list" where
  "cut low high = (\<lambda>(l, h).
     if h < low \<or> high < l then [(l, h)]
     else (if l < low then [(l, low - 1)] else []) @ (if high < h then [(high + 1, h)] else []))"

definition rs_remove_range :: "u64 \<Rightarrow> u64 \<Rightarrow> read_set \<Rightarrow> read_set" where
  "rs_remove_range low0 high0 s =
     (let (low1, high) = (if low0 \<le> high0 then (low0, high0) else (high0, low0)) in
      if high = 0 then s
      else let low = max low1 1 in s\<lparr>ranges := concat (map (cut low high) (ranges s))\<rparr>)"

definition rs_read_in :: "u64 \<Rightarrow> u64 \<Rightarrow> read_set \<Rightarrow> u64" where
  "rs_read_in low0 high s =
     (if high = 0 \<or> high < low0 then 0
      else let low = max low0 1 in
        sum_list (map (\<lambda>(l, h). let start = max l low; end' = min h high
                                in if start \<le> end' then end' - start + 1 else 0) (ranges s)))"

definition rs_unread_in :: "u64 \<Rightarrow> u64 \<Rightarrow> read_set \<Rightarrow> u64" where
  "rs_unread_in low0 high s =
     (if high = 0 \<or> high < low0 then 0
      else let low = max low0 1; span = high - low + 1
           in sat_sub span (rs_read_in low high s))"

section \<open>The text form\<close>

definition parse_piece :: "string \<Rightarrow> range option" where
  "parse_piece piece =
     (case split_once (CHR ''-'') piece of
        None \<Rightarrow> map_option (\<lambda>n. (n, n)) (parse_u64 (trim piece))
      | Some (low, high) \<Rightarrow>
          (case parse_u64 (trim low) of
             None \<Rightarrow> None
           | Some l \<Rightarrow>
               (if trim high = [] then None
                else map_option (\<lambda>h. (l, h)) (parse_u64 (trim high)))))"

fun rs_parse_pieces :: "string list \<Rightarrow> read_set \<times> string list \<Rightarrow> read_set \<times> string list" where
  "rs_parse_pieces [] acc = acc"
| "rs_parse_pieces (raw # rest) (s, malformed) =
     (let piece = trim raw in
      if piece = [] then rs_parse_pieces rest (s, malformed)
      else (case parse_piece piece of
              Some (low, high) \<Rightarrow> rs_parse_pieces rest (rs_insert_range low high s, malformed)
            | None \<Rightarrow> rs_parse_pieces rest (s, malformed @ [piece])))"

definition rs_parse :: "string \<Rightarrow> read_set \<times> string list" where
  "rs_parse text = rs_parse_pieces (split_on (CHR '','') text) (rs_new, [])"

definition show_range :: "range \<Rightarrow> string" where
  "show_range = (\<lambda>(low, high).
     if low = high then u64_to_string low
     else u64_to_string low @ ''-'' @ u64_to_string high)"

definition rs_display :: "read_set \<Rightarrow> string" where
  "rs_display s = join '','' (map show_range (ranges s))"

definition rs_from_iter :: "u64 list \<Rightarrow> read_set" where
  "rs_from_iter ns = fold rs_insert ns rs_new"

section \<open>Invariant and abstraction\<close>

abbreviation apart :: "range \<Rightarrow> range \<Rightarrow> bool" where
  "apart \<equiv> (\<lambda>(l, h) (l', h'). unat h + 1 < unat l')"

definition proper :: "range \<Rightarrow> bool" where
  "proper = (\<lambda>(l, h). 1 \<le> l \<and> l \<le> h)"

definition ranges_ok :: "range list \<Rightarrow> bool" where
  "ranges_ok rs \<longleftrightarrow> (\<forall>r \<in> set rs. proper r) \<and> sorted_wrt apart rs"

definition rs_inv :: "read_set \<Rightarrow> bool" where
  "rs_inv s \<longleftrightarrow> ranges_ok (ranges s)"

definition span :: "range \<Rightarrow> u64 set" where
  "span = (\<lambda>(l, h). {l..h})"

definition members :: "read_set \<Rightarrow> u64 set" where
  "members s = (\<Union>r \<in> set (ranges s). span r)"

section \<open>Lists of ranges\<close>

lemma in_span [simp]: "n \<in> span (l, h) \<longleftrightarrow> l \<le> n \<and> n \<le> h"
  by (simp add: span_def)

lemma proper_iff [simp]: "proper (l, h) \<longleftrightarrow> 1 \<le> l \<and> l \<le> h"
  by (simp add: proper_def)

lemma ranges_ok_Nil [simp]: "ranges_ok []"
  by (simp add: ranges_ok_def)

lemma ranges_ok_Cons:
  "ranges_ok (r # rs) \<longleftrightarrow> proper r \<and> (\<forall>r' \<in> set rs. apart r r') \<and> ranges_ok rs"
  by (auto simp: ranges_ok_def)

lemma ranges_ok_append:
  "ranges_ok (as @ bs) \<longleftrightarrow>
     ranges_ok as \<and> ranges_ok bs \<and> (\<forall>a \<in> set as. \<forall>b \<in> set bs. apart a b)"
  by (auto simp: ranges_ok_def sorted_wrt_append)

lemma ranges_ok_proper: "ranges_ok rs \<Longrightarrow> (l, h) \<in> set rs \<Longrightarrow> 1 \<le> l \<and> l \<le> h"
  by (fastforce simp: ranges_ok_def)

lemma rs_inv_new [simp]: "rs_inv rs_new"
  by (simp add: rs_inv_def rs_new_def)

lemma members_new [simp]: "members rs_new = {}"
  by (simp add: members_def rs_new_def)

lemma members_not_zero: "rs_inv s \<Longrightarrow> n \<in> members s \<Longrightarrow> 1 \<le> n"
proof -
  assume inv: "rs_inv s" and "n \<in> members s"
  then obtain l h where lh: "(l, h) \<in> set (ranges s)" and "l \<le> n"
    by (auto simp: members_def)
  moreover have "1 \<le> l" using inv lh by (auto simp: rs_inv_def dest: ranges_ok_proper)
  ultimately show "1 \<le> n" by (meson order_trans)
qed

section \<open>Insertion\<close>

definition merge_all :: "range \<Rightarrow> range list \<Rightarrow> range" where
  "merge_all = foldl (\<lambda>(ml, mh) (l, h). (min ml l, max mh h))"

lemma merge_all_bounds:
  assumes "merge_all (a, b) B = (ml, mh)"
  shows "ml \<le> a" "b \<le> mh" "\<And>r. r \<in> set B \<Longrightarrow> ml \<le> fst r \<and> snd r \<le> mh"
    "ml = a \<or> ml \<in> fst ` set B" "mh = b \<or> mh \<in> snd ` set B"
proof -
  have "ml \<le> a \<and> b \<le> mh \<and> (\<forall>r \<in> set B. ml \<le> fst r \<and> snd r \<le> mh) \<and>
      (ml = a \<or> ml \<in> fst ` set B) \<and> (mh = b \<or> mh \<in> snd ` set B)"
    using assms
  proof (induction B arbitrary: a b)
    case (Cons r B)
    from Cons.prems have "merge_all (min a (fst r), max b (snd r)) B = (ml, mh)"
      by (simp add: merge_all_def split_beta)
    note IH = Cons.IH [OF this]
    have "ml \<le> a" "ml \<le> fst r" using IH by simp_all
    moreover have "b \<le> mh" "snd r \<le> mh" using IH by simp_all
    moreover have "ml = a \<or> ml = fst r \<or> ml \<in> fst ` set B"
      using IH by (auto simp: min_def split: if_splits)
    moreover have "mh = b \<or> mh = snd r \<or> mh \<in> snd ` set B"
      using IH by (auto simp: max_def split: if_splits)
    ultimately show ?case using IH by simp
  qed (simp add: merge_all_def)
  then show "ml \<le> a" "b \<le> mh" "\<And>r. r \<in> set B \<Longrightarrow> ml \<le> fst r \<and> snd r \<le> mh"
    "ml = a \<or> ml \<in> fst ` set B" "mh = b \<or> mh \<in> snd ` set B"
    by blast+
qed

text \<open>
  The window that \<open>insert_range\<close> replaces: \<open>A\<close> ends before it, \<open>B\<close> touches or abuts the
  new range, \<open>C\<close> starts after it.
\<close>

definition before :: "u64 \<Rightarrow> range \<Rightarrow> bool" where
  "before low = (\<lambda>(_, h). h < sat_sub low 1)"

definition reaches :: "u64 \<Rightarrow> range \<Rightarrow> bool" where
  "reaches high = (\<lambda>(l, _). l \<le> sat_add high 1)"

lemma before_iff: "1 \<le> low \<Longrightarrow> before low (l, h) \<longleftrightarrow> unat h + 1 < unat low"
  by (auto simp: before_def word_nat)

lemma reaches_iff: "reaches high (l, h) \<longleftrightarrow> unat l \<le> unat high + 1"
  using unat_lt_u64 [of l] by (auto simp: reaches_def word_nat)

lemma window:
  assumes ok: "ranges_ok R" and lh: "1 \<le> low" "low \<le> high"
    and A: "A = takeWhile (before low) R"
    and B: "B = takeWhile (reaches high) (dropWhile (before low) R)"
    and C: "C = dropWhile (reaches high) (dropWhile (before low) R)"
  shows "R = A @ B @ C" "takeWhile (reaches high) R = A @ B"
    "\<And>l h. (l, h) \<in> set A \<Longrightarrow> unat h + 1 < unat low"
    "\<And>l h. (l, h) \<in> set B \<Longrightarrow> unat low \<le> unat h + 1 \<and> unat l \<le> unat high + 1"
    "\<And>l h. (l, h) \<in> set C \<Longrightarrow> unat high + 1 < unat l"
proof -
  show R: "R = A @ B @ C" by (simp add: A B C)
  show inA: "unat h + 1 < unat low" if "(l, h) \<in> set A" for l h
    using set_takeWhileD [OF that [unfolded A]] lh by (simp add: before_iff)
  have "reaches high r" if "r \<in> set A" for r
  proof -
    obtain l h where r: "r = (l, h)" by (cases r)
    with that inA have "unat h + 1 < unat low" by blast
    moreover have "l \<le> h" using ok that r R by (auto dest!: ranges_ok_proper)
    ultimately show ?thesis using lh by (simp add: r reaches_iff word_le_nat_alt)
  qed
  then show "takeWhile (reaches high) R = A @ B"
    using takeWhile_append2 [of A "reaches high" "dropWhile (before low) R"]
    by (simp add: A B)
  let ?rest = "dropWhile (before low) R"
  have srt: "sorted_wrt apart R" "sorted_wrt apart ?rest"
    using ok sorted_wrt_append [of apart "takeWhile (before low) R" ?rest]
    by (simp_all add: ranges_ok_def)
  have pr: "fst r \<le> snd r" if "r \<in> set R" for r
    using ok that by (cases r) (auto dest: ranges_ok_proper)
  show "unat low \<le> unat h + 1 \<and> unat l \<le> unat high + 1" if "(l, h) \<in> set B" for l h
  proof -
    from that have mem: "(l, h) \<in> set ?rest" and r: "reaches high (l, h)"
      by (auto simp: B dest: set_takeWhileD)
    have "\<not> before low (l, h)"
    proof (rule dropWhile_sorted_not [OF srt(1) _ mem])
      fix x y assume "y \<in> set R" "apart x y" "before low y"
      with pr [of y] lh(1) show "before low x"
        by (cases x; cases y) (simp add: before_iff word_le_nat_alt)
    qed
    with r lh show ?thesis by (simp add: before_iff reaches_iff)
  qed
  show "unat high + 1 < unat l" if "(l, h) \<in> set C" for l h
  proof -
    have "\<not> reaches high (l, h)"
    proof (rule dropWhile_sorted_not [OF srt(2) _ that [unfolded C]])
      fix x y assume "x \<in> set ?rest" "apart x y" "reaches high y"
      with pr [of x] show "reaches high x"
        by (cases x; cases y) (auto simp: reaches_iff word_le_nat_alt dest: set_dropWhileD)
    qed
    then show ?thesis by (simp add: reaches_iff)
  qed
qed

lemma insert_range_members_aux:
  assumes lh: "low \<le> high" and m: "merge_all (low, high) B = (ml, mh)"
    and B: "\<And>l h. (l, h) \<in> set B \<Longrightarrow> unat low \<le> unat h + 1 \<and> unat l \<le> unat high + 1"
  shows "span (ml, mh) = {low..high} \<union> (\<Union>r \<in> set B. span r)"
proof (rule set_eqI)
  fix n
  note bounds = merge_all_bounds [OF m]
  show "n \<in> span (ml, mh) \<longleftrightarrow> n \<in> {low..high} \<union> (\<Union>r \<in> set B. span r)"
  proof
    assume "n \<in> span (ml, mh)"
    then have n: "ml \<le> n" "n \<le> mh" by simp_all
    consider "n < low" | "high < n" | "low \<le> n" "n \<le> high" by force
    then show "n \<in> {low..high} \<union> (\<Union>r \<in> set B. span r)"
    proof cases
      case 1
      with bounds(4) n obtain h where "(ml, h) \<in> set B" by force
      with B [OF this] 1 n have "n \<in> span (ml, h)" by (simp add: word_nat)
      with \<open>(ml, h) \<in> set B\<close> show ?thesis by blast
    next
      case 2
      with bounds(5) n obtain l where "(l, mh) \<in> set B" by force
      with B [OF this] 2 n have "n \<in> span (l, mh)" by (simp add: word_nat)
      with \<open>(l, mh) \<in> set B\<close> show ?thesis by blast
    qed auto
  next
    assume "n \<in> {low..high} \<union> (\<Union>r \<in> set B. span r)"
    then consider "low \<le> n" "n \<le> high" | l h where "(l, h) \<in> set B" "l \<le> n" "n \<le> h"
      by force
    then show "n \<in> span (ml, mh)"
    proof cases
      case 1
      with bounds(1,2) show ?thesis by (auto intro: order_trans)
    next
      case 2
      with bounds(3) [OF 2(1)] show ?thesis by (auto intro: order_trans)
    qed
  qed
qed

lemma insert_range_ok_aux:
  assumes ok: "ranges_ok (A @ B @ C)" and lh: "1 \<le> low" "low \<le> high"
    and m: "merge_all (low, high) B = (ml, mh)"
    and A: "\<And>l h. (l, h) \<in> set A \<Longrightarrow> unat h + 1 < unat low"
    and C: "\<And>l h. (l, h) \<in> set C \<Longrightarrow> unat high + 1 < unat l"
  shows "ranges_ok (A @ (ml, mh) # C)"
proof -
  note bounds = merge_all_bounds [OF m]
  have parts: "ranges_ok A" "ranges_ok B" "ranges_ok C"
    and AB: "\<And>a b. a \<in> set A \<Longrightarrow> b \<in> set B \<Longrightarrow> apart a b"
    and AC: "\<And>a c. a \<in> set A \<Longrightarrow> c \<in> set C \<Longrightarrow> apart a c"
    and BC: "\<And>b c. b \<in> set B \<Longrightarrow> c \<in> set C \<Longrightarrow> apart b c"
    using ok by (auto simp: ranges_ok_append)
  have "1 \<le> ml"
    using bounds(4) lh parts(2) by (fastforce dest: ranges_ok_proper)
  moreover have "ml \<le> mh"
    using bounds(1,2) lh by (meson order_trans)
  moreover have "unat h + 1 < unat ml" if "(l, h) \<in> set A" for l h
    using bounds(4) A [OF that] AB [OF that] by fastforce
  moreover have "unat mh + 1 < unat l" if "(l, h) \<in> set C" for l h
    using bounds(5) C [OF that] BC [OF _ that] by fastforce
  ultimately show ?thesis
    using parts AC by (auto simp: ranges_ok_append ranges_ok_Cons)
qed

lemma insert_range_cases:
  fixes low0 high0 :: u64
  defines "low \<equiv> max (min low0 high0) 1" and "high \<equiv> max low0 high0"
  assumes ok: "rs_inv s" and nz: "high \<noteq> 0"
  obtains A B C ml mh where
    "ranges s = A @ B @ C" "merge_all (low, high) B = (ml, mh)"
    "ranges (rs_insert_range low0 high0 s) = A @ (ml, mh) # C"
    "\<And>l h. (l, h) \<in> set A \<Longrightarrow> unat h + 1 < unat low"
    "\<And>l h. (l, h) \<in> set B \<Longrightarrow> unat low \<le> unat h + 1 \<and> unat l \<le> unat high + 1"
    "\<And>l h. (l, h) \<in> set C \<Longrightarrow> unat high + 1 < unat l"
    "1 \<le> low" "low \<le> high"
proof -
  let ?R = "ranges s"
  define A where "A = takeWhile (before low) ?R"
  define B where "B = takeWhile (reaches high) (dropWhile (before low) ?R)"
  define C where "C = dropWhile (reaches high) (dropWhile (before low) ?R)"
  have lh: "1 \<le> low" "low \<le> high"
    using nz by (auto simp: low_def high_def word_nat min_def max_def unat_0_iff [symmetric])
  have okR: "ranges_ok ?R" using ok by (simp add: rs_inv_def)
  note W = window [OF okR lh A_def B_def C_def]
  have first: "partition_point (before low) ?R = length A"
    by (simp add: partition_point_def A_def)
  have last: "partition_point (reaches high) ?R = length A + length B"
    using W(2) by (simp add: partition_point_def)
  obtain ml mh where m: "merge_all (low, high) B = (ml, mh)" by fastforce
  have swap: "(if low0 \<le> high0 then (low0, high0) else (high0, low0)) = (min low0 high0, max low0 high0)"
    by (simp add: min_def max_def)
  have "ranges (rs_insert_range low0 high0 s) =
    (if B = [] then vec_insert (length A) (low, high) ?R
     else vec_splice (length A) (length A + length B)
            [merge_all (low, high) (slice_or_empty (length A) (length A + length B) ?R)] ?R)"
    using nz first last
    by (simp add: rs_insert_range_def swap Let_def merge_all_def low_def high_def before_def reaches_def)
  moreover have "vec_insert (length A) (low, high) ?R = A @ (ml, mh) # C" if "B = []"
    using that W(1) m by (simp add: vec_insert_def merge_all_def)
  moreover have "slice_or_empty (length A) (length A + length B) ?R = B"
    using W(1) by (simp add: slice_or_empty_def)
  moreover have "vec_splice (length A) (length A + length B) [(ml, mh)] ?R = A @ (ml, mh) # C"
    by (subst W(1)) (simp add: vec_splice_def)
  ultimately have "ranges (rs_insert_range low0 high0 s) = A @ (ml, mh) # C"
    using m by auto
  from that [OF W(1) m this W(3-5) lh] show ?thesis .
qed

lemma insert_range_zero: "max low0 high0 = 0 \<Longrightarrow> rs_insert_range low0 high0 s = s"
  by (auto simp: rs_insert_range_def Let_def max_def split: if_splits)

lemma insert_range_inv:
  assumes "rs_inv s"
  shows "rs_inv (rs_insert_range low0 high0 s)"
proof (cases "max low0 high0 = 0")
  case True
  with assms show ?thesis by (simp add: insert_range_zero)
next
  case False
  from insert_range_cases [OF assms False] obtain A B C ml mh where W:
    "ranges s = A @ B @ C" "merge_all (max (min low0 high0) 1, max low0 high0) B = (ml, mh)"
    "ranges (rs_insert_range low0 high0 s) = A @ (ml, mh) # C"
    "\<And>l h. (l, h) \<in> set A \<Longrightarrow> unat h + 1 < unat (max (min low0 high0) 1)"
    "\<And>l h. (l, h) \<in> set C \<Longrightarrow> unat (max low0 high0) + 1 < unat l"
    "1 \<le> max (min low0 high0) 1" "max (min low0 high0) 1 \<le> max low0 high0"
    by metis
  have "ranges_ok (A @ B @ C)" using assms W(1) by (simp add: rs_inv_def)
  from insert_range_ok_aux [OF this W(6,7,2,4,5)] W(3) show ?thesis
    by (simp add: rs_inv_def)
qed

lemma insert_range_members:
  assumes "rs_inv s"
  shows "members (rs_insert_range low0 high0 s) =
    members s \<union> {max (min low0 high0) 1 .. max low0 high0}"
proof (cases "max low0 high0 = 0")
  case True
  then show ?thesis by (simp add: insert_range_zero) (simp add: word_nat)
next
  case False
  from insert_range_cases [OF assms False] obtain A B C ml mh where W:
    "ranges s = A @ B @ C" "merge_all (max (min low0 high0) 1, max low0 high0) B = (ml, mh)"
    "ranges (rs_insert_range low0 high0 s) = A @ (ml, mh) # C"
    "\<And>l h. (l, h) \<in> set B \<Longrightarrow>
       unat (max (min low0 high0) 1) \<le> unat h + 1 \<and> unat l \<le> unat (max low0 high0) + 1"
    "max (min low0 high0) 1 \<le> max low0 high0"
    by metis
  from insert_range_members_aux [OF W(5,2,4)] W(1,3) show ?thesis
    by (auto simp: members_def)
qed

lemma insert_inv: "rs_inv s \<Longrightarrow> rs_inv (rs_insert n s)"
  by (simp add: rs_insert_def insert_range_inv)

lemma insert_members:
  "rs_inv s \<Longrightarrow> members (rs_insert n s) = (if n = 0 then members s else insert n (members s))"
proof (cases "n = 0")
  case False
  then have "1 \<le> n" by (simp add: word_le_nat_alt unat_0_iff [symmetric] Suc_le_eq del: unat_0_iff)
  then have "max n 1 = n" by (simp add: max_absorb1)
  moreover assume "rs_inv s"
  ultimately show ?thesis using False by (simp add: rs_insert_def insert_range_members)
qed (simp add: rs_insert_def insert_range_zero)

section \<open>Lookup\<close>

lemma search_low_Inr: "search_low R n = Inr i \<Longrightarrow> i < length R \<and> fst (R ! i) = n"
  by (auto simp: search_low_def Let_def split: if_splits)

lemma search_low_Inl:
  assumes ok: "ranges_ok R" and i: "search_low R n = Inl i"
  shows "i \<le> length R" "\<And>r. r \<in> set (take i R) \<Longrightarrow> fst r < n"
    "\<And>r. r \<in> set (drop i R) \<Longrightarrow> n < fst r"
proof -
  let ?P = "\<lambda>(l, _). l < n"
  let ?D = "dropWhile ?P R"
  have i_def: "i = partition_point ?P R" and hd: "i < length R \<Longrightarrow> fst (R ! i) \<noteq> n"
    using i by (auto simp: search_low_def Let_def split: if_splits)
  show "i \<le> length R" by (simp add: i_def)
  show "fst r < n" if "r \<in> set (take i R)" for r
    using that by (auto simp: i_def dest!: set_takeWhileD)
  show "n < fst r" if "r \<in> set (drop i R)" for r
  proof -
    have D: "drop i R = ?D" by (simp add: i_def)
    have "r \<in> set ?D" using that unfolding D .
    then obtain d ds where ds: "?D = d # ds" by (cases ?D) simp_all
    have "\<not> ?P d" using ds by (metis dropWhile_eq_Cons_conv)
    moreover have "fst d \<noteq> n"
    proof -
      have "i < length R" using D ds by (cases "i < length R") simp_all
      moreover from this have "R ! i = d" using D ds by (metis hd_drop_conv_nth list.sel(1))
      ultimately show ?thesis using hd by simp
    qed
    ultimately have d: "n < fst d" by (cases d) simp
    have "ranges_ok (takeWhile ?P R @ d # ds)" using ok ds by (metis takeWhile_dropWhile_id)
    then have "r \<in> set ds \<Longrightarrow> apart d r \<and> proper d"
      by (auto simp: ranges_ok_append ranges_ok_Cons)
    moreover have "r = d \<or> r \<in> set ds" using that D ds by simp
    ultimately show ?thesis using d by (cases d; cases r) (auto simp: word_nat)
  qed
qed

lemma contains_iff:
  assumes inv: "rs_inv s"
  shows "rs_contains s n \<longleftrightarrow> n \<in> members s"
proof (cases "n = 0")
  case True
  with inv show ?thesis by (auto simp: rs_contains_def dest: members_not_zero)
next
  case False
  let ?R = "ranges s"
  have ok: "ranges_ok ?R" using inv by (simp add: rs_inv_def)
  show ?thesis
  proof (cases "search_low ?R n")
    case (Inr i)
    from search_low_Inr [OF Inr] have i: "i < length ?R" "fst (?R ! i) = n" by auto
    then have "n \<in> span (?R ! i)"
      using ok by (cases "?R ! i") (metis fst_conv in_span nth_mem order_refl ranges_ok_proper)
    with i Inr False show ?thesis by (auto simp: rs_contains_def members_def)
  next
    case (Inl i)
    note S = search_low_Inl [OF ok Inl]
    have R: "?R = take i ?R @ drop i ?R" by simp
    have right: "n \<notin> span r" if "r \<in> set (drop i ?R)" for r
      using S(3) [OF that] by (cases r) (simp add: not_le)
    show ?thesis
    proof (cases i)
      case 0
      with right show ?thesis using False Inl by (auto simp: rs_contains_def members_def)
    next
      case (Suc j)
      with S(1) have j: "j < length ?R" by simp
      obtain l h where lh: "?R ! j = (l, h)" by (cases "?R ! j")
      have take: "take i ?R = take j ?R @ [(l, h)]"
        using j lh Suc by (simp add: take_Suc_conv_app_nth)
      have ok': "ranges_ok (take j ?R @ (l, h) # drop i ?R)"
        using ok R take by simp
      have l: "l < n" using S(2) [of "(l, h)"] take by simp
      have left: "n \<notin> span r" if "r \<in> set (take j ?R)" for r
        using ok' l that by (cases r) (auto simp: ranges_ok_append ranges_ok_Cons word_nat)
      have "members s = (\<Union>r \<in> set (take j ?R). span r) \<union> span (l, h) \<union> (\<Union>r \<in> set (drop i ?R). span r)"
        unfolding members_def by (subst R) (simp add: take Un_ac)
      with left right l have "n \<in> members s \<longleftrightarrow> n \<le> h" by auto
      moreover have "rs_contains s n \<longleftrightarrow> n \<le> h"
        using False Inl Suc j lh by (simp add: rs_contains_def get_opt_def)
      ultimately show ?thesis by simp
    qed
  qed
qed

section \<open>Removal\<close>

lemma refine_ok:
  assumes "ranges_ok R"
    and "\<And>r. r \<in> set R \<Longrightarrow> ranges_ok (f r)"
    and "\<And>r q. r \<in> set R \<Longrightarrow> q \<in> set (f r) \<Longrightarrow> fst r \<le> fst q \<and> snd q \<le> snd r"
  shows "ranges_ok (concat (map f R))"
  using assms
proof (induction R)
  case (Cons r R)
  have "apart q q'" if "q \<in> set (f r)" "r' \<in> set R" "q' \<in> set (f r')" for q r' q'
  proof -
    have "apart r r'" using Cons.prems(1) that(2) by (simp add: ranges_ok_Cons)
    moreover have "snd q \<le> snd r" "fst r' \<le> fst q'"
      using Cons.prems(3) that by auto
    ultimately show ?thesis by (auto simp: word_le_nat_alt split_beta)
  qed
  with Cons show ?case by (auto simp: ranges_ok_append ranges_ok_Cons)
qed simp

lemma cut_facts:
  assumes "1 \<le> low" "low \<le> high" "proper (l, h)"
  shows "ranges_ok (cut low high (l, h))"
    "\<And>q. q \<in> set (cut low high (l, h)) \<Longrightarrow> l \<le> fst q \<and> snd q \<le> h"
    "(\<Union>q \<in> set (cut low high (l, h)). span q) = span (l, h) - {low..high}"
proof -
  have dec: "unat (low - 1) = unat low - 1"
    using assms(1) by (intro unat_dec) (simp add: word_nat)
  have inc: "unat (high + 1) = unat high + 1" if "high < h"
    using that by (rule unat_inc)
  have nat: "1 \<le> unat low" "unat low \<le> unat high" "1 \<le> unat l" "unat l \<le> unat h"
    using assms by (simp_all add: word_le_nat_alt)
  show "ranges_ok (cut low high (l, h))"
    using nat dec inc
    by (auto simp: cut_def ranges_ok_Cons ranges_ok_append word_less_nat_alt word_le_nat_alt
        simp del: One_nat_def)
  show "l \<le> fst q \<and> snd q \<le> h" if "q \<in> set (cut low high (l, h))" for q
    using that nat dec inc
    by (auto simp: cut_def word_less_nat_alt word_le_nat_alt split: if_splits)
  show "(\<Union>q \<in> set (cut low high (l, h)). span q) = span (l, h) - {low..high}"
    using nat dec inc
    by (auto simp: cut_def word_less_nat_alt word_le_nat_alt split: if_splits)
qed

lemma remove_range_inv:
  assumes "rs_inv s" shows "rs_inv (rs_remove_range low0 high0 s)"
proof (cases "max low0 high0 = 0")
  case True
  with assms show ?thesis by (auto simp: rs_remove_range_def Let_def max_def split: if_splits)
next
  case False
  define low where "low = max (min low0 high0) 1"
  define high where "high = max low0 high0"
  have lh: "1 \<le> low" "low \<le> high"
    using False by (auto simp: low_def high_def word_nat min_def max_def unat_0_iff [symmetric])
  have "ranges_ok (concat (map (cut low high) (ranges s)))"
  proof (rule refine_ok)
    show ok: "ranges_ok (ranges s)" using assms by (simp add: rs_inv_def)
    fix r assume "r \<in> set (ranges s)"
    with ok have r: "proper (fst r, snd r)" by (simp add: ranges_ok_def)
    show "ranges_ok (cut low high r)" using cut_facts(1) [OF lh r] by simp
    show "fst r \<le> fst q \<and> snd q \<le> snd r" if "q \<in> set (cut low high r)" for q
      using cut_facts(2) [OF lh r, of q] that by simp
  qed
  then show ?thesis
    using False by (auto simp: rs_remove_range_def Let_def rs_inv_def low_def high_def min_def max_def split: if_splits)
qed

lemma remove_range_members:
  assumes "rs_inv s"
  shows "members (rs_remove_range low0 high0 s) =
    members s - {max (min low0 high0) 1 .. max low0 high0}"
proof (cases "max low0 high0 = 0")
  case True
  then have "rs_remove_range low0 high0 s = s"
    by (auto simp: rs_remove_range_def Let_def max_def split: if_splits)
  with True show ?thesis by simp (simp add: word_nat)
next
  case False
  define low where "low = max (min low0 high0) 1"
  define high where "high = max low0 high0"
  have lh: "1 \<le> low" "low \<le> high"
    using False by (auto simp: low_def high_def word_nat min_def max_def unat_0_iff [symmetric])
  have "rs_remove_range low0 high0 s = s\<lparr>ranges := concat (map (cut low high) (ranges s))\<rparr>"
    using False
    by (auto simp: rs_remove_range_def Let_def low_def high_def min_def max_def split: if_splits)
  then have "members (rs_remove_range low0 high0 s) =
      (\<Union>r \<in> set (ranges s). \<Union>q \<in> set (cut low high r). span q)"
    by (simp add: members_def)
  also have "\<dots> = (\<Union>r \<in> set (ranges s). span r - {low..high})"
  proof (rule SUP_cong [OF refl])
    fix r assume "r \<in> set (ranges s)"
    with assms have r: "proper (fst r, snd r)" by (simp add: rs_inv_def ranges_ok_def)
    show "(\<Union>q \<in> set (cut low high r). span q) = span r - {low..high}"
      using cut_facts(3) [OF lh r] by simp
  qed
  finally show ?thesis by (auto simp: members_def low_def high_def)
qed

text \<open>The range that a lookup of \<open>n\<close> lands on, and the ranges it leaves out.\<close>

lemma locate_None:
  assumes "ranges_ok R" and "search_low R n = Inl 0" and "r \<in> set R"
  shows "n \<notin> span r"
  using search_low_Inl(3) [OF assms(1,2), of r] assms(3) by (cases r) (simp add: not_le)

lemma locate_Some:
  assumes ok: "ranges_ok R" and i: "search_low R n = Inr i \<or> search_low R n = Inl (Suc i)"
  obtains A l h C where "R = A @ (l, h) # C" "length A = i" "l \<le> n" "l \<le> h"
    "\<And>r. r \<in> set A \<Longrightarrow> n \<notin> span r" "\<And>r. r \<in> set C \<Longrightarrow> n \<notin> span r"
proof -
  have len: "i < length R"
    using i search_low_Inr [of R n i] search_low_Inl(1) [OF ok, of n "Suc i"] by auto
  obtain l h where lh: "R ! i = (l, h)" by (cases "R ! i")
  have R: "R = take i R @ (l, h) # drop (Suc i) R"
    using len lh by (metis id_take_nth_drop)
  then have parts: "ranges_ok (take i R @ (l, h) # drop (Suc i) R)" using ok by simp
  have "l \<le> n"
    using i
  proof
    assume "search_low R n = Inr i"
    with search_low_Inr [of R n i] lh show ?thesis by simp
  next
    assume "search_low R n = Inl (Suc i)"
    from search_low_Inl(2) [OF ok this, of "(l, h)"] len lh show ?thesis
      by (simp add: take_Suc_conv_app_nth)
  qed
  moreover have "n \<notin> span r" if "r \<in> set (take i R)" for r
    using parts \<open>l \<le> n\<close> that
    by (cases r) (auto simp: ranges_ok_append ranges_ok_Cons word_nat)
  moreover have "n \<notin> span r" if "r \<in> set (drop (Suc i) R)" for r
    using i
  proof
    assume "search_low R n = Inr i"
    with search_low_Inr [of R n i] lh have "l = n" by simp
    with parts that show ?thesis
      by (cases r) (auto simp: ranges_ok_append ranges_ok_Cons word_nat)
  next
    assume "search_low R n = Inl (Suc i)"
    from search_low_Inl(3) [OF ok this that] show ?thesis by (cases r) (simp add: not_le)
  qed
  moreover have "l \<le> h" using parts by (simp add: ranges_ok_append ranges_ok_Cons)
  moreover have "length (take i R) = i" using len by simp
  ultimately show ?thesis using that R by blast
qed

lemma cut_id: "n \<notin> span r \<Longrightarrow> cut n n r = [r]"
  by (cases r) (auto simp: cut_def not_le)

lemma cut_ids: "(\<And>r. r \<in> set R \<Longrightarrow> n \<notin> span r) \<Longrightarrow> concat (map (cut n n) R) = R"
  by (induction R) (simp_all add: cut_id)

lemma remove_eq_remove_range:
  assumes "rs_inv s"
  shows "rs_remove n s = rs_remove_range n n s"
proof (cases "n = 0")
  case True
  then show ?thesis by (simp add: rs_remove_def rs_remove_range_def)
next
  case False
  then have "1 \<le> n"
    by (simp add: word_le_nat_alt unat_0_iff [symmetric] Suc_le_eq del: unat_0_iff)
  then have mx: "max n 1 = n" by (simp add: max_absorb1)
  let ?R = "ranges s"
  have ok: "ranges_ok ?R" using assms by (simp add: rs_inv_def)
  have range: "rs_remove_range n n s = s\<lparr>ranges := concat (map (cut n n) ?R)\<rparr>"
    using False by (simp add: rs_remove_range_def mx)
  show ?thesis
  proof (cases "search_low ?R n = Inl 0")
    case True
    then have "concat (map (cut n n) ?R) = ?R"
      using locate_None [OF ok True] by (intro cut_ids) simp
    with range True False show ?thesis by (simp add: rs_remove_def)
  next
    case F: False
    obtain i where i: "search_low ?R n = Inr i \<or> search_low ?R n = Inl (Suc i)"
      using F by (metis not0_implies_Suc obj_sumE)
    from locate_Some [OF ok i] obtain A l h C where L:
      "?R = A @ (l, h) # C" "length A = i" "l \<le> n" "l \<le> h"
      "\<And>r. r \<in> set A \<Longrightarrow> n \<notin> span r" "\<And>r. r \<in> set C \<Longrightarrow> n \<notin> span r"
      by metis
    have cuts: "concat (map (cut n n) ?R) = A @ cut n n (l, h) @ C"
      using L(5,6) by (simp add: L(1) cut_ids)
    have get: "get_opt ?R i = Some (l, h)" using L(1,2) by auto
    have splice: "vec_splice i (Suc i) q ?R = A @ q @ C" "vec_remove i ?R = A @ C" for q
      using L(1,2) by (auto simp: vec_splice_def vec_remove_def)
    have "rs_remove n s = s\<lparr>ranges := A @ cut n n (l, h) @ C\<rparr>"
    proof (cases "h < n")
      case True
      then show ?thesis using i False get L(1,3)
        by (auto simp: rs_remove_def cut_def)
    next
      case F: False
      then show ?thesis using i False get L(3) splice
        by (auto simp: rs_remove_def cut_def)
    qed
    with range cuts show ?thesis by simp
  qed
qed

lemma remove_inv: "rs_inv s \<Longrightarrow> rs_inv (rs_remove n s)"
  by (simp add: remove_eq_remove_range remove_range_inv)

lemma remove_members: "rs_inv s \<Longrightarrow> members (rs_remove n s) = members s - {n}"
proof -
  assume inv: "rs_inv s"
  have "members s - {max n 1 .. n} = members s - {n}"
  proof (cases "n = 0")
    case True
    then have "{max n 1 .. n} = {}" by (simp add: max_def word_nat)
    moreover have "n \<notin> members s" using members_not_zero [OF inv, of n] True by (auto simp: word_nat)
    ultimately show ?thesis by simp
  next
    case False
    then have "1 \<le> n"
      by (simp add: word_le_nat_alt unat_0_iff [symmetric] Suc_le_eq del: unat_0_iff)
    then have "max n 1 = n" by (rule max_absorb1)
    then show ?thesis by simp
  qed
  then show ?thesis using inv by (simp add: remove_eq_remove_range remove_range_members)
qed

section \<open>Counting\<close>

lemma card_word_interval: "card {l..h} = (if l \<le> h then unat h - unat l + 1 else 0)"
  for l h :: "'a::len word"
proof (cases "l \<le> h")
  case True
  have "unat ` {l..h} = {unat l..unat h}"
  proof
    show "unat ` {l..h} \<subseteq> {unat l..unat h}" by (auto simp: word_le_nat_alt)
    show "{unat l..unat h} \<subseteq> unat ` {l..h}"
    proof
      fix k assume k: "k \<in> {unat l..unat h}"
      then have "k < 2 ^ LENGTH('a)" using unat_lt_pow [of h] by (simp add: order_le_less_trans del: unsigned_less)
      then have u: "unat (of_nat k :: 'a word) = k" by (simp add: unat_of_nat_small)
      have "(of_nat k :: 'a word) \<in> {l..h}" using k u by (simp add: word_le_nat_alt)
      then show "k \<in> unat ` {l..h}" using u by (metis imageI)
    qed
  qed
  moreover have "inj_on unat {l..h}" by (simp add: inj_on_def word_unat_eq_iff)
  ultimately have "card {l..h} = card {unat l..unat h}" using card_image by metis
  with True show ?thesis by (simp add: word_le_nat_alt)
qed simp

lemma interval_size: "0 < l \<Longrightarrow> (if l \<le> h then h - l + 1 else 0) = of_nat (card {l..h})"
  for l h :: "'a::len word"
proof -
  assume l: "0 < l"
  have "unat (if l \<le> h then h - l + 1 else 0) = card {l..h}"
    using l by (simp add: card_word_interval unat_span del: atLeastAtMost_iff)
  then show ?thesis by (metis of_nat_unat_word)
qed

lemma card_span_sum:
  "ranges_ok R \<Longrightarrow> sum_list (map (\<lambda>r. card (span r \<inter> S)) R) = card ((\<Union>r \<in> set R. span r) \<inter> S)"
proof (induction R)
  case (Cons r R)
  have "span r \<inter> span q = {}" if "q \<in> set R" for q
    using Cons.prems that by (cases r; cases q) (auto simp: ranges_ok_Cons word_nat)
  then have disj: "(span r \<inter> S) \<inter> ((\<Union>r \<in> set R. span r) \<inter> S) = {}" by blast
  have "card ((span r \<inter> S) \<union> ((\<Union>r \<in> set R. span r) \<inter> S)) =
      card (span r \<inter> S) + card ((\<Union>r \<in> set R. span r) \<inter> S)"
    using disj by (intro card_Un_disjoint) simp_all
  then show ?case using Cons by (simp add: ranges_ok_Cons Int_Un_distrib2)
qed simp

lemma sum_list_of_nat: "sum_list (map (\<lambda>x. of_nat (f x)) xs) = of_nat (sum_list (map f xs))"
  by (induction xs) simp_all

lemma card_u64_lt: "n \<notin> S \<Longrightarrow> card S < 2 ^ 64" for n :: u64
proof -
  assume "n \<notin> S"
  then have "card S < card (UNIV :: u64 set)" by (intro psubset_card_mono) auto
  then show ?thesis by (simp add: card_word)
qed

lemma members_card_lt: "rs_inv s \<Longrightarrow> card (members s \<inter> S) < 2 ^ 64"
  using members_not_zero [of s 0] by (intro card_u64_lt [of 0]) (auto simp: word_nat)

lemma unat_of_nat_u64: "k < 2 ^ 64 \<Longrightarrow> unat (of_nat k :: u64) = k"
  by (rule unat_of_nat_small) simp

lemma count_card:
  assumes "rs_inv s"
  shows "unat (rs_count s) = card (members s)"
proof -
  have ok: "ranges_ok (ranges s)" using assms by (simp add: rs_inv_def)
  have "rs_count s = sum_list (map (\<lambda>r. of_nat (card (span r \<inter> UNIV))) (ranges s))"
    unfolding rs_count_def
  proof (rule arg_cong [where f = sum_list], rule map_cong [OF refl])
    fix r assume r: "r \<in> set (ranges s)"
    obtain l h where lh: "r = (l, h)" by (cases r)
    with ok r have "0 < l" "l \<le> h" by (auto dest!: ranges_ok_proper simp: word_nat)
    then show "(case r of (low, high) \<Rightarrow> high - low + 1) = of_nat (card (span r \<inter> UNIV))"
      using interval_size [of l h] by (simp add: lh span_def)
  qed
  also have "\<dots> = of_nat (card (members s))"
    by (simp only: sum_list_of_nat card_span_sum [OF ok]) (simp add: members_def)
  finally show ?thesis
    using members_card_lt [OF assms, of UNIV] by (simp add: unat_of_nat_u64)
qed

lemma read_in_card:
  assumes "rs_inv s"
  shows "unat (rs_read_in low0 high s) = card (members s \<inter> {max low0 1..high})"
proof (cases "high = 0 \<or> high < low0")
  case True
  then have "{max low0 1..high} = {}" by (auto simp: word_nat)
  with True show ?thesis by (simp add: rs_read_in_def)
next
  case False
  let ?S = "{max low0 1..high}"
  have ok: "ranges_ok (ranges s)" using assms by (simp add: rs_inv_def)
  have "rs_read_in low0 high s = sum_list (map (\<lambda>r. of_nat (card (span r \<inter> ?S))) (ranges s))"
    using False unfolding rs_read_in_def Let_def
  proof (simp only: if_False, intro arg_cong [where f = sum_list] map_cong [OF refl])
    fix r assume "r \<in> set (ranges s)"
    obtain l h where lh: "r = (l, h)" by (cases r)
    have I: "span (l, h) \<inter> ?S = {max l (max low0 1) .. min h high}" by (auto simp: span_def)
    have pos: "0 < max l (max low0 1)" by (simp add: word_less_nat_alt unat_max)
    show "(case r of (l, h) \<Rightarrow> if max l (max low0 1) \<le> min h high
        then min h high - max l (max low0 1) + 1 else 0) = of_nat (card (span r \<inter> ?S))"
      unfolding lh prod.case I by (rule interval_size [OF pos])
  qed
  also have "\<dots> = of_nat (card (members s \<inter> ?S))"
    by (simp only: sum_list_of_nat card_span_sum [OF ok]) (simp add: members_def)
  finally show ?thesis
    using members_card_lt [OF assms, of ?S] by (simp add: unat_of_nat_u64)
qed

lemma unread_in_card:
  assumes "rs_inv s"
  shows "unat (rs_unread_in low0 high s) = card ({max low0 1..high} - members s)"
proof (cases "high = 0 \<or> high < low0")
  case True
  then have "{max low0 1..high} = {}" by (auto simp: word_nat)
  with True show ?thesis by (simp add: rs_unread_in_def)
next
  case False
  let ?low = "max low0 1"
  have low: "0 < ?low" "?low \<le> high" and mm: "max ?low 1 = ?low"
    using False by (auto simp: word_nat unat_0_iff [symmetric] not_less Suc_le_eq simp del: unat_0_iff)
  have span: "high - ?low + 1 = of_nat (card {?low..high})"
    using interval_size [OF low(1), of high] low(2) by simp
  have c: "card {?low..high} < 2 ^ 64" by (rule card_u64_lt [of 0]) (simp add: word_nat)
  have "rs_unread_in low0 high s = sat_sub (high - ?low + 1) (rs_read_in ?low high s)"
    using False by (simp add: rs_unread_in_def Let_def)
  then have "unat (rs_unread_in low0 high s) =
      card {?low..high} - card (members s \<inter> {?low..high})"
    unfolding span by (simp only: unat_sat_sub unat_of_nat_u64 [OF c] read_in_card [OF assms] mm)
  also have "\<dots> = card ({?low..high} - members s \<inter> {?low..high})"
    by (rule card_Diff_subset [symmetric]) simp_all
  also have "{?low..high} - members s \<inter> {?low..high} = {?low..high} - members s" by blast
  finally show ?thesis .
qed

section \<open>Canonical form\<close>

lemma ranges_head_min:
  assumes "ranges_ok ((l, h) # R)" and "n \<in> (\<Union>r \<in> set R. span r)"
  shows "unat h + 1 < unat n"
  using assms by (auto simp: ranges_ok_Cons word_nat)

lemma ranges_head_le:
  assumes "ranges_ok ((l, h) # R)" and "ranges_ok ((l', h') # R')"
    and "span (l, h) \<union> (\<Union>r \<in> set R. span r) = span (l', h') \<union> (\<Union>r \<in> set R'. span r)"
  shows "l' \<le> l \<and> h \<le> h'"
proof -
  have p: "l \<le> h" "l' \<le> h'" using assms by (auto simp: ranges_ok_Cons)
  have l: "l' \<le> l"
  proof -
    have "l \<in> span (l', h') \<union> (\<Union>r \<in> set R'. span r)" unfolding assms(3) [symmetric] using p by simp
    then show ?thesis
    proof
      assume "l \<in> (\<Union>r \<in> set R'. span r)"
      from ranges_head_min [OF assms(2) this] p show ?thesis by (simp add: word_le_nat_alt)
    qed simp
  qed
  have l': "l \<le> l'"
  proof -
    have "l' \<in> span (l, h) \<union> (\<Union>r \<in> set R. span r)" unfolding assms(3) using p by simp
    then show ?thesis
    proof
      assume "l' \<in> (\<Union>r \<in> set R. span r)"
      from ranges_head_min [OF assms(1) this] p show ?thesis by (simp add: word_le_nat_alt)
    qed simp
  qed
  have "h \<le> h'"
  proof (rule ccontr)
    assume "\<not> h \<le> h'"
    then have lt: "h' < h" by simp
    then have u: "unat (h' + 1) = unat h' + 1" by (rule unat_inc)
    have "h' + 1 \<in> span (l, h)"
      using lt l' p by (simp add: word_le_nat_alt word_less_nat_alt u)
    then have "h' + 1 \<in> span (l', h') \<union> (\<Union>r \<in> set R'. span r)"
      unfolding assms(3) [symmetric] by blast
    then show False
    proof
      assume "h' + 1 \<in> span (l', h')"
      with u show False by (simp add: word_le_nat_alt)
    next
      assume "h' + 1 \<in> (\<Union>r \<in> set R'. span r)"
      from ranges_head_min [OF assms(2) this] u show False by simp
    qed
  qed
  with l show ?thesis ..
qed

lemma ranges_canonical:
  "ranges_ok R \<Longrightarrow> ranges_ok R' \<Longrightarrow>
   (\<Union>r \<in> set R. span r) = (\<Union>r \<in> set R'. span r) \<Longrightarrow> R = R'"
proof (induction R arbitrary: R')
  case Nil
  then show ?case by (cases R') (auto simp: ranges_ok_Cons)
next
  case (Cons r R)
  obtain l h where r: "r = (l, h)" by (cases r)
  have "l \<in> (\<Union>r \<in> set (r # R). span r)" using Cons.prems(1) by (simp add: r ranges_ok_Cons)
  then have "R' \<noteq> []" using Cons.prems(3) by auto
  then obtain l' h' Q where R': "R' = (l', h') # Q" by (metis neq_Nil_conv surj_pair)
  have eq: "span (l, h) \<union> (\<Union>r \<in> set R. span r) = span (l', h') \<union> (\<Union>r \<in> set Q. span r)"
    using Cons.prems(3) by (simp add: r R')
  have ok: "ranges_ok ((l, h) # R)" "ranges_ok ((l', h') # Q)"
    using Cons.prems by (simp_all add: r R')
  have same: "l' = l" "h' = h"
    using ranges_head_le [OF ok eq] ranges_head_le [OF ok(2,1) eq [symmetric]] by (auto intro: order_antisym)
  let ?U = "\<Union>r \<in> set R. span r" and ?V = "\<Union>r \<in> set Q. span r"
  have out: "n \<notin> span (l, h)" if "unat h + 1 < unat n" for n
    using that by (simp add: word_le_nat_alt)
  have U: "n \<notin> span (l, h)" if "n \<in> ?U" for n
    by (rule out) (rule ranges_head_min [OF ok(1) that])
  have V: "n \<notin> span (l, h)" if "n \<in> ?V" for n
    by (rule out) (rule ranges_head_min [OF ok(2) that, unfolded same])
  have "?U = ?V"
  proof (rule set_eqI)
    fix n
    have "n \<in> span (l, h) \<or> n \<in> ?U \<longleftrightarrow> n \<in> span (l, h) \<or> n \<in> ?V"
      using eq unfolding same by (metis Un_iff)
    with U [of n] V [of n] show "n \<in> ?U \<longleftrightarrow> n \<in> ?V" by argo
  qed
  with Cons.IH [of Q] ok show ?case by (simp add: r R' same ranges_ok_Cons)
qed

lemma members_inj: "rs_inv s \<Longrightarrow> rs_inv t \<Longrightarrow> members s = members t \<longleftrightarrow> s = t"
  using ranges_canonical [of "ranges s" "ranges t"]
  by (cases s; cases t) (auto simp: rs_inv_def members_def)

section \<open>Parsing and printing\<close>

lemma parse_pieces_inv: "rs_inv s \<Longrightarrow> rs_inv (fst (rs_parse_pieces ps (s, m)))"
  by (induction ps "(s, m)" arbitrary: s m rule: rs_parse_pieces.induct)
     (auto simp: Let_def insert_range_inv split: option.splits)

lemma parse_inv: "rs_inv (fst (rs_parse text))"
  by (simp add: rs_parse_def parse_pieces_inv)

lemma show_range_chars:
  "list_all (\<lambda>c. is_ascii_digit c \<or> c = CHR ''-'') (show_range r)"
  using u64_to_string_digits
  by (cases r) (auto simp: show_range_def list_all_iff)

lemma show_range_graphic: "list_all is_ascii_graphic (show_range r)"
  using show_range_chars [of r] by (auto simp: list_all_iff ascii_defs)

lemma digits_no_dash: "CHR ''-'' \<notin> set (u64_to_string w)"
  using u64_to_string_digits [of w] by (auto simp: list_all_iff is_ascii_digit_def)

lemma parse_piece_show [simp]: "parse_piece (show_range r) = Some r"
proof (cases r)
  case (Pair l h)
  have t: "trim (u64_to_string w) = u64_to_string w" for w
    by (simp add: trim_graphic u64_to_string_graphic)
  show ?thesis
  proof (cases "l = h")
    case True
    have "split_once (CHR ''-'') (u64_to_string l) = None"
      by (simp add: split_once_None_iff digits_no_dash)
    with True Pair t show ?thesis by (simp add: show_range_def parse_piece_def)
  next
    case False
    have "split_once (CHR ''-'') (u64_to_string l @ ''-'' @ u64_to_string h) =
        Some (u64_to_string l, u64_to_string h)"
      by (simp add: split_once_Some_iff digits_no_dash)
    with False Pair t show ?thesis by (simp add: show_range_def parse_piece_def)
  qed
qed

lemma show_range_ne [simp]: "show_range r \<noteq> []"
  by (cases r) (simp add: show_range_def)

lemma parse_pieces_show:
  "rs_parse_pieces (map show_range R) (s, m) = (fold (\<lambda>(l, h). rs_insert_range l h) R s, m)"
  by (induction R arbitrary: s) (auto simp: trim_graphic show_range_graphic)

lemma fold_insert_range:
  assumes "ranges_ok R" and "rs_inv s"
  shows "rs_inv (fold (\<lambda>(l, h). rs_insert_range l h) R s) \<and>
    members (fold (\<lambda>(l, h). rs_insert_range l h) R s) = members s \<union> (\<Union>r \<in> set R. span r)"
  using assms
proof (induction R arbitrary: s)
  case (Cons r R)
  obtain l h where r: "r = (l, h)" by (cases r)
  with Cons.prems have lh: "1 \<le> l" "l \<le> h" by (simp_all add: ranges_ok_Cons)
  then have mx: "max (min l h) 1 = l" "max l h = h" by (simp_all add: max_def min_def)
  have ok: "ranges_ok R" using Cons.prems(1) by (simp add: ranges_ok_Cons)
  from Cons.IH [OF ok insert_range_inv [OF Cons.prems(2)], of l h] show ?case
    using insert_range_members [OF Cons.prems(2), of l h]
    by (simp add: r mx span_def Un_assoc)
qed simp

lemma parse_display:
  assumes "rs_inv s"
  shows "rs_parse (rs_display s) = (s, [])"
proof (cases "ranges s = []")
  case True
  then have "s = rs_new" by (cases s) (simp add: rs_new_def)
  with True show ?thesis by (simp add: rs_display_def rs_parse_def)
next
  case False
  have ok: "ranges_ok (ranges s)" using assms by (simp add: rs_inv_def)
  let ?t = "fold (\<lambda>(l, h). rs_insert_range l h) (ranges s) rs_new"
  have "CHR '','' \<notin> set (show_range r)" for r
    using show_range_chars [of r] by (auto simp: list_all_iff is_ascii_digit_def)
  then have "split_on (CHR '','') (rs_display s) = map show_range (ranges s)"
    unfolding rs_display_def using False by (intro split_on_join) auto
  then have "rs_parse (rs_display s) = (?t, [])"
    by (simp add: rs_parse_def parse_pieces_show)
  moreover have "?t = s"
  proof (rule members_inj [THEN iffD1])
    from fold_insert_range [OF ok rs_inv_new]
    show "rs_inv ?t" "members ?t = members s" by (simp_all add: members_def [of s])
  qed (rule assms)
  ultimately show ?thesis by simp
qed

lemma fold_insert_members:
  "rs_inv s \<Longrightarrow> rs_inv (fold rs_insert ns s) \<and>
     members (fold rs_insert ns s) = members s \<union> (set ns - {0})"
proof (induction ns arbitrary: s)
  case (Cons n ns)
  from Cons.IH [OF insert_inv [OF Cons.prems], of n] show ?case
    using insert_members [OF Cons.prems, of n] by auto
qed simp

lemma from_iter_members: "rs_inv (rs_from_iter ns) \<and> members (rs_from_iter ns) = set ns - {0}"
  using fold_insert_members [OF rs_inv_new, of ns] by (simp add: rs_from_iter_def)

section \<open>The interface the read store relies on\<close>

text \<open>
  What a client of the set may rely on: every operation keeps the representation
  invariant, is an operation on the set of members, and equal member sets have equal
  representations.  The laws below follow from that contract alone.
\<close>

locale number_set =
  fixes empty :: 's
    and ins :: "u64 \<Rightarrow> 's \<Rightarrow> 's"
    and del :: "u64 \<Rightarrow> 's \<Rightarrow> 's"
    and ins_range :: "u64 \<Rightarrow> u64 \<Rightarrow> 's \<Rightarrow> 's"
    and del_range :: "u64 \<Rightarrow> u64 \<Rightarrow> 's \<Rightarrow> 's"
    and has :: "'s \<Rightarrow> u64 \<Rightarrow> bool"
    and inv :: "'s \<Rightarrow> bool"
    and mem :: "'s \<Rightarrow> u64 set"
  assumes inv_empty: "inv empty" and mem_empty: "mem empty = {}"
    and inv_ins: "inv s \<Longrightarrow> inv (ins n s)"
    and mem_ins: "inv s \<Longrightarrow> mem (ins n s) = mem s \<union> ({n} - {0})"
    and inv_del: "inv s \<Longrightarrow> inv (del n s)"
    and mem_del: "inv s \<Longrightarrow> mem (del n s) = mem s - {n}"
    and inv_ins_range: "inv s \<Longrightarrow> inv (ins_range low high s)"
    and mem_ins_range: "inv s \<Longrightarrow>
      mem (ins_range low high s) = mem s \<union> {max (min low high) 1 .. max low high}"
    and inv_del_range: "inv s \<Longrightarrow> inv (del_range low high s)"
    and mem_del_range: "inv s \<Longrightarrow>
      mem (del_range low high s) = mem s - {max (min low high) 1 .. max low high}"
    and has_mem: "inv s \<Longrightarrow> has s n \<longleftrightarrow> n \<in> mem s"
    and canonical: "inv s \<Longrightarrow> inv t \<Longrightarrow> mem s = mem t \<Longrightarrow> s = t"
begin

lemma has_ins: "inv s \<Longrightarrow> has (ins n s) m \<longleftrightarrow> has s m \<or> (m = n \<and> n \<noteq> 0)"
  by (auto simp: has_mem inv_ins mem_ins)

lemma has_del: "inv s \<Longrightarrow> has (del n s) m \<longleftrightarrow> has s m \<and> m \<noteq> n"
  by (auto simp: has_mem inv_del mem_del)

lemma ins_commute: "inv s \<Longrightarrow> ins a (ins b s) = ins b (ins a s)"
  by (rule canonical) (auto simp: inv_ins mem_ins)

lemma ins_idem: "inv s \<Longrightarrow> ins a (ins a s) = ins a s"
  by (rule canonical) (auto simp: inv_ins mem_ins)

lemma del_ins: "inv s \<Longrightarrow> n \<notin> mem s \<Longrightarrow> del n (ins n s) = s"
  by (rule canonical) (auto simp: inv_ins inv_del mem_ins mem_del)

lemma ins_absorb: "inv s \<Longrightarrow> n \<in> mem s \<Longrightarrow> ins n s = s"
  by (rule canonical) (auto simp: inv_ins mem_ins)

lemma del_absorb: "inv s \<Longrightarrow> n \<notin> mem s \<Longrightarrow> del n s = s"
  by (rule canonical) (auto simp: inv_del mem_del)

lemma ins_range_order: "inv s \<Longrightarrow> ins_range low high s = ins_range high low s"
  by (rule canonical) (simp_all add: inv_ins_range mem_ins_range min.commute max.commute)

lemma del_range_after_ins_range:
  "inv s \<Longrightarrow> del_range low high (ins_range low high s) = del_range low high s"
  by (rule canonical)
     (auto simp only: inv_ins_range inv_del_range mem_ins_range mem_del_range)

lemma fold_ins_range:
  assumes "inv s"
  shows "inv (fold (\<lambda>(l, h). ins_range l h) R s) \<and>
    mem (fold (\<lambda>(l, h). ins_range l h) R s) =
      mem s \<union> (\<Union>(l, h) \<in> set R. {max (min l h) 1 .. max l h})"
  using assms
proof (induction R arbitrary: s)
  case (Cons r R)
  obtain l h where r: "r = (l, h)" by (cases r)
  from Cons.IH [OF inv_ins_range [OF Cons.prems], of l h] show ?case
    by (simp add: r mem_ins_range [OF Cons.prems] Un_assoc)
qed simp

end

interpretation rs: number_set rs_new rs_insert rs_remove rs_insert_range rs_remove_range
  rs_contains rs_inv members
proof unfold_locales
  fix s :: read_set and n :: u64
  assume "rs_inv s"
  then show "members (rs_insert n s) = members s \<union> ({n} - {0})"
    by (auto simp: insert_members)
qed (simp_all add: insert_inv remove_inv remove_members insert_range_inv insert_range_members
      remove_range_inv remove_range_members contains_iff members_inj)

text \<open>The ranges of a valid set, read back as a set.\<close>

lemma ranges_union:
  assumes "rs_inv s"
  shows "(\<Union>(l, h) \<in> set (ranges s). {max (min l h) 1 .. max l h}) = members s"
  unfolding members_def
proof (rule SUP_cong [OF refl])
  fix r assume "r \<in> set (ranges s)"
  moreover obtain l h where r: "r = (l, h)" by (cases r)
  ultimately have lh: "1 \<le> l" "l \<le> h"
    using assms by (auto simp: rs_inv_def dest: ranges_ok_proper)
  have "min l h = l" "max l h = h" "max l 1 = l"
    using lh by (simp_all add: min_absorb1 max_absorb2 max_absorb1)
  then show "(case r of (l, h) \<Rightarrow> {max (min l h) 1 .. max l h}) = span r"
    by (simp add: r span_def)
qed

lemma members_Nil_iff: "rs_inv s \<Longrightarrow> members s = {} \<longleftrightarrow> rs_is_empty s"
proof -
  assume inv: "rs_inv s"
  have "members s = {} \<longleftrightarrow> s = rs_new" using members_inj [OF inv rs_inv_new] by simp
  also have "\<dots> \<longleftrightarrow> rs_is_empty s" by (cases s) (simp add: rs_is_empty_def rs_new_def)
  finally show ?thesis .
qed

lemma highest_Max:
  assumes "rs_inv s" and "rs_highest s = Some n"
  shows "n \<in> members s" "\<And>m. m \<in> members s \<Longrightarrow> m \<le> n"
proof -
  from assms(2) have ne: "ranges s \<noteq> []" and n: "n = snd (last (ranges s))"
    by (auto simp: rs_highest_def split: if_splits)
  obtain A l h where R: "ranges s = A @ [(l, h)]"
    using ne by (metis append_butlast_last_id surj_pair)
  have n': "n = h" by (simp add: n R)
  have ok: "ranges_ok (A @ [(l, h)])" using assms(1) by (simp add: rs_inv_def R)
  then have "l \<le> h" by (simp add: ranges_ok_append ranges_ok_Cons)
  then show "n \<in> members s" by (simp add: members_def R n')
  show "m \<le> n" if "m \<in> members s" for m
  proof -
    obtain r where "r \<in> set (ranges s)" and r2: "m \<in> span r"
      using \<open>m \<in> members s\<close> unfolding members_def by blast
    then have r: "r \<in> set A \<or> r = (l, h)" by (auto simp: R)
    obtain a b where ab: "r = (a, b)" by (cases r)
    from r show ?thesis
    proof
      assume "r \<in> set A"
      with ok ab have "unat b + 1 < unat l"
        by (fastforce simp: ranges_ok_append)
      with r2 ab \<open>l \<le> h\<close> n' show ?thesis by (simp add: word_le_nat_alt)
    qed (use r2 ab n' in simp)
  qed
qed

lemma highest_None: "rs_highest s = None \<longleftrightarrow> rs_is_empty s"
  by (simp add: rs_highest_def rs_is_empty_def)

section \<open>Properties\<close>

lemma sample_set_inv: "rs_inv \<lparr>ranges = [(1, 5), (7, 7)]\<rparr>"
  by (simp add: rs_inv_def ranges_ok_def)

text \<open>C1: the ranges of a set stay sorted, disjoint, non-adjacent and at least 1: every
  operation that changes a set keeps the documented invariant, and the sets made by
  \<open>new\<close>, by \<open>parse\<close> from any text at all and by \<open>from_iter\<close> start with it.\<close>
theorem read_set_invariant:
  "rs_inv rs_new \<and> rs_inv (fst (rs_parse text)) \<and> rs_inv (rs_from_iter ns) \<and>
   (rs_inv s \<longrightarrow> rs_inv (rs_insert n s) \<and> rs_inv (rs_remove n s) \<and>
     rs_inv (rs_insert_range low high s) \<and> rs_inv (rs_remove_range low high s))"
  using from_iter_members
  by (simp add: parse_inv insert_inv remove_inv insert_range_inv remove_range_inv)

theorem read_set_invariant_witness:
  "rs_inv (rs_insert_range 4 9 \<lparr>ranges = [(1, 5), (7, 7)]\<rparr>)"
  using read_set_invariant [of "[]" "[]" "\<lparr>ranges = [(1, 5), (7, 7)]\<rparr>" 1 4 9] sample_set_inv
  by blast

text \<open>C2: the compact set is a set of article numbers.  Over the invariant, \<open>contains\<close>
  decides membership, the four updates are insertion, deletion, interval union and
  interval difference (with 0 never a member and reversed bounds swapped), and the
  representation is canonical: two sets with the same members are equal.\<close>
theorem read_set_refines_set:
  assumes "rs_inv s" and "rs_inv t"
  shows "(rs_contains s n \<longleftrightarrow> n \<in> members s) \<and>
    members (rs_insert n s) = members s \<union> ({n} - {0}) \<and>
    members (rs_remove n s) = members s - {n} \<and>
    members (rs_insert_range low high s) = members s \<union> {max (min low high) 1 .. max low high} \<and>
    members (rs_remove_range low high s) = members s - {max (min low high) 1 .. max low high} \<and>
    (members s = members t \<longleftrightarrow> s = t)"
  using assms rs.mem_ins [of s n]
  by (simp add: contains_iff remove_members insert_range_members remove_range_members members_inj)

theorem read_set_refines_set_witness:
  "rs_contains (rs_insert 6 \<lparr>ranges = [(1, 5), (7, 7)]\<rparr>) 6 \<and>
   members (rs_remove 3 \<lparr>ranges = [(1, 5), (7, 7)]\<rparr>) = members \<lparr>ranges = [(1, 5), (7, 7)]\<rparr> - {3}"
proof -
  have inv: "rs_inv (rs_insert 6 \<lparr>ranges = [(1, 5), (7, 7)]\<rparr>)"
    by (rule insert_inv) (rule sample_set_inv)
  have "(6 :: u64) \<in> members (rs_insert 6 \<lparr>ranges = [(1, 5), (7, 7)]\<rparr>)"
    by (simp add: insert_members sample_set_inv)
  with read_set_refines_set [OF inv inv, of 6 0 0] read_set_refines_set [OF sample_set_inv inv, of 3 0 0]
  show ?thesis by simp
qed

text \<open>C3: the counting operations count members exactly, with no wrap-around anywhere in
  u64: \<open>count\<close> is the number of members, \<open>read_in\<close> the number of members in the window
  and \<open>unread_in\<close> the number of article numbers from 1 in the window that are not members;
  \<open>highest\<close> is the largest member.\<close>
theorem read_set_counts:
  assumes "rs_inv s"
  shows "unat (rs_count s) = card (members s) \<and>
    unat (rs_read_in low high s) = card (members s \<inter> {max low 1..high}) \<and>
    unat (rs_unread_in low high s) = card ({max low 1..high} - members s) \<and>
    (case rs_highest s of None \<Rightarrow> members s = {}
     | Some m \<Rightarrow> m \<in> members s \<and> (\<forall>k \<in> members s. k \<le> m))"
  using assms highest_Max [OF assms]
  by (auto simp: count_card read_in_card unread_in_card highest_None members_Nil_iff
      split: option.split)

theorem read_set_counts_witness:
  "unat (rs_unread_in 0 8 \<lparr>ranges = [(1, 5), (7, 7)]\<rparr>) =
     card ({1..8} - members \<lparr>ranges = [(1, 5), (7, 7)]\<rparr>)"
  using read_set_counts [OF sample_set_inv, of 0 8] by (simp add: max_def)

text \<open>printing a set and parsing the text gives the same set back and reports nothing
  malformed.\<close>
theorem read_set_parse_display:
  assumes "rs_inv s"
  shows "rs_parse (rs_display s) = (s, [])"
  using assms by (rule parse_display)

theorem read_set_parse_display_witness:
  "rs_parse (rs_display \<lparr>ranges = [(1, 5), (7, 7)]\<rparr>) = (\<lparr>ranges = [(1, 5), (7, 7)]\<rparr>, [])"
  by (rule read_set_parse_display) (rule sample_set_inv)

end
