(* ===== verification/Ordered_Map.thy ===== *)
theory Ordered_Map
  imports Prelude
begin

text \<open>
  Rust's \<open>BTreeMap\<close> as the sorted association list of its entries, which is what
  iterating over one yields.  A string key is ordered by its octets, as \<open>str\<close>'s \<open>Ord\<close>
  is.  The interface \<open>ordered_map\<close> states what the client code relies on; it is
  interpreted on the lists at the end.
\<close>

type_synonym ('k, 'v) btree_map = "('k \<times> 'v) list"

fun bt_get :: "'k::linorder \<Rightarrow> ('k, 'v) btree_map \<Rightarrow> 'v option" where
  "bt_get k [] = None"
| "bt_get k ((k', v) # m) = (if k = k' then Some v else bt_get k m)"

fun bt_put :: "'k::linorder \<Rightarrow> 'v \<Rightarrow> ('k, 'v) btree_map \<Rightarrow> ('k, 'v) btree_map" where
  "bt_put k v [] = [(k, v)]"
| "bt_put k v ((k', v') # m) =
     (if k = k' then (k, v) # m
      else if k < k' then (k, v) # (k', v') # m
      else (k', v') # bt_put k v m)"

definition bt_ok :: "('k::linorder, 'v) btree_map \<Rightarrow> bool" where
  "bt_ok m \<longleftrightarrow> sorted_wrt (<) (map fst m)"

lemma bt_ok_Nil [simp]: "bt_ok []"
  by (simp add: bt_ok_def)

lemma bt_ok_Cons: "bt_ok ((k, v) # m) \<longleftrightarrow> (\<forall>(k', _) \<in> set m. k < k') \<and> bt_ok m"
  by (auto simp: bt_ok_def)

lemma bt_get_None: "bt_get k m = None \<longleftrightarrow> k \<notin> fst ` set m"
  by (induction m) (auto split: if_splits)

lemma bt_get_in_set: "bt_get k m = Some v \<Longrightarrow> (k, v) \<in> set m"
  by (induction m) (auto split: if_splits)

lemma bt_get_put: "bt_get k' (bt_put k v m) = (if k' = k then Some v else bt_get k' m)"
  by (induction m) auto

lemma bt_put_subset: "set (bt_put k v m) \<subseteq> insert (k, v) (set m)"
  by (induction m) (auto split: if_splits)

lemma bt_ok_put: "bt_ok m \<Longrightarrow> bt_ok (bt_put k v m)"
proof (induction m)
  case (Cons e m)
  obtain k' v' where e: "e = (k', v')" by (cases e)
  show ?case
    using Cons bt_put_subset [of k v m] by (auto simp: e bt_ok_Cons)
qed (simp add: bt_ok_Cons)

lemma bt_get_set: "bt_ok m \<Longrightarrow> bt_get k m = Some v \<longleftrightarrow> (k, v) \<in> set m"
  by (induction m) (auto simp: bt_ok_Cons split: if_splits)

lemma bt_ext:
  assumes "bt_ok m" and "bt_ok m'" and "\<And>k. bt_get k m = bt_get k m'"
  shows "m = m'"
proof -
  have "set m = set m'"
  proof (rule set_eqI)
    fix e :: "'a \<times> 'b"
    show "e \<in> set m \<longleftrightarrow> e \<in> set m'"
      using assms bt_get_set [of m "fst e" "snd e"] bt_get_set [of m' "fst e" "snd e"] by simp
  qed
  moreover have "sorted (map fst m) \<and> distinct (map fst m)" "sorted (map fst m') \<and> distinct (map fst m')"
    using assms(1,2) by (simp_all add: bt_ok_def strict_sorted_iff)
  ultimately show ?thesis
    by (intro map_sorted_distinct_set_unique [of fst m m']) (auto simp: distinct_map)
qed

lemma bt_put_snoc:
  "(\<forall>(k', _) \<in> set m. k' < k) \<Longrightarrow> bt_put k v m = m @ [(k, v)]"
  by (induction m) (auto dest: less_asym)

locale ordered_map =
  fixes empty :: "'m"
    and get :: "'k::linorder \<Rightarrow> 'm \<Rightarrow> 'v option"
    and put :: "'k \<Rightarrow> 'v \<Rightarrow> 'm \<Rightarrow> 'm"
    and entries :: "'m \<Rightarrow> ('k \<times> 'v) list"
    and ok :: "'m \<Rightarrow> bool"
  assumes ok_empty: "ok empty" and get_empty: "get k empty = None"
    and ok_put: "ok m \<Longrightarrow> ok (put k v m)"
    and get_put: "get k' (put k v m) = (if k' = k then Some v else get k' m)"
    and entries_sorted: "ok m \<Longrightarrow> sorted_wrt (<) (List.map fst (entries m))"
    and entries_get: "ok m \<Longrightarrow> (k, v) \<in> set (entries m) \<longleftrightarrow> get k m = Some v"
    and ext: "ok m \<Longrightarrow> ok m' \<Longrightarrow> (\<And>k. get k m = get k m') \<Longrightarrow> m = m'"
begin

lemma get_put_same [simp]: "get k (put k v m) = Some v"
  by (simp add: get_put)

lemma put_put: "ok m \<Longrightarrow> put k v (put k w m) = put k v m"
  by (rule ext) (simp_all add: ok_put get_put)

lemma put_commute: "ok m \<Longrightarrow> k \<noteq> k' \<Longrightarrow> put k v (put k' w m) = put k' w (put k v m)"
  by (rule ext) (simp_all add: ok_put get_put)

lemma put_id: "ok m \<Longrightarrow> get k m = Some v \<Longrightarrow> put k v m = m"
  by (rule ext) (simp_all add: ok_put get_put)

lemma get_fold_put:
  "get k (fold (\<lambda>(k, v). put k v) kvs m) =
     (case map_of (rev kvs) k of Some v \<Rightarrow> Some v | None \<Rightarrow> get k m)"
  by (induction kvs arbitrary: m) (auto simp: get_put map_add_def split: option.split)

lemma all_entries_put:
  "ok m \<Longrightarrow> (\<And>k v. get k m = Some v \<Longrightarrow> P k v) \<Longrightarrow> P k v \<Longrightarrow>
   (k', v') \<in> set (entries (put k v m)) \<Longrightarrow> P k' v'"
  by (auto simp: entries_get ok_put get_put split: if_splits)

end

interpretation bt: ordered_map "[]" bt_get bt_put "\<lambda>m. m" bt_ok
  by unfold_locales (auto simp: bt_ok_put bt_get_put bt_get_set bt_ext, simp_all add: bt_ok_def)

end
