(* ===== verification/Read_Store.thy ===== *)
theory Read_Store
  imports Read_Set Ordered_Map
begin

text \<open>
  \<open>crates/nntp-tui/src/readstate/store.rs\<close>: the read state of every group on one server
  and the \<open>.newsrc\<close> file it is kept in.  \<open>load\<close> takes what the file system answered
  (the size or an error, then the content or an error), \<open>save\<close> is a run over an explicit
  file system with a fault for each system call.  A path is its list of components.
\<close>

section \<open>Paths and the file system\<close>

type_synonym path = "string list"
type_synonym fs = "path \<rightharpoonup> bytes"

datatype io_error = Io_Error (io_not_found: bool) (io_text: string)

definition path_parent :: "path \<Rightarrow> path option" where
  "path_parent p = (if p = [] then None else Some (butlast p))"

text \<open>The stem of a file name: the part before its last dot, unless that part is empty.\<close>

definition file_stem :: "string \<Rightarrow> string" where
  "file_stem name =
     (let r = rev name; after = takeWhile (\<lambda>c. c \<noteq> CHR ''.'') r
      in if length after = length name \<or> length after + 1 = length name then name
         else take (length name - length after - 1) name)"

definition with_extension :: "string \<Rightarrow> path \<Rightarrow> path" where
  "with_extension ext p =
     (if p = [] \<or> last p = ''..'' then p
      else butlast p @ [file_stem (last p) @ ''.'' @ ext])"

section \<open>Data\<close>

record entry =
  entry_read :: read_set
  subscribed :: bool

record read_store =
  store_path :: path
  groups :: "(string, entry) btree_map"
  dirty :: bool

datatype problem =
    Unreadable string
  | TooLarge u64
  | MalformedLine nat
  | MalformedRanges string "string list"

definition MAX_STORE_BYTES :: u64 where
  "MAX_STORE_BYTES = 8 * 1024 * 1024"

fun show_problem :: "problem \<Rightarrow> string" where
  "show_problem (Unreadable reason) =
     ''read state could not be read ('' @ reason @ ''); treating everything as unread''"
| "show_problem (TooLarge octets) =
     ''read state is '' @ u64_to_string octets @ '' octets, over the '' @
     u64_to_string MAX_STORE_BYTES @ '' octet limit; treating everything as unread''"
| "show_problem (MalformedLine line) =
     ''read state line '' @ dec line @ '' is not `group: ranges`; skipped''"
| "show_problem (MalformedRanges grp pieces) =
     ''read state for '' @ grp @ '' has '' @ dec (length pieces) @
     '' unreadable range(s) ('' @ join '', '' pieces @ ''); the rest was kept''"

definition store_empty :: "path \<Rightarrow> read_store" where
  "store_empty p = \<lparr>store_path = p, groups = [], dirty = False\<rparr>"

section \<open>Loading\<close>

definition split_line :: "string \<Rightarrow> (string \<times> bool \<times> string) option" where
  "split_line line =
     (let before = takeWhile (\<lambda>c. c \<noteq> CHR '':'' \<and> c \<noteq> CHR ''!'') line;
          rest = drop (length before) line; grp = trim before
      in case rest of
           [] \<Rightarrow> None
         | c # list \<Rightarrow> if grp = [] then None else Some (grp, c = CHR '':'', list))"

text \<open>\<open>groups.entry(group).or_default()\<close>; the derived default is not subscribed.\<close>

definition entry_default :: entry where
  "entry_default = \<lparr>entry_read = rs_new, subscribed = False\<rparr>"

definition load_line ::
  "nat \<times> string \<Rightarrow> (string, entry) btree_map \<times> problem list \<Rightarrow>
   (string, entry) btree_map \<times> problem list" where
  "load_line = (\<lambda>(index, raw) (gs, problems).
     let line = trim raw in
     if line = [] \<or> starts_with ''#'' line then (gs, problems)
     else (case split_line line of
             None \<Rightarrow> (gs, problems @ [MalformedLine (index + 1)])
           | Some (grp, sub, text) \<Rightarrow>
               let (read, malformed) = rs_parse text;
                   problems' = (if malformed = [] then problems
                                else problems @ [MalformedRanges grp malformed]);
                   e = (case bt_get grp gs of None \<Rightarrow> entry_default | Some e \<Rightarrow> e);
                   e' = \<lparr>entry_read = fold (\<lambda>(l, h). rs_insert_range l h) (ranges read) (entry_read e),
                         subscribed = subscribed e \<or> sub\<rparr>
               in (bt_put grp e' gs, problems')))"

definition load_text :: "string \<Rightarrow> (string, entry) btree_map \<times> problem list" where
  "load_text text = fold load_line (enumerate 0 (str_lines text)) ([], [])"

definition load :: "path \<Rightarrow> io_error + u64 \<Rightarrow> io_error + bytes \<Rightarrow> read_store \<times> problem list" where
  "load p metadata content =
     (case metadata of
        Inr octets \<Rightarrow>
          if MAX_STORE_BYTES < octets then (store_empty p, [TooLarge octets])
          else (case content of
                  Inr raw \<Rightarrow>
                    let (gs, problems) = load_text (lossy raw)
                    in ((store_empty p)\<lparr>groups := gs\<rparr>, problems)
                | Inl e \<Rightarrow> (store_empty p, [Unreadable (io_text e)]))
      | Inl e \<Rightarrow> if io_not_found e then (store_empty p, [])
                else (store_empty p, [Unreadable (io_text e)]))"

section \<open>Queries and updates\<close>

definition group_count :: "read_store \<Rightarrow> nat" where
  "group_count s = length (groups s)"

definition is_dirty :: "read_store \<Rightarrow> bool" where
  "is_dirty s = dirty s"

definition store_read_set :: "read_store \<Rightarrow> string \<Rightarrow> read_set" where
  "store_read_set s grp =
     (case bt_get grp (groups s) of None \<Rightarrow> rs_new | Some e \<Rightarrow> entry_read e)"

text \<open>\<open>ReadStore::entry\<close>: a group first written to is created as subscribed.\<close>

definition entry_or_new :: "string \<Rightarrow> read_store \<Rightarrow> entry" where
  "entry_or_new grp s =
     (case bt_get grp (groups s) of
        None \<Rightarrow> \<lparr>entry_read = rs_new, subscribed = True\<rparr> | Some e \<Rightarrow> e)"

definition update_entry :: "string \<Rightarrow> (read_set \<Rightarrow> read_set) \<Rightarrow> read_store \<Rightarrow> read_store" where
  "update_entry grp f s =
     (let e = entry_or_new grp s
      in s\<lparr>groups := bt_put grp (e\<lparr>entry_read := f (entry_read e)\<rparr>) (groups s), dirty := True\<rparr>)"

definition mark_read :: "string \<Rightarrow> u64 \<Rightarrow> read_store \<Rightarrow> read_store" where
  "mark_read grp number = update_entry grp (rs_insert number)"

definition mark_range_read :: "string \<Rightarrow> u64 \<Rightarrow> u64 \<Rightarrow> read_store \<Rightarrow> read_store" where
  "mark_range_read grp low high = update_entry grp (rs_insert_range low high)"

definition mark_unread :: "string \<Rightarrow> u64 \<Rightarrow> read_store \<Rightarrow> read_store" where
  "mark_unread grp number = update_entry grp (rs_remove number)"

definition set_read :: "string \<Rightarrow> read_set \<Rightarrow> read_store \<Rightarrow> read_store" where
  "set_read grp read = update_entry grp (\<lambda>_. read)"

definition forget_expired :: "string \<Rightarrow> u64 \<Rightarrow> read_store \<Rightarrow> read_store" where
  "forget_expired grp low s =
     (if low \<le> 1 then s
      else case bt_get grp (groups s) of
             None \<Rightarrow> s
           | Some e \<Rightarrow>
               let before = rs_range_count (entry_read e);
                   read_before = rs_count (entry_read e);
                   read = rs_remove_range 1 (low - 1) (entry_read e)
               in s\<lparr>groups := bt_put grp (e\<lparr>entry_read := read\<rparr>) (groups s),
                    dirty := dirty s \<or> rs_range_count read \<noteq> before \<or> rs_count read \<noteq> read_before\<rparr>)"

section \<open>Saving\<close>

definition newsrc_line :: "string \<times> entry \<Rightarrow> string" where
  "newsrc_line = (\<lambda>(grp, e). grp @ (if subscribed e then '':'' else ''!'') @ '' '' @
     rs_display (entry_read e))"

definition worth_writing :: "string \<times> entry \<Rightarrow> bool" where
  "worth_writing = (\<lambda>(_, e). \<not> (rs_is_empty (entry_read e) \<and> subscribed e))"

definition to_newsrc :: "read_store \<Rightarrow> string" where
  "to_newsrc s =
     concat (map (\<lambda>ge. newsrc_line ge @ [LF]) (filter worth_writing (groups s)))"

text \<open>
  What each of the three system calls of \<open>save\<close> does: \<open>None\<close> when it succeeds.  A write
  that fails has left some prefix of the data behind.
\<close>

record save_env =
  mkdir_fails :: "string option"
  write_fails :: "(string \<times> nat) option"
  rename_fails :: "string option"

datatype save_error =
  NoParent | Creating path string | Writing path string | Replacing path path string

text \<open>The second component lists the file systems an observer can see, in order.\<close>

definition save :: "save_env \<Rightarrow> read_store \<Rightarrow> fs \<Rightarrow> (save_error + read_store) \<times> fs list" where
  "save env s f0 =
     (case path_parent (store_path s) of
        None \<Rightarrow> (Inl NoParent, [f0])
      | Some parent \<Rightarrow>
          (case mkdir_fails env of
             Some e \<Rightarrow> (Inl (Creating parent e), [f0])
           | None \<Rightarrow>
               let temporary = with_extension ''newsrc.tmp'' (store_path s);
                   content = to_newsrc s;
                   torn = map (\<lambda>n. f0(temporary \<mapsto> take n content)) [0..<length content]
               in (case write_fails env of
                     Some (e, n) \<Rightarrow>
                       (Inl (Writing temporary e), f0 # take (Suc n) torn)
                   | None \<Rightarrow>
                       let f1 = f0(temporary \<mapsto> content) in
                       (case rename_fails env of
                          Some e \<Rightarrow>
                            (Inl (Replacing (store_path s) temporary e), f0 # torn @ [f1])
                        | None \<Rightarrow>
                            (Inr (s\<lparr>dirty := False\<rparr>),
                             f0 # torn @ [f1, (f1(temporary := None))(store_path s \<mapsto> content)])))))"

definition save_if_dirty ::
  "save_env \<Rightarrow> read_store \<Rightarrow> fs \<Rightarrow> (save_error + read_store) \<times> fs list" where
  "save_if_dirty env s f0 = (if dirty s then save env s f0 else (Inr s, [f0]))"

section \<open>File names\<close>

definition name_char :: "string \<Rightarrow> char" where
  "name_char ch =
     (case ch of
        [c] \<Rightarrow> if is_ascii_lower c \<or> is_ascii_digit c \<or> c \<in> {CHR ''.'', CHR ''-'', CHR ''_''}
               then c else CHR ''_''
      | _ \<Rightarrow> CHR ''_'')"

definition file_name_for :: "string \<Rightarrow> string" where
  "file_name_for server =
     (let name = map name_char (chars (to_ascii_lowercase (trim server)));
          name = dropWhile (\<lambda>c. c = CHR ''.'') name;
          name = (if name = [] then ''unknown-server'' else name)
      in name @ ''.newsrc'')"

text \<open>\<open>default_path\<close>, over the data directory that the \<open>directories\<close> crate reports.\<close>

definition default_path :: "path option \<Rightarrow> string \<Rightarrow> path option" where
  "default_path data_local_dir server =
     map_option (\<lambda>d. d @ [''newsrc'', file_name_for server]) data_local_dir"

section \<open>Invariant\<close>

definition store_inv :: "read_store \<Rightarrow> bool" where
  "store_inv s \<longleftrightarrow> bt_ok (groups s) \<and> (\<forall>(g, e) \<in> set (groups s). rs_inv (entry_read e))"

definition store_members :: "read_store \<Rightarrow> string \<Rightarrow> u64 set" where
  "store_members s grp = members (store_read_set s grp)"


lemma store_inv_empty [simp]: "store_inv (store_empty p)"
  by (simp add: store_inv_def store_empty_def)

lemma store_inv_get: "store_inv s \<Longrightarrow> bt_get g (groups s) = Some e \<Longrightarrow> rs_inv (entry_read e)"
  by (auto simp: store_inv_def dest: bt_get_in_set)

lemma store_read_set_inv: "store_inv s \<Longrightarrow> rs_inv (store_read_set s g)"
  by (auto simp: store_read_set_def dest: store_inv_get split: option.split)

lemma entry_or_new_read: "entry_read (entry_or_new g s) = store_read_set s g"
  by (simp add: entry_or_new_def store_read_set_def split: option.split)

lemma update_entry_inv:
  assumes "store_inv s" and "rs_inv (f (store_read_set s g))"
  shows "store_inv (update_entry g f s)"
  using assms bt_put_subset [of g _ "groups s"]
  by (fastforce simp: store_inv_def update_entry_def Let_def bt.ok_put entry_or_new_read)

lemma update_entry_read:
  "store_read_set (update_entry g f s) g' =
     (if g' = g then f (store_read_set s g) else store_read_set s g')"
  unfolding store_read_set_def update_entry_def entry_or_new_def
  by (simp add: Let_def bt.get_put split: option.split)

lemma update_entry_dirty [simp]: "dirty (update_entry g f s)"
  by (simp add: update_entry_def Let_def)

lemma update_entry_path [simp]: "store_path (update_entry g f s) = store_path s"
  by (simp add: update_entry_def Let_def)

section \<open>Forgetting expired numbers\<close>

lemma remove_range_below:
  assumes "rs_inv r" and "1 < low"
  shows "members (rs_remove_range 1 (low - 1) r) = members r - {1..<low}"
proof -
  have u: "unat (low - 1) = unat low - 1" using assms(2) by (intro unat_dec) (simp add: word_nat)
  have "1 \<le> low - 1" using assms(2) by (simp add: word_less_nat_alt word_le_nat_alt u)
  then have "{max (min 1 (low - 1)) 1 .. max 1 (low - 1)} = {1..low - 1}"
    by (simp add: min_absorb1 max_absorb2)
  also have "\<dots> = {1..<low}"
    using assms(2) by (auto simp: word_less_nat_alt word_le_nat_alt u)
  finally show ?thesis using assms(1) by (simp add: rs.mem_del_range)
qed

lemma remove_range_changed:
  assumes "rs_inv r"
  shows "rs_count (rs_remove_range a b r) \<noteq> rs_count r \<longleftrightarrow> rs_remove_range a b r \<noteq> r"
proof
  assume "rs_remove_range a b r \<noteq> r"
  with assms have "members (rs_remove_range a b r) \<noteq> members r"
    using members_inj remove_range_inv by blast
  moreover have "members (rs_remove_range a b r) \<subseteq> members r"
    using assms by (auto simp: rs.mem_del_range)
  ultimately have "card (members (rs_remove_range a b r)) < card (members r)"
    by (intro psubset_card_mono) (auto simp: members_def)
  then have "unat (rs_count (rs_remove_range a b r)) < unat (rs_count r)"
    using assms by (simp add: count_card remove_range_inv)
  then show "rs_count (rs_remove_range a b r) \<noteq> rs_count r" by auto
qed auto

lemma forget_expired_read:
  assumes inv: "store_inv s" and low: "1 < low"
  shows "store_read_set (forget_expired g low s) g' =
    (if g' = g then rs_remove_range 1 (low - 1) (store_read_set s g) else store_read_set s g')"
proof (cases "bt_get g (groups s)")
  case None
  have "rs_remove_range 1 (low - 1) rs_new = rs_new"
    by (rule rs.canonical) (simp_all add: rs.inv_del_range rs.mem_del_range)
  with None low show ?thesis
    by (simp add: forget_expired_def store_read_set_def)
next
  case (Some e)
  with low show ?thesis
    by (simp add: forget_expired_def store_read_set_def Let_def bt.get_put)
qed

lemma forget_expired_inv:
  assumes "store_inv s" shows "store_inv (forget_expired g low s)"
proof (cases "bt_get g (groups s)")
  case (Some e)
  let ?e = "e\<lparr>entry_read := rs_remove_range 1 (low - 1) (entry_read e)\<rparr>"
  have "rs_inv (entry_read ?e)"
    using store_inv_get [OF assms Some] by (simp add: remove_range_inv)
  with assms Some bt_put_subset [of g ?e "groups s"] show ?thesis
    by (fastforce simp: store_inv_def forget_expired_def Let_def bt.ok_put)
qed (use assms in \<open>simp add: forget_expired_def\<close>)

section \<open>Loading\<close>

lemma load_line_inv:
  assumes "bt_ok gs" and "\<And>g e. (g, e) \<in> set gs \<Longrightarrow> rs_inv (entry_read e)"
  shows "bt_ok (fst (load_line (i, l) (gs, ps)))"
    "(g, e) \<in> set (fst (load_line (i, l) (gs, ps))) \<Longrightarrow> rs_inv (entry_read e)"
proof -
  have step: "bt_ok gs' \<and> (\<forall>(g, e) \<in> set gs'. rs_inv (entry_read e))"
    if "gs' = fst (load_line (i, l) (gs, ps))" for gs'
  proof (cases "trim l = [] \<or> starts_with ''#'' (trim l) \<or> split_line (trim l) = None")
    case True
    then have "gs' = gs" using that by (auto simp: load_line_def Let_def split: option.split)
    with assms show ?thesis by auto
  next
    case False
    then obtain grp sub list where sl: "split_line (trim l) = Some (grp, sub, list)" by auto
    obtain read bad where p: "rs_parse list = (read, bad)" by fastforce
    define e0 where "e0 = (case bt_get grp gs of None \<Rightarrow> entry_default | Some e \<Rightarrow> e)"
    have "rs_inv (entry_read e0)"
      using assms(2) by (auto simp: e0_def entry_default_def dest: bt_get_in_set split: option.split)
    then have inv: "rs_inv (fold (\<lambda>(l, h). rs_insert_range l h) (ranges read) (entry_read e0))"
      using rs.fold_ins_range by blast
    have gs': "gs' = bt_put grp
        \<lparr>entry_read = fold (\<lambda>(l, h). rs_insert_range l h) (ranges read) (entry_read e0),
         subscribed = subscribed e0 \<or> sub\<rparr> gs"
      using that False sl p by (simp add: load_line_def Let_def e0_def)
    with assms inv bt_put_subset show ?thesis by (fastforce simp: bt.ok_put)
  qed
  then show "bt_ok (fst (load_line (i, l) (gs, ps)))" by blast
  from step show "rs_inv (entry_read e)" if "(g, e) \<in> set (fst (load_line (i, l) (gs, ps)))"
    using that by blast
qed

lemma load_lines_inv:
  assumes "bt_ok gs" and "\<And>g e. (g, e) \<in> set gs \<Longrightarrow> rs_inv (entry_read e)"
  shows "bt_ok (fst (fold load_line ils (gs, ps))) \<and>
    (\<forall>(g, e) \<in> set (fst (fold load_line ils (gs, ps))). rs_inv (entry_read e))"
  using assms
proof (induction ils arbitrary: gs ps)
  case (Cons il ils)
  obtain i l where il: "il = (i, l)" by (cases il)
  obtain gs' ps' where r: "load_line (i, l) (gs, ps) = (gs', ps')" by fastforce
  have "bt_ok gs'" "\<And>g e. (g, e) \<in> set gs' \<Longrightarrow> rs_inv (entry_read e)"
    using load_line_inv [where i = i and l = l and ps = ps, OF Cons.prems] by (simp_all add: r)
  from Cons.IH [where ps = ps', OF this] show ?case by (simp add: il r)
qed auto

lemma load_inv: "store_inv (fst (load p metadata content)) \<and> \<not> dirty (fst (load p metadata content))"
proof -
  have "bt_ok (fst (load_text t)) \<and> (\<forall>(g, e) \<in> set (fst (load_text t)). rs_inv (entry_read e))" for t
    unfolding load_text_def by (rule load_lines_inv) simp_all
  then show ?thesis
    by (auto simp: load_def store_inv_def store_empty_def Let_def split_beta split: sum.split)
qed

text \<open>What one line of the file contributes, on its own: the group it names, if it is
  neither blank nor a comment and can be split, and the problems it is reported with.\<close>

definition line_entry :: "string \<Rightarrow> (string \<times> bool \<times> string) option" where
  "line_entry raw =
     (if trim raw = [] \<or> starts_with ''#'' (trim raw) then None else split_line (trim raw))"

definition line_read :: "string \<Rightarrow> string \<Rightarrow> u64 set" where
  "line_read g raw =
     (case line_entry raw of
        None \<Rightarrow> {}
      | Some (g', _, text) \<Rightarrow> if g' = g then members (fst (rs_parse text)) else {})"

definition line_subscribes :: "string \<Rightarrow> string \<Rightarrow> bool" where
  "line_subscribes g raw =
     (case line_entry raw of None \<Rightarrow> False | Some (g', sub, _) \<Rightarrow> g' = g \<and> sub)"

definition line_problems :: "nat \<times> string \<Rightarrow> problem list" where
  "line_problems = (\<lambda>(i, raw).
     case line_entry raw of
       None \<Rightarrow> if trim raw = [] \<or> starts_with ''#'' (trim raw) then [] else [MalformedLine (i + 1)]
     | Some (g, _, text) \<Rightarrow>
         (if snd (rs_parse text) = [] then [] else [MalformedRanges g (snd (rs_parse text))]))"

definition numbers_in :: "(string, entry) btree_map \<Rightarrow> string \<Rightarrow> u64 set" where
  "numbers_in gs g = (case bt_get g gs of None \<Rightarrow> {} | Some e \<Rightarrow> members (entry_read e))"

definition subscribed_in :: "(string, entry) btree_map \<Rightarrow> string \<Rightarrow> bool" where
  "subscribed_in gs g = (case bt_get g gs of None \<Rightarrow> False | Some e \<Rightarrow> subscribed e)"

lemma store_members_numbers_in: "store_members s g = numbers_in (groups s) g"
  by (simp add: store_members_def store_read_set_def numbers_in_def members_def rs_new_def
      split: option.split)

lemma merged_members:
  assumes "rs_inv r"
  shows "members (fold (\<lambda>(l, h). rs_insert_range l h) (ranges (fst (rs_parse text))) r) =
    members r \<union> members (fst (rs_parse text))"
  using fold_insert_range [OF _ assms] parse_inv
  by (simp add: rs_inv_def members_def [of "fst (rs_parse text)"])

lemma load_line_adds:
  assumes inv: "\<forall>(g, e) \<in> set gs. rs_inv (entry_read e)"
  shows "numbers_in (fst (load_line (i, l) (gs, ps))) g = numbers_in gs g \<union> line_read g l"
    "subscribed_in (fst (load_line (i, l) (gs, ps))) g \<longleftrightarrow> subscribed_in gs g \<or> line_subscribes g l"
    "snd (load_line (i, l) (gs, ps)) = ps @ line_problems (i, l)"
proof -
  have e: "rs_inv (entry_read e)" if "bt_get g gs = Some e" for g e
    using inv bt_get_in_set [OF that] by auto
  show "numbers_in (fst (load_line (i, l) (gs, ps))) g = numbers_in gs g \<union> line_read g l"
    by (auto simp: load_line_def Let_def line_read_def line_entry_def numbers_in_def split_beta
        bt_get_put merged_members entry_default_def e
        split: option.splits)
  show "subscribed_in (fst (load_line (i, l) (gs, ps))) g \<longleftrightarrow>
      subscribed_in gs g \<or> line_subscribes g l"
    by (auto simp: load_line_def Let_def line_subscribes_def line_entry_def subscribed_in_def
        split_beta bt_get_put entry_default_def split: option.splits)
  show "snd (load_line (i, l) (gs, ps)) = ps @ line_problems (i, l)"
    by (auto simp: load_line_def Let_def line_problems_def line_entry_def split_beta
        split: option.splits)
qed

lemma load_lines_add:
  assumes "bt_ok gs" and "\<forall>(g, e) \<in> set gs. rs_inv (entry_read e)"
  shows "numbers_in (fst (fold load_line ils (gs, ps))) g =
      numbers_in gs g \<union> (\<Union>il \<in> set ils. line_read g (snd il)) \<and>
    (subscribed_in (fst (fold load_line ils (gs, ps))) g \<longleftrightarrow>
      subscribed_in gs g \<or> (\<exists>il \<in> set ils. line_subscribes g (snd il))) \<and>
    snd (fold load_line ils (gs, ps)) = ps @ concat (map line_problems ils)"
  using assms
proof (induction ils arbitrary: gs ps)
  case (Cons il ils)
  obtain i l where il: "il = (i, l)" by (cases il)
  obtain gs' ps' where r: "load_line (i, l) (gs, ps) = (gs', ps')" by fastforce
  have inv: "bt_ok gs'" "\<forall>(g, e) \<in> set gs'. rs_inv (entry_read e)"
    using load_lines_inv [of gs "[il]" ps] Cons.prems by (auto simp: il r)
  note line = load_line_adds [OF Cons.prems(2), of i l ps, unfolded r fst_conv snd_conv]
  show ?case
    using Cons.IH [OF inv, of ps'] line(1,2) [of g] line(3) by (auto simp: il r)
qed simp

lemma load_text_lines:
  "numbers_in (fst (load_text t)) g = (\<Union>l \<in> set (str_lines t). line_read g l)"
  "subscribed_in (fst (load_text t)) g \<longleftrightarrow> (\<exists>l \<in> set (str_lines t). line_subscribes g l)"
  "snd (load_text t) = concat (map line_problems (enumerate 0 (str_lines t)))"
proof -
  let ?ils = "enumerate 0 (str_lines t)"
  have lines: "set (str_lines t) = snd ` set ?ils"
    by (metis map_snd_enumerate set_map)
  note sum = load_lines_add [where gs = "[]" and ils = "enumerate 0 (str_lines t)" and ps = "[]" and g = g, simplified]
  from sum show "numbers_in (fst (load_text t)) g = (\<Union>l \<in> set (str_lines t). line_read g l)"
    by (simp add: load_text_def numbers_in_def lines)
  from sum show "subscribed_in (fst (load_text t)) g \<longleftrightarrow>
      (\<exists>l \<in> set (str_lines t). line_subscribes g l)"
    by (simp add: load_text_def subscribed_in_def lines)
  from sum show "snd (load_text t) = concat (map line_problems ?ils)"
    by (simp add: load_text_def)
qed

section \<open>The file format round trip\<close>

text \<open>Group names that the format can carry: printable ASCII without the two separators,
  and not looking like a comment.\<close>

definition plain_name :: "string \<Rightarrow> bool" where
  "plain_name g \<longleftrightarrow> g \<noteq> [] \<and> list_all is_ascii_graphic g \<and>
     CHR '':'' \<notin> set g \<and> CHR ''!'' \<notin> set g \<and> hd g \<noteq> CHR ''#''"

lemma display_chars:
  "list_all (\<lambda>c. is_ascii_digit c \<or> c = CHR ''-'' \<or> c = CHR '','') (rs_display s)"
proof -
  have "list_all (\<lambda>c. is_ascii_digit c \<or> c = CHR ''-'' \<or> c = CHR '','')
      (join '','' (map show_range R))" for R
  proof (induction R rule: induct_list012)
    case (2 r)
    then show ?case using show_range_chars [of r] by (auto simp: list_all_iff)
  next
    case (3 r r' R)
    then show ?case using show_range_chars [of r] by (auto simp: list_all_iff)
  qed simp
  then show ?thesis by (simp add: rs_display_def)
qed

lemma display_graphic: "list_all is_ascii_graphic (rs_display s)"
  using display_chars [of s] by (auto simp: list_all_iff ascii_defs)

lemma parse_sp_display: "rs_parse (SP # s) = rs_parse s"
  by (cases "split_on (CHR '','') s") (simp_all add: rs_parse_def Let_def)

lemma trim_newsrc_line:
  assumes "plain_name g"
  shows "trim (newsrc_line (g, e)) =
    g @ (if subscribed e then '':'' else ''!'') @
      (if rs_display (entry_read e) = [] then [] else SP # rs_display (entry_read e))"
proof -
  let ?h = "g @ (if subscribed e then '':'' else ''!'')" and ?d = "rs_display (entry_read e)"
  have h: "?h \<noteq> []" "solid (hd ?h)" "solid (last ?h)"
    using assms by (cases g; auto simp: plain_name_def solid_def is_ascii_graphic_def)+
  show ?thesis
  proof (cases "?d = []")
    case True
    with trim_solid_ends_sp [OF h] show ?thesis by (simp add: newsrc_line_def)
  next
    case False
    then have "solid (last ?d)"
      using display_graphic [of "entry_read e"] by (simp add: solid_def list_all_iff)
    with False h trim_graphic_ends [of "?h @ SP # ?d"] show ?thesis
      by (cases g) (auto simp: newsrc_line_def)
  qed
qed

lemma split_line_newsrc:
  assumes "plain_name g" and "c = CHR '':'' \<or> c = CHR ''!''"
  shows "split_line (g @ c # rest) = Some (g, c = CHR '':'', rest)"
proof -
  have tw: "takeWhile (\<lambda>c. c \<noteq> CHR '':'' \<and> c \<noteq> CHR ''!'') (g @ c # rest) = g"
  proof -
    have "takeWhile (\<lambda>c. c \<noteq> CHR '':'' \<and> c \<noteq> CHR ''!'') (g @ c # rest) =
        g @ takeWhile (\<lambda>c. c \<noteq> CHR '':'' \<and> c \<noteq> CHR ''!'') (c # rest)"
      using assms(1) by (intro takeWhile_append2) (auto simp: plain_name_def)
    with assms(2) show ?thesis by auto
  qed
  have "trim g = g" "g \<noteq> []" using assms(1) by (simp_all add: plain_name_def trim_graphic)
  then show ?thesis by (simp add: split_line_def tw Let_def)
qed

lemma load_line_newsrc:
  assumes g: "plain_name g" and e: "rs_inv (entry_read e)"
    and fresh: "\<forall>(g', _) \<in> set gs. g' < g"
  shows "load_line (i, newsrc_line (g, e)) (gs, ps) = (gs @ [(g, e)], ps)"
proof -
  let ?c = "if subscribed e then CHR '':'' else CHR ''!''"
  let ?rest = "if rs_display (entry_read e) = [] then [] else SP # rs_display (entry_read e)"
  have line: "trim (newsrc_line (g, e)) = g @ ?c # ?rest"
    using trim_newsrc_line [OF g, of e] by (simp split: if_splits)
  have not_comment: "\<not> starts_with ''#'' (g @ ?c # ?rest)"
    using g by (cases g) (auto simp: plain_name_def starts_with_def)
  have sl: "split_line (g @ ?c # ?rest) = Some (g, subscribed e, ?rest)"
    using split_line_newsrc [OF g, of ?c ?rest] by simp
  have parse: "rs_parse ?rest = (entry_read e, [])"
    using parse_display [OF e] by (auto simp: parse_sp_display)
  have "bt_get g gs = None" using fresh by (auto simp: bt_get_None)
  moreover have "fold (\<lambda>(l, h). rs_insert_range l h) (ranges (entry_read e)) rs_new = entry_read e"
    using rs.fold_ins_range [OF rs_inv_new, of "ranges (entry_read e)"] ranges_union [OF e]
    by (intro rs.canonical) (simp_all add: e)
  moreover have "bt_put g e gs = gs @ [(g, e)]" by (rule bt_put_snoc) (rule fresh)
  moreover have eta: "\<lparr>entry_read = entry_read e, subscribed = subscribed e\<rparr> = e" by (cases e) simp
  ultimately show ?thesis
    unfolding load_line_def
    by (simp add: eta line not_comment sl parse Let_def entry_default_def)
qed

lemma load_lines_newsrc:
  assumes "\<forall>(g, e) \<in> set m. plain_name g \<and> rs_inv (entry_read e)"
    and "bt_ok (gs @ m)"
  shows "fold load_line (enumerate n (map newsrc_line m)) (gs, ps) = (gs @ m, ps)"
  using assms
proof (induction m arbitrary: gs n)
  case (Cons ge m)
  obtain g e where ge: "ge = (g, e)" by (cases ge)
  have "\<forall>(g', _) \<in> set gs. g' < g"
    using Cons.prems(2) by (auto simp: ge bt_ok_def sorted_wrt_append)
  with Cons.prems(1) have "load_line (n, newsrc_line ge) (gs, ps) = (gs @ [ge], ps)"
    using load_line_newsrc by (simp add: ge)
  with Cons show ?case by simp
qed simp

lemma bt_ok_filter: "bt_ok m \<Longrightarrow> bt_ok (filter P m)"
  by (induction m) (auto simp: bt_ok_Cons)

lemma newsrc_line_chars:
  assumes "plain_name g" and "c \<in> set (newsrc_line (g, e))"
  shows "is_ascii_graphic c \<or> c = SP"
  using assms display_graphic [of "entry_read e"]
  by (auto simp: newsrc_line_def plain_name_def list_all_iff is_ascii_graphic_def split: if_splits)

lemma load_to_newsrc:
  assumes inv: "store_inv s" and names: "\<forall>(g, e) \<in> set (groups s). plain_name g"
    and small: "octets \<le> MAX_STORE_BYTES"
  shows "load p (Inr octets) (Inr (to_newsrc s)) =
    (\<lparr>store_path = p, groups = filter worth_writing (groups s), dirty = False\<rparr>, [])"
proof -
  let ?m = "filter worth_writing (groups s)"
  have m: "\<forall>(g, e) \<in> set ?m. plain_name g \<and> rs_inv (entry_read e)" "bt_ok ?m"
    using inv names by (auto simp: store_inv_def bt_ok_filter)
  have chars: "is_ascii_graphic c \<or> c = SP" if "ge \<in> set ?m" "c \<in> set (newsrc_line ge)" for ge c
    using m(1) that newsrc_line_chars [of "fst ge" c "snd ge"] by (cases ge) auto
  have txt_eq: "to_newsrc s = concat (map (\<lambda>l. l @ [LF]) (map newsrc_line ?m))"
    by (simp add: to_newsrc_def comp_def)
  have "is_ascii c" if "c \<in> set (to_newsrc s)" for c
  proof -
    from that have "\<exists>ge \<in> set ?m. c \<in> set (newsrc_line ge @ [LF])"
      unfolding to_newsrc_def by (simp only: set_concat set_map UN_iff bex_simps image_iff)
    then consider "c = LF" | ge where "ge \<in> set ?m" "c \<in> set (newsrc_line ge)"
      by (metis Un_iff set_append list.set_intros(1) set_ConsD empty_iff list.set(1))
    then show ?thesis
    proof cases
      case 2
      from chars [OF 2] show ?thesis by (auto simp: ascii_defs)
    qed (simp add: is_ascii_def)
  qed
  then have "list_all is_ascii (to_newsrc s)" by (simp add: list_all_iff)
  then have lossy: "lossy (to_newsrc s) = to_newsrc s" by (rule lossy_ascii)
  have "str_lines (to_newsrc s) = map newsrc_line ?m"
    unfolding txt_eq by (rule str_lines_concat) (use chars in \<open>fastforce simp: is_ascii_graphic_def\<close>)
  then have "load_text (to_newsrc s) = (?m, [])"
    using load_lines_newsrc [of ?m "[]" 0 "[]"] m by (simp add: load_text_def)
  with small lossy show ?thesis
    by (simp add: load_def store_empty_def not_less)
qed

section \<open>Saving is atomic\<close>

lemma stem_length: "length (file_stem name) = length name \<or>
    length (file_stem name) = length name - length (takeWhile (\<lambda>c. c \<noteq> CHR ''.'') (rev name)) - 1"
  by (auto simp: file_stem_def Let_def)

lemma stem_ext_ne: "file_stem name @ ''.newsrc.tmp'' \<noteq> name"
proof
  assume eq: "file_stem name @ ''.newsrc.tmp'' = name"
  have rv: "rev name = ''pmt.crswen.'' @ rev (file_stem name)"
    unfolding arg_cong [OF eq [symmetric], of rev] by simp
  have "length (takeWhile (\<lambda>c. c \<noteq> CHR ''.'') (rev name)) = 3" unfolding rv by simp
  moreover have "length name = length (file_stem name) + 11"
    using arg_cong [OF eq, of length] by simp
  ultimately show False using stem_length [of name] by simp
qed

lemma temporary_ne: "p \<noteq> [] \<Longrightarrow> last p \<noteq> ''..'' \<Longrightarrow> with_extension ''newsrc.tmp'' p \<noteq> p"
proof
  assume p: "p \<noteq> []" "last p \<noteq> ''..''" "with_extension ''newsrc.tmp'' p = p"
  then have "last p = file_stem (last p) @ ''.newsrc.tmp''"
    by (metis with_extension_def last_snoc append_Cons append_Nil)
  with stem_ext_ne [of "last p"] show False by metis
qed

text \<open>The file systems that a save passes through, by how far it got.\<close>

lemma save_cases:
  fixes s defines "tmp \<equiv> with_extension ''newsrc.tmp'' (store_path s)"
  assumes "save env s f0 = (r, fs)"
  obtains "\<exists>e. r = Inl e" "\<forall>f \<in> set fs. f = f0 \<or> (\<exists>x. f = f0(tmp \<mapsto> x))"
  | gs where "store_path s \<noteq> []" "r = Inr (s\<lparr>dirty := False\<rparr>)"
      "fs = gs @ [(f0(tmp := None))(store_path s \<mapsto> to_newsrc s)]"
      "\<forall>f \<in> set gs. f = f0 \<or> (\<exists>x. f = f0(tmp \<mapsto> x))"
proof -
  let ?torn = "map (\<lambda>n. f0(tmp \<mapsto> take n (to_newsrc s))) [0..<length (to_newsrc s)]"
  let ?f1 = "f0(tmp \<mapsto> to_newsrc s)"
  have torn: "\<exists>x. f = f0(tmp \<mapsto> x)" if "f \<in> set ?torn" for f using that by auto
  show thesis
  proof (cases "path_parent (store_path s)")
    case None
    with assms show ?thesis by (intro that(1)) (auto simp: save_def)
  next
    case P: (Some d)
    show ?thesis
    proof (cases "mkdir_fails env")
      case (Some e)
      with assms P show ?thesis by (intro that(1)) (auto simp: save_def)
    next
      case M: None
      show ?thesis
      proof (cases "write_fails env")
        case (Some w)
        obtain e n where w: "w = (e, n)" by (cases w)
        have "r = Inl (Writing tmp e)" "fs = f0 # take (Suc n) ?torn"
          using assms(2) P M Some unfolding save_def tmp_def by (simp_all add: w Let_def)
        moreover have "\<exists>x. f = f0(tmp \<mapsto> x)" if "f \<in> set (take (Suc n) ?torn)" for f
          by (rule torn) (rule in_set_takeD [OF that])
        ultimately show ?thesis by (intro that(1)) auto
      next
        case W: None
        show ?thesis
        proof (cases "rename_fails env")
          case (Some e)
          have "r = Inl (Replacing (store_path s) tmp e)" "fs = f0 # ?torn @ [?f1]"
            using assms(2) P M W Some unfolding save_def tmp_def by (simp_all add: Let_def)
          with torn show ?thesis by (intro that(1)) auto
        next
          case None
          have "r = Inr (s\<lparr>dirty := False\<rparr>)"
            "fs = (f0 # ?torn @ [?f1]) @ [(f0(tmp := None))(store_path s \<mapsto> to_newsrc s)]"
            using assms(2) P M W None unfolding save_def tmp_def by (simp_all add: Let_def)
          moreover have "store_path s \<noteq> []" using P by (auto simp: path_parent_def)
          ultimately show ?thesis using torn by (intro that(2) [of "f0 # ?torn @ [?f1]"]) auto
        qed
      qed
    qed
  qed
qed

lemma save_atomic_aux:
  assumes last: "last (store_path s) \<noteq> ''..''" and r: "save env s f0 = (r, fs)"
    and f: "f \<in> set fs"
  shows "f (store_path s) = f0 (store_path s) \<or>
      (\<exists>s'. r = Inr s') \<and> f = List.last fs \<and> f (store_path s) = Some (to_newsrc s)"
    "q \<noteq> store_path s \<Longrightarrow> q \<noteq> with_extension ''newsrc.tmp'' (store_path s) \<Longrightarrow> f q = f0 q"
proof -
  have ne: "with_extension ''newsrc.tmp'' (store_path s) \<noteq> store_path s" if "store_path s \<noteq> []"
    using that last by (rule temporary_ne)
  have nil: "with_extension ''newsrc.tmp'' [] = []" by (simp add: with_extension_def)
  show "f (store_path s) = f0 (store_path s) \<or>
      (\<exists>s'. r = Inr s') \<and> f = List.last fs \<and> f (store_path s) = Some (to_newsrc s)"
    using r
  proof (cases rule: save_cases)
    case 1
    then show ?thesis
      using f ne r by (cases "store_path s = []") (auto simp: save_def path_parent_def)
  next
    case (2 gs)
    then show ?thesis using f ne by auto
  qed
  show "f q = f0 q"
    if "q \<noteq> store_path s" "q \<noteq> with_extension ''newsrc.tmp'' (store_path s)"
    using r
  proof (cases rule: save_cases)
    case 1
    then show ?thesis using f that by auto
  next
    case (2 gs)
    then show ?thesis using f that by auto
  qed
qed

section \<open>File names\<close>

definition safe_char :: "char \<Rightarrow> bool" where
  "safe_char c \<longleftrightarrow> is_ascii_lower c \<or> is_ascii_digit c \<or> c \<in> {CHR ''.'', CHR ''-'', CHR ''_''}"

lemma name_char_safe: "safe_char (name_char ch)"
  by (auto simp: name_char_def safe_char_def split: list.split)

lemma in_set_dropWhileD: "x \<in> set (dropWhile P xs) \<Longrightarrow> x \<in> set xs"
  by (induction xs) (auto split: if_splits)

lemma file_name_safe:
  "list_all safe_char (file_name_for server) \<and> hd (file_name_for server) \<noteq> CHR ''.'' \<and>
   (\<exists>n. n \<noteq> [] \<and> file_name_for server = n @ ''.newsrc'')"
proof -
  define n1 where "n1 = map name_char (chars (to_ascii_lowercase (trim server)))"
  define n2 where "n2 = dropWhile (\<lambda>c. c = CHR ''.'') n1"
  define n3 where "n3 = (if n2 = [] then ''unknown-server'' else n2)"
  have f: "file_name_for server = n3 @ ''.newsrc''"
    by (simp add: file_name_for_def Let_def n1_def n2_def n3_def)
  have ne: "n3 \<noteq> []" and hd: "hd n3 \<noteq> CHR ''.''"
    using hd_dropWhile [of "\<lambda>c. c = CHR ''.''" n1] by (auto simp: n3_def n2_def)
  have "list_all safe_char n2"
    unfolding list_all_iff n2_def n1_def using name_char_safe
    by (metis (mono_tags, lifting) in_set_dropWhileD image_iff set_map)
  moreover have "list_all safe_char ''unknown-server''" "list_all safe_char ''.newsrc''"
    by (simp_all add: safe_char_def is_ascii_lower_def)
  ultimately have "list_all safe_char (file_name_for server)" by (simp add: f n3_def)
  moreover have "hd (file_name_for server) \<noteq> CHR ''.''" using ne hd by (simp add: f)
  ultimately show ?thesis using f ne by blast
qed

text \<open>A group that is not written is one that a lookup makes up with the same contents.\<close>

lemma bt_get_filter:
  "bt_ok m \<Longrightarrow> bt_get g (filter P m) =
     (case bt_get g m of None \<Rightarrow> None | Some e \<Rightarrow> if P (g, e) then Some e else None)"
proof (induction m)
  case (Cons ge m)
  obtain g' e' where ge: "ge = (g', e')" by (cases ge)
  have "bt_get g' m = None" using Cons.prems by (auto simp: ge bt_ok_Cons bt_get_None)
  with Cons show ?case by (auto simp: ge bt_ok_Cons)
qed simp

lemma not_worth_writing:
  "\<not> worth_writing (g, e) \<longleftrightarrow> e = \<lparr>entry_read = rs_new, subscribed = True\<rparr>"
  by (cases e; cases "entry_read e") (auto simp: worth_writing_def rs_is_empty_def rs_new_def)

lemma written_lookup:
  assumes "store_inv s" and "groups s' = filter worth_writing (groups s)"
  shows "store_read_set s' g = store_read_set s g" "entry_or_new g s' = entry_or_new g s"
  using assms(1) not_worth_writing [of g]
  by (auto simp: store_read_set_def entry_or_new_def assms(2) store_inv_def bt_get_filter
      split: option.split)

section \<open>Properties\<close>

definition sample_store :: read_store where
  "sample_store = \<lparr>store_path = [''data'', ''news.example.newsrc''],
     groups = [(''comp.lang.c'', \<lparr>entry_read = \<lparr>ranges = [(1, 5), (7, 7)]\<rparr>, subscribed = True\<rparr>),
               (''misc.test'', \<lparr>entry_read = rs_new, subscribed = False\<rparr>)],
     dirty = True\<rparr>"

lemma sample_store_inv: "store_inv sample_store"
  using sample_set_inv by (simp add: store_inv_def sample_store_def bt_ok_def)

text \<open>C3: the store is a map from group names to sets of read article numbers.  Marking an
  article or a range read or unread, and replacing a set, change exactly that group's set,
  mark the store as changed and keep its invariant.\<close>
theorem store_updates:
  assumes "store_inv s"
  shows "store_inv (mark_read g n s) \<and> dirty (mark_read g n s) \<and>
    store_inv (mark_unread g n s) \<and> dirty (mark_unread g n s) \<and>
    store_inv (mark_range_read g low high s) \<and> dirty (mark_range_read g low high s) \<and>
    (rs_inv r \<longrightarrow> store_inv (set_read g r s) \<and> dirty (set_read g r s)) \<and>
    store_members (mark_read g n s) g' =
      store_members s g' \<union> (if g' = g then {n} - {0} else {}) \<and>
    store_members (mark_unread g n s) g' = store_members s g' - (if g' = g then {n} else {}) \<and>
    store_members (mark_range_read g low high s) g' =
      store_members s g' \<union> (if g' = g then {max (min low high) 1 .. max low high} else {}) \<and>
    store_read_set (set_read g r s) g' = (if g' = g then r else store_read_set s g')"
  using store_read_set_inv [OF assms]
  by (simp add: mark_read_def mark_unread_def mark_range_read_def set_read_def
      store_members_def update_entry_read update_entry_inv [OF assms]
      rs.inv_ins rs.mem_ins rs.inv_del rs.mem_del rs.inv_ins_range rs.mem_ins_range)

theorem store_updates_witness:
  "store_members (mark_read ''misc.test'' 9 sample_store) ''misc.test'' =
     store_members sample_store ''misc.test'' \<union> {9}"
  using store_updates [OF sample_store_inv, of "''misc.test''" 9 0 0 rs_new "''misc.test''"]
  by simp

text \<open>forgetting expired articles removes exactly the numbers below the low watermark
  from the group, leaves every other group alone, keeps the invariant, and marks the
  store as changed exactly when the group's set did change.\<close>
theorem forget_expired_exact:
  assumes "store_inv s" and "1 < low"
  shows "store_inv (forget_expired g low s) \<and>
    store_members (forget_expired g low s) g = store_members s g - {1..<low} \<and>
    (g' \<noteq> g \<longrightarrow> store_read_set (forget_expired g low s) g' = store_read_set s g') \<and>
    (dirty (forget_expired g low s) \<longleftrightarrow>
       dirty s \<or> store_members (forget_expired g low s) g \<noteq> store_members s g)"
proof -
  have members: "store_members (forget_expired g low s) g = store_members s g - {1..<low}"
    using assms by (simp add: store_members_def forget_expired_read remove_range_below store_read_set_inv)
  have "dirty (forget_expired g low s) \<longleftrightarrow>
      dirty s \<or> store_read_set (forget_expired g low s) g \<noteq> store_read_set s g"
  proof (cases "bt_get g (groups s)")
    case None
    with assms show ?thesis by (simp add: forget_expired_def)
  next
    case (Some e)
    let ?r = "rs_remove_range 1 (low - 1) (entry_read e)"
    have "dirty (forget_expired g low s) \<longleftrightarrow>
        dirty s \<or> rs_range_count ?r \<noteq> rs_range_count (entry_read e) \<or> rs_count ?r \<noteq> rs_count (entry_read e)"
      using Some not_le [THEN iffD2, OF assms(2)] by (simp add: forget_expired_def Let_def)
    also have "\<dots> \<longleftrightarrow> dirty s \<or> ?r \<noteq> entry_read e"
      using remove_range_changed [OF store_inv_get [OF assms(1) Some]] by metis
    also have "?r = store_read_set (forget_expired g low s) g"
      using assms Some by (simp add: forget_expired_read) (simp add: store_read_set_def)
    finally show ?thesis using Some by (simp add: store_read_set_def)
  qed
  also have "store_read_set (forget_expired g low s) g \<noteq> store_read_set s g \<longleftrightarrow>
      store_members (forget_expired g low s) g \<noteq> store_members s g"
    using assms(1) members_inj [OF store_read_set_inv store_read_set_inv] forget_expired_inv
    by (metis store_members_def)
  finally show ?thesis
    using assms members by (simp add: forget_expired_inv forget_expired_read)
qed

theorem forget_expired_exact_witness:
  "store_members (forget_expired ''comp.lang.c'' 3 sample_store) ''comp.lang.c'' =
     store_members sample_store ''comp.lang.c'' - {1..<3}"
  using forget_expired_exact [OF sample_store_inv, of 3 "''comp.lang.c''" "[]"] by simp

text \<open>C4: loading never fails and never yields a broken store.  A missing file is an empty
  store without problems; every other way the file system can fail (the size cannot be
  asked for, the file is over the limit, the read itself fails) is an empty store with
  exactly the one problem that says so.  A file that can be read costs only its damaged
  lines: what is read in a group, and whether it is subscribed, is the union of what the
  lines naming it say, and the problems are those of the lines, in order.\<close>
theorem load_recovers:
  "(let (s, problems) = load p metadata content
    in store_inv s \<and> \<not> dirty s \<and> store_path s = p \<and>
      (case metadata of
         Inl e \<Rightarrow> s = store_empty p \<and>
           problems = (if io_not_found e then [] else [Unreadable (io_text e)])
       | Inr octets \<Rightarrow>
           if MAX_STORE_BYTES < octets then s = store_empty p \<and> problems = [TooLarge octets]
           else (case content of
                   Inl e \<Rightarrow> s = store_empty p \<and> problems = [Unreadable (io_text e)]
                 | Inr raw \<Rightarrow>
                     (\<forall>g. store_members s g = (\<Union>l \<in> set (str_lines (lossy raw)). line_read g l) \<and>
                       (subscribed_in (groups s) g \<longleftrightarrow>
                         (\<exists>l \<in> set (str_lines (lossy raw)). line_subscribes g l))) \<and>
                     problems = concat (map line_problems (enumerate 0 (str_lines (lossy raw)))))))"
  using load_inv [of p metadata content]
  by (auto simp: load_def store_members_numbers_in load_text_lines store_empty_def split_beta Let_def
      split: sum.split)

theorem load_recovers_witness:
  "load [] (Inr 9000000) (Inr ''comp.lang.c: 1-5'') = (store_empty [], [TooLarge 9000000]) \<and>
   (\<forall>e. load [] (Inr 16) (Inl e) = (store_empty [], [Unreadable (io_text e)]))"
proof (intro conjI allI)
  show "load [] (Inr 9000000) (Inr ''comp.lang.c: 1-5'') = (store_empty [], [TooLarge 9000000])"
    using load_recovers [of "[]" "Inr 9000000" "Inr ''comp.lang.c: 1-5''"]
    by (auto simp: MAX_STORE_BYTES_def split_beta Let_def prod_eq_iff)
  show "load [] (Inr 16) (Inl e) = (store_empty [], [Unreadable (io_text e)])" for e
    using load_recovers [of "[]" "Inr 16" "Inl e"]
    by (auto simp: MAX_STORE_BYTES_def split_beta Let_def prod_eq_iff)
qed

text \<open>C5: what is saved is what is loaded, for group names the format can carry (without a
  colon or an exclamation mark, and not starting with a hash; \<open>colon_name_lost\<close> below shows
  what happens to the others).  Loading the text of \<open>to_newsrc\<close> from a file within the
  limit reports no problem and yields the groups of the store with their read sets and
  subscription flags.  The groups that are deliberately left out are the subscribed ones
  with nothing read, which the store makes up again when they are asked for: for every
  group, the read set and the entry that later operations work on are those of the saved
  store.\<close>
theorem store_round_trip:
  assumes "store_inv s" and "\<forall>(g, e) \<in> set (groups s). plain_name g" and "octets \<le> MAX_STORE_BYTES"
  shows "\<exists>s'. load p (Inr octets) (Inr (to_newsrc s)) = (s', []) \<and>
    s' = \<lparr>store_path = p, groups = filter worth_writing (groups s), dirty = False\<rparr> \<and>
    (\<forall>g. store_read_set s' g = store_read_set s g \<and> entry_or_new g s' = entry_or_new g s)"
  using load_to_newsrc [OF assms] written_lookup [OF assms(1)] by simp

theorem store_round_trip_witness:
  "store_read_set (fst (load [] (Inr 40) (Inr (to_newsrc sample_store)))) ''comp.lang.c'' =
     store_read_set sample_store ''comp.lang.c''"
proof -
  have "\<forall>(g, e) \<in> set (groups sample_store). plain_name g"
    by (simp add: sample_store_def plain_name_def is_ascii_graphic_def)
  from store_round_trip [OF sample_store_inv this, of 40 "[]"]
  show ?thesis by (auto simp: MAX_STORE_BYTES_def)
qed

text \<open>C6: saving is atomic.  In every file system that can be observed while \<open>save\<close> runs,
  however far it gets and whatever fails, the store's file is either what it was or the
  complete new text, and no file other than it and the temporary one is touched; a save
  that reports an error has left the file as it was, and one that succeeds has written the
  new text and cleared the dirty flag.\<close>
theorem save_atomic:
  assumes "last (store_path s) \<noteq> ''..''" and "save env s f0 = (r, states)"
  shows "(\<forall>f \<in> set states.
      (f (store_path s) = f0 (store_path s) \<or> f (store_path s) = Some (to_newsrc s)) \<and>
      (\<forall>q. q \<notin> {store_path s, with_extension ''newsrc.tmp'' (store_path s)} \<longrightarrow> f q = f0 q)) \<and>
    (case r of
       Inl _ \<Rightarrow> \<forall>f \<in> set states. f (store_path s) = f0 (store_path s)
     | Inr s' \<Rightarrow> s' = s\<lparr>dirty := False\<rparr> \<and> last states (store_path s) = Some (to_newsrc s))"
proof -
  have "case r of Inl _ \<Rightarrow> True
      | Inr s' \<Rightarrow> s' = s\<lparr>dirty := False\<rparr> \<and> last states (store_path s) = Some (to_newsrc s)"
    using assms(2) by (cases rule: save_cases) auto
  with save_atomic_aux [OF assms] show ?thesis by (fastforce split: sum.splits)
qed

theorem save_atomic_witness:
  "last (snd (save \<lparr>mkdir_fails = None, write_fails = Some (''disk full'', 3),
       rename_fails = None\<rparr> sample_store Map.empty)) (store_path sample_store) = None"
proof -
  let ?env = "\<lparr>mkdir_fails = None, write_fails = Some (''disk full'', 3), rename_fails = None\<rparr>"
  obtain r fs where r: "save ?env sample_store Map.empty = (r, fs)" by fastforce
  have l: "last (store_path sample_store) \<noteq> ''..''" by (simp add: sample_store_def)
  have "fs \<noteq> []" "\<exists>e. r = Inl e"
    using r by (auto simp: save_def sample_store_def path_parent_def Let_def)
  with save_atomic [OF l r] r show ?thesis by auto
qed

text \<open>C10: the file name made for a server, from any text at all, consists of lower case
  letters, digits, dots, dashes and underscores only, so it holds no path separator, does
  not start with a dot, and is a non-empty name with the extension \<open>.newsrc\<close>.\<close>
theorem file_name_for_safe:
  "list_all safe_char (file_name_for server) \<and> hd (file_name_for server) \<noteq> CHR ''.'' \<and>
   CHR ''/'' \<notin> set (file_name_for server) \<and> CHR 0x5C \<notin> set (file_name_for server) \<and>
   (\<exists>n. n \<noteq> [] \<and> file_name_for server = n @ ''.newsrc'')"
proof -
  have "CHR ''/'' \<notin> set (file_name_for server)" "CHR 0x5C \<notin> set (file_name_for server)"
    using file_name_safe [of server]
    by (auto simp: list_all_iff safe_char_def is_ascii_lower_def is_ascii_digit_def)
  with file_name_safe [of server] show ?thesis by blast
qed

text \<open>A group name may contain a colon (\<open>GroupName::parse\<close> accepts it), and such a group does
  not survive being saved and loaded.\<close>

lemma colon_name_lost:
  "let s = mark_read ''a:b'' 7 (store_empty [''d'', ''n'']) in
   store_members s ''a:b'' = {7} \<and>
   bt_get ''a:b'' (groups (fst (load [] (Inr 7) (Inr (to_newsrc s))))) = None"
proof -
  define s where "s = mark_read ''a:b'' 7 (store_empty [''d'', ''n''])"
  have gs: "groups s = [(''a:b'', \<lparr>entry_read = \<lparr>ranges = [(7, 7)]\<rparr>, subscribed = True\<rparr>)]"
    by (simp add: s_def mark_read_def update_entry_def entry_or_new_def store_empty_def
        rs_insert_def rs_insert_range_def rs_new_def partition_point_def vec_insert_def)
  then have "to_newsrc s = ''a:b: 7'' @ [LF]"
    by (simp add: to_newsrc_def worth_writing_def rs_is_empty_def newsrc_line_def rs_display_def
        show_range_def u64_to_string_def dec.simps char_of_def bit_0)
  then have fl: "to_newsrc s = concat (map (\<lambda>l. l @ [LF]) [''a:b: 7''])" by simp
  have ascii: "list_all is_ascii (to_newsrc s)" unfolding fl by (simp add: is_ascii_def)
  have lines: "str_lines (to_newsrc s) = [''a:b: 7'']"
    unfolding fl by (rule str_lines_concat) auto
  have trim: "trim ''a:b: 7'' = ''a:b: 7''" "trim ''a'' = ''a''"
    by (rule trim_graphic_ends; simp add: solid_def is_ascii_graphic_def)+
  have "split_line ''a:b: 7'' = Some (''a'', True, ''b: 7'')"
    by (simp add: split_line_def Let_def trim)
  then have "bt_get ''a:b'' (fst (load_line (0, ''a:b: 7'') ([], []))) = None"
    by (simp add: load_line_def trim Let_def split_beta starts_with_def)
  then have "bt_get ''a:b'' (groups (fst (load [] (Inr 7) (Inr (to_newsrc s))))) = None"
    by (simp add: load_def MAX_STORE_BYTES_def load_text_def lines lossy_ascii [OF ascii]
        Let_def split_beta)
  moreover have "store_members s ''a:b'' = {7}"
    by (auto simp: store_members_def store_read_set_def gs members_def)
  ultimately show ?thesis by (simp add: s_def Let_def)
qed

end
