(* ===== verification/Libs.thy ===== *)
theory Libs
  imports Rust_Str
begin

text \<open>
  The third-party crates that the modelled code calls, as one record of parameters:
  \<open>memchr\<close>, \<open>encoding_rs\<close>, \<open>base64\<close> and \<open>chrono\<close>.  Every definition that reaches one of them takes
  the record as an argument, and a property that relies on a crate names the documented
  behaviour it relies on as a hypothesis, one predicate per crate function below.
\<close>

text \<open>
  The values of \<open>chrono\<close>: a \<open>NaiveDate\<close> is a day number, a \<open>NaiveDateTime\<close> a second on that
  count, a \<open>DateTime<Utc>\<close> an instant in seconds since the epoch, a \<open>FixedOffset\<close> seconds
  east, and a \<open>DateTime<FixedOffset>\<close> an instant with its offset.  Which numbers they are is
  up to the functions below.
\<close>

type_synonym datetime = int
type_synonym offset_datetime = "int \<times> int"

record libs =
  memchr :: "char \<Rightarrow> bytes \<Rightarrow> nat option"
  windows_1252 :: "bytes \<Rightarrow> string"
  for_label :: "bytes \<Rightarrow> (bytes \<Rightarrow> string) option"
  base64_encode :: "bytes \<Rightarrow> string"
  base64_lenient :: "bytes \<Rightarrow> bytes option"
  base64_standard :: "bytes \<Rightarrow> bytes option"
  chrono_format :: "string \<Rightarrow> datetime \<Rightarrow> string"
  from_ymd_opt :: "int \<Rightarrow> nat \<Rightarrow> nat \<Rightarrow> int option"
  and_hms_opt :: "int \<Rightarrow> nat \<Rightarrow> nat \<Rightarrow> nat \<Rightarrow> int option"
  east_opt :: "int \<Rightarrow> int option"
  from_local_single :: "int \<Rightarrow> int \<Rightarrow> offset_datetime option"
  from_timestamp :: "int \<Rightarrow> datetime option"

text \<open>\<open>memchr::memchr\<close>: the index of the first occurrence.\<close>

definition first_index :: "char \<Rightarrow> bytes \<Rightarrow> nat option" where
  "first_index b s =
     (if b \<in> set s then Some (length (takeWhile (\<lambda>c. c \<noteq> b) s)) else None)"

definition memchr_ok :: "libs \<Rightarrow> bool" where
  "memchr_ok L \<longleftrightarrow> memchr L = first_index"

text \<open>\<open>encoding_rs\<close>: the label UTF-8, in any case, is known, and its decoder returns text
  that is already valid UTF-8 (and has no byte order mark) as it is.\<close>

definition utf8_label_ok :: "libs \<Rightarrow> bool" where
  "utf8_label_ok L \<longleftrightarrow>
     (\<exists>d. for_label L ''UTF-8'' = Some d \<and>
        (\<forall>s. utf8_valid s \<longrightarrow> \<not> starts_with [CHR 0xEF, CHR 0xBB, CHR 0xBF] s \<longrightarrow> d s = s))"

text \<open>\<open>base64\<close>: the standard encoder uses the standard alphabet with padding, produces four
  characters for every three octets begun, and both decoders invert it.\<close>

definition base64_char :: "char \<Rightarrow> bool" where
  "base64_char c \<longleftrightarrow> is_ascii_alphabetic c \<or> is_ascii_digit c \<or>
     c \<in> {CHR ''+'', CHR ''/'', CHR ''=''}"

definition base64_ok :: "libs \<Rightarrow> bool" where
  "base64_ok L \<longleftrightarrow>
     (\<forall>s. list_all base64_char (base64_encode L s) \<and>
          length (base64_encode L s) = 4 * ((length s + 2) div 3) \<and>
          base64_lenient L (base64_encode L s) = Some s)"

lemma first_index_append: "b \<notin> set p \<Longrightarrow> first_index b (p @ b # s) = Some (length p)"
proof -
  assume "b \<notin> set p"
  then have "takeWhile (\<lambda>c. c \<noteq> b) (p @ b # s) = p @ takeWhile (\<lambda>c. c \<noteq> b) (b # s)"
    by (intro takeWhile_append2) auto
  then show ?thesis by (simp add: first_index_def)
qed

lemma first_index_Some:
  assumes "first_index b s = Some i"
  obtains p r where "s = p @ b # r" "length p = i" "b \<notin> set p"
proof -
  have "b \<in> set s" using assms by (simp add: first_index_def split: if_splits)
  then obtain p r where s: "s = p @ b # r" "b \<notin> set p" by (metis split_list_first)
  with assms first_index_append [OF s(2), of r] that show ?thesis by simp
qed

lemma first_index_None_iff: "first_index b s = None \<longleftrightarrow> b \<notin> set s"
  by (simp add: first_index_def)

end
