(* ===== verification/Sample_Libs.thy ===== *)
theory Sample_Libs
  imports Libs
begin

text \<open>
  A concrete instance of the third-party parameters, on which the witnesses of the
  properties run: byte search, base64 (RFC 4648) and a charset library that knows UTF-8
  and reads everything else as Latin-1.
\<close>

definition b64_char :: "nat \<Rightarrow> char" where
  "b64_char n =
     (if n < 26 then char_of (65 + n) else if n < 52 then char_of (71 + n)
      else if n < 62 then char_of (n - 4) else if n = 62 then CHR ''+'' else CHR ''/'')"

definition b64_val :: "char \<Rightarrow> nat" where
  "b64_val c =
     (if is_ascii_upper c then code c - 65 else if is_ascii_lower c then code c - 71
      else if is_ascii_digit c then code c + 4 else if c = CHR ''+'' then 62 else 63)"

fun b64_encode :: "bytes \<Rightarrow> string" where
  "b64_encode [] = []"
| "b64_encode [a] = [b64_char (code a div 4), b64_char (code a mod 4 * 16), CHR ''='', CHR ''='']"
| "b64_encode [a, b] =
     [b64_char (code a div 4), b64_char (code a mod 4 * 16 + code b div 16),
      b64_char (code b mod 16 * 4), CHR ''='']"
| "b64_encode (a # b # c # s) =
     b64_char (code a div 4) # b64_char (code a mod 4 * 16 + code b div 16) #
     b64_char (code b mod 16 * 4 + code c div 64) # b64_char (code c mod 64) # b64_encode s"

fun b64_decode :: "string \<Rightarrow> bytes option" where
  "b64_decode [] = Some []"
| "b64_decode (w # x # y # z # s) =
     (let a = char_of (b64_val w * 4 + b64_val x div 16);
          b = char_of (b64_val x mod 16 * 16 + b64_val y div 4);
          c = char_of (b64_val y mod 4 * 64 + b64_val z)
      in if \<not> list_all base64_char [w, x, y, z] then None
         else if y = CHR ''='' then (if s = [] then Some [a] else None)
         else if z = CHR ''='' then (if s = [] then Some [a, b] else None)
         else map_option (\<lambda>r. a # b # c # r) (b64_decode s))"
| "b64_decode s = None"

lemma b64_val_char: "n < 64 \<Longrightarrow> b64_val (b64_char n) = n"
  by (auto simp: b64_val_def b64_char_def ascii_defs)

lemma b64_char_ok: "n < 64 \<Longrightarrow> base64_char (b64_char n)"
  by (auto simp: base64_char_def b64_char_def ascii_defs)

lemma b64_char_pad: "n < 64 \<Longrightarrow> b64_char n \<noteq> CHR ''=''"
proof
  assume "n < 64" "b64_char n = CHR ''=''"
  then have "code (b64_char n) = 61" by simp
  with \<open>n < 64\<close> show False by (auto simp: b64_char_def split: if_splits)
qed

lemma code_div: "code a div 4 < 64" "code a div 16 < 16" "code a div 64 < 4"
  using code_lt_256 [of a] by (simp_all add: less_mult_imp_div_less)

lemma code_div_more: "code a div 16 div 16 = 0" "code a div 16 mod 16 = code a div 16"
  "code a div 64 div 4 = 0" "code a div 64 mod 4 = code a div 64"
  using code_div [of a] by simp_all

lemma sextets: "code a mod 4 * 16 + code b div 16 < 64"
  "code b mod 16 * 4 + code c div 64 < 64" "code a mod 4 * 16 < 64" "code b mod 16 * 4 < 64"
proof -
  have "code a mod 4 < 4" "code b mod 16 < 16" by simp_all
  then show "code a mod 4 * 16 + code b div 16 < 64"
    "code b mod 16 * 4 + code c div 64 < 64" "code a mod 4 * 16 < 64" "code b mod 16 * 4 < 64"
    using code_div [of b] code_div [of c] by linarith+
qed

lemma b64_chars: "list_all base64_char (b64_encode s)"
  by (induction s rule: b64_encode.induct)
     (simp_all add: b64_char_ok sextets code_div del: One_nat_def, simp_all add: base64_char_def)

lemma b64_length: "length (b64_encode s) = 4 * ((length s + 2) div 3)"
proof (induction s rule: b64_encode.induct)
  case (4 a b c s)
  have "(length (a # b # c # s) + 2) div 3 = (length s + 2) div 3 + 1"
    using div_add_self2 [of 3 "length s + 2"] by (simp add: add.commute)
  with 4 show ?case by simp
qed simp_all

lemma b64_decode_encode: "b64_decode (b64_encode s) = Some s"
  by (induction s rule: b64_encode.induct)
     (simp_all add: b64_char_ok b64_char_pad sextets code_div b64_val_char code_div_more Let_def base64_char_def [of "CHR ''=''"])

text \<open>Days and seconds of the proleptic Gregorian calendar.\<close>

definition days_before :: "int \<Rightarrow> int" where
  "days_before y = 365 * (y - 1) + (y - 1) div 4 - (y - 1) div 100 + (y - 1) div 400"

definition leap :: "int \<Rightarrow> bool" where
  "leap y \<longleftrightarrow> y mod 4 = 0 \<and> (y mod 100 \<noteq> 0 \<or> y mod 400 = 0)"

definition month_lengths :: "int \<Rightarrow> nat list" where
  "month_lengths y = [31, if leap y then 29 else 28, 31, 30, 31, 30, 31, 31, 30, 31, 30, 31]"

definition gregorian :: "int \<Rightarrow> nat \<Rightarrow> nat \<Rightarrow> int option" where
  "gregorian y m d =
     (if 1 \<le> m \<and> m \<le> 12 \<and> 1 \<le> d \<and> d \<le> month_lengths y ! (m - 1)
      then Some (days_before y + int (sum_list (take (m - 1) (month_lengths y))) + int d - 719163)
      else None)"

definition clock :: "int \<Rightarrow> nat \<Rightarrow> nat \<Rightarrow> nat \<Rightarrow> int option" where
  "clock day h m s =
     (if h < 24 \<and> m < 60 \<and> s < 60 then Some (86400 * day + 3600 * int h + 60 * int m + int s)
      else None)"

definition sample_libs :: libs where
  "sample_libs =
     \<lparr>memchr = first_index, windows_1252 = concat \<circ> map (\<lambda>c.
        if is_ascii c then [c] else [char_of (0xC0 + code c div 64), char_of (0x80 + code c mod 64)]),
      for_label = (\<lambda>l. if eq_ignore_ascii_case l ''UTF-8'' then Some lossy else None),
      base64_encode = b64_encode, base64_lenient = b64_decode, base64_standard = b64_decode,
      chrono_format = (\<lambda>_ _. ''NEWGROUPS 20260101 000000 GMT''),
      from_ymd_opt = gregorian, and_hms_opt = clock,
      east_opt = (\<lambda>o'. if - 86400 < o' \<and> o' < 86400 then Some o' else None),
      from_local_single = (\<lambda>off naive. Some (naive - off, off)),
      from_timestamp = Some\<rparr>"

lemma sample_libs_ok:
  "memchr_ok sample_libs" "utf8_label_ok sample_libs" "base64_ok sample_libs"
  by (simp_all add: sample_libs_def memchr_ok_def utf8_label_ok_def base64_ok_def lossy_valid
      b64_chars b64_length b64_decode_encode)

end
