(* ===== verification/Mime.thy ===== *)
theory Mime
  imports Sample_Libs "HOL-Library.Monad_Syntax"
begin

text \<open>
  \<open>crates/nntp-proto/src/mime.rs\<close>: decoding and encoding of header text (RFC 2047 encoded
  words), of unlabelled 8-bit text, and of quoted-printable and base64 bodies.  The
  scanning loops, which the code writes with an index into the input, are recursions on
  what is left of the input.
\<close>

section \<open>Charsets\<close>

definition decode_8bit_lossy :: "libs \<Rightarrow> bytes \<Rightarrow> string" where
  "decode_8bit_lossy L s = (if utf8_valid s then s else windows_1252 L s)"

lemma lossy_8bit_ascii: "list_all is_ascii s \<Longrightarrow> decode_8bit_lossy L s = s"
  by (simp add: decode_8bit_lossy_def utf8_valid_ascii)

definition trim_quotes :: "string \<Rightarrow> string" where
  "trim_quotes s =
     rev (dropWhile (\<lambda>c. c = CHR 0x22) (rev (dropWhile (\<lambda>c. c = CHR 0x22) s)))"

definition decode_with_charset :: "libs \<Rightarrow> bytes \<Rightarrow> string \<Rightarrow> string" where
  "decode_with_charset L s label =
     (let label = trim_quotes (trim (takeWhile (\<lambda>c. c \<noteq> CHR ''*'') label))
      in case for_label L label of Some decode \<Rightarrow> decode s | None \<Rightarrow> decode_8bit_lossy L s)"

section \<open>Encoded words\<close>

definition hex_value :: "char \<Rightarrow> nat option" where
  "hex_value b =
     (if is_ascii_digit b then Some (code b - 48)
      else if 97 \<le> code b \<and> code b \<le> 102 then Some (code b - 97 + 10)
      else if 65 \<le> code b \<and> code b \<le> 70 then Some (code b - 65 + 10)
      else None)"

fun decode_q :: "bytes \<Rightarrow> bytes" where
  "decode_q [] = []"
| "decode_q (b # s) =
     (if b = CHR ''_'' then SP # decode_q s
      else if b = CHR ''='' then
        (case s of
           [] \<Rightarrow> [b]
         | [hi] \<Rightarrow> [b, hi]
         | hi # lo # t \<Rightarrow>
             (case (hex_value hi, hex_value lo) of
                (Some h, Some l) \<Rightarrow> char_of (h * 16 + l) # decode_q t
              | _ \<Rightarrow> b # hi # lo # decode_q t))
      else b # decode_q s)"

definition decode_b :: "libs \<Rightarrow> bytes \<Rightarrow> bytes option" where
  "decode_b L s = (case base64_lenient L s of Some r \<Rightarrow> Some r | None \<Rightarrow> base64_standard L s)"

fun find_subsequence :: "bytes \<Rightarrow> bytes \<Rightarrow> nat option" where
  "find_subsequence [] needle = (if needle = [] then Some 0 else None)"
| "find_subsequence (c # s) needle =
     (if starts_with needle (c # s) then Some 0 else map_option Suc (find_subsequence s needle))"

definition parse_encoded_word :: "libs \<Rightarrow> bytes \<Rightarrow> (string \<times> nat) option" where
  "parse_encoded_word L input = do {
     after_prefix \<leftarrow> strip_prefix ''=?'' input;
     charset_len \<leftarrow> position (\<lambda>b. b = CHR ''?'') after_prefix;
     let charset = take charset_len after_prefix;
     if charset = [] \<or> list_ex is_ascii_whitespace charset then None
     else (case drop (charset_len + 1) after_prefix of
        [] \<Rightarrow> None
      | encoding # after_encoding \<Rightarrow>
          (case after_encoding of
             [] \<Rightarrow> None
           | q # encoded_text_start \<Rightarrow>
               if q \<noteq> CHR ''?'' then None
               else do {
                 text_len \<leftarrow> find_subsequence encoded_text_start ''?='';
                 let encoded_text = take text_len encoded_text_start;
                 if list_ex is_ascii_whitespace encoded_text then None
                 else do {
                   raw \<leftarrow> (if encoding \<in> {CHR ''q'', CHR ''Q''} then Some (decode_q encoded_text)
                           else if encoding \<in> {CHR ''b'', CHR ''B''} then decode_b L encoded_text
                           else None);
                   if utf8_valid charset
                   then Some (decode_with_charset L raw charset,
                              2 + length charset + 1 + 1 + 1 + text_len + 2)
                   else None
                 }
               }))
   }"

datatype piece = Encoded string | Literal bytes

definition is_blank :: "bytes \<Rightarrow> bool" where
  "is_blank raw \<longleftrightarrow> raw \<noteq> [] \<and> list_all (\<lambda>b. b \<in> {SP, TAB, CR, LF}) raw"

definition is_encoded :: "piece \<Rightarrow> bool" where
  "is_encoded p = (case p of Encoded _ \<Rightarrow> True | Literal _ \<Rightarrow> False)"

definition between_encoded_words :: "piece list \<Rightarrow> nat \<Rightarrow> bool" where
  "between_encoded_words pieces index =
     (let before = (if index = 0 then False
                    else case get_opt pieces (index - 1) of None \<Rightarrow> False | Some p \<Rightarrow> is_encoded p);
          after = (case get_opt pieces (index + 1) of None \<Rightarrow> False | Some p \<Rightarrow> is_encoded p)
      in before \<and> after)"

lemma parse_encoded_word_pos: "parse_encoded_word L s = Some (d, n) \<Longrightarrow> 0 < n"
  by (auto simp: parse_encoded_word_def Let_def
      split: Option.bind_split_asm list.split_asm if_split_asm)

text \<open>The loop of \<open>split_encoded_words\<close>; \<open>lit\<close> is the literal run before the cursor.\<close>

definition flush_literal :: "bytes \<Rightarrow> piece list" where
  "flush_literal lit = (if lit = [] then [] else [Literal lit])"

function split_words_loop :: "libs \<Rightarrow> bytes \<Rightarrow> bytes \<Rightarrow> piece list" where
  "split_words_loop L lit [] = flush_literal lit"
| "split_words_loop L lit (b # s) =
     (if \<not> starts_with ''=?'' (b # s) then split_words_loop L (lit @ [b]) s
      else (case parse_encoded_word L (b # s) of
              Some (decoded, consumed) \<Rightarrow>
                flush_literal lit @ Encoded decoded # split_words_loop L [] (drop consumed (b # s))
            | None \<Rightarrow> split_words_loop L (lit @ [b]) s))"
  by pat_completeness auto
termination
  by (relation "measure (\<lambda>(L, lit, s). length s)") (auto dest!: parse_encoded_word_pos)

definition split_encoded_words :: "libs \<Rightarrow> bytes \<Rightarrow> piece list" where
  "split_encoded_words L s = split_words_loop L [] s"

definition render_piece :: "libs \<Rightarrow> piece list \<Rightarrow> nat \<Rightarrow> string" where
  "render_piece L pieces index =
     (case pieces ! index of
        Encoded txt \<Rightarrow> txt
      | Literal raw \<Rightarrow>
          if is_blank raw \<and> between_encoded_words pieces index then []
          else decode_8bit_lossy L raw)"

definition decode_header_value :: "libs \<Rightarrow> bytes \<Rightarrow> string" where
  "decode_header_value L s =
     (let pieces = split_encoded_words L s
      in concat (map (render_piece L pieces) [0..<length pieces]))"

definition BYTES_PER_WORD :: nat where
  "BYTES_PER_WORD = 45"

text \<open>The chunking loop: the finished words and the chunk being filled.\<close>

definition chunk_step :: "string \<Rightarrow> bytes list \<times> bytes \<Rightarrow> bytes list \<times> bytes" where
  "chunk_step encoded = (\<lambda>(words, chunk).
     if length chunk + length encoded > BYTES_PER_WORD then (words @ [chunk], encoded)
     else (words, chunk @ encoded))"

definition encode_chunks :: "string \<Rightarrow> bytes list" where
  "encode_chunks v =
     (let (words, chunk) = fold chunk_step (chars v) ([], [])
      in if chunk = [] then words else words @ [chunk])"

definition encode_word :: "libs \<Rightarrow> bytes \<Rightarrow> string" where
  "encode_word L chunk = ''=?UTF-8?B?'' @ base64_encode L chunk @ ''?=''"

definition encode_header_value :: "libs \<Rightarrow> string \<Rightarrow> string" where
  "encode_header_value L v =
     (if list_all is_ascii v then v else join '' '' (map (encode_word L) (encode_chunks v)))"

section \<open>Bodies\<close>

definition trim_trailing_blanks :: "bytes \<Rightarrow> nat \<Rightarrow> bytes" where
  "trim_trailing_blanks out protected =
     take protected out @
     rev (dropWhile (\<lambda>b. b = SP \<or> b = TAB) (rev (drop protected out)))"

function qp_loop :: "bytes \<Rightarrow> bytes \<Rightarrow> nat \<Rightarrow> bytes" where
  "qp_loop [] out protected = out"
| "qp_loop (b # s) out protected =
     (if b = CHR ''='' then
        (case s of
           [] \<Rightarrow> qp_loop [] out protected
         | hi # t \<Rightarrow>
             if hi = CR \<and> t \<noteq> [] \<and> hd t = LF then qp_loop (tl t) out protected
             else if hi = LF then qp_loop t out protected
             else (case t of
                     [] \<Rightarrow> qp_loop [] (out @ [b, hi]) protected
                   | lo # u \<Rightarrow>
                       (case (hex_value hi, hex_value lo) of
                          (Some h, Some l) \<Rightarrow>
                            qp_loop u (out @ [char_of (h * 16 + l)]) (length out + 1)
                        | _ \<Rightarrow> qp_loop s (out @ [b]) protected)))
      else if b = CR \<and> s \<noteq> [] \<and> hd s = LF then
        (let out' = trim_trailing_blanks out protected @ [CR, LF]
         in qp_loop (tl s) out' (length out'))
      else if b = LF then
        (let out' = trim_trailing_blanks out protected @ [LF] in qp_loop s out' (length out'))
      else qp_loop s (out @ [b]) protected)"
  by pat_completeness auto
termination
  by (relation "measure (\<lambda>(s, out, protected). length s)") (auto simp: less_Suc_eq_le)

definition decode_quoted_printable :: "bytes \<Rightarrow> bytes" where
  "decode_quoted_printable s = qp_loop s [] 0"

definition decode_base64 :: "libs \<Rightarrow> bytes \<Rightarrow> bytes option" where
  "decode_base64 L s = decode_b L (filter (\<lambda>b. \<not> is_ascii_whitespace b) s)"


section \<open>Encoded words round trip\<close>

definition bom :: bytes where
  "bom = [CHR 0xEF, CHR 0xBB, CHR 0xBF]"

lemma base64_char_props:
  "base64_char c \<Longrightarrow> c \<noteq> CHR ''?'' \<and> \<not> is_ascii_whitespace c \<and> is_ascii_graphic c"
  by (auto simp: base64_char_def ascii_defs)

lemma find_subsequence_append:
  assumes "CHR ''?'' \<notin> set p"
  shows "find_subsequence (p @ CHR ''?'' # CHR ''='' # rest) ''?='' = Some (length p)"
  using assms by (induction p) (auto simp: starts_with_def)

lemma decode_with_charset_utf8:
  assumes "utf8_label_ok L" and "utf8_valid c" and "\<not> starts_with bom c"
  shows "decode_with_charset L c ''UTF-8'' = c"
proof -
  have "trim ''UTF-8'' = ''UTF-8''"
    by (rule trim_graphic) (simp add: is_ascii_graphic_def)
  with assms show ?thesis
    by (auto simp: decode_with_charset_def trim_quotes_def utf8_label_ok_def bom_def)
qed

lemma parse_encode_word:
  assumes b64: "base64_ok L" and u8: "utf8_label_ok L" and c: "utf8_valid c" "\<not> starts_with bom c"
  shows "parse_encoded_word L (encode_word L c @ rest) = Some (c, length (encode_word L c))"
proof -
  let ?e = "base64_encode L c"
  have chars: "list_all base64_char ?e" and dec: "base64_lenient L ?e = Some c"
    using b64 by (auto simp: base64_ok_def)
  have q: "CHR ''?'' \<notin> set ?e" and ws: "\<not> list_ex is_ascii_whitespace ?e"
    using chars by (auto simp: list_all_iff list_ex_iff dest!: base64_char_props)
  have prefix: "strip_prefix ''=?'' (encode_word L c @ rest) =
      Some (''UTF-8'' @ CHR ''?'' # CHR ''B'' # CHR ''?'' # ?e @ CHR ''?'' # CHR ''='' # rest)"
    by (simp add: strip_prefix_Some_iff encode_word_def)
  have pos: "position (\<lambda>b. b = CHR ''?'')
      (''UTF-8'' @ CHR ''?'' # CHR ''B'' # CHR ''?'' # ?e @ CHR ''?'' # CHR ''='' # rest) = Some (length ''UTF-8'')"
    by (subst position_append) auto
  have ws8: "\<not> list_ex is_ascii_whitespace ''UTF-8''" by (simp add: is_ascii_whitespace_def)
  have v8: "utf8_valid ''UTF-8''" by (rule utf8_valid_ascii) (simp add: is_ascii_def)
  have len: "length (encode_word L c) = 12 + length ?e" by (simp add: encode_word_def)
  show ?thesis
    unfolding parse_encoded_word_def prefix len
    using pos ws8 v8 ws find_subsequence_append [OF q, of rest] dec decode_with_charset_utf8 [OF u8 c]
    by (simp add: decode_b_def)
qed

lemma starts_with_encode_word: "starts_with ''=?'' (encode_word L c @ rest)"
  by (simp add: starts_with_def encode_word_def)

lemma split_loop_word:
  assumes "base64_ok L" "utf8_label_ok L" "utf8_valid c" "\<not> starts_with bom c"
  shows "split_words_loop L lit (encode_word L c @ rest) =
    flush_literal lit @ Encoded c # split_words_loop L [] rest"
proof -
  obtain b s where bs: "encode_word L c @ rest = b # s" by (simp add: encode_word_def)
  have "drop (length (encode_word L c)) (b # s) = rest" by (metis append_eq_conv_conj bs)
  then show ?thesis
    using parse_encode_word [OF assms, of rest] starts_with_encode_word [of L c rest]
    unfolding bs by simp
qed

lemma split_loop_space:
  "split_words_loop L [] (SP # s) = split_words_loop L [SP] s"
  by (simp add: starts_with_def)

text \<open>The pieces that a joined list of encoded words splits into.\<close>

fun word_pieces :: "string list \<Rightarrow> piece list" where
  "word_pieces [] = []"
| "word_pieces [c] = [Encoded c]"
| "word_pieces (c # d # cs) = Encoded c # Literal [SP] # word_pieces (d # cs)"

lemma split_join_words:
  assumes "base64_ok L" "utf8_label_ok L"
    and "\<And>c. c \<in> set cs \<Longrightarrow> utf8_valid c \<and> \<not> starts_with bom c" and "cs \<noteq> []"
  shows "split_words_loop L lit (join '' '' (map (encode_word L) cs)) = flush_literal lit @ word_pieces cs"
  using assms(3,4)
proof (induction cs arbitrary: lit rule: word_pieces.induct)
  case (2 c)
  then show ?case
    using split_loop_word [OF assms(1,2), of c lit "[]"] by (simp add: flush_literal_def)
next
  case (3 c d cs)
  have "split_words_loop L lit (join '' '' (map (encode_word L) (c # d # cs))) =
      flush_literal lit @ Encoded c #
        split_words_loop L [SP] (join '' '' (map (encode_word L) (d # cs)))"
    using split_loop_word [OF assms(1,2), of c lit] "3.prems"
    by (simp add: split_loop_space del: split_words_loop.simps)
  with 3 show ?case by (simp add: flush_literal_def)
qed simp

text \<open>Rendering by index is rendering left to right with one piece of look-behind.\<close>

fun render_from :: "libs \<Rightarrow> bool \<Rightarrow> piece list \<Rightarrow> string" where
  "render_from L prev [] = []"
| "render_from L prev (Encoded t # ps) = t @ render_from L True ps"
| "render_from L prev (Literal r # ps) =
     (if is_blank r \<and> prev \<and> ps \<noteq> [] \<and> is_encoded (hd ps) then [] else decode_8bit_lossy L r) @
     render_from L False ps"

lemma between_append:
  "between_encoded_words (xs @ p # ps) (length xs) \<longleftrightarrow>
     xs \<noteq> [] \<and> is_encoded (last xs) \<and> ps \<noteq> [] \<and> is_encoded (hd ps)"
proof -
  have "get_opt (xs @ p # ps) (length xs - 1) = Some (last xs)" if "xs \<noteq> []"
    using that by (simp add: get_opt_def nth_append last_conv_nth)
  moreover have "get_opt (xs @ p # ps) (length xs + 1) = (if ps = [] then None else Some (hd ps))"
    by (auto simp: get_opt_def nth_append hd_conv_nth)
  ultimately show ?thesis by (auto simp: between_encoded_words_def)
qed

lemma render_index:
  "concat (map (render_piece L (xs @ ps)) [length xs..<length xs + length ps]) =
   render_from L (xs \<noteq> [] \<and> is_encoded (last xs)) ps"
proof (induction ps arbitrary: xs)
  case (Cons p ps)
  have step: "concat (map (render_piece L (xs @ p # ps)) [length xs..<length xs + length (p # ps)]) =
      render_piece L (xs @ p # ps) (length xs) @ render_from L (is_encoded p) ps"
    using Cons [of "xs @ [p]"] by (simp add: upt_rec)
  show ?case
    unfolding step
    by (cases p) (auto simp: render_piece_def between_append is_encoded_def)
qed simp

lemma decode_render: "decode_header_value L s = render_from L False (split_encoded_words L s)"
  using render_index [of L "[]" "split_encoded_words L s"]
  by (simp add: decode_header_value_def Let_def)

lemma render_word_pieces: "render_from L prev (word_pieces cs) = concat cs"
proof (induction cs arbitrary: prev rule: word_pieces.induct)
  case (3 c d cs)
  have "word_pieces (d # cs) \<noteq> [] \<and> is_encoded (hd (word_pieces (d # cs)))"
    by (cases cs) (simp_all add: is_encoded_def)
  with 3 show ?case by (simp add: is_blank_def)
qed simp_all

text \<open>What the chunking loop keeps.\<close>

definition word_chunk :: "bytes \<Rightarrow> bool" where
  "word_chunk w \<longleftrightarrow> length w \<le> BYTES_PER_WORD \<and> utf8_valid w \<and> \<not> starts_with bom w"

lemma starts_with_bom: "starts_with bom s \<longleftrightarrow> (\<exists>r. s = CHR 0xEF # CHR 0xBB # CHR 0xBF # r)"
  by (cases s; cases "tl s"; cases "tl (tl s)") (auto simp: starts_with_def bom_def)

lemma bom_step: "utf8_step (CHR 0xEF # r) = (True, n) \<Longrightarrow> n = 3 \<and> 2 \<le> length r"
  by (auto simp: utf8_step.simps utf8_width_def split: list.splits if_splits)

lemma bom_append:
  assumes "utf8_valid a" and "a \<noteq> []" and "starts_with bom (a @ b)"
  shows "starts_with bom a"
proof -
  obtain r where r: "a @ b = CHR 0xEF # CHR 0xBB # CHR 0xBF # r"
    using assms(3) by (auto simp: starts_with_bom)
  obtain c u where cu: "a = c # u" using assms(2) by (cases a) auto
  then have c: "c = CHR 0xEF" using r by simp
  obtain ok n where st: "utf8_step a = (ok, n)" by fastforce
  with assms(1) cu have "ok" by simp
  with st cu c have "2 \<le> length u" using bom_step [of u n] by simp
  with r cu c show ?thesis
    by (cases u; cases "tl u") (auto simp: starts_with_bom)
qed

lemma chunk_fold:
  assumes "\<And>x. x \<in> set xs \<Longrightarrow> x \<noteq> [] \<and> length x \<le> 4 \<and> utf8_valid x \<and> \<not> starts_with bom x"
    and "fold chunk_step xs (ws, ch) = (ws', ch')"
    and "\<And>w. w \<in> set ws \<Longrightarrow> word_chunk w" and "word_chunk ch"
  shows "concat ws' @ ch' = concat ws @ ch @ concat xs \<and>
    (\<forall>w \<in> set ws'. word_chunk w) \<and> word_chunk ch'"
  using assms
proof (induction xs arbitrary: ws ch)
  case (Cons x xs)
  have x: "x \<noteq> []" "length x \<le> 4" "utf8_valid x" "\<not> starts_with bom x" using Cons.prems(1) by simp_all
  show ?case
  proof (cases "length ch + length x > BYTES_PER_WORD")
    case True
    then have "chunk_step x (ws, ch) = (ws @ [ch], x)" by (simp add: chunk_step_def)
    then have "fold chunk_step xs (ws @ [ch], x) = (ws', ch')" using Cons.prems(2) by simp
    moreover have "word_chunk x" using x by (simp add: word_chunk_def BYTES_PER_WORD_def)
    ultimately have "concat ws' @ ch' = concat (ws @ [ch]) @ x @ concat xs \<and>
        (\<forall>w \<in> set ws'. word_chunk w) \<and> word_chunk ch'"
      using Cons.prems by (intro Cons.IH) auto
    then show ?thesis by simp
  next
    case False
    then have "chunk_step x (ws, ch) = (ws, ch @ x)" by (simp add: chunk_step_def)
    then have "fold chunk_step xs (ws, ch @ x) = (ws', ch')" using Cons.prems(2) by simp
    moreover have "\<not> starts_with bom (ch @ x)"
      using bom_append [of ch x] Cons.prems(4) x by (cases "ch = []") (auto simp: word_chunk_def)
    then have "word_chunk (ch @ x)"
      using False Cons.prems(4) x by (simp add: word_chunk_def utf8_valid_append)
    ultimately have "concat ws' @ ch' = concat ws @ (ch @ x) @ concat xs \<and>
        (\<forall>w \<in> set ws'. word_chunk w) \<and> word_chunk ch'"
      using Cons.prems by (intro Cons.IH) auto
    then show ?thesis by simp
  qed
qed simp

lemma encode_chunks_ok:
  assumes "utf8_valid v" and "bom \<notin> set (chars v)"
  shows "concat (encode_chunks v) = v" "w \<in> set (encode_chunks v) \<Longrightarrow> word_chunk w"
proof -
  obtain ws ch where f: "fold chunk_step (chars v) ([], []) = (ws, ch)" by fastforce
  have "x \<noteq> [] \<and> length x \<le> 4 \<and> utf8_valid x \<and> \<not> starts_with bom x" if "x \<in> set (chars v)" for x
  proof -
    note c = chars_valid [OF assms(1) that]
    have "\<not> starts_with bom x"
    proof
      assume "starts_with bom x"
      then obtain r where r: "x = CHR 0xEF # CHR 0xBB # CHR 0xBF # r" by (auto simp: starts_with_bom)
      with c bom_step have "length x = 3" by blast
      with r have "x = bom" by (simp add: bom_def)
      with that assms(2) show False by simp
    qed
    with c show ?thesis by simp
  qed
  from chunk_fold [OF this f] have r: "concat ws @ ch = v" "\<And>w. w \<in> set ws \<Longrightarrow> word_chunk w" "word_chunk ch"
    by (auto simp: word_chunk_def starts_with_bom)
  then show "concat (encode_chunks v) = v" by (cases "ch = []") (simp_all add: encode_chunks_def f)
  show "w \<in> set (encode_chunks v) \<Longrightarrow> word_chunk w"
    using r by (auto simp: encode_chunks_def f split: if_splits)
qed

lemma encode_word_graphic:
  "base64_ok L \<Longrightarrow> list_all is_ascii_graphic (encode_word L c)"
proof -
  assume "base64_ok L"
  then have "list_all base64_char (base64_encode L c)" by (simp add: base64_ok_def)
  then have "list_all is_ascii_graphic (base64_encode L c)"
    by (rule list_all_mono) (simp add: base64_char_props)
  then show ?thesis by (simp add: encode_word_def is_ascii_graphic_def)
qed

lemma decode_encode:
  assumes L: "base64_ok L" "utf8_label_ok L" and v: "utf8_valid v" "bom \<notin> set (chars v)"
    and na: "\<not> list_all is_ascii v"
  shows "decode_header_value L (encode_header_value L v) = v"
proof -
  let ?cs = "encode_chunks v"
  note c = encode_chunks_ok [OF v]
  have "?cs \<noteq> []" using c(1) na by (cases ?cs) auto
  moreover have "\<And>w. w \<in> set ?cs \<Longrightarrow> utf8_valid w \<and> \<not> starts_with bom w"
    using c(2) by (simp add: word_chunk_def)
  ultimately have "split_encoded_words L (encode_header_value L v) = word_pieces ?cs"
    using split_join_words [OF L, of ?cs "[]"] na
    by (simp add: split_encoded_words_def encode_header_value_def flush_literal_def)
  then show ?thesis by (simp add: decode_render render_word_pieces c(1))
qed

lemma set_join: "set (join sep xs) \<subseteq> set sep \<union> (\<Union>x \<in> set xs. set x)"
  by (induction sep xs rule: join.induct) auto

section \<open>Quoted-printable\<close>

lemma trim_trailing_protected: "take p (trim_trailing_blanks out p) = take p out"
  by (simp add: trim_trailing_blanks_def min_def)

lemma trim_trailing_le: "length (trim_trailing_blanks out p) \<le> length out"
proof -
  have "length (dropWhile P (rev (drop p out))) \<le> length (drop p out)" for P
    using length_dropWhile_le [of P "rev (drop p out)"] by simp
  then show ?thesis by (auto simp: trim_trailing_blanks_def min_def intro!: add_le_imp_le_diff)
      (metis add.commute diff_le_self le_add_diff_inverse2 length_drop nat_add_left_cancel_le nat_le_linear)+
qed

text \<open>An encoder that escapes every octet, as the specification allows.\<close>

definition hex_digit :: "nat \<Rightarrow> char" where
  "hex_digit n = (if n < 10 then char_of (48 + n) else char_of (55 + n))"

definition qp_escape :: "bytes \<Rightarrow> bytes" where
  "qp_escape s = concat (map (\<lambda>c. [CHR ''='', hex_digit (code c div 16), hex_digit (code c mod 16)]) s)"

lemma hex_value_digit: "n < 16 \<Longrightarrow> hex_value (hex_digit n) = Some n"
  by (auto simp: hex_value_def hex_digit_def is_ascii_digit_def)

lemma hex_digit_not_eol: "n < 16 \<Longrightarrow> hex_digit n \<noteq> CR \<and> hex_digit n \<noteq> LF"
proof -
  assume "n < 16"
  then have "48 \<le> code (hex_digit n)" by (auto simp: hex_digit_def)
  then show ?thesis by auto
qed

lemma qp_loop_escape: "qp_loop (qp_escape s @ t) out p =
  (if s = [] then qp_loop t out p else qp_loop t (out @ s) (length out + length s))"
proof (induction s arbitrary: out p)
  case (Cons c s)
  have h: "code c div 16 < 16" "code c mod 16 < 16" using code_lt_256 [of c] by (simp_all add: less_mult_imp_div_less)
  have c: "char_of (code c div 16 * 16 + code c mod 16) = c"
    by (simp add: div_mult_mod_eq)
  have "qp_loop (qp_escape (c # s) @ t) out p = qp_loop (qp_escape s @ t) (out @ [c]) (length out + 1)"
    using hex_value_digit [OF h(1)] hex_value_digit [OF h(2)] hex_digit_not_eol [OF h(1)] c
    by (simp add: qp_escape_def)
  with Cons show ?case by simp
qed (simp add: qp_escape_def)

section \<open>Properties\<close>

text \<open>C18: a header value that is valid UTF-8 and not plain ASCII survives being encoded for
  posting and decoded for display, whatever its length: the split into encoded words never
  cuts a scalar, and the blanks between the words are dropped again.  (A byte order mark is
  excluded because the charset library strips one at the start of a word.)\<close>
theorem header_value_round_trip:
  assumes "base64_ok L" and "utf8_label_ok L" and "utf8_valid v" and "bom \<notin> set (chars v)"
    and "\<not> list_all is_ascii v"
  shows "decode_header_value L (encode_header_value L v) = v"
  using assms by (rule decode_encode)

text \<open>what is put on the wire for a header value is printable ASCII and spaces if the
  value needed encoding at all, every encoded word is at most 75 octets (RFC 2047), and an
  ASCII value is passed through unchanged.\<close>
theorem encode_header_value_ascii:
  assumes "base64_ok L" and "utf8_valid v" and "bom \<notin> set (chars v)"
  shows "list_all is_ascii (encode_header_value L v) \<and>
    (list_all is_ascii v \<longrightarrow> encode_header_value L v = v) \<and>
    (\<not> list_all is_ascii v \<longrightarrow>
       encode_header_value L v = join '' '' (map (encode_word L) (encode_chunks v)) \<and>
       (\<forall>c \<in> set (encode_header_value L v). is_ascii_graphic c \<or> c = SP) \<and>
       (\<forall>c \<in> set (encode_chunks v). length (encode_word L c) \<le> 75))"
proof -
  have "is_ascii_graphic c \<or> c = SP"
    if "\<not> list_all is_ascii v" "c \<in> set (encode_header_value L v)" for c
  proof -
    have "c \<in> set (join '' '' (map (encode_word L) (encode_chunks v)))"
      using that by (simp add: encode_header_value_def)
    then consider "c = SP" | w where "c \<in> set (encode_word L w)"
      using set_join [of "'' ''" "map (encode_word L) (encode_chunks v)"] by auto
    then show ?thesis
    proof cases
      case (2 w)
      with encode_word_graphic [OF assms(1), of w] show ?thesis by (simp add: list_all_iff)
    qed simp
  qed
  moreover have "length (encode_word L c) \<le> 75" if "c \<in> set (encode_chunks v)" for c
  proof -
    have "length c \<le> 45"
      using encode_chunks_ok(2) [OF assms(2,3) that] by (simp add: word_chunk_def BYTES_PER_WORD_def)
    with assms(1) show ?thesis by (auto simp: encode_word_def base64_ok_def)
  qed
  moreover have "list_all is_ascii (encode_header_value L v)"
  proof (cases "list_all is_ascii v")
    case False
    have "is_ascii SP" by (simp add: is_ascii_def)
    with calculation(1) [OF False] show ?thesis unfolding list_all_iff using graphic_ascii by blast
  qed (simp add: encode_header_value_def)
  ultimately show ?thesis by (auto simp: encode_header_value_def)
qed

text \<open>quoted-printable escapes decode to the octets they name, any octets at all, wherever
  they stand: text after them is decoded as before, and what they produced is never trimmed.\<close>
theorem quoted_printable_escapes:
  "decode_quoted_printable (qp_escape s) = s \<and>
   (\<forall>t out p. s \<noteq> [] \<longrightarrow> qp_loop (qp_escape s @ t) out p = qp_loop t (out @ s) (length (out @ s)))"
  using qp_loop_escape [of s "[]" "[]" 0]
  by (simp add: decode_quoted_printable_def qp_loop_escape)


section \<open>Witnesses\<close>

definition accented :: string where
  "accented = ''caf'' @ [CHR 0xC3, CHR 0xA9]"

lemma accented_facts:
  "utf8_valid accented" "bom \<notin> set (chars accented)" "\<not> list_all is_ascii accented"
  by (simp_all add: accented_def utf8_step.simps utf8_width_def second_ok_def cont_def bom_def
      is_ascii_def)

theorem header_value_round_trip_witness:
  "decode_header_value sample_libs (encode_header_value sample_libs accented) = accented"
  by (rule header_value_round_trip) (simp_all add: sample_libs_ok accented_facts)

theorem encode_header_value_ascii_witness:
  "list_all is_ascii (encode_header_value sample_libs accented)"
  using encode_header_value_ascii [OF sample_libs_ok(3) accented_facts(1,2)] by blast

theorem quoted_printable_escapes_witness:
  "decode_quoted_printable (qp_escape ''a '') = ''a ''"
  using quoted_printable_escapes [of "''a ''"] by blast

end
