(* ===== verification/Proto_Error.thy ===== *)
theory Proto_Error
  imports Rust_Str
begin

text \<open>
  \<open>crates/nntp-proto/src/error.rs\<close>: the error type of the protocol layer.  A Rust
  \<open>Result<T>\<close> is \<open>proto_error + 'a\<close>, with \<^const>\<open>Inl\<close> for \<open>Err\<close>.
\<close>

datatype proto_error =
    MalformedStatusLine string
  | MissingField string string
  | InvalidNumber string string
  | IllegalCommandArgument string
  | UnpostableDraft string
  | CommandTooLong string nat
  | InvalidMessageId string
  | InvalidGroupName string
  | InvalidHeaderName string
  | InvalidWildmat string
  | InvalidDate string

type_synonym 'a proto_result = "proto_error + 'a"

fun is_peer_fault :: "proto_error \<Rightarrow> bool" where
  "is_peer_fault (MalformedStatusLine _) = True"
| "is_peer_fault (MissingField _ _) = True"
| "is_peer_fault (InvalidNumber _ _) = True"
| "is_peer_fault (InvalidMessageId _) = True"
| "is_peer_fault (InvalidGroupName _) = True"
| "is_peer_fault (InvalidHeaderName _) = True"
| "is_peer_fault (InvalidDate _) = True"
| "is_peer_fault (IllegalCommandArgument _) = False"
| "is_peer_fault (CommandTooLong _ _) = False"
| "is_peer_fault (UnpostableDraft _) = False"
| "is_peer_fault (InvalidWildmat _) = False"

text \<open>The combinators of \<open>Result\<close> and \<open>Option\<close> that the code uses: the question mark
  operator, \<open>map\<close>, \<open>ok_or\<close> and \<open>ok\<close>.\<close>

definition bind_res :: "'e + 'a \<Rightarrow> ('a \<Rightarrow> 'e + 'b) \<Rightarrow> 'e + 'b" where
  "bind_res r f = (case r of Inl e \<Rightarrow> Inl e | Inr x \<Rightarrow> f x)"

definition map_res :: "('a \<Rightarrow> 'b) \<Rightarrow> 'e + 'a \<Rightarrow> 'e + 'b" where
  "map_res f r = (case r of Inl e \<Rightarrow> Inl e | Inr x \<Rightarrow> Inr (f x))"

definition ok_or :: "'e \<Rightarrow> 'a option \<Rightarrow> 'e + 'a" where
  "ok_or e x = (case x of None \<Rightarrow> Inl e | Some y \<Rightarrow> Inr y)"

definition res_ok :: "'e + 'a \<Rightarrow> 'a option" where
  "res_ok r = (case r of Inl _ \<Rightarrow> None | Inr x \<Rightarrow> Some x)"

lemma bind_res_simps [simp, result_simps]:
  "bind_res (Inl e) f = Inl e" "bind_res (Inr x) f = f x"
  by (simp_all add: bind_res_def)

lemma map_res_simps [simp, result_simps]:
  "map_res f (Inl e) = Inl e" "map_res f (Inr x) = Inr (f x)"
  by (simp_all add: map_res_def)

lemma ok_or_simps [simp, result_simps]:
  "ok_or e None = Inl e" "ok_or e (Some x) = Inr x"
  by (simp_all add: ok_or_def)

lemma res_ok_simps [simp, result_simps]:
  "res_ok (Inl e) = None" "res_ok (Inr x) = Some x"
  by (simp_all add: res_ok_def)

lemma bind_res_Inr: "bind_res r f = Inr y \<longleftrightarrow> (\<exists>x. r = Inr x \<and> f x = Inr y)"
  by (cases r) auto

lemma bind_res_Inl: "bind_res r f = Inl e \<longleftrightarrow> r = Inl e \<or> (\<exists>x. r = Inr x \<and> f x = Inl e)"
  by (cases r) auto

lemma map_res_Inr: "map_res f r = Inr y \<longleftrightarrow> (\<exists>x. r = Inr x \<and> y = f x)"
  by (cases r) auto

lemma ok_or_Inr: "ok_or e x = Inr y \<longleftrightarrow> x = Some y"
  by (cases x) auto

lemma res_ok_Some: "res_ok r = Some x \<longleftrightarrow> r = Inr x"
  by (cases r) auto

lemma split_bind_res:
  "P (bind_res r f) \<longleftrightarrow> (\<forall>e. r = Inl e \<longrightarrow> P (Inl e)) \<and> (\<forall>x. r = Inr x \<longrightarrow> P (f x))"
  by (cases r) auto

end
