(* ===== verification/Headers.thy ===== *)
theory Headers
  imports Mime Proto_Error
begin

text \<open>
  \<open>crates/nntp-proto/src/headers.rs\<close>: header names, values, folding and lookup, and the
  line splitter that the rest of the protocol layer shares.
\<close>

section \<open>Names and values\<close>

datatype header_name = HeaderName (hn_str: string)

definition header_name_parse :: "string \<Rightarrow> header_name proto_result" where
  "header_name_parse value =
     (if value = [] \<or> \<not> list_all (\<lambda>b. is_ascii_graphic b \<and> b \<noteq> CHR '':'') value
      then Inl (InvalidHeaderName value) else Inr (HeaderName value))"

definition header_name_eq :: "header_name \<Rightarrow> header_name \<Rightarrow> bool" where
  "header_name_eq a b = eq_ignore_ascii_case (hn_str a) (hn_str b)"

text \<open>What the \<open>Hash\<close> implementation feeds to the hasher.\<close>

definition header_name_hash :: "header_name \<Rightarrow> bytes" where
  "header_name_hash a = map to_lower (hn_str a) @ [CHR 0xFF]"

definition FROM :: string where "FROM = ''From''"
definition SUBJECT :: string where "SUBJECT = ''Subject''"
definition DATE :: string where "DATE = ''Date''"
definition MESSAGE_ID :: string where "MESSAGE_ID = ''Message-ID''"
definition REFERENCES :: string where "REFERENCES = ''References''"
definition IN_REPLY_TO :: string where "IN_REPLY_TO = ''In-Reply-To''"
definition NEWSGROUPS :: string where "NEWSGROUPS = ''Newsgroups''"
definition FOLLOWUP_TO :: string where "FOLLOWUP_TO = ''Followup-To''"
definition CONTENT_TYPE :: string where "CONTENT_TYPE = ''Content-Type''"
definition CONTENT_TRANSFER_ENCODING :: string where
  "CONTENT_TRANSFER_ENCODING = ''Content-Transfer-Encoding''"
definition CONTENT_DISPOSITION :: string where "CONTENT_DISPOSITION = ''Content-Disposition''"
definition LINES :: string where "LINES = ''Lines''"
definition XREF :: string where "XREF = ''Xref''"
definition ORGANIZATION :: string where "ORGANIZATION = ''Organization''"
definition USER_AGENT :: string where "USER_AGENT = ''User-Agent''"

definition collapse_step :: "string \<Rightarrow> string \<times> bool \<Rightarrow> string \<times> bool" where
  "collapse_step ch = (\<lambda>(out, pending_space).
     if char_is_whitespace ch then (out, out \<noteq> [])
     else ((if pending_space then out @ [SP] else out) @ ch, False))"

definition collapse_whitespace :: "string \<Rightarrow> string" where
  "collapse_whitespace s = fst (fold collapse_step (chars s) ([], False))"

datatype header_value = HeaderValue (hv_bytes: bytes)

definition decoded :: "libs \<Rightarrow> header_value \<Rightarrow> string" where
  "decoded L v = collapse_whitespace (decode_header_value L (hv_bytes v))"

definition decoded_verbatim :: "libs \<Rightarrow> header_value \<Rightarrow> string" where
  "decoded_verbatim L v = decode_header_value L (hv_bytes v)"

section \<open>Lines\<close>

definition strip_cr_suffix :: "bytes \<Rightarrow> bytes" where
  "strip_cr_suffix l = (case strip_suffix [CR] l of Some l' \<Rightarrow> l' | None \<Rightarrow> l)"

text \<open>The loop of \<open>split_lines\<close> on what is left of the block.  Its end depends on
  \<open>memchr\<close>, so it runs on fuel; one step per octet and one more is always enough.\<close>

fun split_lines_loop :: "libs \<Rightarrow> nat \<Rightarrow> bytes \<Rightarrow> bytes list" where
  "split_lines_loop L 0 rest = []"
| "split_lines_loop L (Suc fuel) rest =
     (case memchr L LF rest of
        Some offset \<Rightarrow>
          strip_cr_suffix (slice_or_empty 0 offset rest) #
          split_lines_loop L fuel (drop (offset + 1) rest)
      | None \<Rightarrow> if rest = [] then [] else [strip_cr_suffix rest])"

definition split_lines :: "libs \<Rightarrow> bytes \<Rightarrow> bytes list" where
  "split_lines L block = split_lines_loop L (length block + 1) block"

fun trim_ascii_start :: "bytes \<Rightarrow> bytes" where
  "trim_ascii_start [] = []"
| "trim_ascii_start (b # s) = (if b = SP \<or> b = TAB then trim_ascii_start s else b # s)"

definition split_field :: "libs \<Rightarrow> bytes \<Rightarrow> (header_name \<times> bytes) option" where
  "split_field L line = do {
     colon \<leftarrow> memchr L CHR '':'' line;
     raw_name \<leftarrow> (if colon \<le> length line then Some (take colon line) else None);
     txt \<leftarrow> (if utf8_valid raw_name then Some raw_name else None);
     name \<leftarrow> res_ok (header_name_parse (trim txt));
     let value = slice_or_empty (colon + 1) (length line) line;
     Some (name, trim_ascii_start value)
   }"

section \<open>Header blocks\<close>

record headers =
  entries :: "(header_name \<times> header_value) list"
  malformed :: "bytes list"

definition headers_new :: headers where
  "headers_new = \<lparr>entries = [], malformed = []\<rparr>"

definition extend_last :: "bytes \<Rightarrow> (header_name \<times> header_value) list \<Rightarrow> (header_name \<times> header_value) list" where
  "extend_last line es =
     (let (n, v) = last es in butlast es @ [(n, HeaderValue (hv_bytes v @ line))])"

fun parse_lines_loop :: "libs \<Rightarrow> bytes list \<Rightarrow> headers \<Rightarrow> headers" where
  "parse_lines_loop L [] h = h"
| "parse_lines_loop L (line # rest) h =
     (if line = [] then h
      else if hd line = SP \<or> hd line = TAB then
        parse_lines_loop L rest
          (if entries h \<noteq> [] then h\<lparr>entries := extend_last line (entries h)\<rparr>
           else h\<lparr>malformed := malformed h @ [line]\<rparr>)
      else parse_lines_loop L rest
        (case split_field L line of
           Some (name, value) \<Rightarrow> h\<lparr>entries := entries h @ [(name, HeaderValue value)]\<rparr>
         | None \<Rightarrow> h\<lparr>malformed := malformed h @ [line]\<rparr>))"

definition trim_value :: "header_value \<Rightarrow> header_value" where
  "trim_value v = HeaderValue (rev (dropWhile (\<lambda>b. b = SP \<or> b = TAB) (rev (hv_bytes v))))"

definition parse_lines :: "libs \<Rightarrow> bytes list \<Rightarrow> headers" where
  "parse_lines L ls =
     (let h = parse_lines_loop L ls headers_new
      in h\<lparr>entries := map (\<lambda>(n, v). (n, trim_value v)) (entries h)\<rparr>)"

definition parse_block :: "libs \<Rightarrow> bytes \<Rightarrow> headers" where
  "parse_block L block = parse_lines L (split_lines L block)"

definition headers_get :: "headers \<Rightarrow> string \<Rightarrow> header_value option" where
  "headers_get h name =
     map_option snd (List.find (\<lambda>(field, _). eq_ignore_ascii_case (hn_str field) name) (entries h))"

definition headers_get_all :: "headers \<Rightarrow> string \<Rightarrow> header_value list" where
  "headers_get_all h name =
     map snd (filter (\<lambda>(field, _). eq_ignore_ascii_case (hn_str field) name) (entries h))"

definition headers_get_decoded :: "libs \<Rightarrow> headers \<Rightarrow> string \<Rightarrow> string option" where
  "headers_get_decoded L h name = map_option (decoded L) (headers_get h name)"

definition headers_contains :: "headers \<Rightarrow> string \<Rightarrow> bool" where
  "headers_contains h name \<longleftrightarrow> headers_get h name \<noteq> None"

definition headers_insert :: "string \<Rightarrow> bytes \<Rightarrow> headers \<Rightarrow> headers proto_result" where
  "headers_insert name value h =
     bind_res (header_name_parse name)
       (\<lambda>n. Inr (h\<lparr>entries := entries h @ [(n, HeaderValue value)]\<rparr>))"

definition headers_len :: "headers \<Rightarrow> nat" where
  "headers_len h = length (entries h)"

definition headers_is_empty :: "headers \<Rightarrow> bool" where
  "headers_is_empty h \<longleftrightarrow> entries h = []"


section \<open>Lemmas\<close>

lemma header_name_parse_Inr:
  "header_name_parse s = Inr n \<longleftrightarrow>
     s \<noteq> [] \<and> list_all (\<lambda>b. is_ascii_graphic b \<and> b \<noteq> CHR '':'') s \<and> n = HeaderName s"
  by (auto simp: header_name_parse_def)

definition valid_field_name :: "header_name \<Rightarrow> bool" where
  "valid_field_name n \<longleftrightarrow> header_name_parse (hn_str n) = Inr n"

lemma strip_cr_append [simp]: "strip_cr_suffix (l @ [CR]) = l"
proof -
  have "strip_suffix [CR] (l @ [CR]) = Some l" by (simp add: strip_suffix_Some_iff)
  then show ?thesis by (simp add: strip_cr_suffix_def)
qed

lemma slice_prefix: "slice_or_empty 0 (length p) (p @ s) = p"
  by (simp add: slice_or_empty_def)

text \<open>What \<open>split_lines\<close> computes when \<open>memchr\<close> does what it says.\<close>

definition lines_of :: "bytes \<Rightarrow> bytes list" where
  "lines_of b =
     (let ps = split_on LF b in map strip_cr_suffix (butlast ps @ (if last ps = [] then [] else [last ps])))"

lemma lines_of_step:
  assumes "LF \<notin> set p"
  shows "lines_of (p @ LF # r) = strip_cr_suffix p # lines_of r"
proof -
  have "split_on LF (p @ LF # r) = p # split_on LF r"
    by (rule split_by_append) (use assms in \<open>auto simp: list_all_iff\<close>)
  then show ?thesis by (simp add: lines_of_def Let_def)
qed

lemma lines_of_last:
  assumes "LF \<notin> set p"
  shows "lines_of p = (if p = [] then [] else [strip_cr_suffix p])"
proof -
  have "split_on LF p = [p]"
    by (rule split_by_none) (use assms in \<open>auto simp: list_all_iff\<close>)
  then show ?thesis by (simp add: lines_of_def Let_def)
qed

lemma split_lines_loop_ok:
  "memchr_ok L \<Longrightarrow> length rest < fuel \<Longrightarrow> split_lines_loop L fuel rest = lines_of rest"
proof (induction fuel arbitrary: rest)
  case (Suc fuel)
  show ?case
  proof (cases "first_index LF rest")
    case None
    then have "LF \<notin> set rest" by (simp add: first_index_None_iff)
    with Suc.prems(1) show ?thesis by (simp add: memchr_ok_def lines_of_last first_index_def)
  next
    case (Some i)
    then obtain p r where r: "rest = p @ LF # r" "length p = i" "LF \<notin> set p"
      by (rule first_index_Some)
    have "split_lines_loop L fuel r = lines_of r" using Suc r by simp
    with Some Suc.prems(1) r show ?thesis
      by (auto simp: memchr_ok_def lines_of_step slice_prefix)
  qed
qed simp

lemma split_lines_ok: "memchr_ok L \<Longrightarrow> split_lines L block = lines_of block"
  by (simp add: split_lines_def split_lines_loop_ok del: split_lines_loop.simps)

lemma lines_of_wire:
  "(\<And>l. l \<in> set ls \<Longrightarrow> LF \<notin> set l) \<Longrightarrow>
   lines_of (concat (map (\<lambda>l. l @ [CR, LF]) ls) @ s) = ls @ lines_of s"
proof (induction ls)
  case (Cons l ls)
  have "lines_of ((l @ [CR]) @ LF # concat (map (\<lambda>l. l @ [CR, LF]) ls) @ s) =
      l # lines_of (concat (map (\<lambda>l. l @ [CR, LF]) ls) @ s)"
    using Cons.prems by (subst lines_of_step) auto
  with Cons show ?case by simp
qed simp

section \<open>Folding\<close>

text \<open>A field as a sender writes it: its name, the start of its value, and continuation
  lines that each begin with a blank.\<close>

definition field_ok :: "string \<times> bytes \<times> bytes list \<Rightarrow> bool" where
  "field_ok = (\<lambda>(name, first, conts).
     valid_field_name (HeaderName name) \<and>
     (first = [] \<or> hd first \<noteq> SP \<and> hd first \<noteq> TAB) \<and>
     (\<forall>c \<in> set conts. c \<noteq> [] \<and> (hd c = SP \<or> hd c = TAB)))"

definition field_lines :: "string \<times> bytes \<times> bytes list \<Rightarrow> bytes list" where
  "field_lines = (\<lambda>(name, first, conts). (name @ '': '' @ first) # conts)"

definition field_entry :: "string \<times> bytes \<times> bytes list \<Rightarrow> header_name \<times> header_value" where
  "field_entry = (\<lambda>(name, first, conts). (HeaderName name, trim_value (HeaderValue (first @ concat conts))))"

lemma split_field_line:
  assumes L: "memchr_ok L" and name: "valid_field_name (HeaderName name)"
    and first: "first = [] \<or> hd first \<noteq> SP \<and> hd first \<noteq> TAB"
  shows "split_field L (name @ '': '' @ first) = Some (HeaderName name, first)"
proof -
  have n: "name \<noteq> []" "list_all is_ascii_graphic name" "CHR '':'' \<notin> set name"
    using name by (auto simp: valid_field_name_def header_name_parse_Inr list_all_iff)
  have mc: "memchr L CHR '':'' (name @ '': '' @ first) = Some (length name)"
    using L n(3) by (simp add: memchr_ok_def first_index_append)
  have "utf8_valid name"
    by (rule utf8_valid_ascii) (use n(2) in \<open>auto simp: list_all_iff graphic_ascii\<close>)
  moreover have "header_name_parse (trim name) = Inr (HeaderName name)"
    using name n(2) by (simp add: trim_graphic valid_field_name_def)
  moreover have "slice_or_empty (length name + 1) (length (name @ '': '' @ first)) (name @ '': '' @ first) = SP # first"
    by (simp add: slice_or_empty_def)
  moreover have "trim_ascii_start (SP # first) = first"
    using first by (cases first) auto
  ultimately show ?thesis
    unfolding split_field_def mc by simp
qed

lemma parse_conts:
  assumes "\<forall>c \<in> set conts. c \<noteq> [] \<and> (hd c = SP \<or> hd c = TAB)"
  shows "parse_lines_loop L (conts @ rest) (h\<lparr>entries := es @ [(n, HeaderValue v)]\<rparr>) =
    parse_lines_loop L rest (h\<lparr>entries := es @ [(n, HeaderValue (v @ concat conts))]\<rparr>)"
  using assms by (induction conts arbitrary: v) (simp_all add: extend_last_def)

lemma parse_field:
  assumes L: "memchr_ok L" and f: "field_ok (name, first, conts)"
  shows "parse_lines_loop L (field_lines (name, first, conts) @ rest) h =
    parse_lines_loop L rest
      (h\<lparr>entries := entries h @ [(HeaderName name, HeaderValue (first @ concat conts))]\<rparr>)"
proof -
  have name: "valid_field_name (HeaderName name)" and first: "first = [] \<or> hd first \<noteq> SP \<and> hd first \<noteq> TAB"
    and conts: "\<forall>c \<in> set conts. c \<noteq> [] \<and> (hd c = SP \<or> hd c = TAB)"
    using f by (auto simp: field_ok_def)
  have "name \<noteq> []" "hd name \<noteq> SP" "hd name \<noteq> TAB"
    using name by (cases name; auto simp: valid_field_name_def header_name_parse_Inr is_ascii_graphic_def)+
  with split_field_line [OF L name first] parse_conts [OF conts, where L = L and rest = rest and h = h and es = "entries h"] show ?thesis
    by (simp add: field_lines_def)
qed

lemma parse_fields:
  assumes L: "memchr_ok L" and f: "\<And>x. x \<in> set fs \<Longrightarrow> field_ok x"
  shows "parse_lines_loop L (concat (map field_lines fs) @ rest) h =
    parse_lines_loop L rest
      (h\<lparr>entries := entries h @ map (\<lambda>(name, first, conts).
         (HeaderName name, HeaderValue (first @ concat conts))) fs\<rparr>)"
  using f
proof (induction fs arbitrary: h)
  case (Cons x fs)
  obtain name first conts where x: "x = (name, first, conts)" by (cases x)
  have "field_ok (name, first, conts)" using Cons.prems [of x] x by simp
  from parse_field [OF L this] Cons show ?case by (simp add: x)
qed simp

lemma parse_unfolds:
  assumes "memchr_ok L" and "\<And>x. x \<in> set fs \<Longrightarrow> field_ok x"
  shows "parse_lines L (concat (map field_lines fs) @ [] # rest) =
    \<lparr>entries = map field_entry fs, malformed = []\<rparr>"
  using parse_fields [OF assms, of fs "[] # rest" headers_new]
  by (auto simp: parse_lines_def Let_def headers_new_def field_entry_def)

section \<open>What every parsed block satisfies\<close>

lemma split_field_name: "split_field L line = Some (n, v) \<Longrightarrow> valid_field_name n"
  by (auto simp: split_field_def Let_def valid_field_name_def res_ok_Some header_name_parse_Inr
      split: Option.bind_split_asm if_split_asm)

lemma extend_last_names: "es \<noteq> [] \<Longrightarrow> map fst (extend_last line es) = map fst es"
  by (cases es rule: rev_cases) (auto simp: extend_last_def)

lemma parse_lines_loop_names:
  "list_all valid_field_name (map fst (entries h)) \<Longrightarrow>
   list_all valid_field_name (map fst (entries (parse_lines_loop L ls h)))"
proof (induction L ls h rule: parse_lines_loop.induct)
  case (2 L line rest h)
  show ?case
  proof (cases "line = []")
    case False
    show ?thesis
    proof (cases "hd line = SP \<or> hd line = TAB")
      case True
      with 2 False show ?thesis by (simp add: extend_last_names)
    next
      case F: False
      show ?thesis
      proof (cases "split_field L line")
        case (Some nv)
        with 2 False F split_field_name [of L line "fst nv" "snd nv"] show ?thesis
          by (cases nv) simp
      qed (use 2 False F in simp)
    qed
  qed (use 2 in simp)
qed simp

lemma parse_lines_loop_malformed:
  "set (malformed (parse_lines_loop L ls h)) \<subseteq> set (malformed h) \<union> (set ls - {[]})"
proof (induction ls arbitrary: h)
  case (Cons line rest)
  show ?case
  proof (cases "line = []")
    case False
    obtain h' where h': "parse_lines_loop L (line # rest) h = parse_lines_loop L rest h'"
      "malformed h' = malformed h \<or> malformed h' = malformed h @ [line]"
    proof -
      let ?h1 = "if entries h \<noteq> [] then h\<lparr>entries := extend_last line (entries h)\<rparr>
          else h\<lparr>malformed := malformed h @ [line]\<rparr>"
      let ?h2 = "case split_field L line of
          Some (name, value) \<Rightarrow> h\<lparr>entries := entries h @ [(name, HeaderValue value)]\<rparr>
        | None \<Rightarrow> h\<lparr>malformed := malformed h @ [line]\<rparr>"
      show thesis
        by (rule that [of "if hd line = SP \<or> hd line = TAB then ?h1 else ?h2"])
           (use False in \<open>simp, simp split: option.split\<close>)
    qed
    from Cons [of h'] h'(2) False show ?thesis unfolding h'(1) by auto
  qed simp
qed simp

lemma trim_value_end:
  "hv_bytes (trim_value v) \<noteq> [] \<Longrightarrow> last (hv_bytes (trim_value v)) \<notin> {SP, TAB}"
  using hd_dropWhile [of "\<lambda>b. b = SP \<or> b = TAB" "rev (hv_bytes v)"]
  by (auto simp: trim_value_def last_rev)

lemma parse_lines_ok:
  "(\<forall>(n, v) \<in> set (entries (parse_lines L ls)).
      valid_field_name n \<and> (hv_bytes v \<noteq> [] \<longrightarrow> last (hv_bytes v) \<notin> {SP, TAB})) \<and>
   (\<forall>l \<in> set (malformed (parse_lines L ls)). l \<noteq> [] \<and> l \<in> set ls)"
proof -
  let ?h = "parse_lines_loop L ls headers_new"
  have "list_all valid_field_name (map fst (entries ?h))"
    by (rule parse_lines_loop_names) (simp add: headers_new_def)
  moreover have "\<forall>l \<in> set (malformed ?h). l \<noteq> [] \<and> l \<in> set ls"
    using parse_lines_loop_malformed [of L ls headers_new] by (auto simp: headers_new_def)
  ultimately show ?thesis
    using trim_value_end by (fastforce simp: parse_lines_def Let_def list_all_iff)
qed

lemma get_first: "headers_get h name = (case headers_get_all h name of [] \<Rightarrow> None | v # _ \<Rightarrow> Some v)"
proof -
  have "map_option snd (List.find P es) = (case map snd (filter P es) of [] \<Rightarrow> None | v # _ \<Rightarrow> Some v)"
    for P and es :: "(header_name \<times> header_value) list"
    by (induction es) auto
  then show ?thesis by (simp add: headers_get_def headers_get_all_def)
qed

section \<open>Properties\<close>

text \<open>folded headers are unfolded.  Fields written as a valid name, a colon, a space and
  a value that may continue on lines beginning with a blank are read back, in order, with
  the value rejoined and only its trailing blanks dropped; nothing is reported as malformed,
  and reading stops at the empty line.\<close>
theorem headers_unfold:
  assumes "memchr_ok L" and "\<forall>x \<in> set fs. field_ok x"
  shows "parse_lines L (concat (map field_lines fs) @ [] # rest) =
    \<lparr>entries = map field_entry fs, malformed = []\<rparr>"
  using assms by (intro parse_unfolds) auto

theorem headers_unfold_witness:
  "parse_lines sample_libs [''Subject: a'', '' b '', ''From: c'', [], ''x''] =
     \<lparr>entries = [(HeaderName ''Subject'', HeaderValue ''a b''), (HeaderName ''From'', HeaderValue ''c'')],
      malformed = []\<rparr>"
proof -
  have "\<forall>x \<in> set [(''Subject'', ''a'', ['' b '']), (''From'', ''c'', [])]. field_ok x"
    by (simp add: field_ok_def valid_field_name_def header_name_parse_def is_ascii_graphic_def)
  from headers_unfold [OF sample_libs_ok(1) this, of "[''x'']"] show ?thesis
    by (simp add: field_lines_def field_entry_def trim_value_def)
qed

text \<open>whatever bytes arrive, every field of a parsed header block has a valid name
  (printable ASCII without a colon, not empty) and a value without trailing blanks, every
  line set aside as malformed is a non-empty line of the input, and lookup by name is the
  first of all values under that name.\<close>
theorem headers_well_formed:
  "(\<forall>(n, v) \<in> set (entries (parse_lines L ls)).
      valid_field_name n \<and> (hv_bytes v \<noteq> [] \<longrightarrow> last (hv_bytes v) \<notin> {SP, TAB})) \<and>
   (\<forall>l \<in> set (malformed (parse_lines L ls)). l \<noteq> [] \<and> l \<in> set ls) \<and>
   headers_get h name = (case headers_get_all h name of [] \<Rightarrow> None | v # _ \<Rightarrow> Some v)"
  using parse_lines_ok get_first by blast

theorem headers_well_formed_witness:
  "[] \<notin> set (malformed (parse_lines sample_libs ['' x'']))"
  using headers_well_formed [of sample_libs "['' x'']" headers_new "[]"] by blast

end
