(* ===== verification/Block.thy ===== *)
theory Block
  imports Headers
begin

text \<open>
  \<open>crates/nntp-proto/src/block.rs\<close>: multi-line data blocks and dot-stuffing.
\<close>

definition TERMINATOR :: bytes where
  "TERMINATOR = ''.''"

definition is_terminator :: "bytes \<Rightarrow> bool" where
  "is_terminator line \<longleftrightarrow> line = ''.''"

definition unstuff :: "bytes \<Rightarrow> bytes" where
  "unstuff line = (case line of b # rest \<Rightarrow> if b = CHR ''.'' then rest else line | [] \<Rightarrow> line)"

definition stuff :: "bytes \<Rightarrow> bytes" where
  "stuff line = (if line \<noteq> [] \<and> hd line = CHR ''.'' then ''.'' else []) @ line"

record data_block =
  block_lines :: "bytes list"

definition block_new :: data_block where
  "block_new = \<lparr>block_lines = []\<rparr>"

definition from_lines :: "bytes list \<Rightarrow> data_block" where
  "from_lines ls = \<lparr>block_lines = ls\<rparr>"

fun block_parse_loop :: "bytes list \<Rightarrow> bytes list" where
  "block_parse_loop [] = []"
| "block_parse_loop (line # rest) =
     (if is_terminator line then [] else unstuff line # block_parse_loop rest)"

definition block_parse :: "libs \<Rightarrow> bytes \<Rightarrow> data_block" where
  "block_parse L block = \<lparr>block_lines = block_parse_loop (split_lines L block)\<rparr>"

definition push_raw_line :: "bytes \<Rightarrow> data_block \<Rightarrow> bool \<times> data_block" where
  "push_raw_line line b =
     (if is_terminator line then (False, b)
      else (True, b\<lparr>block_lines := block_lines b @ [unstuff line]\<rparr>))"

definition block_len :: "data_block \<Rightarrow> nat" where
  "block_len b = length (block_lines b)"

definition block_is_empty :: "data_block \<Rightarrow> bool" where
  "block_is_empty b \<longleftrightarrow> block_lines b = []"

definition byte_len :: "data_block \<Rightarrow> nat" where
  "byte_len b = sum_list (map length (block_lines b))"

definition to_bytes :: "data_block \<Rightarrow> bytes" where
  "to_bytes b = concat (map (\<lambda>l. l @ [CR, LF]) (block_lines b))"

definition block_to_text :: "libs \<Rightarrow> data_block \<Rightarrow> string" where
  "block_to_text L b = join [LF] (map (decode_8bit_lossy L) (block_lines b))"

definition split_head_body :: "data_block \<Rightarrow> bytes list \<times> bytes list" where
  "split_head_body b =
     (let ls = block_lines b in
      case position (\<lambda>l. l = []) ls of
        Some index \<Rightarrow> (slice_or_empty 0 index ls, slice_or_empty (index + 1) (length ls) ls)
      | None \<Rightarrow> (ls, []))"

section \<open>The line codec\<close>

text \<open>
  What a sender and a receiver of a data block agree on: how a line is put on the wire and
  read back, and that no line can be mistaken for the one that ends the block.
\<close>

locale line_codec =
  fixes enc dec :: "bytes \<Rightarrow> bytes" and ends :: "bytes \<Rightarrow> bool" and stop :: bytes
  assumes dec_enc: "dec (enc l) = l"
    and enc_not_ends: "\<not> ends (enc l)"
    and stop_ends: "ends stop"
begin

fun receive :: "bytes list \<Rightarrow> (bytes list \<times> bytes list) option" where
  "receive [] = None"
| "receive (l # ls) =
     (if ends l then Some ([], ls) else map_option (\<lambda>(a, r). (dec l # a, r)) (receive ls))"

lemma receive_sent: "receive (map enc ls @ stop # rest) = Some (ls, rest)"
  by (induction ls) (simp_all add: dec_enc enc_not_ends stop_ends)

lemma receive_unfinished: "receive (map enc ls) = None"
  by (induction ls) (simp_all add: enc_not_ends)

lemma enc_inj: "enc a = enc b \<Longrightarrow> a = b"
  by (metis dec_enc)

end

interpretation dots: line_codec stuff unstuff is_terminator TERMINATOR
proof
  fix l :: bytes
  show "unstuff (stuff l) = l" by (cases l) (auto simp: unstuff_def stuff_def)
  show "\<not> is_terminator (stuff l)" by (cases l) (auto simp: is_terminator_def stuff_def)
qed (simp add: is_terminator_def TERMINATOR_def)


section \<open>Lemmas\<close>

lemma block_parse_loop_receive:
  "block_parse_loop ls = (case dots.receive ls of Some (a, _) \<Rightarrow> a | None \<Rightarrow> map unstuff ls)"
  by (induction ls) (auto split: option.splits)

lemma set_stuff: "set (stuff l) \<subseteq> insert (CHR ''.'') (set l)"
  by (auto simp: stuff_def)

definition wire :: "bytes list \<Rightarrow> bytes" where
  "wire ls = concat (map (\<lambda>l. l @ [CR, LF]) (map stuff ls @ [TERMINATOR]))"

lemma block_parse_wire:
  assumes "memchr_ok L" and "\<And>l. l \<in> set ls \<Longrightarrow> LF \<notin> set l"
  shows "block_parse L (wire ls @ rest) = from_lines ls"
proof -
  have "LF \<notin> set l" if "l \<in> set (map stuff ls @ [TERMINATOR])" for l
    using that assms(2) set_stuff by (fastforce simp: TERMINATOR_def)
  then have "split_lines L (wire ls @ rest) = (map stuff ls @ [TERMINATOR]) @ lines_of rest"
    unfolding wire_def split_lines_ok [OF assms(1)] by (intro lines_of_wire)
  then show ?thesis
    by (simp add: block_parse_def block_parse_loop_receive dots.receive_sent from_lines_def)
qed

section \<open>Properties\<close>

text \<open>dot-stuffing is transparent.  Lines sent as a data block, each stuffed and ended by
  CRLF and the block ended by the terminator line, are read back exactly, whatever bytes
  they hold (dots, carriage returns and high octets included, only line feeds excluded),
  and what follows the terminator is not read.\<close>
theorem data_block_round_trip:
  assumes "memchr_ok L" and "\<forall>l \<in> set ls. LF \<notin> set l"
  shows "block_parse L (wire ls @ rest) = from_lines ls"
  using assms by (intro block_parse_wire) auto

theorem data_block_round_trip_witness:
  "block_parse sample_libs (wire [''.'', ''..a'', []] @ ''205 bye'') = from_lines [''.'', ''..a'', []]"
  by (rule data_block_round_trip) (auto simp: sample_libs_ok)

text \<open>a received line ends the block exactly when it is the terminator; any other line is
  appended unstuffed, so a stuffed line is never taken for the end of the block and is
  appended as it was written.\<close>
theorem push_raw_line_exact:
  "push_raw_line (stuff l) b = (True, b\<lparr>block_lines := block_lines b @ [l]\<rparr>) \<and>
   push_raw_line TERMINATOR b = (False, b) \<and>
   (fst (push_raw_line raw b) = (raw \<noteq> TERMINATOR))"
  using dots.enc_not_ends [of l] dots.stop_ends
  by (simp add: push_raw_line_def dots.dec_enc) (simp add: is_terminator_def TERMINATOR_def)

text \<open>splitting an article at its first empty line loses nothing and puts no empty line in
  the header part; without an empty line the whole block is headers.\<close>
theorem split_head_body_exact:
  "(case split_head_body b of (head, body) \<Rightarrow>
     [] \<notin> set head \<and>
     (if [] \<in> set (block_lines b) then head @ [] # body = block_lines b
      else head = block_lines b \<and> body = []))"
proof (cases "position (\<lambda>l. l = []) (block_lines b)")
  case None
  then have "[] \<notin> set (block_lines b)" by (auto simp: position_None)
  with None show ?thesis by (simp add: split_head_body_def)
next
  case (Some i)
  then obtain p s where "block_lines b = p @ [] # s" "length p = i" "[] \<notin> set p"
    by (auto elim!: position_Some)
  with Some show ?thesis by (auto simp: split_head_body_def slice_or_empty_def)
qed

end
