(* ===== verification/Message_Id.thy ===== *)
theory Message_Id
  imports Proto_Error
begin

text \<open>
  \<open>crates/nntp-proto/src/message_id.rs\<close>: validated message identifiers, and the interface
  that all validated command arguments share.
\<close>

section \<open>Validated arguments\<close>

text \<open>
  What the encoder of commands relies on for a validated argument: its text is not empty,
  holds no ASCII control character and no space, and is not longer than its type allows.
\<close>

definition wire_safe :: "string \<Rightarrow> bool" where
  "wire_safe s \<longleftrightarrow> s \<noteq> [] \<and> (\<forall>c \<in> set s. \<not> is_ascii_control c \<and> c \<noteq> SP)"

lemma control_eol: "is_ascii_control CR" "is_ascii_control LF" "\<not> is_ascii_control SP"
  by (simp_all add: is_ascii_control_def)

locale wire_argument =
  fixes as_str :: "'a \<Rightarrow> string" and valid :: "'a \<Rightarrow> bool" and max_len :: nat
  assumes safe: "valid x \<Longrightarrow> wire_safe (as_str x)"
    and bounded: "valid x \<Longrightarrow> length (as_str x) \<le> max_len"
begin

lemma no_crlf: "valid x \<Longrightarrow> CR \<notin> set (as_str x) \<and> LF \<notin> set (as_str x)"
  using safe [of x] control_eol by (auto simp: wire_safe_def)

lemma verb_safe:
  "valid x \<Longrightarrow> list_all (\<lambda>c. \<not> is_ascii_control c) verb \<Longrightarrow>
   list_all (\<lambda>c. \<not> is_ascii_control c) (verb @ SP # as_str x)"
  using safe [of x] control_eol by (auto simp: wire_safe_def list_all_iff)

lemma verb_fits:
  "valid x \<Longrightarrow> length verb + max_len + 1 \<le> n \<Longrightarrow> length (verb @ SP # as_str x) \<le> n"
  using bounded [of x] by simp

end

section \<open>Message identifiers\<close>

definition MAX_MESSAGE_ID_LEN :: nat where
  "MAX_MESSAGE_ID_LEN = 250"

datatype message_id = MessageId (mid_str: string)

definition message_id_parse :: "string \<Rightarrow> message_id proto_result" where
  "message_id_parse value =
     (let trimmed = trim value; invalid = InvalidMessageId trimmed in
      if length trimmed > MAX_MESSAGE_ID_LEN then Inl invalid
      else bind_res
        (ok_or invalid (case strip_prefix ''<'' trimmed of
                          None \<Rightarrow> None | Some rest \<Rightarrow> strip_suffix ''>'' rest))
        (\<lambda>inner.
           if inner = [] then Inl invalid
           else if list_ex (\<lambda>c. char_is_whitespace c \<or> char_is_control c \<or> c = ''<'' \<or> c = ''>'')
                     (chars inner)
                then Inl invalid
           else Inr (MessageId trimmed)))"

definition message_id_inner :: "message_id \<Rightarrow> string" where
  "message_id_inner m =
     (case (case strip_prefix ''<'' (mid_str m) of
              None \<Rightarrow> None | Some rest \<Rightarrow> strip_suffix ''>'' rest) of
        Some inner \<Rightarrow> inner | None \<Rightarrow> mid_str m)"

lemma position_lt: "position P xs = Some i \<Longrightarrow> i < length xs"
  by (auto simp: position_def Let_def split: if_splits)

function parse_list :: "string \<Rightarrow> message_id list" where
  "parse_list rest =
     (case position (\<lambda>c. c = CHR ''<'') rest of
        None \<Rightarrow> []
      | Some open' \<Rightarrow>
          let after_open = drop open' rest in
          (case position (\<lambda>c. c = CHR ''>'') after_open of
             None \<Rightarrow> []
           | Some close \<Rightarrow>
               (case message_id_parse (take (close + 1) after_open) of
                  Inr m \<Rightarrow> [m] | Inl _ \<Rightarrow> []) @
               parse_list (drop (close + 1) after_open)))"
  by pat_completeness auto
termination
  by (relation "measure length") (auto dest!: position_lt)

declare parse_list.simps [simp del]

section \<open>Lemmas\<close>

text \<open>A message-id as \<open>parse\<close> makes it.  The text of a Rust \<open>str\<close> is valid UTF-8.\<close>

definition message_id_valid :: "message_id \<Rightarrow> bool" where
  "message_id_valid m \<longleftrightarrow> utf8_valid (mid_str m) \<and>
     length (mid_str m) \<le> MAX_MESSAGE_ID_LEN \<and>
     (\<exists>inner. mid_str m = ''<'' @ inner @ ''>'' \<and> inner \<noteq> [] \<and>
        \<not> list_ex (\<lambda>c. char_is_whitespace c \<or> char_is_control c \<or> c = ''<'' \<or> c = ''>'') (chars inner))"

lemma utf8_valid_ascii_Cons: "is_ascii c \<Longrightarrow> utf8_valid (c # s) \<longleftrightarrow> utf8_valid s"
  by (simp add: utf8_step_ascii)

lemma utf8_valid_snoc: "is_ascii c \<Longrightarrow> utf8_valid (s @ [c]) \<Longrightarrow> utf8_valid s"
proof (induction s rule: utf8_valid.induct)
  case (2 a s)
  obtain ok n where st: "utf8_step (a # s @ [c]) = (ok, n)" by fastforce
  have ok: "ok" and rest: "utf8_valid (drop n (a # s @ [c]))" using "2.prems"(2) st by auto
  show ?case
  proof (cases "n \<le> length (a # s)")
    case True
    have d: "drop n (a # s @ [c]) = drop n (a # s) @ [c]"
      using True by (metis append_Cons drop_append diff_is_0_eq drop0)
    have "take n (a # s @ [c]) = take n (a # s)" using True by (metis append_Cons take_append
          append_Nil2 diff_is_0_eq take0)
    then have t: "utf8_step (take n (a # s)) = (True, n)" using utf8_step_take st ok by metis
    then have s1: "utf8_step (a # s) = (True, n)"
      using utf8_step_append [of "take n (a # s)" "drop n (a # s)"] by simp
    have "utf8_valid (drop n (a # s))"
      using "2.IH" s1 rest d "2.prems"(1) by simp
    with s1 show ?thesis by simp
  next
    case False
    then have n: "n = length (a # s @ [c])" using utf8_step_le [of "a # s @ [c]"] st by simp
    have "n \<noteq> 1" using n by simp
    moreover have "c \<in> set (take n (a # s @ [c]))" by (simp add: n)
    ultimately have "\<not> is_ascii c" using utf8_step_multi [of "a # s @ [c]" n c] st ok by auto
    with "2.prems"(1) show ?thesis by simp
  qed
qed simp

lemma message_id_parse_valid:
  assumes "utf8_valid (trim value)" and "message_id_parse value = Inr m"
  shows "message_id_valid m \<and> mid_str m = trim value"
proof -
  let ?t = "trim value"
  obtain rest inner where r: "strip_prefix ''<'' ?t = Some rest" "strip_suffix ''>'' rest = Some inner"
    using assms(2) by (auto simp: message_id_parse_def Let_def bind_res_Inr ok_or_Inr split: if_splits option.splits)
  have "?t = ''<'' @ inner @ ''>''"
    using r by (simp add: strip_prefix_Some_iff strip_suffix_Some_iff)
  moreover have "length ?t \<le> MAX_MESSAGE_ID_LEN \<and> inner \<noteq> [] \<and> m = MessageId ?t \<and>
      \<not> list_ex (\<lambda>c. char_is_whitespace c \<or> char_is_control c \<or> c = ''<'' \<or> c = ''>'') (chars inner)"
    using assms(2) r by (simp add: message_id_parse_def Let_def split: if_splits)
  ultimately show ?thesis
    using assms(1) by (simp add: message_id_valid_def del: utf8_valid.simps)
qed

lemma message_id_safe:
  assumes "message_id_valid m"
  shows "wire_safe (mid_str m)"
proof -
  obtain inner where m: "mid_str m = ''<'' @ inner @ ''>''"
    and chars: "\<not> list_ex (\<lambda>c. char_is_whitespace c \<or> char_is_control c \<or> c = ''<'' \<or> c = ''>'') (chars inner)"
    and u: "utf8_valid (mid_str m)"
    using assms by (auto simp: message_id_valid_def)
  have "utf8_valid (inner @ [CHR ''>''])"
    using u by (simp add: m utf8_valid_ascii_Cons is_ascii_def del: utf8_valid.simps(2))
  then have v: "utf8_valid inner" by (rule utf8_valid_snoc [rotated]) (simp add: is_ascii_def)
  have "\<not> is_ascii_control c \<and> c \<noteq> SP" if "c \<in> set inner" for c
  proof (cases "is_ascii c")
    case True
    then have "[c] \<in> set (chars inner)" by (rule chars_ascii_mem [OF v that])
    with chars have "\<not> char_is_control [c]" "\<not> char_is_whitespace [c]"
      unfolding list_ex_iff by blast+
    moreover have "char_is_whitespace [SP]" by (simp add: char_is_whitespace_def uws1_def)
    ultimately show ?thesis by (auto simp: char_is_control_def)
  next
    case False
    then have "127 < code c" by (simp add: is_ascii_def)
    moreover from this have "c \<noteq> SP" by auto
    ultimately show ?thesis by (simp add: is_ascii_control_def)
  qed
  moreover have "\<not> is_ascii_control (CHR ''<'')" "\<not> is_ascii_control (CHR ''>'')"
    by (simp_all add: is_ascii_control_def)
  ultimately show ?thesis by (auto simp: m wire_safe_def)
qed

interpretation message_id: wire_argument mid_str message_id_valid MAX_MESSAGE_ID_LEN
  by unfold_locales (simp_all add: message_id_safe, simp add: message_id_valid_def)

lemma message_id_trim: "message_id_valid m \<Longrightarrow> trim (mid_str m) = mid_str m"
  by (auto simp: message_id_valid_def solid_def is_ascii_graphic_def intro!: trim_graphic_ends)

lemma message_id_reparse: "message_id_valid m \<Longrightarrow> message_id_parse (mid_str m) = Inr m"
proof -
  assume v: "message_id_valid m"
  then obtain inner where m: "mid_str m = ''<'' @ inner @ ''>''" "inner \<noteq> []"
    "\<not> list_ex (\<lambda>c. char_is_whitespace c \<or> char_is_control c \<or> c = ''<'' \<or> c = ''>'') (chars inner)"
    "length (mid_str m) \<le> MAX_MESSAGE_ID_LEN"
    by (auto simp: message_id_valid_def)
  have "strip_prefix ''<'' (mid_str m) = Some (inner @ ''>'')"
    by (simp add: m(1) strip_prefix_Some_iff)
  moreover have "strip_suffix ''>'' (inner @ ''>'') = Some inner"
    by (simp add: strip_suffix_Some_iff)
  ultimately show ?thesis
    using m message_id_trim [OF v]
    by (cases m) (simp add: message_id_parse_def Let_def)
qed

end
