(* ===== verification/Response.thy ===== *)
theory Response
  imports Proto_Error
begin

text \<open>
  \<open>crates/nntp-proto/src/response.rs\<close>: status lines and response codes.
\<close>

section \<open>Response codes\<close>

datatype response_code = ResponseCode u16

datatype response_kind =
  Informative | Success | Continue | TransientError | PermanentError | Unknown

definition rc_new :: "u16 \<Rightarrow> response_code" where
  "rc_new value = ResponseCode value"

fun as_u16 :: "response_code \<Rightarrow> u16" where
  "as_u16 (ResponseCode v) = v"

definition kind :: "response_code \<Rightarrow> response_kind" where
  "kind c =
     (let v = as_u16 c in
      if 100 \<le> v \<and> v \<le> 199 then Informative
      else if 200 \<le> v \<and> v \<le> 299 then Success
      else if 300 \<le> v \<and> v \<le> 399 then Continue
      else if 400 \<le> v \<and> v \<le> 499 then TransientError
      else if 500 \<le> v \<and> v \<le> 599 then PermanentError
      else Unknown)"

definition is_ok :: "response_code \<Rightarrow> bool" where
  "is_ok c \<longleftrightarrow> kind c \<in> {Informative, Success}"

definition is_error :: "response_code \<Rightarrow> bool" where
  "is_error c \<longleftrightarrow> kind c \<in> {TransientError, PermanentError}"

definition always_has_data_block :: "response_code \<Rightarrow> bool" where
  "always_has_data_block c \<longleftrightarrow>
     as_u16 c \<in> {100, 101, 215, 220, 221, 222, 224, 225, 230, 231}"

definition show_code :: "response_code \<Rightarrow> string" where
  "show_code c = dec (unat (as_u16 c))"

text \<open>The derived order of \<open>ResponseCode\<close> is the order of the number.\<close>

instantiation response_code :: linorder
begin

definition less_eq_response_code :: "response_code \<Rightarrow> response_code \<Rightarrow> bool" where
  "less_eq_response_code a b \<longleftrightarrow> as_u16 a \<le> as_u16 b"

definition less_response_code :: "response_code \<Rightarrow> response_code \<Rightarrow> bool" where
  "less_response_code a b \<longleftrightarrow> as_u16 a < as_u16 b"

instance
proof
  fix a b c :: response_code
  show "a < b \<longleftrightarrow> a \<le> b \<and> \<not> b \<le> a"
    by (auto simp: less_response_code_def less_eq_response_code_def)
  show "a \<le> a" by (simp add: less_eq_response_code_def)
  show "a \<le> b \<Longrightarrow> b \<le> c \<Longrightarrow> a \<le> c"
    by (simp add: less_eq_response_code_def)
  show "a \<le> b \<Longrightarrow> b \<le> a \<Longrightarrow> a = b"
    by (cases a; cases b) (simp add: less_eq_response_code_def)
  show "a \<le> b \<or> b \<le> a" by (auto simp: less_eq_response_code_def)
qed

end

subsection \<open>Named codes\<close>

definition HELP_TEXT_FOLLOWS :: response_code where
  "HELP_TEXT_FOLLOWS = rc_new 100"

definition CAPABILITIES_FOLLOW :: response_code where
  "CAPABILITIES_FOLLOW = rc_new 101"

definition SERVER_DATE :: response_code where
  "SERVER_DATE = rc_new 111"

definition GREETING_POSTING_ALLOWED :: response_code where
  "GREETING_POSTING_ALLOWED = rc_new 200"

definition GREETING_NO_POSTING :: response_code where
  "GREETING_NO_POSTING = rc_new 201"

definition TLS_CONTINUE :: response_code where
  "TLS_CONTINUE = rc_new 382"

definition CLOSING :: response_code where
  "CLOSING = rc_new 205"

definition GROUP_SELECTED :: response_code where
  "GROUP_SELECTED = rc_new 211"

definition INFORMATION_FOLLOWS :: response_code where
  "INFORMATION_FOLLOWS = rc_new 215"

definition ARTICLE_FOLLOWS :: response_code where
  "ARTICLE_FOLLOWS = rc_new 220"

definition HEAD_FOLLOWS :: response_code where
  "HEAD_FOLLOWS = rc_new 221"

definition BODY_FOLLOWS :: response_code where
  "BODY_FOLLOWS = rc_new 222"

definition ARTICLE_EXISTS :: response_code where
  "ARTICLE_EXISTS = rc_new 223"

definition OVERVIEW_FOLLOWS :: response_code where
  "OVERVIEW_FOLLOWS = rc_new 224"

definition HEADERS_FOLLOW :: response_code where
  "HEADERS_FOLLOW = rc_new 225"

definition NEW_ARTICLES_FOLLOW :: response_code where
  "NEW_ARTICLES_FOLLOW = rc_new 230"

definition NEW_GROUPS_FOLLOW :: response_code where
  "NEW_GROUPS_FOLLOW = rc_new 231"

definition AUTH_ACCEPTED :: response_code where
  "AUTH_ACCEPTED = rc_new 281"

definition SEND_ARTICLE :: response_code where
  "SEND_ARTICLE = rc_new 340"

definition AUTH_PASSWORD_REQUIRED :: response_code where
  "AUTH_PASSWORD_REQUIRED = rc_new 381"

definition SERVICE_UNAVAILABLE_TEMPORARY :: response_code where
  "SERVICE_UNAVAILABLE_TEMPORARY = rc_new 400"

definition WRONG_MODE :: response_code where
  "WRONG_MODE = rc_new 401"

definition NO_SUCH_GROUP :: response_code where
  "NO_SUCH_GROUP = rc_new 411"

definition NO_GROUP_SELECTED :: response_code where
  "NO_GROUP_SELECTED = rc_new 412"

definition NO_ARTICLE_SELECTED :: response_code where
  "NO_ARTICLE_SELECTED = rc_new 420"

definition NO_SUCH_ARTICLE_NUMBER :: response_code where
  "NO_SUCH_ARTICLE_NUMBER = rc_new 423"

definition NO_SUCH_ARTICLE_ID :: response_code where
  "NO_SUCH_ARTICLE_ID = rc_new 430"

definition ARTICLE_POSTED :: response_code where
  "ARTICLE_POSTED = rc_new 240"

definition POSTING_NOT_PERMITTED :: response_code where
  "POSTING_NOT_PERMITTED = rc_new 440"

definition POSTING_FAILED :: response_code where
  "POSTING_FAILED = rc_new 441"

definition AUTH_REQUIRED :: response_code where
  "AUTH_REQUIRED = rc_new 480"

definition AUTH_REJECTED :: response_code where
  "AUTH_REJECTED = rc_new 481"

definition AUTH_OUT_OF_SEQUENCE :: response_code where
  "AUTH_OUT_OF_SEQUENCE = rc_new 482"

definition UNKNOWN_COMMAND :: response_code where
  "UNKNOWN_COMMAND = rc_new 500"

definition SYNTAX_ERROR :: response_code where
  "SYNTAX_ERROR = rc_new 501"

definition SERVICE_UNAVAILABLE_PERMANENT :: response_code where
  "SERVICE_UNAVAILABLE_PERMANENT = rc_new 502"

definition FEATURE_NOT_SUPPORTED :: response_code where
  "FEATURE_NOT_SUPPORTED = rc_new 503"

lemmas code_defs = rc_new_def
  HELP_TEXT_FOLLOWS_def CAPABILITIES_FOLLOW_def SERVER_DATE_def
  GREETING_POSTING_ALLOWED_def GREETING_NO_POSTING_def TLS_CONTINUE_def
  CLOSING_def GROUP_SELECTED_def INFORMATION_FOLLOWS_def
  ARTICLE_FOLLOWS_def HEAD_FOLLOWS_def BODY_FOLLOWS_def
  ARTICLE_EXISTS_def OVERVIEW_FOLLOWS_def HEADERS_FOLLOW_def
  NEW_ARTICLES_FOLLOW_def NEW_GROUPS_FOLLOW_def AUTH_ACCEPTED_def
  SEND_ARTICLE_def AUTH_PASSWORD_REQUIRED_def SERVICE_UNAVAILABLE_TEMPORARY_def
  WRONG_MODE_def NO_SUCH_GROUP_def NO_GROUP_SELECTED_def
  NO_ARTICLE_SELECTED_def NO_SUCH_ARTICLE_NUMBER_def NO_SUCH_ARTICLE_ID_def
  ARTICLE_POSTED_def POSTING_NOT_PERMITTED_def POSTING_FAILED_def
  AUTH_REQUIRED_def AUTH_REJECTED_def AUTH_OUT_OF_SEQUENCE_def
  UNKNOWN_COMMAND_def SYNTAX_ERROR_def SERVICE_UNAVAILABLE_PERMANENT_def
  FEATURE_NOT_SUPPORTED_def

section \<open>Status lines\<close>

record status_line =
  sl_code :: response_code
  sl_text :: string

definition strip_eol :: "bytes \<Rightarrow> bytes" where
  "strip_eol line =
     (let line = (case strip_suffix [LF] line of Some l \<Rightarrow> l | None \<Rightarrow> line)
      in case strip_suffix [CR] line of Some l \<Rightarrow> l | None \<Rightarrow> line)"

definition status_parse :: "bytes \<Rightarrow> status_line proto_result" where
  "status_parse raw =
     (let line = strip_eol raw; bad = Inl (MalformedStatusLine (lossy line)) in
      if length line < 3 then bad
      else let digits = take 3 line; rest = drop 3 line in
        if \<not> list_all is_ascii_digit digits then bad
        else let value = foldl (\<lambda>acc d. acc * 10 + of_nat (code d - 48)) 0 digits in
          (case rest of
             [] \<Rightarrow> Inr \<lparr>sl_code = ResponseCode value, sl_text = []\<rparr>
           | c # tail \<Rightarrow>
               if c = SP \<or> c = TAB
               then Inr \<lparr>sl_code = ResponseCode value, sl_text = lossy tail\<rparr>
               else bad))"

definition args :: "status_line \<Rightarrow> string list" where
  "args s = split_ascii_whitespace (sl_text s)"

definition arg :: "nat \<Rightarrow> string \<Rightarrow> string \<Rightarrow> status_line \<Rightarrow> string proto_result" where
  "arg n ctx field s = ok_or (MissingField ctx field) (get_opt (args s) n)"

definition arg_u64 :: "nat \<Rightarrow> string \<Rightarrow> string \<Rightarrow> status_line \<Rightarrow> u64 proto_result" where
  "arg_u64 n ctx field s =
     bind_res (arg n ctx field s) (\<lambda>raw. ok_or (InvalidNumber ctx raw) (parse_u64 raw))"

section \<open>Lemmas\<close>

lemma kind_cases:
  "kind c = Informative \<longleftrightarrow> 100 \<le> unat (as_u16 c) \<and> unat (as_u16 c) \<le> 199"
  "kind c = Success \<longleftrightarrow> 200 \<le> unat (as_u16 c) \<and> unat (as_u16 c) \<le> 299"
  "kind c = Continue \<longleftrightarrow> 300 \<le> unat (as_u16 c) \<and> unat (as_u16 c) \<le> 399"
  "kind c = TransientError \<longleftrightarrow> 400 \<le> unat (as_u16 c) \<and> unat (as_u16 c) \<le> 499"
  "kind c = PermanentError \<longleftrightarrow> 500 \<le> unat (as_u16 c) \<and> unat (as_u16 c) \<le> 599"
  by (auto simp: kind_def Let_def word_le_nat_alt)

lemma not_ok_and_error: "\<not> (is_ok c \<and> is_error c)"
  by (auto simp: is_ok_def is_error_def)

lemma digit_code: "is_ascii_digit d \<Longrightarrow> code d - 48 < 10"
  by (auto simp: is_ascii_digit_def)

lemma of_nat3: "(of_nat x * 10 + of_nat y) * 10 + of_nat z = (of_nat (100 * x + 10 * y + z) :: u16)"
  by (simp add: algebra_simps)

lemma digit_value3:
  assumes "is_ascii_digit a" "is_ascii_digit b" "is_ascii_digit c"
  shows "unat (foldl (\<lambda>acc d. acc * 10 + of_nat (code d - 48)) (0 :: u16) [a, b, c]) =
    100 * (code a - 48) + 10 * (code b - 48) + (code c - 48)"
proof -
  let ?n = "100 * (code a - 48) + 10 * (code b - 48) + (code c - 48)"
  have "?n < 1000" using assms [THEN digit_code] by auto
  then have n: "?n < 2 ^ LENGTH(16)" by simp
  have "foldl (\<lambda>acc d. acc * 10 + of_nat (code d - 48)) (0 :: u16) [a, b, c] = of_nat ?n"
    unfolding of_nat3 [symmetric] by simp
  with unat_of_nat_small [OF n] show ?thesis by (simp only:)
qed

lemma length3: "length xs = 3 \<longleftrightarrow> (\<exists>a b c. xs = [a, b, c])"
  by (auto simp: numeral_3_eq_3 length_Suc_conv)

text \<open>What a line must look like, and what is read off it.\<close>

definition status_shape :: "bytes \<Rightarrow> char \<Rightarrow> char \<Rightarrow> char \<Rightarrow> bytes \<Rightarrow> bool" where
  "status_shape line a b c rest \<longleftrightarrow> line = [a, b, c] @ rest \<and>
     is_ascii_digit a \<and> is_ascii_digit b \<and> is_ascii_digit c \<and>
     (rest = [] \<or> hd rest = SP \<or> hd rest = TAB)"

lemma status_parse_shape:
  assumes "status_shape (strip_eol raw) a b c rest"
  shows "\<exists>v. status_parse raw = Inr \<lparr>sl_code = ResponseCode v, sl_text = lossy (tl rest)\<rparr> \<and>
    unat v = 100 * (code a - 48) + 10 * (code b - 48) + (code c - 48)"
  using assms digit_value3 [of a b c]
  by (cases rest) (auto simp: status_shape_def status_parse_def Let_def)

lemma status_parse_Inr:
  assumes "status_parse raw = Inr s"
  shows "\<exists>a b c rest. status_shape (strip_eol raw) a b c rest"
proof -
  let ?l = "strip_eol raw"
  have len: "3 \<le> length ?l" and dig: "list_all is_ascii_digit (take 3 ?l)"
    using assms by (auto simp: status_parse_def Let_def split: if_splits)
  from len obtain a b c where t: "take 3 ?l = [a, b, c]"
    using length3 [of "take 3 ?l"] by auto
  have l: "?l = [a, b, c] @ drop 3 ?l" by (metis append_take_drop_id t)
  have "drop 3 ?l = [] \<or> hd (drop 3 ?l) = SP \<or> hd (drop 3 ?l) = TAB"
    using assms len dig
    by (auto simp: status_parse_def Let_def split: if_splits list.splits)
  with l dig t have "status_shape ?l a b c (drop 3 ?l)" by (simp add: status_shape_def)
  then show ?thesis by blast
qed

lemma status_parse_Inl:
  "status_parse raw = Inl e \<Longrightarrow> e = MalformedStatusLine (lossy (strip_eol raw))"
  by (auto simp: status_parse_def Let_def split: if_splits list.splits)

lemma strip_eol_crlf: "strip_eol (l @ [CR, LF]) = l"
proof -
  have "strip_suffix [LF] (l @ [CR, LF]) = Some (l @ [CR])" by (simp add: strip_suffix_Some_iff)
  moreover have "strip_suffix [CR] (l @ [CR]) = Some l" by (simp add: strip_suffix_Some_iff)
  ultimately show ?thesis by (simp add: strip_eol_def)
qed

lemma status_code_bound:
  "status_parse raw = Inr s \<Longrightarrow> unat (as_u16 (sl_code s)) < 1000"
proof -
  assume p: "status_parse raw = Inr s"
  from status_parse_Inr [OF p] obtain a b c rest where "status_shape (strip_eol raw) a b c rest" by blast
  moreover from this have "code a - 48 < 10" "code b - 48 < 10" "code c - 48 < 10"
    by (simp_all add: status_shape_def digit_code)
  ultimately show ?thesis using status_parse_shape p by fastforce
qed

section \<open>Properties\<close>

text \<open>a status line parses exactly when it is three digits followed by nothing, a space
  or a tab (after one optional CRLF, LF or CR is dropped); the code is the value of the digits,
  below 1000 and never wrapped, the text is what follows the separator, and every other
  line is reported as malformed.\<close>
theorem status_parse_exact:
  "(case status_parse raw of
     Inr s \<Rightarrow> \<exists>a b c rest. status_shape (strip_eol raw) a b c rest \<and>
       unat (as_u16 (sl_code s)) = 100 * (code a - 48) + 10 * (code b - 48) + (code c - 48) \<and>
       unat (as_u16 (sl_code s)) < 1000 \<and> sl_text s = lossy (tl rest)
   | Inl e \<Rightarrow> e = MalformedStatusLine (lossy (strip_eol raw)) \<and>
       (\<nexists>a b c rest. status_shape (strip_eol raw) a b c rest))"
proof (cases "status_parse raw")
  case (Inl e)
  then have "\<nexists>a b c rest. status_shape (strip_eol raw) a b c rest"
    using status_parse_shape by fastforce
  with Inl status_parse_Inl [OF Inl] show ?thesis by simp
next
  case (Inr s)
  from status_parse_Inr [OF Inr] obtain a b c rest
    where sh: "status_shape (strip_eol raw) a b c rest" by blast
  from status_parse_shape [OF sh] Inr status_code_bound [OF Inr] sh show ?thesis by fastforce
qed

end
