(* ===== verification/Group.thy ===== *)
theory Group
  imports Message_Id Response
begin

text \<open>
  \<open>crates/nntp-proto/src/group.rs\<close>: newsgroup names, the answer to \<open>GROUP\<close> and posting
  status.
\<close>

definition MAX_GROUP_NAME_LEN :: nat where
  "MAX_GROUP_NAME_LEN = 480"

datatype group_name = GroupName (gn_str: string)

definition group_char :: "char \<Rightarrow> bool" where
  "group_char b \<longleftrightarrow> is_ascii_graphic b \<and>
     b \<notin> {CHR ''*'', CHR ''?'', CHR '','', CHR ''!'', CHR 0x5C}"

definition group_name_parse :: "string \<Rightarrow> group_name proto_result" where
  "group_name_parse value =
     (if value = [] \<or> length value > MAX_GROUP_NAME_LEN then Inl (InvalidGroupName value)
      else if \<not> list_all group_char value then Inl (InvalidGroupName value)
      else Inr (GroupName value))"

definition components :: "group_name \<Rightarrow> string list" where
  "components g = split_on (CHR ''.'') (gn_str g)"

definition hierarchy :: "group_name \<Rightarrow> string" where
  "hierarchy g = (case split_on (CHR ''.'') (gn_str g) of [] \<Rightarrow> gn_str g | c # _ \<Rightarrow> c)"

text \<open>The derived order of \<open>GroupName\<close> is the order of its text.\<close>

instantiation group_name :: linorder
begin

definition less_eq_group_name :: "group_name \<Rightarrow> group_name \<Rightarrow> bool" where
  "less_eq_group_name a b \<longleftrightarrow> gn_str a \<le> gn_str b"

definition less_group_name :: "group_name \<Rightarrow> group_name \<Rightarrow> bool" where
  "less_group_name a b \<longleftrightarrow> gn_str a < gn_str b"

instance
proof
  fix a b c :: group_name
  show "a < b \<longleftrightarrow> a \<le> b \<and> \<not> b \<le> a"
    by (auto simp: less_group_name_def less_eq_group_name_def)
  show "a \<le> a" by (simp add: less_eq_group_name_def)
  show "a \<le> b \<Longrightarrow> b \<le> c \<Longrightarrow> a \<le> c" by (simp add: less_eq_group_name_def)
  show "a \<le> b \<Longrightarrow> b \<le> a \<Longrightarrow> a = b"
    by (cases a; cases b) (simp add: less_eq_group_name_def)
  show "a \<le> b \<or> b \<le> a" by (auto simp: less_eq_group_name_def)
qed

end

record group_summary =
  gs_name :: group_name
  estimated_count :: u64
  gs_low :: u64
  gs_high :: u64

definition group_summary_parse :: "status_line \<Rightarrow> group_name option \<Rightarrow> group_summary proto_result" where
  "group_summary_parse line fallback_name =
     (let ctx = ''GROUP response'' in
      bind_res (arg_u64 0 ctx ''count'' line) (\<lambda>count.
      bind_res (arg_u64 1 ctx ''low'' line) (\<lambda>low.
      bind_res (arg_u64 2 ctx ''high'' line) (\<lambda>high.
      bind_res (case get_opt (args line) 3 of
                  Some raw \<Rightarrow> group_name_parse raw
                | None \<Rightarrow> ok_or (MissingField ctx ''group'') fallback_name) (\<lambda>name.
      Inr \<lparr>gs_name = name, estimated_count = count, gs_low = low, gs_high = high\<rparr>)))))"

definition group_is_empty :: "group_summary \<Rightarrow> bool" where
  "group_is_empty g \<longleftrightarrow> estimated_count g = 0 \<or> gs_high g = 0 \<or> gs_high g < gs_low g"

definition group_range :: "group_summary \<Rightarrow> (u64 \<times> u64) option" where
  "group_range g = (if group_is_empty g then None else Some (gs_low g, gs_high g))"

datatype posting_status =
    Permitted | Prohibited | Moderated | Junked | Disabled
  | AliasFor string | OtherStatus string

definition posting_status_parse :: "string \<Rightarrow> posting_status" where
  "posting_status_parse raw =
     (if raw = ''y'' then Permitted else if raw = ''n'' then Prohibited
      else if raw = ''m'' then Moderated else if raw = ''j'' then Junked
      else if raw = ''x'' then Disabled
      else (case strip_prefix ''='' raw of Some target \<Rightarrow> AliasFor target | None \<Rightarrow> OtherStatus raw))"

definition allows_posting :: "posting_status \<Rightarrow> bool" where
  "allows_posting s \<longleftrightarrow> s = Permitted \<or> s = Moderated"

text \<open>The flag of an unknown status is quoted with Rust's debug escapes; \<open>quote\<close> stands
  for that formatter.\<close>

fun describe :: "(string \<Rightarrow> string) \<Rightarrow> posting_status \<Rightarrow> string" where
  "describe quote Permitted = ''posting allowed''"
| "describe quote Prohibited = ''read only''"
| "describe quote Moderated = ''moderated''"
| "describe quote Junked = ''postings junked''"
| "describe quote Disabled = ''locally disabled''"
| "describe quote (AliasFor target) = ''alias for '' @ target"
| "describe quote (OtherStatus flag) = ''status '' @ quote flag"

section \<open>Lemmas\<close>

definition group_name_valid :: "group_name \<Rightarrow> bool" where
  "group_name_valid g \<longleftrightarrow> group_name_parse (gn_str g) = Inr g"

lemma group_name_valid_iff: "group_name_valid g \<longleftrightarrow>
    gn_str g \<noteq> [] \<and> length (gn_str g) \<le> MAX_GROUP_NAME_LEN \<and> list_all group_char (gn_str g)"
  by (cases g) (auto simp: group_name_valid_def group_name_parse_def)

lemma group_name_parse_Inr:
  "group_name_parse s = Inr g \<longleftrightarrow> group_name_valid g \<and> s = gn_str g"
  by (cases g) (auto simp: group_name_valid_def group_name_parse_def)

lemma graphic_wire_safe: "s \<noteq> [] \<Longrightarrow> list_all is_ascii_graphic s \<Longrightarrow> wire_safe s"
  by (auto simp: wire_safe_def list_all_iff is_ascii_control_def is_ascii_graphic_def)

lemma group_chars_graphic: "list_all group_char s \<Longrightarrow> list_all is_ascii_graphic s"
  by (auto simp: list_all_iff group_char_def)

interpretation group_name: wire_argument gn_str group_name_valid MAX_GROUP_NAME_LEN
  by unfold_locales (simp_all add: group_name_valid_iff graphic_wire_safe group_chars_graphic)

lemma group_summary_parse_shown:
  assumes "group_name_valid g"
    and "sl_text line = u64_to_string count @ '' '' @ u64_to_string low @ '' '' @
      u64_to_string high @ '' '' @ gn_str g"
  shows "group_summary_parse line fb =
    Inr \<lparr>gs_name = g, estimated_count = count, gs_low = low, gs_high = high\<rparr>"
proof -
  have ws: "is_ascii_whitespace SP" by (simp add: is_ascii_whitespace_def)
  have g: "gn_str g \<noteq> []" "list_all is_ascii_graphic (gn_str g)"
    using assms(1) by (simp_all add: group_name_valid_iff group_chars_graphic)
  have "args line = [u64_to_string count, u64_to_string low, u64_to_string high, gn_str g]"
    unfolding args_def assms(2)
    by (simp add: split_ws_single u64_to_string_graphic ws g)
  moreover have "group_name_parse (gn_str g) = Inr g"
    using assms(1) by (simp add: group_name_valid_def)
  ultimately show ?thesis
    by (simp add: group_summary_parse_def arg_u64_def arg_def get_opt_def Let_def)
qed

text \<open>C26: the answer to \<open>GROUP\<close> is read back as it is written: the count, the two watermarks
  and the group's name; and a summary's range is offered exactly when the group has
  articles, with its bounds in order.\<close>
theorem group_summary_round_trip:
  assumes "group_name_valid g"
    and "sl_text line = u64_to_string count @ '' '' @ u64_to_string low @ '' '' @
      u64_to_string high @ '' '' @ gn_str g"
  shows "\<exists>s. group_summary_parse line fb = Inr s \<and> gs_name s = g \<and> estimated_count s = count \<and>
    gs_low s = low \<and> gs_high s = high \<and>
    group_range s = (if count \<noteq> 0 \<and> high \<noteq> 0 \<and> low \<le> high then Some (low, high) else None)"
  using group_summary_parse_shown [OF assms, of fb]
  by (auto simp: group_range_def group_is_empty_def not_less)

theorem group_summary_round_trip_witness:
  "\<exists>s. group_summary_parse \<lparr>sl_code = GROUP_SELECTED,
      sl_text = u64_to_string 2 @ '' '' @ u64_to_string 10 @ '' '' @ u64_to_string 12 @ '' '' @ ''misc.test''\<rparr> None = Inr s \<and>
    group_range s = Some (10, 12)"
proof -
  have "group_name_valid (GroupName ''misc.test'')"
    by (simp add: group_name_valid_iff MAX_GROUP_NAME_LEN_def group_char_def is_ascii_graphic_def)
  from group_summary_round_trip [OF this, of "\<lparr>sl_code = GROUP_SELECTED,
      sl_text = u64_to_string 2 @ '' '' @ u64_to_string 10 @ '' '' @ u64_to_string 12 @ '' '' @ ''misc.test''\<rparr>"
      2 10 12 None]
  show ?thesis by auto
qed

end
