(* ===== verification/Spec.thy ===== *)
theory Spec
  imports Message_Id
begin

text \<open>
  \<open>crates/nntp-proto/src/spec.rs\<close>: naming an article, and ranges of article numbers.
\<close>

section \<open>Article specifications\<close>

datatype article_spec = SpecMessageId message_id | SpecNumber u64 | SpecCurrent

fun spec_to_argument :: "article_spec \<Rightarrow> string option" where
  "spec_to_argument (SpecMessageId m) = Some (mid_str m)"
| "spec_to_argument (SpecNumber n) = Some (u64_to_string n)"
| "spec_to_argument SpecCurrent = None"

fun needs_selected_group :: "article_spec \<Rightarrow> bool" where
  "needs_selected_group (SpecMessageId _) = False"
| "needs_selected_group (SpecNumber _) = True"
| "needs_selected_group SpecCurrent = True"

section \<open>Ranges\<close>

datatype art_range = Single u64 | Between u64 u64 | From u64

definition between :: "u64 \<Rightarrow> u64 \<Rightarrow> art_range" where
  "between low high = (if low \<le> high then Between low high else Between high low)"

fun range_to_argument :: "art_range \<Rightarrow> string" where
  "range_to_argument (Single n) = u64_to_string n"
| "range_to_argument (Between low high) = u64_to_string low @ ''-'' @ u64_to_string high"
| "range_to_argument (From low) = u64_to_string low @ ''-''"

fun range_contains :: "art_range \<Rightarrow> u64 \<Rightarrow> bool" where
  "range_contains (Single n) number \<longleftrightarrow> number = n"
| "range_contains (Between low high) number \<longleftrightarrow> low \<le> number \<and> number \<le> high"
| "range_contains (From low) number \<longleftrightarrow> low \<le> number"

text \<open>The subtraction or the addition of \<open>count\<close> can overflow, for bounds that the public
  constructor allows but \<open>between\<close> never makes: reversed bounds, and the full range.\<close>

fun range_count :: "art_range \<Rightarrow> panic + u64 option" where
  "range_count (Single _) = Inr (Some 1)"
| "range_count (Between low high) =
     (if high < low \<or> high - low = - 1 then Inl Overflow else Inr (Some (high - low + 1)))"
| "range_count (From _) = Inr None"

lemma sat_add_ge: "a \<le> sat_add a (b :: 'a::len word)"
proof -
  have "unat a \<le> 2 ^ LENGTH('a) - 1" using unat_lt_pow [of a] by linarith
  then show ?thesis by (simp add: word_le_nat_alt unat_sat_add)
qed

lemma chunk_advances:
  fixes start high :: u64
  assumes "min (sat_add start d) high < high"
  shows "start \<le> min (sat_add start d) high"
    "unat (min (sat_add start d) high + 1) = unat (min (sat_add start d) high) + 1"
proof -
  have "min (sat_add start d) high = sat_add start d" using assms by (auto simp: min_def split: if_splits)
  then show "start \<le> min (sat_add start d) high" using sat_add_ge [of start d] by simp
  show "unat (min (sat_add start d) high + 1) = unat (min (sat_add start d) high) + 1"
    using assms by (rule unat_inc)
qed

function chunks_loop :: "u64 \<Rightarrow> u64 \<Rightarrow> u64 \<Rightarrow> art_range list" where
  "chunks_loop chunk start high =
     (let end' = min (sat_add start (chunk - 1)) high
      in between start end' # (if high \<le> end' then [] else chunks_loop chunk (end' + 1) high))"
  by pat_completeness auto
termination
proof (relation "measure (\<lambda>(chunk, start, high). unat high - unat start)", goal_cases)
  case (2 chunk start high x)
  then have lt: "min (sat_add start (chunk - 1)) high < high" by simp
  from chunk_advances [OF lt] lt 2 show ?case
    by (simp add: word_le_nat_alt word_less_nat_alt)
qed simp

declare chunks_loop.simps [simp del]

fun range_chunks :: "u64 \<Rightarrow> art_range \<Rightarrow> art_range list" where
  "range_chunks chunk (Single n) = [Single n]"
| "range_chunks chunk (From low) = [From low]"
| "range_chunks chunk (Between low high) =
     (if chunk = 0 then [between low high] else chunks_loop chunk low high)"

section \<open>The argument of OVER and HDR\<close>

datatype range_or_id = RoiRange art_range | RoiMessageId message_id | RoiCurrent

fun roi_to_argument :: "range_or_id \<Rightarrow> string option" where
  "roi_to_argument (RoiRange r) = Some (range_to_argument r)"
| "roi_to_argument (RoiMessageId m) = Some (mid_str m)"
| "roi_to_argument RoiCurrent = None"

section \<open>Lemmas\<close>

text \<open>Consecutive chunks: each starts right after the one before ends, none is longer than
  \<open>chunk\<close>, the first starts at \<open>low\<close> and the last ends at \<open>high\<close>.\<close>

fun tiles :: "u64 \<Rightarrow> u64 \<Rightarrow> u64 \<Rightarrow> art_range list \<Rightarrow> bool" where
  "tiles chunk low high [] \<longleftrightarrow> False"
| "tiles chunk low high [Between a b] \<longleftrightarrow>
     a = low \<and> b = high \<and> a \<le> b \<and> unat b - unat a < unat chunk"
| "tiles chunk low high (Between a b # rs) \<longleftrightarrow>
     a = low \<and> a \<le> b \<and> b < high \<and> unat b - unat a < unat chunk \<and> tiles chunk (b + 1) high rs"
| "tiles chunk low high (_ # rs) \<longleftrightarrow> False"

lemma chunk_size:
  fixes start :: u64 assumes "chunk \<noteq> 0"
  shows "unat (min (sat_add start (chunk - 1)) high) - unat start < unat chunk"
proof -
  have c: "0 < unat chunk" using assms by (simp add: unat_gt_0)
  then have "unat (chunk - 1) = unat chunk - 1"
    by (intro unat_dec) (simp add: word_less_nat_alt)
  with c show ?thesis by (simp add: unat_min unat_sat_add)
qed

lemma chunks_tile:
  "chunk \<noteq> 0 \<Longrightarrow> start \<le> high \<Longrightarrow> tiles chunk start high (chunks_loop chunk start high)"
proof (induction chunk start high rule: chunks_loop.induct)
  case (1 chunk start high)
  define e where "e = min (sat_add start (chunk - 1)) high"
  have se: "start \<le> e" using "1.prems"(2) sat_add_ge by (simp add: e_def)
  have size: "unat e - unat start < unat chunk"
    unfolding e_def using "1.prems"(1) by (rule chunk_size)
  have unf: "chunks_loop chunk start high =
      Between start e # (if high \<le> e then [] else chunks_loop chunk (e + 1) high)"
    using se by (subst chunks_loop.simps) (simp add: between_def e_def [symmetric] Let_def)
  show ?case
  proof (cases "high \<le> e")
    case True
    moreover have "e \<le> high" by (simp add: e_def)
    ultimately have "e = high" by simp
    with unf se size show ?thesis by simp
  next
    case False
    then have lt: "e < high" by simp
    then have "e + 1 \<le> high" using unat_inc [OF lt] by (simp add: word_le_nat_alt word_less_nat_alt)
    then have IH: "tiles chunk (e + 1) high (chunks_loop chunk (e + 1) high)"
      using "1.IH" [OF e_def False] "1.prems"(1) by simp
    then obtain r rs where "chunks_loop chunk (e + 1) high = r # rs"
      by (cases "chunks_loop chunk (e + 1) high") simp_all
    with IH unf False lt se size show ?thesis by simp
  qed
qed

lemma tiles_cover:
  "tiles chunk low high rs \<Longrightarrow> low \<le> high \<and> (\<exists>r \<in> set rs. range_contains r n) = (low \<le> n \<and> n \<le> high)"
proof (induction chunk low high rs rule: tiles.induct)
  case (3 chunk low high a b r rs)
  then have ab: "a = low" "low \<le> b" "b < high" by auto
  have inc: "unat (b + 1) = unat b + 1" using ab(3) by (rule unat_inc)
  have split: "low \<le> n \<and> n \<le> high \<longleftrightarrow> (low \<le> n \<and> n \<le> b) \<or> (b + 1 \<le> n \<and> n \<le> high)"
    using ab inc by (auto simp: word_le_nat_alt word_less_nat_alt)
  have "(\<exists>q \<in> set (Between a b # r # rs). range_contains q n) \<longleftrightarrow>
      (low \<le> n \<and> n \<le> b) \<or> (\<exists>q \<in> set (r # rs). range_contains q n)"
    using ab(1) by simp
  also have "\<dots> \<longleftrightarrow> low \<le> n \<and> n \<le> high" unfolding split using 3 by simp
  finally have "(\<exists>q \<in> set (Between a b # r # rs). range_contains q n) \<longleftrightarrow> low \<le> n \<and> n \<le> high" .
  moreover have "low \<le> high" using ab by simp
  ultimately show ?case by blast
qed auto

lemma tiles_ordered:
  "tiles chunk low high rs \<Longrightarrow> sorted_wrt (\<lambda>r q. \<forall>m n. range_contains r m \<longrightarrow> range_contains q n \<longrightarrow> m < n) rs"
proof (induction chunk low high rs rule: tiles.induct)
  case (3 chunk low high a b r rs)
  have t: "tiles chunk (b + 1) high (r # rs)" and b: "b < high" using 3 by simp_all
  have inc: "unat (b + 1) = unat b + 1" using b by (rule unat_inc)
  have "m < n" if "m \<le> b" "q \<in> set (r # rs)" "range_contains q n" for m n q
  proof -
    have "b + 1 \<le> n" using tiles_cover [OF t, of n] that by blast
    with that(1) inc show ?thesis by (simp add: word_le_nat_alt word_less_nat_alt)
  qed
  with 3 show ?case by auto
qed auto

lemma count_aux:
  assumes "a \<le> b" and "unat b - unat a < unat chunk"
  shows "\<exists>c. range_count (Between a b) = Inr (Some c) \<and> 1 \<le> c \<and> c \<le> chunk"
proof -
  have d: "unat (b - a) = unat b - unat a" using assms(1) by (simp add: unat_sub)
  have lt: "unat (b - a) + 1 < 2 ^ 64" using assms(2) unat_lt_u64 [of chunk] d by linarith
  then have "b - a \<noteq> - 1" by (auto simp: unat_minus_1 dest: arg_cong [where f = unat])
  then have c: "range_count (Between a b) = Inr (Some (b - a + 1))" using assms(1) by (simp add: not_less)
  have "unat (b - a + 1) = unat (b - a) + 1" using lt by (simp add: unat_plus_if')
  with assms d c show ?thesis by (simp add: word_le_nat_alt)
qed

lemma tiles_count:
  "tiles chunk low high rs \<Longrightarrow> r \<in> set rs \<Longrightarrow>
   \<exists>c. range_count r = Inr (Some c) \<and> 1 \<le> c \<and> c \<le> chunk"
proof (induction chunk low high rs rule: tiles.induct)
  case (2 chunk low high a b)
  then show ?case using count_aux [of a b chunk] by (auto simp del: range_count.simps)
next
  case (3 chunk low high a b q rs)
  then show ?case using count_aux [of a b chunk] by (auto simp del: range_count.simps)
qed auto


lemma count_full: "range_count (Between 0 (- 1)) = Inl Overflow" "range_count (Between 5 4) = Inl Overflow"
  by simp_all

text \<open>C40: splitting a range into chunks covers it exactly.  For ordered bounds and a positive
  chunk size, up to and including the largest u64, the chunks are consecutive intervals
  without overlap, each a range whose count is between 1 and the chunk size, and together
  they contain exactly the numbers of the range; so no article is fetched twice or missed.\<close>
theorem range_chunks_cover:
  assumes "low \<le> high" and "chunk \<noteq> 0"
  shows "((\<exists>r \<in> set (range_chunks chunk (Between low high)). range_contains r n) \<longleftrightarrow>
      range_contains (Between low high) n) \<and>
    sorted_wrt (\<lambda>r q. \<forall>m n. range_contains r m \<longrightarrow> range_contains q n \<longrightarrow> m < n)
      (range_chunks chunk (Between low high)) \<and>
    (\<forall>r \<in> set (range_chunks chunk (Between low high)).
       \<exists>c. range_count r = Inr (Some c) \<and> 1 \<le> c \<and> c \<le> chunk)"
proof -
  have t: "tiles chunk low high (range_chunks chunk (Between low high))"
    using assms chunks_tile by simp
  from tiles_cover [OF t, of n] tiles_ordered [OF t] tiles_count [OF t] show ?thesis by simp
qed

theorem range_chunks_cover_witness:
  "sorted_wrt (\<lambda>r q. True) (range_chunks 2 (Between 3 7)) \<and>
   (\<exists>r \<in> set (range_chunks 2 (Between 3 7)). range_contains r 7)"
  using range_chunks_cover [of 3 7 2 7] by (simp add: sorted_wrt_true)

end
