(* ===== verification/Command.thy ===== *)
theory Command
  imports Group Spec Headers
begin

text \<open>
  \<open>crates/nntp-proto/src/command.rs\<close>: wildmat patterns and their matcher, the typed
  commands, and their encoding into command lines.
\<close>

definition MAX_COMMAND_LEN :: nat where
  "MAX_COMMAND_LEN = 512"

section \<open>Wildmat patterns\<close>

datatype wildmat = Wildmat (wm_str: string)

definition WILDMAT_MAX_LEN :: nat where
  "WILDMAT_MAX_LEN = 400"

definition wildmat_parse :: "string \<Rightarrow> wildmat proto_result" where
  "wildmat_parse pattern =
     (if pattern = [] \<or> length pattern > WILDMAT_MAX_LEN \<or> \<not> list_all is_ascii_graphic pattern
      then Inl (InvalidWildmat pattern) else Inr (Wildmat pattern))"

definition wildmat_hierarchy :: "string \<Rightarrow> wildmat proto_result" where
  "wildmat_hierarchy prefix = wildmat_parse (prefix @ ''.*'')"

definition wildmat_containing :: "string \<Rightarrow> wildmat proto_result" where
  "wildmat_containing txt = wildmat_parse (''*'' @ txt @ ''*'')"

definition wildmat_join :: "wildmat list \<Rightarrow> wildmat option proto_result" where
  "wildmat_join patterns =
     (if patterns = [] then Inr None
      else map_res Some (wildmat_parse (join '','' (map wm_str patterns))))"

text \<open>
  The matcher's loop over its two cursors and the backtracking point.  It runs on fuel;
  \<open>match_fuel\<close> is enough for every pattern and name.  \<^const>\<open>None\<close> means out of fuel.
\<close>

fun match_loop ::
  "nat \<Rightarrow> string list \<Rightarrow> string list \<Rightarrow> nat \<Rightarrow> nat \<Rightarrow> nat option \<Rightarrow> nat \<Rightarrow> bool option" where
  "match_loop 0 pattern name p n star resume = None"
| "match_loop (Suc fuel) pattern name p n star resume =
     (if n < length name then
        (let c = get_opt pattern p in
         if c = Some ''*'' then match_loop fuel pattern name (p + 1) n (Some p) n
         else if c = Some ''?'' then match_loop fuel pattern name (p + 1) (n + 1) star resume
         else if c \<noteq> None \<and> c = get_opt name n
              then match_loop fuel pattern name (p + 1) (n + 1) star resume
         else (case star of
                 Some index \<Rightarrow> match_loop fuel pattern name (index + 1) (resume + 1) star (resume + 1)
               | None \<Rightarrow> Some False))
      else Some (dropWhile (\<lambda>c. c = ''*'') (drop p pattern) = [] \<and> p \<le> length pattern))"

definition match_fuel :: "string list \<Rightarrow> string list \<Rightarrow> nat" where
  "match_fuel pattern name =
     (length name + 1) * ((length name + 1) * (length pattern + 2)) + (length name + 1) * (length pattern + 2)
       + length pattern + 2"

definition matches_one :: "string list \<Rightarrow> string list \<Rightarrow> bool" where
  "matches_one pattern name = (match_loop (match_fuel pattern name) pattern name 0 0 None 0 = Some True)"

definition match_item :: "string list \<Rightarrow> string \<Rightarrow> bool \<Rightarrow> bool" where
  "match_item name item matched =
     (let (negated, pattern) = (case strip_prefix ''!'' item of
          Some rest \<Rightarrow> (True, rest) | None \<Rightarrow> (False, item))
      in if matches_one (chars pattern) name then \<not> negated else matched)"

definition wildmat_matches :: "wildmat \<Rightarrow> string \<Rightarrow> bool" where
  "wildmat_matches w name = fold (match_item (chars name)) (split_on (CHR '','') (wm_str w)) False"

section \<open>Commands\<close>

datatype list_keyword =
    Active "wildmat option" | ActiveTimes "wildmat option" | NewsgroupsKw "wildmat option"
  | OverviewFmt | HeadersKw

fun keyword :: "list_keyword \<Rightarrow> string" where
  "keyword (Active _) = ''ACTIVE''"
| "keyword (ActiveTimes _) = ''ACTIVE.TIMES''"
| "keyword (NewsgroupsKw _) = ''NEWSGROUPS''"
| "keyword OverviewFmt = ''OVERVIEW.FMT''"
| "keyword HeadersKw = ''HEADERS''"

fun keyword_wildmat :: "list_keyword \<Rightarrow> wildmat option" where
  "keyword_wildmat (Active w) = w"
| "keyword_wildmat (ActiveTimes w) = w"
| "keyword_wildmat (NewsgroupsKw w) = w"
| "keyword_wildmat OverviewFmt = None"
| "keyword_wildmat HeadersKw = None"

datatype command =
    Capabilities "string option"
  | ModeReader
  | Quit
  | StartTls
  | AuthInfoUser string
  | AuthInfoPass string
  | GroupCmd group_name
  | ListGroup "group_name option" "art_range option"
  | Last
  | Next
  | Article article_spec
  | Head article_spec
  | Body article_spec
  | Stat article_spec
  | Date
  | Help
  | NewGroups datetime
  | ListCmd list_keyword
  | Over range_or_id
  | XOver art_range
  | Hdr header_name range_or_id
  | Post
  | XHdr header_name range_or_id

fun command_name :: "command \<Rightarrow> string" where
  "command_name (Capabilities _) = ''CAPABILITIES''"
| "command_name ModeReader = ''MODE READER''"
| "command_name Quit = ''QUIT''"
| "command_name StartTls = ''STARTTLS''"
| "command_name (AuthInfoUser _) = ''AUTHINFO USER''"
| "command_name (AuthInfoPass _) = ''AUTHINFO PASS''"
| "command_name (GroupCmd _) = ''GROUP''"
| "command_name (ListGroup _ _) = ''LISTGROUP''"
| "command_name Last = ''LAST''"
| "command_name Next = ''NEXT''"
| "command_name (Article _) = ''ARTICLE''"
| "command_name (Head _) = ''HEAD''"
| "command_name (Body _) = ''BODY''"
| "command_name (Stat _) = ''STAT''"
| "command_name Date = ''DATE''"
| "command_name Help = ''HELP''"
| "command_name (NewGroups _) = ''NEWGROUPS''"
| "command_name (ListCmd _) = ''LIST''"
| "command_name (Over _) = ''OVER''"
| "command_name (XOver _) = ''XOVER''"
| "command_name (Hdr _ _) = ''HDR''"
| "command_name (XHdr _ _) = ''XHDR''"
| "command_name Post = ''POST''"

fun expects_data_block :: "command \<Rightarrow> bool" where
  "expects_data_block (Capabilities _) = True"
| "expects_data_block (ListGroup _ _) = True"
| "expects_data_block (Article _) = True"
| "expects_data_block (Head _) = True"
| "expects_data_block (Body _) = True"
| "expects_data_block Help = True"
| "expects_data_block (NewGroups _) = True"
| "expects_data_block (ListCmd _) = True"
| "expects_data_block (Over _) = True"
| "expects_data_block (XOver _) = True"
| "expects_data_block (Hdr _ _) = True"
| "expects_data_block (XHdr _ _) = True"
| "expects_data_block ModeReader = False"
| "expects_data_block Quit = False"
| "expects_data_block StartTls = False"
| "expects_data_block (AuthInfoUser _) = False"
| "expects_data_block (AuthInfoPass _) = False"
| "expects_data_block (GroupCmd _) = False"
| "expects_data_block Last = False"
| "expects_data_block Next = False"
| "expects_data_block (Stat _) = False"
| "expects_data_block Post = False"
| "expects_data_block Date = False"

definition is_sensitive :: "command \<Rightarrow> bool" where
  "is_sensitive c = (case c of AuthInfoPass _ \<Rightarrow> True | _ \<Rightarrow> False)"

definition push_with_optional_arg :: "string \<Rightarrow> string option \<Rightarrow> string" where
  "push_with_optional_arg verb argument =
     verb @ (case argument of Some a \<Rightarrow> SP # a | None \<Rightarrow> [])"

definition push_field_command :: "string \<Rightarrow> header_name \<Rightarrow> range_or_id \<Rightarrow> string" where
  "push_field_command verb field target =
     verb @ [SP] @ hn_str field @ (case roi_to_argument target of Some a \<Rightarrow> SP # a | None \<Rightarrow> [])"

fun command_line :: "libs \<Rightarrow> command \<Rightarrow> string" where
  "command_line L (Capabilities kw) =
     ''CAPABILITIES'' @ (case kw of Some k \<Rightarrow> SP # k | None \<Rightarrow> [])"
| "command_line L ModeReader = ''MODE READER''"
| "command_line L Quit = ''QUIT''"
| "command_line L StartTls = ''STARTTLS''"
| "command_line L (AuthInfoUser user) = ''AUTHINFO USER '' @ user"
| "command_line L (AuthInfoPass pass) = ''AUTHINFO PASS '' @ pass"
| "command_line L (GroupCmd g) = ''GROUP '' @ gn_str g"
| "command_line L (ListGroup g r) =
     ''LISTGROUP'' @
     (case g of
        Some g \<Rightarrow> SP # gn_str g @ (case r of Some r \<Rightarrow> SP # range_to_argument r | None \<Rightarrow> [])
      | None \<Rightarrow> [])"
| "command_line L Last = ''LAST''"
| "command_line L Next = ''NEXT''"
| "command_line L (Article spec) = push_with_optional_arg ''ARTICLE'' (spec_to_argument spec)"
| "command_line L (Head spec) = push_with_optional_arg ''HEAD'' (spec_to_argument spec)"
| "command_line L (Body spec) = push_with_optional_arg ''BODY'' (spec_to_argument spec)"
| "command_line L (Stat spec) = push_with_optional_arg ''STAT'' (spec_to_argument spec)"
| "command_line L Date = ''DATE''"
| "command_line L Post = ''POST''"
| "command_line L Help = ''HELP''"
| "command_line L (NewGroups since) = chrono_format L ''NEWGROUPS %Y%m%d %H%M%S GMT'' since"
| "command_line L (ListCmd kw) =
     ''LIST '' @ keyword kw @ (case keyword_wildmat kw of Some w \<Rightarrow> SP # wm_str w | None \<Rightarrow> [])"
| "command_line L (Over target) = push_with_optional_arg ''OVER'' (roi_to_argument target)"
| "command_line L (XOver r) = ''XOVER '' @ range_to_argument r"
| "command_line L (Hdr field target) = push_field_command ''HDR'' field target"
| "command_line L (XHdr field target) = push_field_command ''XHDR'' field target"

definition finish :: "command \<Rightarrow> string \<Rightarrow> bytes proto_result" where
  "finish c line =
     (if list_ex is_ascii_control line then Inl (IllegalCommandArgument (command_name c))
      else let encoded_len = length line + 2 in
        if encoded_len > MAX_COMMAND_LEN then Inl (CommandTooLong (command_name c) encoded_len)
        else Inr (line @ [CR, LF]))"

definition to_wire :: "libs \<Rightarrow> command \<Rightarrow> bytes proto_result" where
  "to_wire L c = finish c (command_line L c)"

definition trim_end_eol :: "string \<Rightarrow> string" where
  "trim_end_eol s = rev (dropWhile (\<lambda>c. c = CR \<or> c = LF) (rev s))"

definition to_log_string :: "libs \<Rightarrow> command \<Rightarrow> string" where
  "to_log_string L c =
     (if is_sensitive c then command_name c @ '' <redacted>''
      else (case to_wire L c of
              Inr b \<Rightarrow> trim_end_eol (lossy b)
            | Inl _ \<Rightarrow> command_name c @ '' <unencodable>''))"

section \<open>The matcher against its specification\<close>

text \<open>What a sub-pattern means: \<open>*\<close> is any run, \<open>?\<close> any one, the rest itself.\<close>

fun glob :: "string list \<Rightarrow> string list \<Rightarrow> bool" where
  "glob [] s \<longleftrightarrow> s = []"
| "glob (c # p) s \<longleftrightarrow>
     (if c = ''*'' then (\<exists>k \<le> length s. glob p (drop k s))
      else s \<noteq> [] \<and> (c = ''?'' \<or> c = hd s) \<and> glob p (tl s))"

declare glob.simps(2) [simp del]

lemma glob_star: "glob (''*'' # p) s \<longleftrightarrow> (\<exists>k \<le> length s. glob p (drop k s))"
  by (subst glob.simps(2)) simp

lemma glob_one: "c \<noteq> ''*'' \<Longrightarrow> glob (c # p) (d # s) \<longleftrightarrow> (c = ''?'' \<or> c = d) \<and> glob p s"
  by (subst glob.simps(2)) simp

lemma glob_one_Nil: "c \<noteq> ''*'' \<Longrightarrow> \<not> glob (c # p) []"
  by (subst glob.simps(2)) simp

lemma glob_Nil: "glob p [] \<longleftrightarrow> dropWhile (\<lambda>c. c = ''*'') p = []"
proof (induction p)
  case (Cons c p)
  then show ?case by (cases "c = ''*''") (simp_all add: glob_star glob_one_Nil)
qed simp

lemma glob_segment:
  "''*'' \<notin> set seg \<Longrightarrow> glob (seg @ p) s \<Longrightarrow> length seg \<le> length s \<and> glob p (drop (length seg) s)"
proof (induction seg arbitrary: s)
  case (Cons c seg)
  then show ?case by (cases s) (auto simp: glob_one glob_one_Nil)
qed simp

text \<open>What is still to be decided in a state of the loop: the rest of the pattern against
  the rest of the name, or what follows the last star against a later start.\<close>

definition pending :: "string list \<Rightarrow> string list \<Rightarrow> nat \<Rightarrow> nat \<Rightarrow> nat option \<Rightarrow> nat \<Rightarrow> bool" where
  "pending pat name p n star resume \<longleftrightarrow> glob (drop p pat) (drop n name) \<or>
     (case star of None \<Rightarrow> False
      | Some i \<Rightarrow> \<exists>m. resume < m \<and> m \<le> length name \<and> glob (drop (i + 1) pat) (drop m name))"

definition loop_inv :: "string list \<Rightarrow> string list \<Rightarrow> nat \<Rightarrow> nat \<Rightarrow> nat option \<Rightarrow> nat \<Rightarrow> bool" where
  "loop_inv pat name p n star resume \<longleftrightarrow> p \<le> length pat \<and> n \<le> length name \<and> resume \<le> n \<and>
     (case star of None \<Rightarrow> True
      | Some i \<Rightarrow> i < p \<and> p - (i + 1) = n - resume \<and> ''*'' \<notin> set (take (p - (i + 1)) (drop (i + 1) pat)))"

text \<open>An alternative start of an earlier star that reaches the current position goes on from
  a later position there.\<close>

lemma later_start:
  assumes inv: "loop_inv pat name p n (Some i) resume"
    and m: "resume < m" "m \<le> length name" and g: "glob (drop (i + 1) pat) (drop m name)"
  shows "\<exists>k. n < k \<and> k \<le> length name \<and> glob (drop p pat) (drop k name)"
proof -
  let ?seg = "take (p - (i + 1)) (drop (i + 1) pat)"
  have i: "i < p" "p \<le> length pat" and len: "p - (i + 1) = n - resume" and nr: "resume \<le> n"
    and seg: "''*'' \<notin> set ?seg"
    using inv by (auto simp: loop_inv_def)
  have l: "length ?seg = n - resume" using i len by simp
  have "drop (i + 1) pat = ?seg @ drop p pat"
    using i by (metis append_take_drop_id drop_drop le_add_diff_inverse2 Suc_eq_plus1 Suc_leI)
  with g have "glob (?seg @ drop p pat) (drop m name)" by simp
  from glob_segment [OF seg this, unfolded l] have
    "n - resume \<le> length name - m" "glob (drop p pat) (drop (m + (n - resume)) name)"
    by (simp_all add: add.commute)
  then show ?thesis using m nr by (intro exI [of _ "m + (n - resume)"]) auto
qed

text \<open>The measure that the loop decreases.\<close>

definition loop_size :: "string list \<Rightarrow> string list \<Rightarrow> nat \<Rightarrow> nat \<Rightarrow> nat \<Rightarrow> nat" where
  "loop_size pat name p n resume =
     (length name - resume) * ((length name + 1) * (length pat + 2)) +
     (length name - n) * (length pat + 2) + (length pat - p)"


lemma size_step_back:
  fixes r n l q :: nat
  assumes "r < l"
  shows "(l - (r + 1)) * ((l + 1) * (q + 2)) + (l - (r + 1)) * (q + 2) + (q - j) <
    (l - r) * ((l + 1) * (q + 2)) + (l - n) * (q + 2) + (q - p)"
proof -
  obtain d where d: "l - r = Suc d" using assms by (metis Suc_diff_Suc)
  then have d': "l - (r + 1) = d" by simp
  have "d \<le> l" using d by simp
  then have "d * (q + 2) \<le> l * (q + 2)" by (rule mult_le_mono1)
  then have "d * ((l + 1) * (q + 2)) + d * (q + 2) + (q - j) < Suc d * ((l + 1) * (q + 2))" by simp
  then show ?thesis unfolding d d' by linarith
qed

text \<open>The three moves of the loop: past a star, past a matching character, and back to the
  last star.  Each keeps the invariant and what is pending, and decreases the measure.\<close>

lemma star_pending_iff:
  assumes "drop p pat = ''*'' # drop (p + 1) pat" and "m \<le> length name"
  shows "glob (drop p pat) (drop m name) \<longleftrightarrow>
    (\<exists>k. m \<le> k \<and> k \<le> length name \<and> glob (drop (p + 1) pat) (drop k name))"
proof -
  have "glob (drop p pat) (drop m name) \<longleftrightarrow>
      (\<exists>k \<le> length name - m. glob (drop (p + 1) pat) (drop (k + m) name))"
    by (simp add: assms(1) glob_star)
  also have "\<dots> \<longleftrightarrow> (\<exists>k. m \<le> k \<and> k \<le> length name \<and> glob (drop (p + 1) pat) (drop k name))"
  proof
    assume "\<exists>k \<le> length name - m. glob (drop (p + 1) pat) (drop (k + m) name)"
    then obtain k where "k \<le> length name - m" "glob (drop (p + 1) pat) (drop (k + m) name)" by blast
    then show "\<exists>k. m \<le> k \<and> k \<le> length name \<and> glob (drop (p + 1) pat) (drop k name)"
      using assms(2) by (intro exI [of _ "k + m"]) simp
  next
    assume "\<exists>k. m \<le> k \<and> k \<le> length name \<and> glob (drop (p + 1) pat) (drop k name)"
    then obtain k where "m \<le> k" "k \<le> length name" "glob (drop (p + 1) pat) (drop k name)" by blast
    then show "\<exists>k \<le> length name - m. glob (drop (p + 1) pat) (drop (k + m) name)"
      by (intro exI [of _ "k - m"]) simp
  qed
  finally show ?thesis .
qed

lemma older_star:
  assumes inv: "loop_inv pat name p n (Some i) resume" and dp: "drop p pat = ''*'' # drop (p + 1) pat"
    and m: "resume < m" "m \<le> length name" "glob (drop (i + 1) pat) (drop m name)"
  shows "glob (drop p pat) (drop n name)"
proof -
  have b: "n \<le> length name" using inv by (simp add: loop_inv_def)
  obtain k where k: "n < k" "k \<le> length name" "glob (drop p pat) (drop k name)"
    using later_start [OF inv m] by (elim exE conjE)
  then obtain j where j: "k \<le> j" "j \<le> length name" "glob (drop (p + 1) pat) (drop j name)"
    using star_pending_iff [OF dp k(2)] by (elim iffD1 [elim_format] exE conjE)
  show ?thesis
    unfolding star_pending_iff [OF dp b] using j k(1) by (intro exI [of _ j] conjI) simp_all
qed

lemma move_star:
  assumes inv: "loop_inv pat name p n star resume" and c: "get_opt pat p = Some ''*''"
  shows "loop_inv pat name (p + 1) n (Some p) n"
    "pending pat name (p + 1) n (Some p) n = pending pat name p n star resume"
    "loop_size pat name (p + 1) n n < loop_size pat name p n resume"
proof -
  have b: "n \<le> length name" "resume \<le> n" using inv by (simp_all add: loop_inv_def)
  have p: "p < length pat" and dp: "drop p pat = ''*'' # drop (p + 1) pat"
    using c Cons_nth_drop_Suc [of p pat] by (auto simp: get_opt_Some_iff)
  show "loop_inv pat name (p + 1) n (Some p) n" using p b by (simp add: loop_inv_def)
  have "pending pat name p n star resume = glob (drop p pat) (drop n name)"
  proof (cases star)
    case (Some i)
    then show ?thesis
      using older_star [OF inv [unfolded Some] dp] unfolding pending_def by (simp only: option.case) metis
  qed (simp add: pending_def)
  also have "\<dots> = (\<exists>k. n \<le> k \<and> k \<le> length name \<and> glob (drop (p + 1) pat) (drop k name))"
    using star_pending_iff [OF dp b(1)] .
  also have "\<dots> = pending pat name (p + 1) n (Some p) n"
  proof -
    have "n \<le> k \<longleftrightarrow> k = n \<or> n < k" for k by auto
    then show ?thesis unfolding pending_def option.case using b(1) by metis
  qed
  finally show "pending pat name (p + 1) n (Some p) n = pending pat name p n star resume" ..
  have "(length name - n) * ((length name + 1) * (length pat + 2)) \<le>
      (length name - resume) * ((length name + 1) * (length pat + 2))"
    using b(2) by (intro mult_le_mono1) simp
  then show "loop_size pat name (p + 1) n n < loop_size pat name p n resume"
    using p unfolding loop_size_def by linarith
qed

lemma move_char:
  assumes inv: "loop_inv pat name p n star resume" and lt: "n < length name"
    and c: "get_opt pat p = Some c" "c \<noteq> ''*''" "c = ''?'' \<or> c = name ! n"
  shows "loop_inv pat name (p + 1) (n + 1) star resume"
    "pending pat name (p + 1) (n + 1) star resume = pending pat name p n star resume"
    "loop_size pat name (p + 1) (n + 1) resume < loop_size pat name p n resume"
proof -
  have dn: "drop n name = name ! n # drop (n + 1) name"
    using lt by (simp add: Cons_nth_drop_Suc)
  have b: "resume \<le> n" using inv by (simp add: loop_inv_def)
  have p: "p < length pat" and dp: "drop p pat = c # drop (p + 1) pat" and pc: "pat ! p = c"
    using c(1) Cons_nth_drop_Suc [of p pat] by (auto simp: get_opt_Some_iff)
  have "glob (drop p pat) (drop n name) = glob (drop (p + 1) pat) (drop (n + 1) name)"
    unfolding dp dn glob_one [OF c(2)] using c(3) by simp
  then show "pending pat name (p + 1) (n + 1) star resume = pending pat name p n star resume"
    by (simp add: pending_def)
  show "loop_inv pat name (p + 1) (n + 1) star resume"
  proof (cases star)
    case None
    with p lt b show ?thesis by (simp add: loop_inv_def)
  next
    case (Some i)
    from inv [unfolded Some loop_inv_def option.case]
    have i: "i < p" "p - (i + 1) = n - resume"
      "''*'' \<notin> set (take (p - (i + 1)) (drop (i + 1) pat))"
      by blast+
    have "take (p + 1 - (i + 1)) (drop (i + 1) pat) = take (p - (i + 1)) (drop (i + 1) pat) @ [c]"
    proof -
      have "p + 1 - (i + 1) = Suc (p - (i + 1))" using i(1) by simp
      moreover have "drop (i + 1) pat ! (p - (i + 1)) = c" using i(1) p pc by simp
      moreover have "p - (i + 1) < length (drop (i + 1) pat)" using i(1) p by simp
      ultimately show ?thesis by (metis take_Suc_conv_app_nth)
    qed
    with i(3) c(2) have "''*'' \<notin> set (take (p + 1 - (i + 1)) (drop (i + 1) pat))" by simp
    moreover have "p + 1 - (i + 1) = n + 1 - resume" using i(1,2) b by simp
    ultimately show ?thesis
      unfolding Some loop_inv_def option.case using i(1) p lt b by auto
  qed
  have "length name - n = Suc (length name - (n + 1))" using lt by simp
  then have "(length name - n) * (length pat + 2) =
      (length name - (n + 1)) * (length pat + 2) + (length pat + 2)" by simp
  then show "loop_size pat name (p + 1) (n + 1) resume < loop_size pat name p n resume"
    unfolding loop_size_def by linarith
qed

lemma mismatch:
  assumes "n < length name" and "get_opt pat p \<noteq> Some ''*''" and "get_opt pat p \<noteq> Some ''?''"
    and "get_opt pat p = None \<or> get_opt pat p \<noteq> get_opt name n"
  shows "\<not> glob (drop p pat) (drop n name)"
proof -
  have dn: "drop n name = name ! n # drop (n + 1) name"
    using assms(1) by (simp add: Cons_nth_drop_Suc)
  show ?thesis
  proof (cases "p < length pat")
    case True
    then have dp: "drop p pat = pat ! p # drop (p + 1) pat" by (simp add: Cons_nth_drop_Suc)
    have c: "pat ! p \<noteq> ''*''" "pat ! p \<noteq> ''?''" "pat ! p \<noteq> name ! n"
      using assms True by (simp_all add: get_opt_def)
    show ?thesis unfolding dp dn glob_one [OF c(1)] using c by simp
  next
    case False
    then have "drop p pat = []" by simp
    then show ?thesis by (simp add: dn)
  qed
qed

lemma move_back:
  assumes inv: "loop_inv pat name p n (Some i) resume" and lt: "n < length name"
    and fail: "\<not> glob (drop p pat) (drop n name)"
  shows "loop_inv pat name (i + 1) (resume + 1) (Some i) (resume + 1)"
    "pending pat name (i + 1) (resume + 1) (Some i) (resume + 1) = pending pat name p n (Some i) resume"
    "loop_size pat name (i + 1) (resume + 1) (resume + 1) < loop_size pat name p n resume"
proof -
  have b: "i < p" "p \<le> length pat" "resume \<le> n" using inv by (simp_all add: loop_inv_def)
  have r: "resume < length name" using b(3) lt by simp
  show "loop_inv pat name (i + 1) (resume + 1) (Some i) (resume + 1)"
    using b r by (simp add: loop_inv_def)
  let ?P = "\<lambda>m. glob (drop (i + 1) pat) (drop m name)"
  have "(\<exists>m. resume < m \<and> m \<le> length name \<and> ?P m) \<longleftrightarrow>
      ?P (resume + 1) \<or> (\<exists>m. resume + 1 < m \<and> m \<le> length name \<and> ?P m)"
  proof -
    have "resume < m \<longleftrightarrow> m = resume + 1 \<or> resume + 1 < m" for m by auto
    then show ?thesis using r by (metis Suc_eq_plus1 Suc_leI)
  qed
  with fail show "pending pat name (i + 1) (resume + 1) (Some i) (resume + 1) =
      pending pat name p n (Some i) resume"
    unfolding pending_def option.case by blast
  show "loop_size pat name (i + 1) (resume + 1) (resume + 1) < loop_size pat name p n resume"
    unfolding loop_size_def by (rule size_step_back [OF r])
qed

lemma pending_at_end:
  assumes inv: "loop_inv pat name p n star resume" and n: "\<not> n < length name"
  shows "pending pat name p n star resume =
    (dropWhile (\<lambda>c. c = ''*'') (drop p pat) = [] \<and> p \<le> length pat)"
proof -
  have n: "n = length name" "p \<le> length pat" using assms by (simp_all add: loop_inv_def)
  have "\<not> (\<exists>m. resume < m \<and> m \<le> length name \<and> glob (drop (i + 1) pat) (drop m name))"
    if "star = Some i" for i
    using later_start [of pat name p n i resume] inv n that by fastforce
  then have "pending pat name p n star resume = glob (drop p pat) (drop n name)"
    unfolding pending_def by (cases star) (simp, simp only: option.case, blast)
  with n show ?thesis by (simp add: glob_Nil)
qed

lemma match_loop_correct:
  assumes "loop_inv pat name p n star resume" and "loop_size pat name p n resume < fuel"
  shows "match_loop fuel pat name p n star resume = Some (pending pat name p n star resume)"
  using assms
proof (induction fuel arbitrary: p n star resume)
  case (Suc fuel)
  note inv = Suc.prems(1)
  have IH: "match_loop fuel pat name p' n' star' resume' = Some (pending pat name p n star resume)"
    if "loop_inv pat name p' n' star' resume'"
      "pending pat name p' n' star' resume' = pending pat name p n star resume"
      "loop_size pat name p' n' resume' < loop_size pat name p n resume" for p' n' star' resume'
    using Suc.IH [OF that(1)] that(2,3) Suc.prems(2) by simp
  show ?case
  proof (cases "n < length name")
    case False
    then show ?thesis using pending_at_end [OF inv False] by simp
  next
    case lt: True
    then have getn: "get_opt name n = Some (name ! n)" by (simp add: get_opt_def)
    consider (star) "get_opt pat p = Some ''*''"
      | (chr) c where "get_opt pat p = Some c" "c \<noteq> ''*''" "c = ''?'' \<or> c = name ! n"
      | (nomatch) "get_opt pat p \<noteq> Some ''*''" "get_opt pat p \<noteq> Some ''?''"
          "get_opt pat p = None \<or> get_opt pat p \<noteq> get_opt name n"
      using getn by (cases "get_opt pat p") auto
    then show ?thesis
    proof cases
      case star
      with IH [OF move_star [OF inv star]] lt show ?thesis by simp
    next
      case (chr c)
      from IH [OF move_char [OF inv lt chr]] lt getn chr(1) show ?thesis
        using chr(2,3) by (cases "c = ''?''") simp_all
    next
      case nomatch
      note f = mismatch [OF lt nomatch]
      show ?thesis
      proof (cases star)
        case None
        with f have "\<not> pending pat name p n star resume" by (simp add: pending_def)
        with None lt nomatch show ?thesis by (auto simp: Let_def)
      next
        case (Some i)
        note bk = move_back [OF inv [unfolded Some] lt f]
        from IH [OF bk(1)] bk(2,3) Some
        have "match_loop fuel pat name (i + 1) (resume + 1) (Some i) (resume + 1) =
            Some (pending pat name p n star resume)" by simp
        with Some lt nomatch show ?thesis by (auto simp: Let_def)
      qed
    qed
  qed
qed simp

lemma match_terminates: "match_loop (match_fuel pat name) pat name 0 0 None 0 = Some (glob pat name)"
proof -
  have "loop_size pat name 0 0 0 < match_fuel pat name"
    by (simp add: loop_size_def match_fuel_def)
  moreover have "loop_inv pat name 0 0 None 0" by (simp add: loop_inv_def)
  ultimately show ?thesis using match_loop_correct by (simp add: pending_def)
qed

lemma matches_one_glob: "matches_one pat name \<longleftrightarrow> glob pat name"
  by (simp add: matches_one_def match_terminates)


text \<open>A sub-pattern of a list, and what the list decides: the last sub-pattern that
  matches, or no.\<close>

definition item_matches :: "string list \<Rightarrow> string \<Rightarrow> bool" where
  "item_matches name item = glob (chars (case strip_prefix ''!'' item of Some r \<Rightarrow> r | None \<Rightarrow> item)) name"

lemma match_item_glob:
  "match_item name item m = (if item_matches name item then strip_prefix ''!'' item = None else m)"
  by (simp add: match_item_def item_matches_def matches_one_glob split: option.split)

lemma fold_match_items:
  "fold (match_item name) items m =
     (case List.find (item_matches name) (rev items) of
        Some item \<Rightarrow> strip_prefix ''!'' item = None | None \<Rightarrow> m)"
proof (induction items arbitrary: m)
  case (Cons item items)
  have find: "List.find P (xs @ [x]) = (case List.find P xs of Some y \<Rightarrow> Some y | None \<Rightarrow>
      if P x then Some x else None)" for P and x :: string and xs
    by (induction xs) auto
  show ?case unfolding fold_simps Cons by (simp add: find match_item_glob split: option.split)
qed simp

section \<open>Encoding\<close>

abbreviation clean :: "string \<Rightarrow> bool" where
  "clean s \<equiv> \<not> list_ex is_ascii_control s"

lemma finish_cases:
  "finish c line =
     (if \<not> clean line then Inl (IllegalCommandArgument (command_name c))
      else if length line + 2 > MAX_COMMAND_LEN
      then Inl (CommandTooLong (command_name c) (length line + 2))
      else Inr (line @ [CR, LF]))"
  by (simp add: finish_def Let_def)

lemma clean_append [simp]: "clean (a @ b) \<longleftrightarrow> clean a \<and> clean b"
  by (auto simp: list_ex_iff)

lemma clean_graphic: "list_all is_ascii_graphic s \<Longrightarrow> clean s"
  by (auto simp: list_all_iff list_ex_iff graphic_not_control)

lemma clean_wire_safe: "wire_safe s \<Longrightarrow> clean s"
  by (auto simp: wire_safe_def list_ex_iff)

lemma clean_u64 [simp]: "clean (u64_to_string n)"
  by (simp add: clean_graphic u64_to_string_graphic)

lemma clean_range: "clean (range_to_argument r)" "length (range_to_argument r) \<le> 41"
proof -
  have "\<not> is_ascii_control (CHR ''-'')" by (simp add: is_ascii_control_def)
  then show "clean (range_to_argument r)" by (cases r) simp_all
  show "length (range_to_argument r) \<le> 41"
  proof (cases r)
    case (Between a b)
    then show ?thesis using length_u64_to_string [of a] length_u64_to_string [of b] by simp
  qed (use length_u64_to_string in \<open>force intro: le_trans\<close>)+
qed

definition wildmat_valid :: "wildmat \<Rightarrow> bool" where
  "wildmat_valid w \<longleftrightarrow> wildmat_parse (wm_str w) = Inr w"

lemma wildmat_valid_iff: "wildmat_valid w \<longleftrightarrow>
    wm_str w \<noteq> [] \<and> length (wm_str w) \<le> WILDMAT_MAX_LEN \<and> list_all is_ascii_graphic (wm_str w)"
  by (cases w) (auto simp: wildmat_valid_def wildmat_parse_def)

interpretation wildmat: wire_argument wm_str wildmat_valid WILDMAT_MAX_LEN
  by unfold_locales (simp_all add: wildmat_valid_iff graphic_wire_safe)

text \<open>Commands whose arguments were made by the validating constructors.\<close>

fun spec_valid :: "article_spec \<Rightarrow> bool" where
  "spec_valid (SpecMessageId m) = message_id_valid m"
| "spec_valid _ = True"

fun roi_valid :: "range_or_id \<Rightarrow> bool" where
  "roi_valid (RoiMessageId m) = message_id_valid m"
| "roi_valid _ = True"

fun typed_command :: "command \<Rightarrow> bool" where
  "typed_command (Capabilities k) = (k = None)"
| "typed_command (AuthInfoUser _) = False"
| "typed_command (AuthInfoPass _) = False"
| "typed_command (GroupCmd g) = group_name_valid g"
| "typed_command (ListGroup g r) =
     (case g of None \<Rightarrow> True
      | Some g \<Rightarrow> group_name_valid g \<and> (r = None \<or> length (gn_str g) \<le> 458))"
| "typed_command (Article s) = spec_valid s"
| "typed_command (Head s) = spec_valid s"
| "typed_command (Body s) = spec_valid s"
| "typed_command (Stat s) = spec_valid s"
| "typed_command (NewGroups _) = False"
| "typed_command (ListCmd k) = (case keyword_wildmat k of None \<Rightarrow> True | Some w \<Rightarrow> wildmat_valid w)"
| "typed_command (Over t) = roi_valid t"
| "typed_command (Hdr f t) = (valid_field_name f \<and> length (hn_str f) \<le> 250 \<and> roi_valid t)"
| "typed_command (XHdr f t) = (valid_field_name f \<and> length (hn_str f) \<le> 250 \<and> roi_valid t)"
| "typed_command _ = True"

lemma spec_argument_ok:
  assumes "spec_valid s"
  shows "clean (push_with_optional_arg verb (spec_to_argument s)) = clean verb"
    "length (push_with_optional_arg verb (spec_to_argument s)) \<le> length verb + 251"
proof -
  have sp: "\<not> is_ascii_control SP" by (rule control_eol)
  show "clean (push_with_optional_arg verb (spec_to_argument s)) = clean verb"
    using assms sp clean_wire_safe [OF message_id.safe]
    by (cases s) (simp_all add: push_with_optional_arg_def)
  show "length (push_with_optional_arg verb (spec_to_argument s)) \<le> length verb + 251"
  proof (cases s)
    case (SpecMessageId m)
    with assms message_id.bounded [of m] show ?thesis
      by (simp add: push_with_optional_arg_def MAX_MESSAGE_ID_LEN_def)
  next
    case (SpecNumber n)
    with length_u64_to_string [of n] show ?thesis by (simp add: push_with_optional_arg_def)
  qed (simp add: push_with_optional_arg_def)
qed

lemma roi_argument_ok:
  assumes "roi_valid t" and "roi_to_argument t = Some a"
  shows "clean a" "length a \<le> 250"
proof -
  show "clean a"
    using assms clean_range(1) clean_wire_safe [OF message_id.safe] by (cases t) auto
  show "length a \<le> 250"
  proof (cases t)
    case (RoiRange r)
    with assms clean_range(2) [of r] show ?thesis by simp
  next
    case (RoiMessageId m)
    with assms message_id.bounded [of m] show ?thesis by (simp add: MAX_MESSAGE_ID_LEN_def)
  qed (use assms in simp)
qed

lemma field_command_ok:
  assumes "valid_field_name f" "length (hn_str f) \<le> 250" "roi_valid t" "length verb \<le> 4" "clean verb"
  shows "clean (push_field_command verb f t) \<and> length (push_field_command verb f t) + 2 \<le> MAX_COMMAND_LEN"
proof -
  have sp: "\<not> is_ascii_control SP" by (rule control_eol)
  have "list_all is_ascii_graphic (hn_str f)"
    using assms(1) by (auto simp: valid_field_name_def header_name_parse_Inr list_all_iff)
  then have "clean (hn_str f)" by (rule clean_graphic)
  with assms roi_argument_ok [OF assms(3)] sp show ?thesis
    by (auto simp: push_field_command_def MAX_COMMAND_LEN_def split: option.split)
qed

lemma typed_command_line:
  assumes "typed_command c"
  shows "clean (command_line L c) \<and> length (command_line L c) + 2 \<le> MAX_COMMAND_LEN"
proof -
  have sp: "\<not> is_ascii_control SP" by (rule control_eol)
  have spec: "clean (push_with_optional_arg verb (spec_to_argument s)) \<and>
      length (push_with_optional_arg verb (spec_to_argument s)) + 2 \<le> MAX_COMMAND_LEN"
    if "spec_valid s" "clean verb" "length verb \<le> 7" for verb s
    using spec_argument_ok [OF that(1), of verb] that(2,3) by (simp add: MAX_COMMAND_LEN_def)
  have group: "clean (gn_str g)" "length (gn_str g) \<le> 480" if "group_name_valid g" for g
    using that clean_wire_safe [OF group_name.safe] group_name.bounded [of g]
    by (simp_all add: MAX_GROUP_NAME_LEN_def)
  have wm: "clean (wm_str w)" "length (wm_str w) \<le> 400" if "wildmat_valid w" for w
    using that clean_wire_safe [OF wildmat.safe] wildmat.bounded [of w]
    by (simp_all add: WILDMAT_MAX_LEN_def)
  note verb = is_ascii_control_def MAX_COMMAND_LEN_def
  show ?thesis
  proof (cases c)
    case (GroupCmd g)
    with assms group [of g] show ?thesis by (simp add: verb)
  next
    case (ListGroup g r)
    show ?thesis
    proof (cases g)
      case (Some g')
      with ListGroup assms group [of g'] clean_range show ?thesis
        by (cases r) (auto simp: verb intro: le_trans add_le_mono)
    qed (use ListGroup in \<open>simp add: verb\<close>)
  next
    case (ListCmd k)
    have k: "clean (keyword k)" "length (keyword k) \<le> 12" by (cases k; simp add: is_ascii_control_def)+
    show ?thesis
    proof (cases "keyword_wildmat k")
      case (Some w)
      with ListCmd assms wm [of w] k show ?thesis by (simp add: verb)
    qed (use ListCmd k in \<open>simp add: verb\<close>)
  next
    case (Over t)
    show ?thesis
    proof (cases "roi_to_argument t")
      case (Some a)
      with Over assms roi_argument_ok [of t a] show ?thesis
        by (simp add: push_with_optional_arg_def verb)
    qed (use Over in \<open>simp add: push_with_optional_arg_def verb\<close>)
  next
    case (XOver r)
    with clean_range [of r] show ?thesis by (simp add: verb)
  next
    case (Hdr f t)
    with assms field_command_ok [of f t "''HDR''"] show ?thesis by (simp add: is_ascii_control_def)
  next
    case (XHdr f t)
    with assms field_command_ok [of f t "''XHDR''"] show ?thesis by (simp add: is_ascii_control_def)
  qed (use assms spec in \<open>simp_all add: is_ascii_control_def MAX_COMMAND_LEN_def\<close>)
qed

section \<open>Properties\<close>

text \<open>C38: the command encoder cannot be made to send more than one line.  A command that is
  encoded is one line without any ASCII control character (so without CR, LF or NUL),
  ended by CRLF, of at most 512 octets in all, whatever text its arguments hold; a command
  that is refused is refused exactly because of a control character or of its length.\<close>
theorem command_wire_safe:
  "(case to_wire L c of
     Inr b \<Rightarrow> \<exists>line. b = line @ [CR, LF] \<and> clean line \<and> line = command_line L c \<and> length b \<le> 512
   | Inl e \<Rightarrow> (e = IllegalCommandArgument (command_name c) \<and> \<not> clean (command_line L c)) \<or>
       (e = CommandTooLong (command_name c) (length (command_line L c) + 2) \<and>
        512 < length (command_line L c) + 2))"
  by (auto simp: to_wire_def finish_cases MAX_COMMAND_LEN_def)

text \<open>a command built from validated arguments is always encoded: group names, message-ids,
  header names of at most 250 octets, ranges and wildmats never meet the refusal of control
  characters or the length limit.  (A range after a group name of more than 458 octets may.)\<close>
theorem typed_commands_encode:
  assumes "typed_command c"
  shows "to_wire L c = Inr (command_line L c @ [CR, LF])"
  using typed_command_line [OF assms, of L] by (simp add: to_wire_def finish_cases not_less)

theorem typed_commands_encode_witness:
  "to_wire sample_libs (GroupCmd (GroupName ''misc.test'')) = Inr (''GROUP misc.test'' @ [CR, LF])"
proof -
  have "typed_command (GroupCmd (GroupName ''misc.test''))"
    by (simp add: group_name_valid_iff MAX_GROUP_NAME_LEN_def group_char_def is_ascii_graphic_def)
  from typed_commands_encode [OF this] show ?thesis by simp
qed

text \<open>C37: a password never reaches the log: what is logged for \<open>AUTHINFO PASS\<close> is the same for
  every password, and what is logged for any other command that is valid UTF-8 and encodable
  is its line without the line ending.\<close>
theorem log_redacts:
  "to_log_string L (AuthInfoPass password) = ''AUTHINFO PASS <redacted>'' \<and>
   (\<not> is_sensitive c \<longrightarrow> utf8_valid (command_line L c) \<longrightarrow> to_wire L c = Inr b \<longrightarrow>
      to_log_string L c = command_line L c)"
proof -
  have "to_log_string L c = command_line L c"
    if a: "\<not> is_sensitive c" "utf8_valid (command_line L c)" "to_wire L c = Inr b"
  proof -
    have b: "b = command_line L c @ [CR, LF]" and cl: "clean (command_line L c)"
      using a(3) by (auto simp: to_wire_def finish_cases split: if_splits)
    have "utf8_valid [CR, LF]" by (rule utf8_valid_ascii) (simp add: is_ascii_def)
    with a(2) have l: "lossy b = b" unfolding b by (intro lossy_valid utf8_valid_append)
    have "command_line L c = [] \<or> last (command_line L c) \<noteq> CR \<and> last (command_line L c) \<noteq> LF"
      using cl control_eol(1,2) by (cases "command_line L c" rule: rev_cases) (auto simp: list_ex_iff)
    then have "trim_end_eol b = command_line L c"
      unfolding b trim_end_eol_def by (cases "command_line L c" rule: rev_cases) auto
    with a l show ?thesis by (simp add: to_log_string_def)
  qed
  then show ?thesis by (simp add: to_log_string_def is_sensitive_def)
qed

theorem log_redacts_witness:
  "to_log_string sample_libs (AuthInfoPass ''hunter2'') = to_log_string sample_libs (AuthInfoPass []) \<and>
   to_log_string sample_libs Quit = ''QUIT''"
proof -
  have "to_wire sample_libs Quit = Inr (''QUIT'' @ [CR, LF])"
    by (simp add: to_wire_def finish_cases is_ascii_control_def MAX_COMMAND_LEN_def)
  moreover have "utf8_valid (command_line sample_libs Quit)"
    unfolding command_line.simps by (rule utf8_valid_ascii) (simp add: is_ascii_def)
  ultimately show ?thesis
    using log_redacts [of sample_libs "''hunter2''" Quit] log_redacts [of sample_libs "[]" Quit]
    by (simp add: is_sensitive_def)
qed

text \<open>C39: the iterative wildmat matcher, with its single backtracking point, always ends and
  decides exactly the meaning of a pattern: a star is any run of characters, a question mark
  any one, everything else itself; and in a list of sub-patterns the last one that matches
  decides, a name that none matches being left out.\<close>
theorem wildmat_matches_glob:
  "match_loop (match_fuel (chars p) (chars n)) (chars p) (chars n) 0 0 None 0 = Some (glob (chars p) (chars n)) \<and>
   matches_one (chars p) (chars n) = glob (chars p) (chars n) \<and>
   wildmat_matches w n =
     (case List.find (item_matches (chars n)) (rev (split_on (CHR '','') (wm_str w))) of
        Some item \<Rightarrow> strip_prefix ''!'' item = None | None \<Rightarrow> False)"
  by (simp add: match_terminates matches_one_glob wildmat_matches_def fold_match_items)

end
