(* ===== verification/List_Resp.thy ===== *)
theory List_Resp
  imports Group Block Sample_Libs
begin

text \<open>
  \<open>crates/nntp-proto/src/list.rs\<close>: the answers to the \<open>LIST\<close> family.  Every parser works
  line by line and keeps the lines it could not use.
\<close>

section \<open>Line-by-line parsing\<close>

record 'a list_result =
  lr_entries :: "'a list"
  lr_skipped :: "string list"

fun list_parse_loop ::
  "libs \<Rightarrow> (bytes \<Rightarrow> 'a proto_result) \<Rightarrow> bytes list \<Rightarrow> 'a list_result \<Rightarrow> 'a list_result" where
  "list_parse_loop L parse_line [] r = r"
| "list_parse_loop L parse_line (line # rest) r =
     (if line = [] then list_parse_loop L parse_line rest r
      else list_parse_loop L parse_line rest
        (case parse_line line of
           Inr entry \<Rightarrow> r\<lparr>lr_entries := lr_entries r @ [entry]\<rparr>
         | Inl _ \<Rightarrow> r\<lparr>lr_skipped := lr_skipped r @ [decode_8bit_lossy L line]\<rparr>))"

definition list_parse_block ::
  "libs \<Rightarrow> (bytes \<Rightarrow> 'a proto_result) \<Rightarrow> data_block \<Rightarrow> 'a list_result" where
  "list_parse_block L parse_line block =
     list_parse_loop L parse_line (block_lines block) \<lparr>lr_entries = [], lr_skipped = []\<rparr>"

definition lr_len :: "'a list_result \<Rightarrow> nat" where
  "lr_len r = length (lr_entries r)"

definition lr_is_empty :: "'a list_result \<Rightarrow> bool" where
  "lr_is_empty r \<longleftrightarrow> lr_entries r = []"

text \<open>The fields of a line are an iterator: taking one gives it and the rest.\<close>

definition next_field :: "string \<Rightarrow> string \<Rightarrow> string list \<Rightarrow> (string \<times> string list) proto_result" where
  "next_field ctx field fs =
     (case fs of [] \<Rightarrow> Inl (MissingField ctx field) | f # rest \<Rightarrow> Inr (f, rest))"

definition list_parse_u64 :: "string \<Rightarrow> string \<Rightarrow> string \<Rightarrow> u64 proto_result" where
  "list_parse_u64 raw ctx field = ok_or (InvalidNumber ctx (field @ ''='' @ raw)) (parse_u64 raw)"

section \<open>LIST ACTIVE\<close>

record active_entry =
  ae_name :: group_name
  ae_high :: u64
  ae_low :: u64
  ae_status :: posting_status

definition active_parse :: "libs \<Rightarrow> bytes \<Rightarrow> active_entry proto_result" where
  "active_parse L line =
     (let ctx = ''LIST ACTIVE line''; fs0 = split_ascii_whitespace (decode_8bit_lossy L line) in
      bind_res (next_field ctx ''group'' fs0) (\<lambda>(raw, fs1).
      bind_res (group_name_parse raw) (\<lambda>name.
      bind_res (next_field ctx ''high'' fs1) (\<lambda>(raw, fs2).
      bind_res (list_parse_u64 raw ctx ''high'') (\<lambda>high.
      bind_res (next_field ctx ''low'' fs2) (\<lambda>(raw, fs3).
      bind_res (list_parse_u64 raw ctx ''low'') (\<lambda>low.
      bind_res (next_field ctx ''status'' fs3) (\<lambda>(raw, _).
      Inr \<lparr>ae_name = name, ae_high = high, ae_low = low, ae_status = posting_status_parse raw\<rparr>))))))))"

definition active_parse_block :: "libs \<Rightarrow> data_block \<Rightarrow> active_entry list_result" where
  "active_parse_block L = list_parse_block L (active_parse L)"

text \<open>The sum overflows for the one pair of watermarks 0 and the largest number.\<close>

definition estimated_articles :: "active_entry \<Rightarrow> panic + u64" where
  "estimated_articles e =
     (if ae_low e \<le> ae_high e \<and> 0 < ae_high e then
        (if ae_high e - ae_low e = - 1 then Inl Overflow else Inr (ae_high e - ae_low e + 1))
      else Inr 0)"

definition active_is_empty :: "active_entry \<Rightarrow> panic + bool" where
  "active_is_empty e = (case estimated_articles e of Inl p \<Rightarrow> Inl p | Inr n \<Rightarrow> Inr (n = 0))"

section \<open>LIST NEWSGROUPS\<close>

record newsgroup_entry =
  ne_name :: group_name
  ne_description :: string

definition newsgroup_parse :: "libs \<Rightarrow> bytes \<Rightarrow> newsgroup_entry proto_result" where
  "newsgroup_parse L line =
     (let trimmed = trim_start (decode_8bit_lossy L line);
          raw_name = concat (takeWhile (\<lambda>c. \<not> char_is_whitespace c) (chars trimmed)) in
      if raw_name = [] then Inl (MissingField ''LIST NEWSGROUPS line'' ''group'')
      else
        let description = trim (drop (length raw_name) trimmed) in
        bind_res (group_name_parse raw_name)
          (\<lambda>name. Inr \<lparr>ne_name = name, ne_description = description\<rparr>))"

definition newsgroup_parse_block :: "libs \<Rightarrow> data_block \<Rightarrow> newsgroup_entry list_result" where
  "newsgroup_parse_block L = list_parse_block L (newsgroup_parse L)"

section \<open>LIST ACTIVE.TIMES\<close>

record active_times_entry =
  at_name :: group_name
  at_created :: "datetime option"
  at_creator :: string

definition active_times_parse :: "libs \<Rightarrow> bytes \<Rightarrow> active_times_entry proto_result" where
  "active_times_parse L line =
     (let ctx = ''LIST ACTIVE.TIMES line'';
          fs0 = split_ascii_whitespace (decode_8bit_lossy L line) in
      bind_res (next_field ctx ''group'' fs0) (\<lambda>(raw, fs1).
      bind_res (group_name_parse raw) (\<lambda>name.
      bind_res (next_field ctx ''created'' fs1) (\<lambda>(raw, fs2).
      bind_res (list_parse_u64 raw ctx ''created'') (\<lambda>seconds.
      let creator = join '' '' fs2 in
      Inr \<lparr>at_name = name,
           at_created = (if unat seconds < 2 ^ 63 then from_timestamp L (int (unat seconds)) else None),
           at_creator = creator\<rparr>)))))"

definition active_times_parse_block :: "libs \<Rightarrow> data_block \<Rightarrow> active_times_entry list_result" where
  "active_times_parse_block L = list_parse_block L (active_times_parse L)"

section \<open>Lemmas\<close>

lemma next_field_simps [simp, result_simps]:
  "next_field ctx field [] = Inl (MissingField ctx field)"
  "next_field ctx field (f # rest) = Inr (f, rest)"
  by (simp_all add: next_field_def)

lemma list_parse_loop_eq:
  "list_parse_loop L p ls r =
     \<lparr>lr_entries = lr_entries r @ [e. l \<leftarrow> ls, l \<noteq> [], Inr e \<leftarrow> [p l]],
      lr_skipped = lr_skipped r @ [decode_8bit_lossy L l. l \<leftarrow> ls, l \<noteq> [], Inl e \<leftarrow> [p l]]\<rparr>"
  by (induction L p ls r rule: list_parse_loop.induct) (auto split: sum.split)

text \<open>What a block made of usable lines and of junk turns into, for any line parser.\<close>

lemma list_parse_items:
  assumes "\<And>x. Inl x \<in> set items \<Longrightarrow> show x \<noteq> [] \<and> p (show x) = Inr x"
    and "\<And>j. Inr j \<in> set items \<Longrightarrow> j \<noteq> [] \<and> (\<exists>e. p j = Inl e)"
  shows "list_parse_block L p (from_lines (map (case_sum show id) items)) =
    \<lparr>lr_entries = [x. Inl x \<leftarrow> items], lr_skipped = [decode_8bit_lossy L j. Inr j \<leftarrow> items]\<rparr>"
proof -
  have "[e. l \<leftarrow> map (case_sum show id) items, l \<noteq> [], Inr e \<leftarrow> [p l]] = [x. Inl x \<leftarrow> items] \<and>
    [decode_8bit_lossy L l. l \<leftarrow> map (case_sum show id) items, l \<noteq> [], Inl e \<leftarrow> [p l]] =
      [decode_8bit_lossy L j. Inr j \<leftarrow> items]"
    using assms
  proof (induction items)
    case (Cons i items)
    have IH: "[e. l \<leftarrow> map (case_sum show id) items, l \<noteq> [], Inr e \<leftarrow> [p l]] = [x. Inl x \<leftarrow> items] \<and>
      [decode_8bit_lossy L l. l \<leftarrow> map (case_sum show id) items, l \<noteq> [], Inl e \<leftarrow> [p l]] =
        [decode_8bit_lossy L j. Inr j \<leftarrow> items]"
      by (rule Cons.IH) (use Cons.prems in auto)
    show ?case
    proof (cases i)
      case (Inl x)
      with Cons.prems(1) [of x] IH show ?thesis by simp
    next
      case (Inr j)
      with Cons.prems(2) [of j] IH show ?thesis by (auto)
    qed
  qed simp
  then show ?thesis by (simp add: list_parse_block_def list_parse_loop_eq from_lines_def)
qed

fun status_text :: "posting_status \<Rightarrow> string" where
  "status_text Permitted = ''y''"
| "status_text Prohibited = ''n''"
| "status_text Moderated = ''m''"
| "status_text Junked = ''j''"
| "status_text Disabled = ''x''"
| "status_text (AliasFor target) = ''='' @ target"
| "status_text (OtherStatus flag) = flag"

definition status_ok :: "posting_status \<Rightarrow> bool" where
  "status_ok s \<longleftrightarrow> status_text s \<noteq> [] \<and> list_all is_ascii_graphic (status_text s) \<and>
     (case s of OtherStatus flag \<Rightarrow>
        flag \<notin> {''y'', ''n'', ''m'', ''j'', ''x''} \<and> hd flag \<noteq> CHR ''=''
      | _ \<Rightarrow> True)"

lemma posting_status_round_trip: "status_ok s \<Longrightarrow> posting_status_parse (status_text s) = s"
proof (cases s)
  case (OtherStatus flag)
  assume "status_ok s"
  with OtherStatus have "flag \<noteq> []" "hd flag \<noteq> CHR ''=''" "flag \<notin> {''y'', ''n'', ''m'', ''j'', ''x''}"
    by (simp_all add: status_ok_def)
  moreover then have "strip_prefix ''='' flag = None" by (cases flag) (simp_all add: strip_prefix_def)
  ultimately show ?thesis using OtherStatus by (simp add: posting_status_parse_def)
qed (simp_all add: posting_status_parse_def strip_prefix_def)

definition active_line :: "active_entry \<Rightarrow> bytes" where
  "active_line e = gn_str (ae_name e) @ '' '' @ u64_to_string (ae_high e) @ '' '' @
     u64_to_string (ae_low e) @ '' '' @ status_text (ae_status e)"

definition active_ok :: "active_entry \<Rightarrow> bool" where
  "active_ok e \<longleftrightarrow> group_name_valid (ae_name e) \<and> status_ok (ae_status e)"

lemma group_name_graphic:
  "group_name_valid g \<Longrightarrow> gn_str g \<noteq> [] \<and> list_all is_ascii_graphic (gn_str g) \<and> group_name_parse (gn_str g) = Inr g"
  by (simp add: group_name_valid_iff group_chars_graphic) (simp add: group_name_valid_iff [symmetric] group_name_valid_def)

lemma active_parse_line:
  assumes "active_ok e"
  shows "active_line e \<noteq> []" "active_parse L (active_line e) = Inr e"
proof -
  have g: "gn_str (ae_name e) \<noteq> []" "list_all is_ascii_graphic (gn_str (ae_name e))"
    "group_name_parse (gn_str (ae_name e)) = Inr (ae_name e)"
    using assms group_name_graphic [of "ae_name e"] by (simp_all add: active_ok_def)
  have s: "status_text (ae_status e) \<noteq> []" "list_all is_ascii_graphic (status_text (ae_status e))"
    "posting_status_parse (status_text (ae_status e)) = ae_status e"
    using assms posting_status_round_trip by (simp_all add: active_ok_def status_ok_def)
  have sp: "is_ascii SP" "is_ascii_whitespace SP" by (simp_all add: ascii_defs)
  have "list_all is_ascii (active_line e)"
    using g(2) s(2) u64_to_string_graphic graphic_all_ascii by (simp add: active_line_def sp)
  then have "split_ascii_whitespace (decode_8bit_lossy L (active_line e)) =
      [gn_str (ae_name e), u64_to_string (ae_high e), u64_to_string (ae_low e), status_text (ae_status e)]"
    by (simp only: lossy_8bit_ascii)
       (simp add: active_line_def split_ws_single u64_to_string_graphic sp g(1,2) s(1,2))
  then show "active_parse L (active_line e) = Inr e"
    by (simp add: active_parse_def Let_def list_parse_u64_def g(3) s(3))
  show "active_line e \<noteq> []" by (simp add: active_line_def)
qed

text \<open>C36: \<open>LIST ACTIVE\<close> loses nothing to bad lines.  In any mixture of well-formed lines
  (group, high, low, status in this order) and lines the parser refuses, the entries are
  exactly the well-formed ones, in order, field by field, and every refused line is kept for
  the log.\<close>

theorem list_active_tolerant:
  assumes "\<And>e. Inl e \<in> set items \<Longrightarrow> active_ok e"
    and "\<And>j. Inr j \<in> set items \<Longrightarrow> j \<noteq> [] \<and> (\<exists>err. active_parse L j = Inl err)"
  shows "active_parse_block L (from_lines (map (case_sum active_line id) items)) =
    \<lparr>lr_entries = [e. Inl e \<leftarrow> items], lr_skipped = [decode_8bit_lossy L j. Inr j \<leftarrow> items]\<rparr>"
  unfolding active_parse_block_def
  by (rule list_parse_items) (use assms active_parse_line in auto)

lemma list_active_tolerant_witness:
  "active_parse_block sample_libs (from_lines [''misc.test 12 10 m'', ''broken line'']) =
     \<lparr>lr_entries = [\<lparr>ae_name = GroupName ''misc.test'', ae_high = 12, ae_low = 10, ae_status = Moderated\<rparr>],
      lr_skipped = [''broken line'']\<rparr>"
proof -
  let ?e = "\<lparr>ae_name = GroupName ''misc.test'', ae_high = 12, ae_low = 10, ae_status = Moderated\<rparr>"
  have "active_parse_block sample_libs (from_lines (map (case_sum active_line id) [Inl ?e, Inr ''broken line''])) =
    \<lparr>lr_entries = [e. Inl e \<leftarrow> [Inl ?e, Inr ''broken line'']],
     lr_skipped = [decode_8bit_lossy sample_libs j. Inr j \<leftarrow> [Inl ?e, Inr ''broken line'']]\<rparr>"
  proof (rule list_active_tolerant)
    have "group_name_valid (GroupName ''misc.test'')"
      by (simp add: group_name_valid_iff MAX_GROUP_NAME_LEN_def group_char_def is_ascii_graphic_def)
    then have "active_ok ?e" by (simp add: active_ok_def status_ok_def is_ascii_graphic_def)
    then show "Inl e \<in> set [Inl ?e, Inr ''broken line''] \<Longrightarrow> active_ok e" for e by simp
    have "decode_8bit_lossy sample_libs ''broken line'' = ''broken line''"
      by (rule lossy_8bit_ascii) code_simp
    moreover have "split_ascii_whitespace ''broken line'' = [''broken'', ''line'']" by code_simp
    moreover have "group_name_parse ''broken'' = Inr (GroupName ''broken'')"
      by (simp add: group_name_parse_def MAX_GROUP_NAME_LEN_def group_char_def is_ascii_graphic_def)
    moreover have "parse_u64 ''line'' = None" by (simp add: parse_u64_def parse_nat_below_def is_ascii_digit_def)
    ultimately have "active_parse sample_libs ''broken line'' = Inl (InvalidNumber ''LIST ACTIVE line'' ''high=line'')"
      by (simp add: active_parse_def Let_def list_parse_u64_def)
    then show "Inr j \<in> set [Inl ?e, Inr ''broken line''] \<Longrightarrow>
        j \<noteq> [] \<and> (\<exists>err. active_parse sample_libs j = Inl err)" for j by auto
  qed
  moreover have "active_line ?e = ''misc.test 12 10 m''"
  proof -
    have "dec 12 = ''12''" "dec 10 = ''10''" by code_simp+
    then show ?thesis by (simp add: active_line_def u64_to_string_def)
  qed
  moreover have "decode_8bit_lossy sample_libs ''broken line'' = ''broken line''"
    by (rule lossy_8bit_ascii) code_simp
  ultimately show ?thesis by simp
qed

lemma span_full: "a \<le> b \<Longrightarrow> b - a = - 1 \<longleftrightarrow> a = 0 \<and> b = - 1" for a b :: u64
proof -
  assume le: "a \<le> b"
  have n: "unat (b - a) = unat b - unat a" "unat a \<le> unat b" using le by (simp_all add: unat_sub word_le_nat_alt)
  have m: "unat (- 1 :: u64) = 2 ^ 64 - 1" by (simp add: unat_minus_1)
  show ?thesis
  proof
    assume "b - a = - 1"
    with n m have "unat b - unat a = 2 ^ 64 - 1" by simp
    with unat_lt_u64 [of b] n(2) have "unat a = 0" "unat b = 2 ^ 64 - 1" by linarith+
    with m show "a = 0 \<and> b = - 1" by (simp add: word_unat_eq_iff)
  qed simp
qed

text \<open>The number of articles that an active entry's watermarks imply is the exact number
  of article numbers between them, and zero exactly when the entry counts as empty, except
  for one line a server may send: watermarks 0 and the largest 64-bit number overflow.\<close>

theorem estimated_articles_exact:
  "case estimated_articles e of
     Inl p \<Rightarrow> ae_low e = 0 \<and> ae_high e = - 1 \<and> active_is_empty e = Inl p
   | Inr n \<Rightarrow> \<not> (ae_low e = 0 \<and> ae_high e = - 1) \<and>
       unat n = (if ae_high e = 0 then 0 else card {unat (ae_low e)..unat (ae_high e)}) \<and>
       active_is_empty e = Inr (ae_high e = 0 \<or> ae_high e < ae_low e)"
proof (cases "ae_low e \<le> ae_high e \<and> 0 < ae_high e")
  case True
  show ?thesis
  proof (cases "ae_high e - ae_low e = - 1")
    case full: True
    with True span_full show ?thesis by (simp add: estimated_articles_def active_is_empty_def)
  next
    case False
    let ?d = "ae_high e - ae_low e"
    have d: "unat ?d = unat (ae_high e) - unat (ae_low e)" "unat (ae_low e) \<le> unat (ae_high e)"
      using True by (simp_all add: unat_sub word_le_nat_alt)
    have "unat ?d \<noteq> unat (- 1 :: u64)" using False by (simp only: word_unat_eq_iff simp_thms)
    then have "unat ?d \<noteq> 2 ^ 64 - 1" by (simp add: unat_minus_1)
    then have "unat (?d + 1) = unat ?d + 1" using unat_lt_u64 [of ?d] by (simp add: unat_plus_if')
    moreover from this have "?d + 1 \<noteq> 0" by auto
    ultimately show ?thesis using True False d span_full [of "ae_low e" "ae_high e"]
      by (auto simp: estimated_articles_def active_is_empty_def not_less)
  qed
next
  case False
  then consider "ae_high e = 0" | "ae_high e < ae_low e" "ae_high e \<noteq> 0"
    by (auto simp: not_le word_greater_zero_iff)
  then show ?thesis
  proof cases
    case 1
    then show ?thesis by (simp add: estimated_articles_def active_is_empty_def)
  next
    case 2
    have "\<not> ae_low e \<le> ae_high e" using 2(1) by (simp add: not_le)
    moreover have "{unat (ae_low e)..unat (ae_high e)} = {}" using 2(1) by (simp add: word_less_nat_alt)
    moreover have "ae_low e \<noteq> 0" using 2(1) by auto
    ultimately show ?thesis using 2 by (simp add: estimated_articles_def active_is_empty_def)
  qed
qed

text \<open>The line that reaches it.\<close>

lemma estimated_articles_overflow:
  "map_res estimated_articles (active_parse L ''g 18446744073709551615 0 y'') = Inr (Inl Overflow)"
proof -
  have "list_all is_ascii ''g 18446744073709551615 0 y''" by code_simp
  then have "decode_8bit_lossy L ''g 18446744073709551615 0 y'' = ''g 18446744073709551615 0 y''"
    by (rule lossy_8bit_ascii)
  moreover have "split_ascii_whitespace ''g 18446744073709551615 0 y'' = [''g'', ''18446744073709551615'', ''0'', ''y'']"
    by code_simp
  moreover have "group_name_parse ''g'' = Inr (GroupName ''g'')"
    by (simp add: group_name_parse_def MAX_GROUP_NAME_LEN_def group_char_def is_ascii_graphic_def)
  moreover have "parse_u64 ''18446744073709551615'' = Some (- 1)" "parse_u64 ''0'' = Some 0"
    by (simp_all add: parse_u64_def parse_nat_below_def digits_value_def is_ascii_digit_def)
  ultimately show ?thesis
    by (simp add: active_parse_def Let_def list_parse_u64_def estimated_articles_def word_greater_zero_iff)
qed

end
