(* ===== verification/Date_Header.thy ===== *)
theory Date_Header
  imports Sample_Libs Proto_Error
begin

text \<open>
  \<open>crates/nntp-proto/src/date.rs\<close>: the \<open>Date\<close> header and the answer to \<open>DATE\<close>.  The
  calendar is \<open>chrono\<close>'s and a parameter; everything that turns text into calendar fields
  is here.
\<close>

text \<open>Comments may nest; the state is the output and the depth.\<close>

definition comment_step :: "string \<Rightarrow> string \<times> nat \<Rightarrow> string \<times> nat" where
  "comment_step ch = (\<lambda>(out, depth).
     if ch = ''('' then (out, depth + 1)
     else if ch = '')'' then (out, depth - 1)
     else if depth = 0 then (out @ ch, depth)
     else (out, depth))"

definition strip_comments :: "string \<Rightarrow> string" where
  "strip_comments value = fst (fold comment_step (chars value) ([], 0))"

definition MONTHS :: "string list" where
  "MONTHS = [''jan'', ''feb'', ''mar'', ''apr'', ''may'', ''jun'', ''jul'', ''aug'', ''sep'',
     ''oct'', ''nov'', ''dec'']"

definition parse_month :: "string \<Rightarrow> nat option" where
  "parse_month token =
     (case str_prefix 3 token of
        None \<Rightarrow> None
      | Some p \<Rightarrow> map_option (\<lambda>i. i + 1) (position (\<lambda>m. m = to_ascii_lowercase p) MONTHS))"

definition parse_year :: "string \<Rightarrow> int option" where
  "parse_year token =
     (case parse_i32 token of
        None \<Rightarrow> None
      | Some year \<Rightarrow>
          if length token = 1 \<or> length token = 2
          then Some (if year < 50 then 2000 + year else 1900 + year)
          else if length token = 3 then Some (1900 + year)
          else Some year)"

definition parse_time :: "string \<Rightarrow> (nat \<times> nat \<times> nat) option" where
  "parse_time token =
     (case split_on (CHR '':'') token of
        h # m # rest \<Rightarrow>
          (case (parse_u32 h, parse_u32 m) of
             (Some hour, Some minute) \<Rightarrow>
               (case rest of
                  [] \<Rightarrow> Some (hour, minute, 0)
                | [s] \<Rightarrow> map_option (\<lambda>second. (hour, minute, min second 59)) (parse_u32 s)
                | _ \<Rightarrow> None)
           | _ \<Rightarrow> None)
      | _ \<Rightarrow> None)"

definition parse_numeric_zone :: "string \<Rightarrow> int \<Rightarrow> int option" where
  "parse_numeric_zone raw sign =
     (let digits = filter (\<lambda>c. c \<noteq> CHR '':'') raw in
      if length digits \<noteq> 4 \<or> \<not> list_all is_ascii_digit digits then None
      else
        (case (parse_i32 (take 2 digits), parse_i32 (drop 2 digits)) of
           (Some hours, Some minutes) \<Rightarrow>
             if minutes > 59 then None else Some (sign * (hours * 3600 + minutes * 60))
         | _ \<Rightarrow> None))"

definition parse_zone :: "string \<Rightarrow> int option" where
  "parse_zone token =
     (case strip_prefix ''+'' token of
        Some rest \<Rightarrow> parse_numeric_zone rest 1
      | None \<Rightarrow>
     (case strip_prefix ''-'' token of
        Some rest \<Rightarrow> parse_numeric_zone rest (- 1)
      | None \<Rightarrow>
          let z = to_ascii_uppercase token in
          map_option (\<lambda>hours. hours * 3600)
            (if z \<in> {''UT'', ''UTC'', ''GMT'', ''Z''} then Some 0
             else if z = ''EST'' then Some (- 5) else if z = ''EDT'' then Some (- 4)
             else if z = ''CST'' then Some (- 6) else if z = ''CDT'' then Some (- 5)
             else if z = ''MST'' then Some (- 7) else if z = ''MDT'' then Some (- 6)
             else if z = ''PST'' then Some (- 8) else if z = ''PDT'' then Some (- 7)
             else if length z = 1 \<and> list_all is_ascii z then Some 0
             else None)))"

definition date_tokens :: "string \<Rightarrow> string list" where
  "date_tokens value =
     (let cleaned = strip_comments value;
          tokens = filter (\<lambda>t. t \<noteq> [])
            (map concat (split_by (\<lambda>c. char_is_whitespace c \<or> c = '','') (chars cleaned)))
      in case tokens of
           (c # t) # rest \<Rightarrow> if is_ascii_alphabetic c then rest else tokens
         | _ \<Rightarrow> tokens)"

definition parse_date :: "libs \<Rightarrow> string \<Rightarrow> offset_datetime proto_result" where
  "parse_date L value =
     (let invalid = InvalidDate (trim value); tokens = date_tokens value in
      bind_res (ok_or invalid (Option.bind (get_opt tokens 0) parse_u32)) (\<lambda>day.
      bind_res (ok_or invalid (Option.bind (get_opt tokens 1) parse_month)) (\<lambda>month.
      bind_res (ok_or invalid (Option.bind (get_opt tokens 2) parse_year)) (\<lambda>year.
      bind_res (case get_opt tokens 3 of
                  Some time \<Rightarrow> ok_or invalid (parse_time time) | None \<Rightarrow> Inr (0, 0, 0)) (\<lambda>(hour, minute, second).
      bind_res (case get_opt tokens 4 of
                  Some zone \<Rightarrow> ok_or invalid (parse_zone zone) | None \<Rightarrow> Inr 0) (\<lambda>offset.
      bind_res (ok_or invalid (from_ymd_opt L year month day)) (\<lambda>day'.
      bind_res (ok_or invalid (and_hms_opt L day' hour minute second)) (\<lambda>naive.
      bind_res (ok_or invalid (east_opt L offset)) (\<lambda>off.
      ok_or invalid (from_local_single L off naive))))))))))"

definition parse_date_utc :: "libs \<Rightarrow> string \<Rightarrow> datetime proto_result" where
  "parse_date_utc L value = map_res fst (parse_date L value)"

definition parse_server_date :: "libs \<Rightarrow> string \<Rightarrow> datetime proto_result" where
  "parse_server_date L value =
     (let invalid = InvalidDate (trim value); digits = trim value in
      if length digits \<noteq> 14 \<or> \<not> list_all is_ascii_digit digits then Inl invalid
      else
        let number = (\<lambda>from to'. ok_or invalid (parse_u32 (slice_or_empty from to' digits))) in
        bind_res (number 0 4) (\<lambda>year.
        bind_res (number 4 6) (\<lambda>month.
        bind_res (number 6 8) (\<lambda>day.
        bind_res (ok_or invalid (from_ymd_opt L (int year) month day)) (\<lambda>day'.
        bind_res (number 8 10) (\<lambda>hour.
        bind_res (number 10 12) (\<lambda>minute.
        bind_res (number 12 14) (\<lambda>second.
        ok_or invalid (and_hms_opt L day' hour minute second)))))))))"

section \<open>Lemmas\<close>

lemma fold_comment_ascii:
  "list_all (\<lambda>c. c \<noteq> CHR ''('' \<and> c \<noteq> CHR '')'') s \<Longrightarrow>
   fold comment_step (map (\<lambda>c. [c]) s) (out, 0) = (out @ s, 0)"
  by (induction s arbitrary: out) (simp_all add: comment_step_def)

lemma strip_comments_none:
  assumes "list_all is_ascii s" and "list_all (\<lambda>c. c \<noteq> CHR ''('' \<and> c \<noteq> CHR '')'') s"
  shows "strip_comments s = s"
  using fold_comment_ascii [OF assms(2), of "[]"] by (simp add: strip_comments_def chars_ascii assms(1))

lemma split_by_map: "split_by P (map f s) = map (map f) (split_by (\<lambda>c. P (f c)) s)"
  by (induction s) (auto split: list.splits)

text \<open>Words of printable ASCII without commas or parentheses, joined by single spaces.\<close>

definition date_word :: "string \<Rightarrow> bool" where
  "date_word w \<longleftrightarrow> w \<noteq> [] \<and>
     list_all (\<lambda>c. is_ascii_graphic c \<and> c \<notin> {CHR '','', CHR ''('', CHR '')''}) w"

lemma date_sep_one:
  "(\<lambda>c. char_is_whitespace [c] \<or> [c] = '','') = (\<lambda>c. uws1 c \<or> c = CHR '','')"
  by (rule ext) (simp add: char_is_whitespace_def)

lemma date_word_solid:
  assumes "date_word w"
  shows "list_all (\<lambda>c. \<not> (uws1 c \<or> c = CHR '','')) w"
proof -
  have "\<not> (uws1 c \<or> c = CHR '','')" if "c \<in> set w" for c
  proof -
    have c: "is_ascii_graphic c" "c \<noteq> CHR '',''" using assms that by (simp_all add: date_word_def list_all_iff)
    from c(1) have "\<not> uws1 c" by (intro solid_not_ws(1)) (simp add: solid_def)
    with c(2) show ?thesis by simp
  qed
  then show ?thesis by (simp add: list_all_iff)
qed

lemma split_words:
  assumes "ws \<noteq> []" and "\<And>w. w \<in> set ws \<Longrightarrow> date_word w"
  shows "split_by (\<lambda>c. uws1 c \<or> c = CHR '','') (join '' '' ws) = ws"
  using assms
proof (induction "'' ''" ws rule: join.induct)
  case (3 x y ys)
  have "list_all (\<lambda>c. \<not> (uws1 c \<or> c = CHR '','')) x"
    by (rule date_word_solid) (simp add: "3.prems"(2))
  then have "split_by (\<lambda>c. uws1 c \<or> c = CHR '','') (x @ SP # join '' '' (y # ys)) =
      x # split_by (\<lambda>c. uws1 c \<or> c = CHR '','') (join '' '' (y # ys))"
    by (rule split_by_append) (simp add: uws1_def)
  moreover have "split_by (\<lambda>c. uws1 c \<or> c = CHR '','') (join '' '' (y # ys)) = y # ys"
    by (rule "3.hyps") (use "3.prems"(2) in simp_all)
  ultimately show ?case by simp
next
  case (2 x)
  have "list_all (\<lambda>c. \<not> (uws1 c \<or> c = CHR '','')) x"
    by (rule date_word_solid) (simp add: "2.prems"(2))
  then show ?case by (simp only: join.simps split_by_none)
qed simp

lemma join_set_ascii:
  assumes "\<And>w. w \<in> set ws \<Longrightarrow> date_word w"
  shows "list_all is_ascii (join '' '' ws)" "list_all (\<lambda>c. c \<noteq> CHR ''('' \<and> c \<noteq> CHR '')'') (join '' '' ws)"
proof -
  have "(is_ascii_graphic c \<or> c = SP) \<and> c \<noteq> CHR ''('' \<and> c \<noteq> CHR '')''" if "c \<in> set (join '' '' ws)" for c
    using that assms
  proof (induction "'' ''" ws rule: join.induct)
    case (2 x)
    from "2.prems"(2) [of x] "2.prems"(1) show ?case by (auto simp: date_word_def list_all_iff)
  next
    case (3 x y ys)
    from "3.prems"(2) [of x] 3 show ?case by (auto simp: date_word_def list_all_iff)
  qed simp
  then show "list_all is_ascii (join '' '' ws)" "list_all (\<lambda>c. c \<noteq> CHR ''('' \<and> c \<noteq> CHR '')'') (join '' '' ws)"
    by (fastforce simp: list_all_iff is_ascii_def is_ascii_graphic_def)+
qed

lemma date_tokens_ascii:
  assumes "list_all is_ascii s" and "list_all (\<lambda>c. c \<noteq> CHR ''('' \<and> c \<noteq> CHR '')'') s"
    and "filter (\<lambda>t. t \<noteq> []) (split_by (\<lambda>c. uws1 c \<or> c = CHR '','') s) = (c # t) # rest"
  shows "date_tokens s = (if is_ascii_alphabetic c then rest else (c # t) # rest)"
proof -
  have "split_by (\<lambda>c. char_is_whitespace c \<or> c = '','') (chars s) =
      map (map (\<lambda>c. [c])) (split_by (\<lambda>c. char_is_whitespace [c] \<or> [c] = '','') s)"
    by (simp only: chars_ascii [OF assms(1)] split_by_map)
  then have "map concat (split_by (\<lambda>c. char_is_whitespace c \<or> c = '','') (chars s)) =
      split_by (\<lambda>c. uws1 c \<or> c = CHR '','') s"
    by (simp only: date_sep_one) (simp add: comp_def)
  then have toks: "filter (\<lambda>t. t \<noteq> []) (map concat
      (split_by (\<lambda>c. char_is_whitespace c \<or> c = '','') (chars (strip_comments s)))) = (c # t) # rest"
    by (simp only: strip_comments_none [OF assms(1,2)] assms(3))
  then show ?thesis unfolding date_tokens_def Let_def toks by simp
qed

lemma date_tokens_weekday:
  assumes wd: "date_word wd" "is_ascii_alphabetic (hd wd)"
    and ws: "ws \<noteq> []" "\<And>w. w \<in> set ws \<Longrightarrow> date_word w"
  shows "date_tokens (wd @ '', '' @ join '' '' ws) = ws"
proof -
  let ?P = "\<lambda>c. uws1 c \<or> c = CHR '',''"
  obtain c t where ct: "wd = c # t" using wd(1) by (cases wd) (simp_all add: date_word_def)
  have "split_by ?P (wd @ CHR '','' # SP # join '' '' ws) = wd # split_by ?P (SP # join '' '' ws)"
    by (rule split_by_append [OF date_word_solid [OF wd(1)]]) simp
  then have "split_by ?P (wd @ '', '' @ join '' '' ws) = wd # [] # ws"
    using split_words [OF ws] by (simp add: uws1_def)
  moreover have "filter (\<lambda>t. t \<noteq> []) ws = ws"
    using ws(2) by (simp add: date_word_def filter_id_conv)
  ultimately have toks: "filter (\<lambda>t. t \<noteq> []) (split_by ?P (wd @ '', '' @ join '' '' ws)) = (c # t) # ws"
    by (simp add: ct)
  have wdj: "join '' '' [wd] = wd" by simp
  have a: "list_all is_ascii (wd @ '', '' @ join '' '' ws)"
    using join_set_ascii(1) [of "[wd]"] join_set_ascii(1) [of ws] wd(1) ws(2)
    by (simp add: is_ascii_def)
  have p: "list_all (\<lambda>c. c \<noteq> CHR ''('' \<and> c \<noteq> CHR '')'') (wd @ '', '' @ join '' '' ws)"
    using join_set_ascii(2) [of "[wd]"] join_set_ascii(2) [of ws] wd(1) ws(2) by simp
  show ?thesis using date_tokens_ascii [OF a p toks] wd(2) by (simp add: ct)
qed

section \<open>Well-formed dates\<close>

text \<open>Fixed-width decimal fields, as mail software writes them.\<close>

definition two :: "nat \<Rightarrow> string" where
  "two n = [char_of (48 + n div 10), char_of (48 + n mod 10)]"

definition four :: "nat \<Rightarrow> string" where
  "four n = two (n div 100) @ two (n mod 100)"

definition month_names :: "string list" where
  "month_names = [''Jan'', ''Feb'', ''Mar'', ''Apr'', ''May'', ''Jun'', ''Jul'', ''Aug'', ''Sep'',
     ''Oct'', ''Nov'', ''Dec'']"

lemma code_two: "n < 100 \<Longrightarrow> code (char_of (48 + n div 10)) = 48 + n div 10"
  "code (char_of (48 + n mod 10) :: char) = 48 + n mod 10" for n :: nat
  by (simp_all add: of_char_of)

lemma two_digits: "n < 100 \<Longrightarrow> list_all is_ascii_digit (two n)"
proof -
  assume "n < 100"
  then have "n div 10 < 10" "n mod 10 < 10" by (simp_all add: less_mult_imp_div_less)
  then show ?thesis by (simp add: two_def is_ascii_digit_code)
qed

lemma two_value: "n < 100 \<Longrightarrow> digits_value (two n) = n"
  by (simp add: digits_value_def two_def code_two)

lemma four_digits: "n < 10000 \<Longrightarrow> list_all is_ascii_digit (four n)"
  by (simp add: four_def two_digits less_mult_imp_div_less)

lemma four_value:
  assumes "n < 10000"
  shows "digits_value (four n) = n"
proof -
  define a b where "a = n div 100" and "b = n mod 100"
  have ab: "a < 100" "b < 100" "n = 100 * a + b"
    using assms by (simp_all add: a_def b_def less_mult_imp_div_less)
  have "digits_value (two a @ two b) = 100 * digits_value (two a) + digits_value (two b)"
    by (simp add: digits_value_def two_def)
  then show ?thesis using ab by (simp add: four_def a_def [symmetric] b_def [symmetric] two_value)
qed

lemma parse_nat_below_digits:
  assumes "s \<noteq> []" and "list_all is_ascii_digit s" and "digits_value s < bound"
  shows "parse_nat_below bound s = Some (digits_value s)"
proof -
  have "hd s \<noteq> CHR ''+''" using assms(1,2) by (cases s) (auto simp: is_ascii_digit_def)
  with assms show ?thesis by (cases s) (simp_all add: parse_nat_below_def)
qed

lemma parse_i32_digits:
  assumes "s \<noteq> []" and "list_all is_ascii_digit s" and "digits_value s < 2 ^ 31"
  shows "parse_i32 s = Some (int (digits_value s))"
proof -
  have "hd s \<noteq> CHR ''-''" using assms(1,2) by (cases s) (auto simp: is_ascii_digit_def)
  with assms parse_nat_below_digits [OF assms] show ?thesis by (cases s) (simp_all add: parse_i32_def)
qed

lemma two_ne [simp]: "two n \<noteq> []" "length (two n) = 2"
  by (simp_all add: two_def)

lemma four_ne [simp]: "four n \<noteq> []" "length (four n) = 4"
  by (simp_all add: four_def)

lemma parse_two: "n < 100 \<Longrightarrow> parse_u32 (two n) = Some n" "n < 100 \<Longrightarrow> parse_i32 (two n) = Some (int n)"
  using parse_nat_below_digits [of "two n" "2 ^ 32"] parse_i32_digits [of "two n"]
  by (simp_all add: parse_u32_def two_digits two_value)

lemma parse_four: "n < 10000 \<Longrightarrow> parse_u32 (four n) = Some n" "n < 10000 \<Longrightarrow> parse_i32 (four n) = Some (int n)"
  using parse_nat_below_digits [of "four n" "2 ^ 32"] parse_i32_digits [of "four n"]
  by (simp_all add: parse_u32_def four_digits four_value)

lemma parse_year_four: "n < 10000 \<Longrightarrow> parse_year (four n) = Some (int n)"
  by (simp add: parse_year_def parse_four)

lemma parse_month_name: "m < 12 \<Longrightarrow> parse_month (month_names ! m) = Some (m + 1)"
proof -
  have "map parse_month month_names = map (\<lambda>m. Some (m + 1)) [0..<12]" by code_simp
  then have "map parse_month month_names ! m = map (\<lambda>m. Some (m + 1)) [0..<12] ! m" by (simp only:)
  moreover have "length month_names = 12" by (simp add: month_names_def)
  ultimately show "m < 12 \<Longrightarrow> ?thesis" by simp
qed

definition clock_text :: "nat \<Rightarrow> nat \<Rightarrow> nat \<Rightarrow> string" where
  "clock_text h m s = two h @ '':'' @ two m @ '':'' @ two s"

definition zone_text :: "bool \<Rightarrow> nat \<Rightarrow> nat \<Rightarrow> string" where
  "zone_text west h m = (if west then ''-'' else ''+'') @ two h @ two m"

lemma digits_no_colon:
  assumes "list_all is_ascii_digit s"
  shows "CHR '':'' \<notin> set s" "filter (\<lambda>c. c \<noteq> CHR '':'') s = s"
proof -
  have "\<not> is_ascii_digit (CHR '':'')" by (simp add: is_ascii_digit_def)
  with assms show no: "CHR '':'' \<notin> set s" unfolding list_all_iff by blast
  have "c \<noteq> CHR '':''" if "c \<in> set s" for c using no that by blast
  then show "filter (\<lambda>c. c \<noteq> CHR '':'') s = s" by (simp add: filter_id_conv)
qed

lemma parse_clock_text:
  assumes "h < 100" "m < 100" "s < 100"
  shows "parse_time (clock_text h m s) = Some (h, m, min s 59)"
proof -
  have "clock_text h m s = join ['':'' ! 0] [two h, two m, two s]"
    by (simp add: clock_text_def)
  moreover have "split_on (CHR '':'') (join [CHR '':''] [two h, two m, two s]) = [two h, two m, two s]"
    by (rule split_on_join) (use assms two_digits digits_no_colon(1) in auto)
  ultimately have "split_on (CHR '':'') (clock_text h m s) = [two h, two m, two s]" by simp
  then show ?thesis by (simp add: parse_time_def parse_two assms)
qed

lemma parse_zone_text:
  assumes "h < 100" "m < 60"
  shows "parse_zone (zone_text west h m) =
    Some ((if west then - 1 else 1) * (int h * 3600 + int m * 60))"
proof -
  have ds: "list_all is_ascii_digit (two h @ two m)" using assms by (simp add: two_digits)
  have "parse_numeric_zone (two h @ two m) sg = Some (sg * (int h * 3600 + int m * 60))" for sg
    unfolding parse_numeric_zone_def Let_def digits_no_colon(2) [OF ds]
    using ds assms by (simp add: parse_two)
  then show ?thesis by (simp add: parse_zone_def zone_text_def strip_prefix_def)
qed

text \<open>A date as RFC 5322 writes it: \<open>Tue, 14 Jul 2026 09:30:05 +0200\<close>.\<close>

definition rfc_date ::
  "string \<Rightarrow> nat \<Rightarrow> nat \<Rightarrow> nat \<Rightarrow> nat \<Rightarrow> nat \<Rightarrow> nat \<Rightarrow> bool \<Rightarrow> nat \<Rightarrow> nat \<Rightarrow> string" where
  "rfc_date weekday d m y h mi s west zh zm =
     weekday @ '', '' @ join '' '' [two d, month_names ! (m - 1), four y, clock_text h mi s, zone_text west zh zm]"

text \<open>The instant that calendar fields, a time and an offset denote, if they denote one.\<close>

definition instant ::
  "libs \<Rightarrow> int \<Rightarrow> nat \<Rightarrow> nat \<Rightarrow> nat \<Rightarrow> nat \<Rightarrow> nat \<Rightarrow> int \<Rightarrow> offset_datetime option" where
  "instant L y m d h mi s offset =
     Option.bind (from_ymd_opt L y m d) (\<lambda>day.
     Option.bind (and_hms_opt L day h mi s) (\<lambda>naive.
     Option.bind (east_opt L offset) (\<lambda>off. from_local_single L off naive)))"

lemma instant_steps:
  "bind_res (ok_or e (from_ymd_opt L y m d)) (\<lambda>day.
   bind_res (ok_or e (and_hms_opt L day h mi s)) (\<lambda>naive.
   bind_res (ok_or e (east_opt L offset)) (\<lambda>off. ok_or e (from_local_single L off naive)))) =
   ok_or e (instant L y m d h mi s offset)"
  by (simp add: instant_def ok_or_def bind_res_def split: option.split)

lemma digit_word: "w \<noteq> [] \<Longrightarrow> list_all is_ascii_digit w \<Longrightarrow> date_word w"
proof -
  assume w: "w \<noteq> []" "list_all is_ascii_digit w"
  have "\<not> is_ascii_digit (CHR '','')" "\<not> is_ascii_digit (CHR ''('')" "\<not> is_ascii_digit (CHR '')'')"
    by (simp_all add: is_ascii_digit_def)
  with w show ?thesis unfolding date_word_def list_all_iff
    by (metis digit_graphic empty_iff insert_iff)
qed

lemma date_word_append: "date_word a \<Longrightarrow> date_word b \<Longrightarrow> date_word (a @ b)"
  by (simp add: date_word_def)

lemma date_word_punct: "date_word '':''" "date_word ''+''" "date_word ''-''"
  by code_simp+

lemma month_word: "m < 12 \<Longrightarrow> date_word (month_names ! m)"
proof -
  have "list_all date_word month_names" by code_simp
  moreover have "length month_names = 12" by (simp add: month_names_def)
  ultimately show "m < 12 \<Longrightarrow> ?thesis" by (simp add: list_all_length)
qed

lemma clock_word: "h < 100 \<Longrightarrow> m < 100 \<Longrightarrow> s < 100 \<Longrightarrow> date_word (clock_text h m s)"
  unfolding clock_text_def
  by (intro date_word_append digit_word date_word_punct two_ne two_digits)

lemma zone_word: "h < 100 \<Longrightarrow> m < 100 \<Longrightarrow> date_word (zone_text west h m)"
  unfolding zone_text_def
  by (cases west) (simp_all only: if_True if_False date_word_append digit_word date_word_punct two_ne two_digits simp_thms)

lemma parse_date_error: "parse_date L value = Inl e \<Longrightarrow> e = InvalidDate (trim value)"
  by (auto simp: parse_date_def Let_def bind_res_Inl ok_or_def split: option.splits prod.splits)

text \<open>A date header in the format of RFC 5322 (weekday, two-digit day, month name,
  four-digit year, time, numeric zone) parses to exactly the instant its fields denote, with
  the sender's offset kept and a leap second read as the 59th; when the fields denote no
  instant (30 February, hour 25) the answer is the error that quotes the trimmed header.\<close>

theorem rfc_date_parses:
  assumes "date_word wd" "is_ascii_alphabetic (hd wd)"
    and "d < 100" "1 \<le> m" "m \<le> 12" "y < 10000" "h < 100" "mi < 100" "s < 100" "zh < 100" "zm < 60"
  shows "parse_date L (rfc_date wd d m y h mi s west zh zm) =
     ok_or (InvalidDate (trim (rfc_date wd d m y h mi s west zh zm)))
       (instant L (int y) m d h mi (min s 59) ((if west then - 1 else 1) * (int zh * 3600 + int zm * 60)))"
proof -
  let ?ws = "[two d, month_names ! (m - 1), four y, clock_text h mi s, zone_text west zh zm]"
  have "date_word w" if "w \<in> set ?ws" for w
  proof -
    have "date_word (two d)" "date_word (month_names ! (m - 1))" "date_word (four y)"
      "date_word (clock_text h mi s)" "date_word (zone_text west zh zm)"
      using assms by (simp_all add: digit_word two_digits four_digits month_word clock_word zone_word)
    with that show ?thesis by auto
  qed
  then have toks: "date_tokens (rfc_date wd d m y h mi s west zh zm) = ?ws"
    unfolding rfc_date_def by (intro date_tokens_weekday assms) simp_all
  have month: "parse_month (month_names ! (m - 1)) = Some m"
    using parse_month_name [of "m - 1"] assms by simp
  have at: "get_opt ?ws 0 = Some (two d)" "get_opt ?ws 1 = Some (month_names ! (m - 1))"
    "get_opt ?ws 2 = Some (four y)" "get_opt ?ws 3 = Some (clock_text h mi s)"
    "get_opt ?ws 4 = Some (zone_text west zh zm)" by (simp_all add: get_opt_def)
  show ?thesis
    unfolding parse_date_def toks Let_def at
    by (simp only: Option.bind.simps option.simps bind_res_simps ok_or_simps parse_two(1) [OF assms(3)] month
        parse_year_four [OF assms(6)] parse_clock_text [OF assms(7,8,9)] parse_zone_text [OF assms(10,11)]
        prod.case instant_steps)
qed

lemma rfc_date_parses_witness:
  "parse_date sample_libs (rfc_date ''Tue'' 14 7 2026 9 30 60 False 2 0) =
     Inr (1784014259, 7200)"
proof -
  have "instant sample_libs 2026 7 14 9 30 59 7200 = Some (1784014259, 7200)" by code_simp
  moreover have "date_word ''Tue''" "is_ascii_alphabetic (CHR ''T'')" by code_simp+
  ultimately show ?thesis
    using rfc_date_parses [of "''Tue''" 14 7 2026 9 30 60 2 0 sample_libs False] by simp
qed

text \<open>The answer to DATE: fourteen digits are read as the UTC instant they denote, and
  anything else, a value of another length or with a character that is no digit included, is
  refused with the error that quotes it.\<close>

theorem server_date_parses:
  "(\<forall>y m d h mi s. y < 10000 \<and> m < 100 \<and> d < 100 \<and> h < 100 \<and> mi < 100 \<and> s < 100 \<longrightarrow>
      parse_server_date L (four y @ two m @ two d @ two h @ two mi @ two s) =
        ok_or (InvalidDate (four y @ two m @ two d @ two h @ two mi @ two s))
          (Option.bind (from_ymd_opt L (int y) m d) (\<lambda>day. and_hms_opt L day h mi s))) \<and>
   (\<forall>value. length (trim value) \<noteq> 14 \<or> \<not> list_all is_ascii_digit (trim value) \<longrightarrow>
      parse_server_date L value = Inl (InvalidDate (trim value)))"
proof (intro conjI allI impI)
  fix y m d h mi s :: nat
  assume b: "y < 10000 \<and> m < 100 \<and> d < 100 \<and> h < 100 \<and> mi < 100 \<and> s < 100"
  let ?v = "four y @ two m @ two d @ two h @ two mi @ two s"
  have ds: "list_all is_ascii_digit ?v" using b by (simp add: two_digits four_digits)
  then have g: "list_all is_ascii_graphic ?v" by (rule list_all_mono) (rule digit_graphic)
  have tr: "trim ?v = ?v" by (rule trim_graphic) (use g in simp_all)
  have sl: "slice_or_empty 0 4 ?v = four y" "slice_or_empty 4 6 ?v = two m" "slice_or_empty 6 8 ?v = two d"
    "slice_or_empty 8 10 ?v = two h" "slice_or_empty 10 12 ?v = two mi" "slice_or_empty 12 14 ?v = two s"
    by (simp_all add: slice_or_empty_def four_def two_def)
  show "parse_server_date L ?v = ok_or (InvalidDate ?v)
      (Option.bind (from_ymd_opt L (int y) m d) (\<lambda>day. and_hms_opt L day h mi s))"
    unfolding parse_server_date_def Let_def tr sl using b ds
    by (simp add: parse_two parse_four ok_or_def bind_res_def split: option.split)
qed (auto simp: parse_server_date_def Let_def)

lemma server_date_parses_witness:
  "parse_server_date sample_libs ''20260714093005'' = Inr 1784021405 \<and>
   parse_server_date sample_libs '' 2026 '' = Inl (InvalidDate ''2026'')"
proof -
  have e: "four 2026 @ two 7 @ two 14 @ two 9 @ two 30 @ two 5 = ''20260714093005''"
    "Option.bind (from_ymd_opt sample_libs 2026 7 14) (\<lambda>day. and_hms_opt sample_libs day 9 30 5) = Some 1784021405"
    "trim '' 2026 '' = ''2026''" by code_simp+
  have "parse_server_date sample_libs (four 2026 @ two 7 @ two 14 @ two 9 @ two 30 @ two 5) =
      ok_or (InvalidDate (four 2026 @ two 7 @ two 14 @ two 9 @ two 30 @ two 5))
        (Option.bind (from_ymd_opt sample_libs (int 2026) 7 14) (\<lambda>day. and_hms_opt sample_libs day 9 30 5))"
    by (rule server_date_parses [THEN conjunct1, rule_format]) simp
  moreover have "parse_server_date sample_libs '' 2026 '' = Inl (InvalidDate (trim '' 2026 ''))"
    by (rule server_date_parses [THEN conjunct2, rule_format]) (simp only: e(3), simp)
  ultimately show ?thesis unfolding e by (simp add: e)
qed

end
