(* ===== verification/Overview.thy ===== *)
theory Overview
  imports List_Resp Date_Header
begin

text \<open>
  \<open>crates/nntp-proto/src/overview.rs\<close> and \<open>hdr.rs\<close>: the answers to \<open>OVER\<close>, \<open>XOVER\<close>,
  \<open>HDR\<close> and \<open>XHDR\<close>, and the field layout that \<open>LIST OVERVIEW.FMT\<close> describes.
\<close>

section \<open>The field layout\<close>

definition STANDARD_FIELDS :: "string list" where
  "STANDARD_FIELDS = [''Subject:'', ''From:'', ''Date:'', ''Message-ID:'', ''References:'',
     '':bytes'', '':lines'']"

record overview_field =
  of_name :: string
  of_full :: bool
  of_metadata :: bool

definition overview_field_parse :: "string \<Rightarrow> overview_field option" where
  "overview_field_parse line =
     (let txt = trim line in
      if txt = [] then None
      else
        (case strip_prefix '':'' txt of
           Some name \<Rightarrow> Some \<lparr>of_name = to_ascii_lowercase name, of_full = False, of_metadata = True\<rparr>
         | None \<Rightarrow>
             let (name, full) =
               (case strip_suffix '':full'' txt of
                  Some name \<Rightarrow> (name, True)
                | None \<Rightarrow> ((case strip_suffix '':'' txt of Some name \<Rightarrow> name | None \<Rightarrow> txt), False))
             in Some \<lparr>of_name = name, of_full = full, of_metadata = False\<rparr>))"

definition field_is :: "overview_field \<Rightarrow> string \<Rightarrow> bool" where
  "field_is f name = eq_ignore_ascii_case (of_name f) name"

datatype overview_fmt = OverviewFmt (fmt_fields: "overview_field list")

definition fmt_standard :: overview_fmt where
  "fmt_standard = OverviewFmt (List.map_filter overview_field_parse STANDARD_FIELDS)"

definition fmt_parse :: "libs \<Rightarrow> data_block \<Rightarrow> overview_fmt" where
  "fmt_parse L block =
     (let fs0 = List.map_filter (\<lambda>line. overview_field_parse (decode_8bit_lossy L line)) (block_lines block);
          fs = (case fs0 of
                  f # rest \<Rightarrow> if field_is f ''number'' \<or> field_is f ''article'' then rest else fs0
                | [] \<Rightarrow> fs0)
      in if fs = [] then fmt_standard else OverviewFmt fs)"

definition is_standard_prefix :: "overview_fmt \<Rightarrow> bool" where
  "is_standard_prefix fmt \<longleftrightarrow>
     list_all (\<lambda>(index, expected).
        case get_opt (fmt_fields fmt) index of
          Some actual \<Rightarrow> field_is actual (of_name expected) | None \<Rightarrow> False)
       (List.enumerate 0 (List.map_filter overview_field_parse STANDARD_FIELDS))"

definition name_at :: "overview_fmt \<Rightarrow> nat \<Rightarrow> overview_field option" where
  "name_at fmt index = get_opt (fmt_fields fmt) index"

section \<open>Overview records\<close>

record overview_record =
  or_number :: u64
  or_subject :: string
  or_from :: string
  or_date_raw :: string
  or_date :: "offset_datetime option"
  or_message_id :: "message_id option"
  or_references :: "message_id list"
  or_bytes :: "u64 option"
  or_lines :: "u64 option"
  or_extra :: "(string \<times> string) list"

definition strip_full_prefix :: "bytes \<Rightarrow> string \<Rightarrow> bytes" where
  "strip_full_prefix raw name =
     (let prefix_len = length name + 1 in
      if length raw < prefix_len then raw
      else
        (case strip_suffix '':'' (take prefix_len raw) of
           Some candidate \<Rightarrow>
             if eq_ignore_ascii_case candidate name then
               (let rest = drop prefix_len raw in
                case rest of
                  b # tail \<Rightarrow> if b = SP \<or> b = TAB then tail else rest
                | [] \<Rightarrow> rest)
             else raw
         | None \<Rightarrow> raw))"

definition parse_count :: "libs \<Rightarrow> bytes \<Rightarrow> u64 option" where
  "parse_count L raw = parse_u64 (trim (decode_8bit_lossy L raw))"

text \<open>One pass of the loop over the fields of a line.\<close>

definition overview_step ::
  "libs \<Rightarrow> overview_fmt \<Rightarrow> nat \<times> bytes \<Rightarrow> overview_record \<Rightarrow> overview_record" where
  "overview_step L fmt = (\<lambda>(index, raw0) r.
     let field = name_at fmt index;
         raw = (case field of
                  Some f \<Rightarrow> if of_full f then strip_full_prefix raw0 (of_name f) else raw0
                | None \<Rightarrow> raw0)
     in case field of
          Some f \<Rightarrow>
            if field_is f ''subject'' then r\<lparr>or_subject := trim (decode_header_value L raw)\<rparr>
            else if field_is f ''from'' then r\<lparr>or_from := trim (decode_header_value L raw)\<rparr>
            else if field_is f ''date'' then
              (let date_raw = trim (decode_8bit_lossy L raw)
               in r\<lparr>or_date_raw := date_raw, or_date := res_ok (parse_date L date_raw)\<rparr>)
            else if field_is f ''message-id'' then
              r\<lparr>or_message_id := res_ok (message_id_parse (decode_8bit_lossy L raw))\<rparr>
            else if field_is f ''references'' then
              r\<lparr>or_references := parse_list (decode_8bit_lossy L raw)\<rparr>
            else if field_is f ''bytes'' then r\<lparr>or_bytes := parse_count L raw\<rparr>
            else if field_is f ''lines'' then r\<lparr>or_lines := parse_count L raw\<rparr>
            else r\<lparr>or_extra := or_extra r @ [(of_name f, trim (decode_header_value L raw))]\<rparr>
        | None \<Rightarrow>
            r\<lparr>or_extra := or_extra r @
                [(''field-'' @ dec (index + 1), trim (decode_header_value L raw))]\<rparr>)"

definition overview_empty :: "u64 \<Rightarrow> overview_record" where
  "overview_empty number =
     \<lparr>or_number = number, or_subject = [], or_from = [], or_date_raw = [], or_date = None,
      or_message_id = None, or_references = [], or_bytes = None, or_lines = None, or_extra = []\<rparr>"

definition overview_parse :: "libs \<Rightarrow> overview_fmt \<Rightarrow> bytes \<Rightarrow> overview_record proto_result" where
  "overview_parse L fmt line =
     (let ctx = ''OVER line'' in
      case split_on TAB line of
        [] \<Rightarrow> Inl (MissingField ctx ''article number'')
      | raw_number # parts \<Rightarrow>
          bind_res (ok_or (InvalidNumber ctx (decode_8bit_lossy L raw_number))
                     (parse_u64 (trim (decode_8bit_lossy L raw_number)))) (\<lambda>number.
          Inr (fold (overview_step L fmt) (List.enumerate 0 parts) (overview_empty number))))"

definition overview_parse_block :: "libs \<Rightarrow> data_block \<Rightarrow> overview_fmt \<Rightarrow> overview_record list_result" where
  "overview_parse_block L block fmt =
     list_parse_loop L (overview_parse L fmt) (block_lines block) \<lparr>lr_entries = [], lr_skipped = []\<rparr>"

definition overview_extra :: "string \<Rightarrow> overview_record \<Rightarrow> string option" where
  "overview_extra name r =
     map_option snd (List.find (\<lambda>(field, _). eq_ignore_ascii_case field name) (or_extra r))"

definition is_reply :: "overview_record \<Rightarrow> bool" where
  "is_reply r \<longleftrightarrow> or_references r \<noteq> []"

definition parent :: "overview_record \<Rightarrow> message_id option" where
  "parent r = (if or_references r = [] then None else Some (last (or_references r)))"

section \<open>HDR\<close>

record header_entry =
  he_number :: u64
  he_value :: string

definition header_entry_parse :: "libs \<Rightarrow> bytes \<Rightarrow> header_entry option" where
  "header_entry_parse L line0 =
     (let line = strip_eol line0;
          (number, rest) =
            (case position (\<lambda>b. b = SP) line of
               Some space \<Rightarrow> (take space line, slice_or_empty (space + 1) (length line) line)
             | None \<Rightarrow> (line, []))
      in if utf8_valid number
         then map_option (\<lambda>n. \<lparr>he_number = n, he_value = decode_header_value L rest\<rparr>) (parse_u64 number)
         else None)"

section \<open>Lemmas\<close>

text \<open>What a layout says of a line: the last value that the line has under a name, and the
  values of the fields that have no place of their own in the record.\<close>

definition field_value :: "overview_fmt \<Rightarrow> nat \<times> bytes \<Rightarrow> bytes" where
  "field_value fmt = (\<lambda>(i, raw).
     case name_at fmt i of
       Some f \<Rightarrow> if of_full f then strip_full_prefix raw (of_name f) else raw | None \<Rightarrow> raw)"

definition named :: "overview_fmt \<Rightarrow> string \<Rightarrow> nat \<times> bytes \<Rightarrow> bool" where
  "named fmt name = (\<lambda>(i, raw). case name_at fmt i of Some f \<Rightarrow> field_is f name | None \<Rightarrow> False)"

definition under_name :: "overview_fmt \<Rightarrow> string \<Rightarrow> (nat \<times> bytes) list \<Rightarrow> bytes option" where
  "under_name fmt name parts =
     (let ps = filter (named fmt name) parts
      in if ps = [] then None else Some (field_value fmt (last ps)))"

definition KNOWN :: "string list" where
  "KNOWN = [''subject'', ''from'', ''date'', ''message-id'', ''references'', ''bytes'', ''lines'']"

definition extra_pair :: "libs \<Rightarrow> overview_fmt \<Rightarrow> nat \<times> bytes \<Rightarrow> string \<times> string" where
  "extra_pair L fmt p =
     ((case name_at fmt (fst p) of Some f \<Rightarrow> of_name f | None \<Rightarrow> ''field-'' @ dec (fst p + 1)),
      trim (decode_header_value L (field_value fmt p)))"

definition by_name :: "libs \<Rightarrow> overview_fmt \<Rightarrow> u64 \<Rightarrow> (nat \<times> bytes) list \<Rightarrow> overview_record" where
  "by_name L fmt number parts =
     (let value = (\<lambda>name. under_name fmt name parts);
          header = (\<lambda>name. case value name of None \<Rightarrow> [] | Some raw \<Rightarrow> trim (decode_header_value L raw));
          date = map_option (\<lambda>raw. trim (decode_8bit_lossy L raw)) (value ''date'')
      in \<lparr>or_number = number, or_subject = header ''subject'', or_from = header ''from'',
          or_date_raw = (case date of None \<Rightarrow> [] | Some d \<Rightarrow> d),
          or_date = Option.bind date (\<lambda>d. res_ok (parse_date L d)),
          or_message_id = Option.bind (value ''message-id'')
            (\<lambda>raw. res_ok (message_id_parse (decode_8bit_lossy L raw))),
          or_references = (case value ''references'' of None \<Rightarrow> []
            | Some raw \<Rightarrow> parse_list (decode_8bit_lossy L raw)),
          or_bytes = Option.bind (value ''bytes'') (parse_count L),
          or_lines = Option.bind (value ''lines'') (parse_count L),
          or_extra = map (extra_pair L fmt)
            (filter (\<lambda>p. list_all (\<lambda>name. \<not> named fmt name p) KNOWN) parts)\<rparr>)"

lemma under_name_snoc:
  "under_name fmt name (parts @ [p]) =
     (if named fmt name p then Some (field_value fmt p) else under_name fmt name parts)"
  by (simp add: under_name_def)

lemma lower_known [simp]: "name \<in> set KNOWN \<Longrightarrow> to_ascii_lowercase name = name"
proof -
  have "map to_ascii_lowercase KNOWN = KNOWN" by code_simp
  then show "name \<in> set KNOWN \<Longrightarrow> ?thesis" by (metis map_eq_conv map_ident)
qed

lemma named_iff: "name \<in> set KNOWN \<Longrightarrow> named fmt name p \<longleftrightarrow>
    (\<exists>f. name_at fmt (fst p) = Some f \<and> to_ascii_lowercase (of_name f) = name)"
  by (auto simp: named_def field_is_def eq_ignore_ascii_case_def split: prod.split option.split)

lemma by_name_snoc: "by_name L fmt n (parts @ [p]) = overview_step L fmt p (by_name L fmt n parts)"
proof (cases "name_at fmt (fst p)")
  case None
  then have no: "\<not> named fmt name p" if "name \<in> set KNOWN" for name using that by (simp add: named_iff)
  obtain i raw where p: "p = (i, raw)" by (cases p)
  show ?thesis using None no
    by (simp add: by_name_def under_name_snoc overview_step_def KNOWN_def p extra_pair_def field_value_def Let_def)
next
  case (Some f)
  then have nm: "named fmt name p \<longleftrightarrow> to_ascii_lowercase (of_name f) = name" if "name \<in> set KNOWN" for name
    using that by (simp add: named_iff)
  have is': "field_is f name \<longleftrightarrow> to_ascii_lowercase (of_name f) = name" if "name \<in> set KNOWN" for name
    using that by (simp add: field_is_def eq_ignore_ascii_case_def)
  obtain i raw where p: "p = (i, raw)" by (cases p)
  show ?thesis
    using Some nm is'
    by (simp add: by_name_def under_name_snoc overview_step_def KNOWN_def p extra_pair_def field_value_def Let_def)
qed

lemma fold_by_name: "fold (overview_step L fmt) parts (overview_empty n) = by_name L fmt n parts"
proof (induction parts rule: rev_induct)
  case Nil
  show ?case by (simp add: overview_empty_def by_name_def under_name_def)
qed (simp add: by_name_snoc)

text \<open>An overview line means what the layout says.  For any layout and any line, the
  parser refuses the line exactly when its first field is no 64-bit number, and otherwise
  every field of the record is the last value the line has under that name, wherever the
  layout puts it, with the name prefix of a full field removed; a missing or malformed field
  is empty and never hides the article, and every value without a place of its own is kept in
  order under its name, or its position when the layout does not reach it.\<close>

theorem overview_by_name:
  "overview_parse L fmt line =
     (let number = decode_8bit_lossy L (hd (split_on TAB line));
          parts = List.enumerate 0 (tl (split_on TAB line))
      in case parse_u64 (trim number) of
           None \<Rightarrow> Inl (InvalidNumber ''OVER line'' number)
         | Some n \<Rightarrow> Inr (by_name L fmt n parts))"
proof (cases "split_on TAB line")
  case Nil
  then show ?thesis using split_by_ne by blast
next
  case (Cons raw parts)
  then show ?thesis by (simp add: overview_parse_def Let_def fold_by_name ok_or_def split: option.split)
qed

lemma standard_names:
  "fmt_standard = OverviewFmt
     [\<lparr>of_name = ''Subject'', of_full = False, of_metadata = False\<rparr>,
      \<lparr>of_name = ''From'', of_full = False, of_metadata = False\<rparr>,
      \<lparr>of_name = ''Date'', of_full = False, of_metadata = False\<rparr>,
      \<lparr>of_name = ''Message-ID'', of_full = False, of_metadata = False\<rparr>,
      \<lparr>of_name = ''References'', of_full = False, of_metadata = False\<rparr>,
      \<lparr>of_name = ''bytes'', of_full = False, of_metadata = True\<rparr>,
      \<lparr>of_name = ''lines'', of_full = False, of_metadata = True\<rparr>]"
  by code_simp

definition full_field :: "string \<Rightarrow> overview_field" where
  "full_field name = \<lparr>of_name = name, of_full = True, of_metadata = False\<rparr>"

lemma parse_full_field:
  assumes "name \<noteq> []" and "list_all is_ascii_graphic name" and "hd name \<noteq> CHR '':''"
  shows "overview_field_parse (name @ '':full'') = Some (full_field name)"
proof -
  have "list_all is_ascii_graphic (name @ '':full'')" using assms(2) by (simp add: is_ascii_graphic_def)
  then have "trim (name @ '':full'') = name @ '':full''" by (rule trim_graphic)
  moreover have "strip_prefix '':'' (name @ '':full'') = None"
    using assms(1,3) by (cases name) (auto simp: strip_prefix_def)
  moreover have "strip_suffix '':full'' (name @ '':full'') = Some name" by (simp add: strip_suffix_Some_iff)
  ultimately show ?thesis by (simp add: overview_field_parse_def full_field_def Let_def)
qed

lemma map_filter_append: "List.map_filter f (xs @ ys) = List.map_filter f xs @ List.map_filter f ys"
  by (simp add: List.map_filter_def)

lemma ascii_field_line:
  "list_all is_ascii line \<Longrightarrow> overview_field_parse (decode_8bit_lossy L line) = overview_field_parse line"
  by (simp add: lossy_8bit_ascii)

abbreviation number_leads :: "bytes list list" where
  "number_leads \<equiv> [[], ['':number''], ['':Article'']]"

text \<open>The fields a layout block lists, before the leading number is dropped.\<close>

lemma fmt_block_fields:
  assumes "list_all (list_all is_ascii) ls"
  shows "List.map_filter (\<lambda>line. overview_field_parse (decode_8bit_lossy L line)) ls =
    List.map_filter overview_field_parse ls"
  using assms by (induction ls) (simp_all add: List.map_filter_simps ascii_field_line split: option.split)

lemma full_fields_parse:
  assumes "\<And>name. name \<in> set names \<Longrightarrow>
    name \<noteq> [] \<and> list_all is_ascii_graphic name \<and> hd name \<noteq> CHR '':''"
  shows "List.map_filter overview_field_parse (map (\<lambda>n. n @ '':full'') names) = map full_field names"
    "list_all (list_all is_ascii) (map (\<lambda>n. n @ '':full'') names)"
  using assms by (induction names)
    (simp_all add: List.map_filter_simps parse_full_field graphic_all_ascii is_ascii_def)

lemma standard_block:
  "list_all (list_all is_ascii) STANDARD_FIELDS"
  "List.map_filter overview_field_parse STANDARD_FIELDS = fmt_fields fmt_standard"
  by (code_simp, simp add: fmt_standard_def)

lemma drop_lead:
  assumes "lead \<in> set number_leads"
  shows "list_all (list_all is_ascii) lead" and
    "(case List.map_filter overview_field_parse lead @ fmt_fields fmt_standard @ fs of
        f # rest \<Rightarrow> if field_is f ''number'' \<or> field_is f ''article'' then rest
                   else List.map_filter overview_field_parse lead @ fmt_fields fmt_standard @ fs
      | [] \<Rightarrow> List.map_filter overview_field_parse lead @ fmt_fields fmt_standard @ fs) =
      fmt_fields fmt_standard @ fs"
proof -
  have "list_all (list_all (list_all is_ascii)) number_leads" by code_simp
  with assms show "list_all (list_all is_ascii) lead" unfolding list_all_iff by blast
  define std where "std = fmt_fields fmt_standard"
  have parts: "List.map_filter overview_field_parse [] = []"
    "List.map_filter overview_field_parse ['':number''] = [\<lparr>of_name = ''number'', of_full = False, of_metadata = True\<rparr>]"
    "List.map_filter overview_field_parse ['':Article''] = [\<lparr>of_name = ''article'', of_full = False, of_metadata = True\<rparr>]"
    "field_is \<lparr>of_name = ''number'', of_full = False, of_metadata = True\<rparr> ''number''"
    "field_is \<lparr>of_name = ''article'', of_full = False, of_metadata = True\<rparr> ''article''"
    "std \<noteq> []" "\<not> field_is (hd std) ''number''" "\<not> field_is (hd std) ''article''"
    unfolding std_def by code_simp+
  obtain s ss where "std = s # ss" using parts(6) by (cases std) simp_all
  with parts have s: "std = s # ss" "\<not> field_is s ''number''" "\<not> field_is s ''article''" by simp_all
  from assms consider "lead = []" | "lead = ['':number'']" | "lead = ['':Article'']" by auto
  then show "(case List.map_filter overview_field_parse lead @ fmt_fields fmt_standard @ fs of
        f # rest \<Rightarrow> if field_is f ''number'' \<or> field_is f ''article'' then rest
                   else List.map_filter overview_field_parse lead @ fmt_fields fmt_standard @ fs
      | [] \<Rightarrow> List.map_filter overview_field_parse lead @ fmt_fields fmt_standard @ fs) =
      fmt_fields fmt_standard @ fs"
    unfolding std_def [symmetric] by cases (simp_all only: parts s append.simps list.case if_True if_False simp_thms)
qed

text \<open>C33: A layout described by \<open>LIST OVERVIEW.FMT\<close>, with the article number listed first or
  not, is read as the seven standard fields in their order followed by the advertised full
  fields, and is recognised as beginning with the standard ones; an empty answer is the
  standard layout.\<close>

theorem overview_fmt_round_trip:
  assumes "\<And>name. name \<in> set names \<Longrightarrow>
    name \<noteq> [] \<and> list_all is_ascii_graphic name \<and> hd name \<noteq> CHR '':''"
    and "lead \<in> set [[], ['':number''], ['':Article'']]"
  shows "fmt_parse L (from_lines (lead @ STANDARD_FIELDS @ map (\<lambda>n. n @ '':full'') names)) =
      OverviewFmt (fmt_fields fmt_standard @ map full_field names) \<and>
    is_standard_prefix (OverviewFmt (fmt_fields fmt_standard @ map full_field names)) \<and>
    fmt_parse L block_new = fmt_standard"
proof (intro conjI)
  let ?ls = "lead @ STANDARD_FIELDS @ map (\<lambda>n. n @ '':full'') names"
  note full = full_fields_parse [of names, OF assms(1)]
    and lead = drop_lead(1) [OF assms(2)] drop_lead(2) [OF assms(2), of "map full_field names"]
  have "list_all (list_all is_ascii) ?ls" using full(2) lead(1) standard_block(1) by simp
  from fmt_block_fields [OF this]
  have fs: "List.map_filter (\<lambda>line. overview_field_parse (decode_8bit_lossy L line)) ?ls =
      List.map_filter overview_field_parse lead @ fmt_fields fmt_standard @ map full_field names"
    by (simp only: map_filter_append [of overview_field_parse] standard_block(2) full(1))
  have ne: "fmt_fields fmt_standard \<noteq> []" by (simp add: standard_names)
  show "fmt_parse L (from_lines ?ls) = OverviewFmt (fmt_fields fmt_standard @ map full_field names)"
  proof -
    have "fmt_parse L (from_lines ?ls) =
      (let fs = fmt_fields fmt_standard @ map full_field names in if fs = [] then fmt_standard else OverviewFmt fs)"
      by (simp only: fmt_parse_def from_lines_def data_block.simps fs Let_def lead(2))
    with ne show ?thesis by simp
  qed
  show "fmt_parse L block_new = fmt_standard"
    by (simp add: fmt_parse_def block_new_def List.map_filter_simps)
  show "is_standard_prefix (OverviewFmt (fmt_fields fmt_standard @ map full_field names))"
    unfolding is_standard_prefix_def standard_block(2)
    by (simp add: standard_names get_opt_def field_is_def)
qed

lemma overview_fmt_round_trip_witness:
  "fmt_parse sample_libs (from_lines ('':number'' # STANDARD_FIELDS @ [''Xref:full''])) =
     OverviewFmt (fmt_fields fmt_standard @ [full_field ''Xref''])"
proof -
  have "list_all is_ascii_graphic ''Xref''" by code_simp
  then show ?thesis using overview_fmt_round_trip [of "[''Xref'']" "['':number'']" sample_libs] by simp
qed

text \<open>C35: An \<open>HDR\<close> line: the number before the first space and everything after it, spaces
  included, is the value; a line with the number alone has an empty value; and a line that
  does not begin with a number is dropped.\<close>

theorem header_entry_round_trip:
  assumes "CR \<notin> set v" and "LF \<notin> set v"
  shows "header_entry_parse L (u64_to_string n @ '' '' @ v @ [CR, LF]) =
      Some \<lparr>he_number = n, he_value = decode_header_value L v\<rparr> \<and>
    header_entry_parse L (u64_to_string n @ [CR, LF]) = Some \<lparr>he_number = n, he_value = decode_header_value L []\<rparr> \<and>
    header_entry_parse L (''x'' @ v @ [CR, LF]) = None"
proof (intro conjI)
  have no: "c \<noteq> SP" if "c \<in> set (u64_to_string n)" for c
    using that u64_to_string_graphic [of n] by (auto simp: list_all_iff is_ascii_graphic_def)
  have val: "utf8_valid (u64_to_string n)"
    by (rule utf8_valid_ascii) (rule graphic_all_ascii [OF u64_to_string_graphic])
  have pos: "position (\<lambda>b. b = SP) (u64_to_string n @ SP # v) = Some (length (u64_to_string n))"
    by (rule position_append) (use no in auto)
  have "strip_eol ((u64_to_string n @ '' '' @ v) @ [CR, LF]) = u64_to_string n @ SP # v"
    by (subst strip_eol_crlf) simp
  then show "header_entry_parse L (u64_to_string n @ '' '' @ v @ [CR, LF]) =
      Some \<lparr>he_number = n, he_value = decode_header_value L v\<rparr>"
    by (simp add: header_entry_parse_def Let_def pos val slice_or_empty_def)
  have pos0: "position (\<lambda>b. b = SP) (u64_to_string n) = None"
    using no by (simp add: position_None)
  show "header_entry_parse L (u64_to_string n @ [CR, LF]) = Some \<lparr>he_number = n, he_value = decode_header_value L []\<rparr>"
    by (simp add: header_entry_parse_def Let_def strip_eol_crlf pos0 val)
  have "parse_u64 (CHR ''x'' # s) = None" for s
    by (simp add: parse_u64_def parse_nat_below_def is_ascii_digit_def)
  moreover have "take i (CHR ''x'' # v) = [] \<or> (\<exists>s. take i (CHR ''x'' # v) = CHR ''x'' # s)" for i
    by (cases i) auto
  moreover have "parse_u64 [] = None" by (simp add: parse_u64_def parse_nat_below_def)
  ultimately have none: "parse_u64 (take i (CHR ''x'' # v)) = None" "parse_u64 (CHR ''x'' # v) = None" for i
    by metis+
  show "header_entry_parse L (''x'' @ v @ [CR, LF]) = None"
    using strip_eol_crlf [of "''x'' @ v"] none
    by (simp add: header_entry_parse_def Let_def split: option.split)
qed

lemma header_entry_round_trip_witness:
  "header_entry_parse sample_libs (u64_to_string 12 @ '' '' @ ''a subject'' @ [CR, LF]) =
     Some \<lparr>he_number = 12, he_value = decode_header_value sample_libs ''a subject''\<rparr>"
  using header_entry_round_trip [of "''a subject''" sample_libs 12] by simp

end
