(* ===== verification/Capabilities.thy ===== *)
theory Capabilities
  imports Block Sample_Libs
begin

text \<open>
  \<open>crates/nntp-proto/src/capabilities.rs\<close>: the answer to \<open>CAPABILITIES\<close>, as questions
  about what the server offers.
\<close>

record capability =
  cap_label :: string
  cap_args :: "string list"

datatype capabilities = Capabilities (cap_entries: "capability list")

definition caps_new :: capabilities where
  "caps_new = Capabilities []"

definition capability_of_line :: "libs \<Rightarrow> bytes \<Rightarrow> capability option" where
  "capability_of_line L line =
     (case split_ascii_whitespace (decode_8bit_lossy L line) of
        [] \<Rightarrow> None
      | label # tokens \<Rightarrow> Some \<lparr>cap_label = label, cap_args = tokens\<rparr>)"

definition caps_parse :: "libs \<Rightarrow> data_block \<Rightarrow> capabilities" where
  "caps_parse L block = Capabilities (List.map_filter (capability_of_line L) (block_lines block))"

definition caps_is_empty :: "capabilities \<Rightarrow> bool" where
  "caps_is_empty c \<longleftrightarrow> cap_entries c = []"

definition caps_get :: "string \<Rightarrow> capabilities \<Rightarrow> capability option" where
  "caps_get label c = List.find (\<lambda>e. eq_ignore_ascii_case (cap_label e) label) (cap_entries c)"

definition supports :: "string \<Rightarrow> capabilities \<Rightarrow> bool" where
  "supports label c \<longleftrightarrow> caps_get label c \<noteq> None"

definition caps_args :: "string \<Rightarrow> capabilities \<Rightarrow> string list" where
  "caps_args label c = (case caps_get label c of None \<Rightarrow> [] | Some e \<Rightarrow> cap_args e)"

definition has_arg :: "string \<Rightarrow> string \<Rightarrow> capabilities \<Rightarrow> bool" where
  "has_arg label a c \<longleftrightarrow> list_ex (\<lambda>candidate. eq_ignore_ascii_case candidate a) (caps_args label c)"

definition versions :: "capabilities \<Rightarrow> nat list" where
  "versions c = List.map_filter parse_u32 (caps_args ''VERSION'' c)"

definition has_reader :: "capabilities \<Rightarrow> bool" where
  "has_reader c = supports ''READER'' c"

definition needs_mode_reader :: "capabilities \<Rightarrow> bool" where
  "needs_mode_reader c \<longleftrightarrow> supports ''MODE-READER'' c \<and> \<not> has_reader c"

definition has_post :: "capabilities \<Rightarrow> bool" where
  "has_post c = supports ''POST'' c"

definition has_over :: "capabilities \<Rightarrow> bool" where
  "has_over c = supports ''OVER'' c"

definition over_accepts_message_id :: "capabilities \<Rightarrow> bool" where
  "over_accepts_message_id c = has_arg ''OVER'' ''MSGID'' c"

definition has_hdr :: "capabilities \<Rightarrow> bool" where
  "has_hdr c = supports ''HDR'' c"

definition has_newnews :: "capabilities \<Rightarrow> bool" where
  "has_newnews c = supports ''NEWNEWS'' c"

definition has_starttls :: "capabilities \<Rightarrow> bool" where
  "has_starttls c = supports ''STARTTLS'' c"

definition has_authinfo_user :: "capabilities \<Rightarrow> bool" where
  "has_authinfo_user c =
     (case caps_get ''AUTHINFO'' c of
        Some e \<Rightarrow> cap_args e = [] \<or> list_ex (\<lambda>a. eq_ignore_ascii_case a ''USER'') (cap_args e)
      | None \<Rightarrow> False)"

definition sasl_mechanisms :: "capabilities \<Rightarrow> string list" where
  "sasl_mechanisms c = caps_args ''SASL'' c"

definition has_compress_deflate :: "capabilities \<Rightarrow> bool" where
  "has_compress_deflate c = has_arg ''COMPRESS'' ''DEFLATE'' c"

definition list_keywords :: "capabilities \<Rightarrow> string list" where
  "list_keywords c = caps_args ''LIST'' c"

definition has_list_keyword :: "string \<Rightarrow> capabilities \<Rightarrow> bool" where
  "has_list_keyword k c = has_arg ''LIST'' k c"

definition implementation :: "capabilities \<Rightarrow> string option" where
  "implementation c = map_option (\<lambda>e. join '' '' (cap_args e)) (caps_get ''IMPLEMENTATION'' c)"

section \<open>Lemmas\<close>

lemma caps_get_case: "eq_ignore_ascii_case a b \<Longrightarrow> caps_get a c = caps_get b c"
proof -
  assume "eq_ignore_ascii_case a b"
  then have "(\<lambda>e :: capability. eq_ignore_ascii_case (cap_label e) a) = (\<lambda>e. eq_ignore_ascii_case (cap_label e) b)"
    by (auto simp: eq_ignore_ascii_case_def)
  then show ?thesis by (simp only: caps_get_def)
qed

definition cap_word :: "string \<Rightarrow> bool" where
  "cap_word w \<longleftrightarrow> w \<noteq> [] \<and> list_all is_ascii_graphic w"

definition cap_line :: "capability \<Rightarrow> bytes" where
  "cap_line c = join '' '' (cap_label c # cap_args c)"

definition cap_ok :: "capability \<Rightarrow> bool" where
  "cap_ok c \<longleftrightarrow> cap_word (cap_label c) \<and> list_all cap_word (cap_args c)"

lemma split_ws_join: "list_all cap_word ws \<Longrightarrow> split_ascii_whitespace (join '' '' ws) = ws"
proof (induction "'' ''" ws rule: join.induct)
  case (2 x)
  then show ?case by (simp add: cap_word_def split_ws_single)
next
  case (3 x y ys)
  have "is_ascii_whitespace SP" by (simp add: is_ascii_whitespace_def)
  with 3 show ?case by (simp add: cap_word_def split_ws_single)
qed (simp add: split_ascii_whitespace_def)

lemma join_words_ascii: "list_all cap_word ws \<Longrightarrow> list_all is_ascii (join '' '' ws)"
proof (induction "'' ''" ws rule: join.induct)
  case (2 x)
  then show ?case by (simp add: cap_word_def graphic_all_ascii)
next
  case (3 x y ys)
  have "is_ascii SP" by (simp add: is_ascii_def)
  with 3 show ?case by (simp add: cap_word_def graphic_all_ascii)
qed simp

lemma capability_of_cap_line: "cap_ok c \<Longrightarrow> capability_of_line L (cap_line c) = Some c"
proof -
  assume c: "cap_ok c"
  let ?ws = "cap_label c # cap_args c"
  have w: "list_all cap_word ?ws" using c by (simp add: cap_ok_def)
  have "decode_8bit_lossy L (join '' '' ?ws) = join '' '' ?ws"
    by (rule lossy_8bit_ascii) (rule join_words_ascii [OF w])
  then show ?thesis unfolding capability_of_line_def cap_line_def
    by (simp only: split_ws_join [OF w] list.case) simp
qed

text \<open>C34: The answer to \<open>CAPABILITIES\<close> keeps every advertised capability, known or not, in
  order with its arguments; and the questions asked of it see a capability exactly when it
  was advertised, in any case, so that \<open>MODE READER\<close> is sent only to a server that
  advertises it and not the reader commands.\<close>

theorem capabilities_round_trip:
  assumes "list_all cap_ok cs"
  shows "caps_parse L (from_lines (map cap_line cs)) = Capabilities cs \<and>
    (supports label (caps_parse L (from_lines (map cap_line cs))) \<longleftrightarrow>
       list_ex (\<lambda>c. eq_ignore_ascii_case (cap_label c) label) cs) \<and>
    (needs_mode_reader (caps_parse L (from_lines (map cap_line cs))) \<longleftrightarrow>
       list_ex (\<lambda>c. eq_ignore_ascii_case (cap_label c) ''mode-reader'') cs \<and>
       \<not> list_ex (\<lambda>c. eq_ignore_ascii_case (cap_label c) ''reader'') cs)"
proof -
  have parse: "caps_parse L (from_lines (map cap_line cs)) = Capabilities cs"
    using assms by (induction cs)
      (simp_all add: caps_parse_def from_lines_def List.map_filter_simps capability_of_cap_line)
  have sup: "supports label (Capabilities cs) \<longleftrightarrow>
      list_ex (\<lambda>c. eq_ignore_ascii_case (cap_label c) label) cs" for label
    by (auto simp: supports_def caps_get_def find_None_iff list_ex_iff)
  have "eq_ignore_ascii_case ''MODE-READER'' ''mode-reader''" "eq_ignore_ascii_case ''READER'' ''reader''"
    by code_simp+
  then have "supports ''MODE-READER'' (Capabilities cs) = supports ''mode-reader'' (Capabilities cs)"
    "supports ''READER'' (Capabilities cs) = supports ''reader'' (Capabilities cs)"
    by (simp_all add: supports_def caps_get_case)
  then show ?thesis by (simp add: parse sup needs_mode_reader_def has_reader_def)
qed

lemma capabilities_round_trip_witness:
  "needs_mode_reader (caps_parse sample_libs (from_lines (map cap_line
     [\<lparr>cap_label = ''VERSION'', cap_args = [''2'']\<rparr>, \<lparr>cap_label = ''Mode-Reader'', cap_args = []\<rparr>])))"
proof -
  let ?cs = "[\<lparr>cap_label = ''VERSION'', cap_args = [''2'']\<rparr>, \<lparr>cap_label = ''Mode-Reader'', cap_args = []\<rparr>]"
  have ok: "list_all cap_ok ?cs" by code_simp
  have "list_ex (\<lambda>c. eq_ignore_ascii_case (cap_label c) ''mode-reader'') ?cs \<and>
    \<not> list_ex (\<lambda>c. eq_ignore_ascii_case (cap_label c) ''reader'') ?cs" by code_simp
  with capabilities_round_trip [OF ok, of sample_libs "[]"] show ?thesis by blast
qed

end
