(* ===== verification/Thread.thy ===== *)
theory Thread
  imports Overview "HOL-Library.Option_ord" "HOL-Library.Multiset"
begin

text \<open>
  \<open>crates/nntp-proto/src/thread.rs\<close>: grouping articles into conversations.  The arena of
  containers, the steps that fill and link it, the depth cap and the tree that is built
  from it follow the code.  A \<open>HashMap\<close> whose order is never observed is a map; a stack
  is a list with its top first.
\<close>

section \<open>Data\<close>

definition MAX_REFERENCES :: nat where
  "MAX_REFERENCES = 64"

definition MAX_DEPTH :: nat where
  "MAX_DEPTH = 32"

datatype thread_node = ThreadNode (tn_article: "nat option") (tn_children: "thread_node list")

primrec node_len :: "thread_node \<Rightarrow> nat" where
  "node_len (ThreadNode a cs) = (if a \<noteq> None then 1 else 0) + sum_list (map node_len cs)"

definition node_is_empty :: "thread_node \<Rightarrow> bool" where
  "node_is_empty t \<longleftrightarrow> node_len t = 0"

text \<open>What \<open>walk\<close> visits, in order.\<close>

fun walk :: "nat \<Rightarrow> thread_node \<Rightarrow> (thread_node \<times> nat) list" where
  "walk depth (ThreadNode a cs) = (ThreadNode a cs, depth) # concat (map (walk (depth + 1)) cs)"

text \<open>\<open>usize::MAX\<close>, the key of a node without articles.\<close>

abbreviation USIZE_MAX :: nat where
  "USIZE_MAX \<equiv> 2 ^ 64 - 1"

primrec node_first_article :: "thread_node \<Rightarrow> nat" where
  "node_first_article (ThreadNode a cs) =
     foldl min (case a of None \<Rightarrow> USIZE_MAX | Some i \<Rightarrow> i) (map node_first_article cs)"

record container =
  c_article :: "nat option"
  c_parent :: "nat option"
  c_children :: "nat list"

record arena =
  containers :: "container list"
  by_id :: "string \<rightharpoonup> nat"
  by_article :: "nat list"

definition arena_empty :: arena where
  "arena_empty = \<lparr>containers = [], by_id = Map.empty, by_article = []\<rparr>"

definition get_c :: "arena \<Rightarrow> nat \<Rightarrow> container option" where
  "get_c a i = get_opt (containers a) i"

text \<open>\<open>if let Some(container) = self.containers.get_mut(id)\<close>.\<close>

definition modify_c :: "nat \<Rightarrow> (container \<Rightarrow> container) \<Rightarrow> arena \<Rightarrow> arena" where
  "modify_c i f a =
     (if i < length (containers a)
      then a\<lparr>containers := (containers a)[i := f (containers a ! i)]\<rparr> else a)"

definition article_of :: "arena \<Rightarrow> nat \<Rightarrow> nat option" where
  "article_of a i = Option.bind (get_c a i) c_article"

definition parent_of :: "arena \<Rightarrow> nat \<Rightarrow> nat option" where
  "parent_of a i = Option.bind (get_c a i) c_parent"

definition children_of :: "arena \<Rightarrow> nat \<Rightarrow> nat list" where
  "children_of a i = (case get_c a i of None \<Rightarrow> [] | Some c \<Rightarrow> c_children c)"

section \<open>Filling and linking\<close>

definition new_container :: "nat option \<Rightarrow> arena \<Rightarrow> nat \<times> arena" where
  "new_container art a =
     (length (containers a),
      a\<lparr>containers := containers a @ [\<lparr>c_article = art, c_parent = None, c_children = []\<rparr>]\<rparr>)"

definition push_article :: "nat \<Rightarrow> arena \<Rightarrow> arena" where
  "push_article c a = a\<lparr>by_article := by_article a @ [c]\<rparr>"

definition arena_insert :: "nat \<Rightarrow> overview_record \<Rightarrow> arena \<Rightarrow> arena" where
  "arena_insert index r a =
     (case or_message_id r of
        None \<Rightarrow> (let (c, a') = new_container (Some index) a in push_article c a')
      | Some mid \<Rightarrow>
          (case by_id a (mid_str mid) of
             Some existing \<Rightarrow>
               if article_of a existing = None
               then push_article existing (modify_c existing (\<lambda>c. c\<lparr>c_article := Some index\<rparr>) a)
               else (let (c, a') = new_container (Some index) a in push_article c a')
           | None \<Rightarrow>
               (let (c, a') = new_container (Some index) a
                in push_article c (a'\<lparr>by_id := (by_id a')(mid_str mid \<mapsto> c)\<rparr>))))"

definition container_for_id :: "message_id \<Rightarrow> arena \<Rightarrow> nat \<times> arena" where
  "container_for_id mid a =
     (case by_id a (mid_str mid) of
        Some existing \<Rightarrow> (existing, a)
      | None \<Rightarrow>
          (let (c, a') = new_container None a
           in (c, a'\<lparr>by_id := (by_id a')(mid_str mid \<mapsto> c)\<rparr>)))"

text \<open>The loop of \<open>is_ancestor\<close>, with the passes it has left.\<close>

fun ancestor_loop :: "arena \<Rightarrow> nat \<Rightarrow> nat \<Rightarrow> nat option \<Rightarrow> bool" where
  "ancestor_loop a candidate 0 current = True"
| "ancestor_loop a candidate (Suc left) current =
     (case current of
        Some node \<Rightarrow> if node = candidate then True
                    else ancestor_loop a candidate left (parent_of a node)
      | None \<Rightarrow> False)"

definition is_ancestor :: "nat \<Rightarrow> nat \<Rightarrow> arena \<Rightarrow> bool" where
  "is_ancestor candidate i a = ancestor_loop a candidate (length (containers a) + 1) (Some i)"

definition set_parent :: "nat \<Rightarrow> nat \<Rightarrow> arena \<Rightarrow> arena" where
  "set_parent child par a =
     (if child = par \<or> parent_of a child \<noteq> None then a
      else if is_ancestor child par a then a
      else modify_c par (\<lambda>c. c\<lparr>c_children := c_children c @ [child]\<rparr>)
             (modify_c child (\<lambda>c. c\<lparr>c_parent := Some par\<rparr>) a))"

definition link_step :: "message_id \<Rightarrow> arena \<times> nat option \<Rightarrow> arena \<times> nat option" where
  "link_step reference = (\<lambda>(a, previous).
     let (current, a1) = container_for_id reference a;
         a2 = (case previous of Some par \<Rightarrow> set_parent current par a1 | None \<Rightarrow> a1)
     in (a2, Some current))"

definition link_references :: "nat \<Rightarrow> overview_record \<Rightarrow> arena \<Rightarrow> arena" where
  "link_references index r a =
     (case get_opt (by_article a) index of
        None \<Rightarrow> a
      | Some child \<Rightarrow>
          let references = drop (length (or_references r) - MAX_REFERENCES) (or_references r);
              (a1, previous) = fold link_step references (a, None)
          in (case previous of Some par \<Rightarrow> set_parent child par a1 | None \<Rightarrow> a1))"

section \<open>Roots\<close>

text \<open>The loop of \<open>first_article\<close>: the pops it still follows, the stack and the best so far.\<close>

fun first_article_loop :: "arena \<Rightarrow> nat \<Rightarrow> nat list \<Rightarrow> nat option \<Rightarrow> nat option" where
  "first_article_loop a left [] best = best"
| "first_article_loop a 0 (current # stack) best = best"
| "first_article_loop a (Suc left) (current # stack) best =
     (case get_c a current of
        None \<Rightarrow> first_article_loop a left stack best
      | Some c \<Rightarrow>
          first_article_loop a left (rev (c_children c) @ stack)
            (case c_article c of
               None \<Rightarrow> best
             | Some art \<Rightarrow> Some (case best of None \<Rightarrow> art | Some found \<Rightarrow> min found art)))"

definition first_article :: "arena \<Rightarrow> nat \<Rightarrow> nat option" where
  "first_article a i = first_article_loop a (length (containers a) + 1) [i] (article_of a i)"

definition roots :: "arena \<Rightarrow> nat list" where
  "roots a =
     sort_key (first_article a)
       (filter (\<lambda>i. first_article a i \<noteq> None)
         (filter (\<lambda>i. parent_of a i = None) [0..<length (containers a)]))"

section \<open>Subjects\<close>

definition PREFIXES :: "string list" where
  "PREFIXES = [''re'', ''aw'', ''sv'', ''vs'', ''res'', ''odp'', ''ref'', ''antw'']"

text \<open>The text after a leading list tag, if there is one.\<close>

definition strip_tag :: "string \<Rightarrow> string option" where
  "strip_tag rest =
     (case strip_prefix ''['' rest of
        None \<Rightarrow> None
      | Some stripped \<Rightarrow>
          (case split_once (CHR '']'') stripped of
             None \<Rightarrow> None
           | Some (tag, tail) \<Rightarrow>
               if tag \<noteq> [] \<and> CHR ''['' \<notin> set tag then Some tail else None))"

text \<open>The part of a prefix before a counter, as in \<open>Re[2]\<close> and \<open>Re(2)\<close>.\<close>

definition prefix_base :: "string \<Rightarrow> string" where
  "prefix_base head = trim (takeWhile (\<lambda>c. c \<noteq> CHR ''['' \<and> c \<noteq> CHR ''('') head)"

definition strip_reply :: "string \<Rightarrow> string option" where
  "strip_reply rest =
     (case split_once (CHR '':'') rest of
        None \<Rightarrow> None
      | Some (head, tail) \<Rightarrow>
          if list_ex (\<lambda>prefix. eq_ignore_ascii_case (prefix_base (trim head)) prefix) PREFIXES
          then Some tail else None)"

lemma length_trim_start_le: "length (trim_start s) \<le> length s"
  using trim_start_suffix [of s] by (metis length_append le_add2)

lemma strip_tag_shorter: "strip_tag rest = Some tail \<Longrightarrow> length tail < length rest"
  by (auto simp: strip_tag_def strip_prefix_Some_iff split_once_Some_iff split: option.splits if_splits)

lemma strip_reply_shorter: "strip_reply rest = Some tail \<Longrightarrow> length tail < length rest"
  by (auto simp: strip_reply_def split_once_Some_iff split: option.splits if_splits)

function subject_loop :: "string \<Rightarrow> bool \<Rightarrow> string \<times> bool" where
  "subject_loop rest was_reply =
     (case strip_tag rest of
        Some tail \<Rightarrow> subject_loop (trim_start tail) was_reply
      | None \<Rightarrow>
          (case strip_reply rest of
             Some tail \<Rightarrow> subject_loop (trim_start tail) True
           | None \<Rightarrow> (trim rest, was_reply)))"
  by pat_completeness auto
termination
  by (relation "measure (\<lambda>(rest, _). length rest)")
     (auto intro: le_less_trans [OF length_trim_start_le] dest: strip_tag_shorter strip_reply_shorter)

declare subject_loop.simps [simp del]

definition normalise_subject :: "string \<Rightarrow> string \<times> bool" where
  "normalise_subject subject = subject_loop (trim subject) False"

record grouping =
  g_arena :: arena
  g_holders :: "string \<rightharpoonup> nat"
  g_merged :: "nat list"

text \<open>Whether the root that holds a subject announces itself as a reply.\<close>

definition holder_is_reply :: "overview_record list \<Rightarrow> arena \<Rightarrow> nat \<Rightarrow> bool" where
  "holder_is_reply records a holder =
     (case Option.bind (first_article a holder) (get_opt records) of
        None \<Rightarrow> False | Some r \<Rightarrow> snd (normalise_subject (or_subject r)))"

text \<open>Which of two roots with the same subject becomes the parent.\<close>

definition choose_parent :: "overview_record list \<Rightarrow> arena \<Rightarrow> bool \<Rightarrow> nat \<Rightarrow> nat \<Rightarrow> nat \<times> nat" where
  "choose_parent records a is_reply' holder i =
     (let holder_reply = holder_is_reply records a holder in
      if is_reply' \<and> \<not> holder_reply then (holder, i)
      else if holder_reply \<and> \<not> is_reply' then (i, holder)
      else if first_article a holder \<le> first_article a i then (holder, i)
      else (i, holder))"

definition group_step :: "overview_record list \<Rightarrow> nat \<Rightarrow> grouping \<Rightarrow> grouping" where
  "group_step records i g =
     (case Option.bind (first_article (g_arena g) i) (get_opt records) of
        None \<Rightarrow> g
      | Some r \<Rightarrow>
          let (subject, is_reply') = normalise_subject (or_subject r) in
          if subject = [] then g
          else (case g_holders g subject of
                  None \<Rightarrow> g\<lparr>g_holders := (g_holders g)(subject \<mapsto> i)\<rparr>
                | Some holder \<Rightarrow>
                    if holder = i then g
                    else
                      let (par, child) = choose_parent records (g_arena g) is_reply' holder i
                      in g\<lparr>g_arena := set_parent child par (g_arena g),
                           g_holders := (g_holders g)(subject \<mapsto> par),
                           g_merged := g_merged g @ [child]\<rparr>))"

definition group_by_subject :: "overview_record list \<Rightarrow> arena \<Rightarrow> nat list \<Rightarrow> arena \<times> nat list" where
  "group_by_subject records a rs =
     (let g = fold (group_step records) rs \<lparr>g_arena = a, g_holders = Map.empty, g_merged = []\<rparr>
      in (g_arena g, filter (\<lambda>i. i \<notin> set (g_merged g)) rs))"

section \<open>The depth cap\<close>

text \<open>
  Everything below the node \<open>anchor\<close> becomes its direct child: \<open>seen\<close> marks the nodes already
  met, the stack has its top first, and \<open>below\<close> collects the nodes moved.
\<close>

definition unseen :: "bool list \<Rightarrow> nat" where
  "unseen seen = length (filter Not seen)"

lemma unseen_less: "get_opt seen i = Some False \<Longrightarrow> unseen (seen[i := True]) < unseen seen"
proof (induction seen arbitrary: i)
  case (Cons b seen)
  then show ?case by (cases i) (auto simp: unseen_def get_opt_def split: if_splits)
qed (simp add: get_opt_def)

function flatten_loop ::
  "nat \<Rightarrow> arena \<Rightarrow> bool list \<Rightarrow> nat list \<Rightarrow> nat list \<Rightarrow> arena \<times> bool list \<times> nat list" where
  "flatten_loop anchor a seen [] below = (a, seen, below)"
| "flatten_loop anchor a seen (node # stack) below =
     (case get_opt seen node of
        Some False \<Rightarrow>
          (let seen' = seen[node := True] in
           case get_c a node of
             None \<Rightarrow> flatten_loop anchor a seen' stack below
           | Some c \<Rightarrow>
               flatten_loop anchor
                 (modify_c node (\<lambda>c. c\<lparr>c_parent := Some anchor, c_children := []\<rparr>) a) seen'
                 (rev (c_children c) @ stack) (below @ [node]))
      | _ \<Rightarrow> flatten_loop anchor a seen stack below)"
  by pat_completeness auto
termination
  by (relation "measures [\<lambda>(anchor, a, seen, stack, below). unseen seen,
        \<lambda>(anchor, a, seen, stack, below). length stack]") (auto dest: unseen_less)

lemma flatten_unseen:
  "flatten_loop anchor a seen stack below = (a', seen', below') \<Longrightarrow> unseen seen' \<le> unseen seen"
proof (induction anchor a seen stack below rule: flatten_loop.induct)
  case (2 anchor a seen node stack below)
  show ?case
  proof (cases "get_opt seen node = Some False")
    case True
    note le = less_imp_le [OF unseen_less [OF True]]
    from True 2 show ?thesis
      by (cases "get_c a node") (auto simp: Let_def intro: order_trans [OF _ le])
  next
    case False
    then have "flatten_loop anchor a seen stack below = (a', seen', below')"
      using "2.prems" by (auto split: option.splits bool.splits)
    with False "2.IH" show ?thesis by (cases "get_opt seen node") auto
  qed
qed simp

function clamp_loop :: "arena \<Rightarrow> bool list \<Rightarrow> (nat \<times> nat) list \<Rightarrow> arena" where
  "clamp_loop a seen [] = a"
| "clamp_loop a seen ((i, depth) # queue) =
     (case get_opt seen i of
        Some False \<Rightarrow>
          (let seen' = seen[i := True]; children = children_of a i in
           if depth + 1 < MAX_DEPTH
           then clamp_loop a seen' (queue @ map (\<lambda>child. (child, depth + 1)) children)
           else
             (case flatten_loop i a seen' (rev children) [] of
                (a', seen'', below) \<Rightarrow>
                  clamp_loop (modify_c i (\<lambda>c. c\<lparr>c_children := sort_key (first_article a') below\<rparr>) a')
                    seen'' queue))
      | _ \<Rightarrow> clamp_loop a seen queue)"
  by pat_completeness auto
termination
  by (relation "measures [\<lambda>(a, seen, queue). unseen seen, \<lambda>(a, seen, queue). length queue]")
     (auto dest!: flatten_unseen unseen_less [where seen = "_ :: bool list"] sym [of "(_, _, _)"])

definition clamp_depth :: "nat list \<Rightarrow> arena \<Rightarrow> arena" where
  "clamp_depth rs a =
     clamp_loop a (replicate (length (containers a)) False) (map (\<lambda>i. (i, 0)) rs)"

section \<open>Building the tree\<close>

text \<open>
  The recursion of \<open>build\<close> with the stack depth it may use: \<^const>\<open>None\<close> when that is not
  enough, otherwise the node or the fact that it was pruned.
\<close>

definition prune :: "nat option \<Rightarrow> thread_node list \<Rightarrow> thread_node option" where
  "prune art children =
     (case art of
        None \<Rightarrow> (case children of [] \<Rightarrow> None | [t] \<Rightarrow> Some t | _ \<Rightarrow> Some (ThreadNode None children))
      | Some i \<Rightarrow> Some (ThreadNode (Some i) children))"

fun build :: "nat \<Rightarrow> arena \<Rightarrow> nat \<Rightarrow> thread_node option option" where
  "build 0 a i = None"
| "build (Suc deeper) a i =
     (case get_c a i of
        None \<Rightarrow> Some None
      | Some c \<Rightarrow>
          map_option (\<lambda>built. prune (c_article c)
              (sort_key node_first_article (List.map_filter (\<lambda>t. t) built)))
            (those (map (build deeper a) (c_children c))))"

text \<open>The whole algorithm; the tree is built within \<^const>\<open>MAX_DEPTH\<close> levels of replies.\<close>

definition thread :: "overview_record list \<Rightarrow> thread_node list option" where
  "thread records =
     (let a1 = fold (\<lambda>(i, r). arena_insert i r) (List.enumerate 0 records) arena_empty;
          a2 = fold (\<lambda>(i, r). link_references i r) (List.enumerate 0 records) a1;
          (a3, rs) = group_by_subject records a2 (roots a2);
          a4 = clamp_depth rs a3
      in map_option (List.map_filter (\<lambda>t. t)) (those (map (build (MAX_DEPTH + 1) a4) rs)))"

end
