(* ===== verification/Thread_Forest.thy ===== *)
theory Thread_Forest
  imports Thread
begin

text \<open>
  Why threading loses nothing: the containers form a forest whatever the \<open>References\<close> headers
  say, the depth cap and the subject grouping keep it one, and the tree that is built from
  it holds every article once.
\<close>

section \<open>The arena as a forest\<close>

definition size_of :: "arena \<Rightarrow> nat" where
  "size_of a = length (containers a)"

definition up :: "arena \<Rightarrow> (nat \<times> nat) set" where
  "up a = {(i, j). parent_of a i = Some j}"

definition forest :: "arena \<Rightarrow> bool" where
  "forest a \<longleftrightarrow>
     (\<forall>i j. parent_of a i = Some j \<longrightarrow> j < size_of a \<and> i \<in> set (children_of a j)) \<and>
     (\<forall>i j. j \<in> set (children_of a i) \<longrightarrow> parent_of a j = Some i) \<and>
     (\<forall>i. distinct (children_of a i)) \<and> acyclic (up a)"

lemma get_c_iff: "get_c a i = Some c \<longleftrightarrow> i < size_of a \<and> c = containers a ! i"
  by (auto simp: get_c_def get_opt_def size_of_def)

lemma parent_lt: "parent_of a i = Some j \<Longrightarrow> i < size_of a"
  by (auto simp: parent_of_def get_c_iff bind_eq_Some_conv)

lemma article_lt: "article_of a i = Some x \<Longrightarrow> i < size_of a"
  by (auto simp: article_of_def get_c_iff bind_eq_Some_conv)

lemma forestD:
  assumes "forest a"
  shows "parent_of a i = Some j \<Longrightarrow> i \<in> set (children_of a j)"
    and "parent_of a i = Some j \<Longrightarrow> j < size_of a"
    and "j \<in> set (children_of a i) \<Longrightarrow> parent_of a j = Some i"
    and "distinct (children_of a i)" and "acyclic (up a)"
  using assms unfolding forest_def by blast+

lemma forestI:
  assumes "\<And>i j. parent_of a i = Some j \<Longrightarrow> j < size_of a"
    and "\<And>i j. parent_of a i = Some j \<Longrightarrow> i \<in> set (children_of a j)"
    and "\<And>i j. j \<in> set (children_of a i) \<Longrightarrow> parent_of a j = Some i"
    and "\<And>i. distinct (children_of a i)" and "acyclic (up a)"
  shows "forest a"
proof (unfold forest_def, intro conjI allI impI)
  fix i j
  show "parent_of a i = Some j \<Longrightarrow> j < size_of a" by (rule assms(1))
  show "parent_of a i = Some j \<Longrightarrow> i \<in> set (children_of a j)" by (rule assms(2))
  show "j \<in> set (children_of a i) \<Longrightarrow> parent_of a j = Some i" by (rule assms(3))
qed (rule assms(4,5))+

lemma child_lt:
  assumes "forest a" "j \<in> set (children_of a i)"
  shows "j < size_of a" "i < size_of a"
proof -
  have "parent_of a j = Some i" by (rule forestD(3) [OF assms])
  then show "j < size_of a" "i < size_of a" using parent_lt forestD(2) [OF assms(1)] by blast+
qed

lemma up_single: "single_valued (up a)"
  by (auto simp: single_valued_def up_def)

lemma up_root: "(r, x) \<in> (up a)\<^sup>* \<Longrightarrow> parent_of a r = None \<Longrightarrow> x = r"
  by (erule converse_rtranclE) (auto simp: up_def)

lemma up_root_trancl: "parent_of a r = None \<Longrightarrow> (r, x) \<notin> (up a)\<^sup>+"
  by (auto simp: up_def dest: tranclD)

text \<open>Two ancestors of a node lie on one chain.\<close>

lemma up_linear: "(x, y) \<in> (up a)\<^sup>* \<Longrightarrow> (x, z) \<in> (up a)\<^sup>* \<Longrightarrow> (y, z) \<in> (up a)\<^sup>* \<or> (z, y) \<in> (up a)\<^sup>*"
  using single_valued_confluent [OF up_single] by blast

lemma up_parent: "(x, y) \<in> (up a)\<^sup>+ \<Longrightarrow> parent_of a x = Some z \<Longrightarrow> (z, y) \<in> (up a)\<^sup>*"
  by (auto simp: up_def dest!: tranclD)

lemma root_unique:
  "(x, r) \<in> (up a)\<^sup>* \<Longrightarrow> (x, q) \<in> (up a)\<^sup>* \<Longrightarrow> parent_of a r = None \<Longrightarrow> parent_of a q = None \<Longrightarrow> r = q"
  using up_linear up_root by metis

section \<open>Updates of the arena\<close>

lemma size_modify [simp]: "size_of (modify_c i f a) = size_of a"
  by (simp add: modify_c_def size_of_def)

lemma get_modify: "get_c (modify_c i f a) j = (if j = i then map_option f (get_c a i) else get_c a j)"
  by (auto simp: get_c_def modify_c_def get_opt_def)

lemma of_modify [simp]:
  "article_of (modify_c i f a) j = (if j = i then Option.bind (get_c a i) (c_article \<circ> f) else article_of a j)"
  "parent_of (modify_c i f a) j = (if j = i then Option.bind (get_c a i) (c_parent \<circ> f) else parent_of a j)"
  "children_of (modify_c i f a) j =
     (if j = i then (case get_c a i of None \<Rightarrow> [] | Some c \<Rightarrow> c_children (f c)) else children_of a j)"
  by (cases "get_c a i"; simp add: article_of_def parent_of_def children_of_def get_modify)+

lemma modify_keeps [simp]: "by_article (modify_c i f a) = by_article a" "by_id (modify_c i f a) = by_id a"
  by (simp_all add: modify_c_def)

lemma new_container_of:
  assumes "new_container art a = (c, a')"
  shows "c = size_of a" "size_of a' = Suc (size_of a)" "by_article a' = by_article a" "by_id a' = by_id a"
    "article_of a' j = (if j = c then art else article_of a j)"
    "parent_of a' j = parent_of a j" "children_of a' j = children_of a j"
proof -
  have a': "a' = a\<lparr>containers := containers a @ [\<lparr>c_article = art, c_parent = None, c_children = []\<rparr>]\<rparr>"
    and c: "c = length (containers a)" using assms by (auto simp: new_container_def)
  have "get_c a' j = (if j = c then Some \<lparr>c_article = art, c_parent = None, c_children = []\<rparr> else get_c a j)"
    and "get_c a c = None"
    by (auto simp: a' c get_c_def get_opt_def nth_append)
  then show "article_of a' j = (if j = c then art else article_of a j)"
    "parent_of a' j = parent_of a j" "children_of a' j = children_of a j"
    by (auto simp: article_of_def parent_of_def children_of_def)
qed (use assms in \<open>auto simp: new_container_def size_of_def\<close>)

lemma of_fields [simp]:
  "article_of (a\<lparr>by_id := x\<rparr>) = article_of a" "parent_of (a\<lparr>by_id := x\<rparr>) = parent_of a"
  "children_of (a\<lparr>by_id := x\<rparr>) = children_of a" "size_of (a\<lparr>by_id := x\<rparr>) = size_of a"
  "article_of (push_article c a) = article_of a" "parent_of (push_article c a) = parent_of a"
  "children_of (push_article c a) = children_of a" "size_of (push_article c a) = size_of a"
  "by_id (push_article c a) = by_id a" "by_article (push_article c a) = by_article a @ [c]"
  by (auto simp: article_of_def parent_of_def children_of_def get_c_def size_of_def push_article_def)

lemma forest_cong:
  assumes "\<And>i. parent_of b i = parent_of a i" and "\<And>i. children_of b i = children_of a i"
    and "size_of a \<le> size_of b" and "forest a"
  shows "forest b"
proof (rule forestI)
  have "up b = up a" using assms(1) by (simp add: up_def)
  then show "acyclic (up b)" using forestD(5) [OF assms(4)] by simp
  fix i j
  show "parent_of b i = Some j \<Longrightarrow> j < size_of b"
    unfolding assms(1) by (rule less_le_trans [OF forestD(2) [OF assms(4)] assms(3)])
  show "parent_of b i = Some j \<Longrightarrow> i \<in> set (children_of b j)"
    unfolding assms(1,2) by (rule forestD(1) [OF assms(4)])
  show "j \<in> set (children_of b i) \<Longrightarrow> parent_of b j = Some i"
    unfolding assms(1,2) by (rule forestD(3) [OF assms(4)])
  show "distinct (children_of b i)" unfolding assms(2) by (rule forestD(4) [OF assms(4)])
qed

section \<open>Linking\<close>

lemma ancestor_loop_False:
  "\<not> ancestor_loop a candidate left (Some i) \<Longrightarrow> (i, candidate) \<notin> (up a)\<^sup>*"
proof (induction left arbitrary: i)
  case (Suc left)
  then have ne: "i \<noteq> candidate" and next_step: "\<not> ancestor_loop a candidate left (parent_of a i)"
    by (auto split: if_splits)
  show ?case
  proof
    assume "(i, candidate) \<in> (up a)\<^sup>*"
    then obtain j where "parent_of a i = Some j" "(j, candidate) \<in> (up a)\<^sup>*"
      using ne by (auto elim: converse_rtranclE simp: up_def)
    with Suc.IH next_step show False by auto
  qed
qed simp

lemma set_parent_cases:
  obtains "set_parent child par a = a"
  | "child \<noteq> par" "parent_of a child = None" "(par, child) \<notin> (up a)\<^sup>*"
    "set_parent child par a =
       modify_c par (\<lambda>c. c\<lparr>c_children := c_children c @ [child]\<rparr>)
         (modify_c child (\<lambda>c. c\<lparr>c_parent := Some par\<rparr>) a)"
proof (cases "child = par \<or> parent_of a child \<noteq> None \<or> is_ancestor child par a")
  case True
  then show ?thesis by (intro that(1)) (auto simp: set_parent_def)
next
  case False
  then have "(par, child) \<notin> (up a)\<^sup>*" unfolding is_ancestor_def using ancestor_loop_False by blast
  with False show ?thesis by (intro that(2)) (simp_all add: set_parent_def)
qed

lemma link_of:
  assumes "child \<noteq> par" and "child < size_of a" and "par < size_of a"
  defines "b \<equiv> modify_c par (\<lambda>c. c\<lparr>c_children := c_children c @ [child]\<rparr>)
         (modify_c child (\<lambda>c. c\<lparr>c_parent := Some par\<rparr>) a)"
  shows "article_of b i = article_of a i"
    and "parent_of b i = (if i = child then Some par else parent_of a i)"
    and "children_of b i = (if i = par then children_of a par @ [child] else children_of a i)"
    and "size_of b = size_of a" and "by_id b = by_id a" and "by_article b = by_article a"
proof -
  have g: "get_c a child = Some (containers a ! child)" "get_c a par = Some (containers a ! par)"
    using assms by (simp_all add: get_c_iff)
  show "article_of b i = article_of a i"
    and "parent_of b i = (if i = child then Some par else parent_of a i)"
    and "children_of b i = (if i = par then children_of a par @ [child] else children_of a i)"
    and "size_of b = size_of a" and "by_id b = by_id a" and "by_article b = by_article a"
    using assms(1) g by (auto simp: b_def get_modify article_of_def parent_of_def children_of_def)
qed

lemma up_link:
  assumes "parent_of a child = None" "\<And>i. parent_of b i = (if i = child then Some par else parent_of a i)"
  shows "up b = insert (child, par) (up a)"
proof (intro set_eqI)
  fix e :: "nat \<times> nat"
  obtain i j where "e = (i, j)" by (cases e)
  then show "e \<in> up b \<longleftrightarrow> e \<in> insert (child, par) (up a)" using assms by (auto simp: up_def)
qed

lemma forest_link:
  assumes "forest a" "child \<noteq> par" "child < size_of a" "par < size_of a"
    "parent_of a child = None" "(par, child) \<notin> (up a)\<^sup>*"
  shows "forest (modify_c par (\<lambda>c. c\<lparr>c_children := c_children c @ [child]\<rparr>)
         (modify_c child (\<lambda>c. c\<lparr>c_parent := Some par\<rparr>) a))" (is "forest ?b")
proof (rule forestI)
  note of = link_of [OF assms(2-4)] and f = forestD [OF assms(1)]
  have no: "child \<notin> set (children_of a i)" for i using assms(5) f(3) [of child i] by auto
  show "acyclic (up ?b)"
    unfolding up_link [OF assms(5) of(2)] using f(5) assms(6) by simp
  show "parent_of ?b i = Some j \<Longrightarrow> j < size_of ?b" for i j
    unfolding of(2,4) using f(2) assms(4) by (cases "i = child") auto
  show "parent_of ?b i = Some j \<Longrightarrow> i \<in> set (children_of ?b j)" for i j
    unfolding of(2,3) using f(1) by (cases "i = child") auto
  show "j \<in> set (children_of ?b i) \<Longrightarrow> parent_of ?b j = Some i" for i j
    unfolding of(2,3) using f(3) no by (cases "i = par"; cases "j = child") auto
  show "distinct (children_of ?b i)" for i
    unfolding of(3) using f(4) no by (cases "i = par") auto
qed

section \<open>Every record has its container\<close>

definition wf_arena :: "nat \<Rightarrow> arena \<Rightarrow> bool" where
  "wf_arena m a \<longleftrightarrow> forest a \<and> (\<forall>s c. by_id a s = Some c \<longrightarrow> c < size_of a) \<and>
     length (by_article a) = m \<and> (\<forall>i < m. article_of a (by_article a ! i) = Some i) \<and>
     (\<forall>c i. article_of a c = Some i \<longrightarrow> i < m \<and> by_article a ! i = c)"

lemma wfD:
  assumes "wf_arena m a"
  shows "forest a" "by_id a s = Some c \<Longrightarrow> c < size_of a" "length (by_article a) = m"
    "i < m \<Longrightarrow> article_of a (by_article a ! i) = Some i"
    "article_of a c = Some i \<Longrightarrow> i < m" "article_of a c = Some i \<Longrightarrow> by_article a ! i = c"
  using assms unfolding wf_arena_def by blast+

lemma wfI:
  assumes "forest a" "\<And>s c. by_id a s = Some c \<Longrightarrow> c < size_of a" "length (by_article a) = m"
    "\<And>i. i < m \<Longrightarrow> article_of a (by_article a ! i) = Some i"
    "\<And>c i. article_of a c = Some i \<Longrightarrow> i < m \<and> by_article a ! i = c"
  shows "wf_arena m a"
  using assms by (simp add: wf_arena_def)

lemma wf_cong:
  assumes "wf_arena m a" "forest b" "article_of b = article_of a" "by_article b = by_article a"
    "\<And>s c. by_id b s = Some c \<Longrightarrow> c < size_of b"
  shows "wf_arena m b"
  by (rule wfI) (use wfD [OF assms(1)] assms(2-5) in simp_all)

lemma wf_empty: "wf_arena 0 arena_empty"
proof -
  have e: "get_c arena_empty i = None" for i by (simp add: arena_empty_def get_c_def get_opt_def)
  then have "parent_of arena_empty i = None" "children_of arena_empty i = []" "article_of arena_empty i = None" for i
    by (simp_all add: parent_of_def children_of_def article_of_def)
  then show ?thesis by (auto simp: wf_arena_def forest_def up_def acyclic_def arena_empty_def)
qed

text \<open>Claiming a container for the next record.\<close>

lemma wf_claim:
  assumes "wf_arena m a" "forest b" "c < size_of b" "article_of b = (article_of a)(c := Some m)"
    "article_of a c = None" "by_article b = by_article a" "\<And>s d. by_id b s = Some d \<Longrightarrow> d < size_of b"
  shows "wf_arena (Suc m) (push_article c b)"
proof (rule wfI)
  note w = wfD [OF assms(1)]
  have ne: "by_article a ! i \<noteq> c" if "i < m" for i using w(4) [OF that] assms(5) by auto
  show "forest (push_article c b)" by (rule forest_cong [OF _ _ _ assms(2)]) simp_all
  show "by_id (push_article c b) s = Some d \<Longrightarrow> d < size_of (push_article c b)" for s d using assms(7) by simp
  show "length (by_article (push_article c b)) = Suc m" using w(3) assms(6) by simp
  show "article_of (push_article c b) (by_article (push_article c b) ! i) = Some i" if "i < Suc m" for i
  proof (cases "i < m")
    case True
    then have "by_article (push_article c b) ! i = by_article a ! i" using w(3) assms(6) by (simp add: nth_append)
    then show ?thesis using ne [OF True] w(4) [OF True] assms(4) by simp
  next
    case False
    then have "by_article (push_article c b) ! i = c" using that w(3) assms(6) by (simp add: nth_append less_Suc_eq)
    then show ?thesis using False that assms(4) by simp
  qed
  show "i < Suc m \<and> by_article (push_article c b) ! i = d" if "article_of (push_article c b) d = Some i" for d i
  proof (cases "d = c")
    case True
    then have "i = m" using that assms(4) by simp
    then show ?thesis using True w(3) assms(6) by (simp add: nth_append)
  next
    case False
    then have "article_of a d = Some i" using that assms(4) by simp
    then show ?thesis using w(3) w(5,6) [of d i] assms(6) by (simp add: nth_append)
  qed
qed

lemma wf_new_container:
  assumes "wf_arena m a" and "new_container art a = (c, b)"
  shows "forest b" "by_id b s = Some d \<Longrightarrow> d < size_of b" "article_of b = (article_of a)(c := art)"
    "article_of a c = None" "c < size_of b"
proof -
  note n = new_container_of [OF assms(2)]
  show "forest b" by (rule forest_cong [OF _ _ _ wfD(1) [OF assms(1)]]) (simp_all add: n(2,6,7))
  show "by_id b s = Some d \<Longrightarrow> d < size_of b" using wfD(2) [OF assms(1)] n(2,4) by fastforce
  show "article_of b = (article_of a)(c := art)" by (rule ext) (simp add: n(5))
  show "article_of a c = None" using article_lt n(1) by (cases "article_of a c") fastforce+
  show "c < size_of b" by (simp add: n(1,2))
qed

lemma insert_wf: "wf_arena m a \<Longrightarrow> wf_arena (Suc m) (arena_insert m r a)"
proof -
  assume w: "wf_arena m a"
  obtain c b where n: "new_container (Some m) a = (c, b)" by fastforce
  note nw = wf_new_container [OF w n] and no = new_container_of [OF n]
  have fresh: "wf_arena (Suc m) (push_article c b)"
    by (rule wf_claim [OF w nw(1,5,3,4) no(3) nw(2)])
  show ?thesis
  proof (cases "or_message_id r")
    case None
    then show ?thesis using fresh n by (simp add: arena_insert_def)
  next
    case (Some mid)
    show ?thesis
    proof (cases "by_id a (mid_str mid)")
      case none: None
      let ?b = "b\<lparr>by_id := (by_id b)(mid_str mid \<mapsto> c)\<rparr>"
      have "wf_arena (Suc m) (push_article c ?b)"
        by (rule wf_claim [OF w])
           (use nw no(3) in \<open>auto simp: forest_cong [OF _ _ _ nw(1)] split: if_splits\<close>)
      then show ?thesis using Some none n by (simp add: arena_insert_def)
    next
      case old: (Some existing)
      let ?b = "modify_c existing (\<lambda>c. c\<lparr>c_article := Some m\<rparr>) a"
      have lt: "existing < size_of a" by (rule wfD(2) [OF w old])
      then have g: "get_c a existing = Some (containers a ! existing)" by (simp add: get_c_iff)
      have same: "parent_of ?b i = parent_of a i" "children_of ?b i = children_of a i"
        "article_of ?b i = (if i = existing then Some m else article_of a i)" for i
        using g by (auto simp: get_modify parent_of_def children_of_def article_of_def)
      have "wf_arena (Suc m) (push_article existing ?b)" if "article_of a existing = None"
      proof (rule wf_claim [OF w _ _ _ that])
        show "forest ?b" by (rule forest_cong [OF same(1,2) _ wfD(1) [OF w]]) simp
        show "article_of ?b = (article_of a)(existing := Some m)" by (rule ext) (simp only: same(3) fun_upd_apply)
      qed (use lt wfD(2) [OF w] in simp_all)
      then show ?thesis using Some old fresh n by (simp add: arena_insert_def)
    qed
  qed
qed

lemma insert_all_wf:
  "wf_arena m a \<Longrightarrow> wf_arena (m + length rs) (fold (\<lambda>(i, r). arena_insert i r) (List.enumerate m rs) a)"
proof (induction rs arbitrary: m a)
  case (Cons r rs)
  from Cons.IH [OF insert_wf [OF Cons.prems]] show ?case by simp
qed simp

section \<open>Linking keeps the records\<close>

lemma set_parent_wf:
  assumes "wf_arena m a" "child < size_of a" "par < size_of a"
  shows "wf_arena m (set_parent child par a)" "size_of (set_parent child par a) = size_of a"
    "by_article (set_parent child par a) = by_article a" "up a \<subseteq> up (set_parent child par a)"
    "article_of (set_parent child par a) = article_of a"
proof -
  note f = wfD(1) [OF assms(1)]
  have "wf_arena m (set_parent child par a) \<and> size_of (set_parent child par a) = size_of a \<and>
    by_article (set_parent child par a) = by_article a \<and> up a \<subseteq> up (set_parent child par a) \<and>
    article_of (set_parent child par a) = article_of a"
  proof (cases rule: set_parent_cases [of child par a])
    case 2
    note of = link_of [OF 2(1) assms(2,3)]
    have art: "article_of (set_parent child par a) = article_of a" unfolding 2(4) by (rule ext) (rule of(1))
    have "forest (set_parent child par a)" unfolding 2(4) by (rule forest_link [OF f 2(1) assms(2,3) 2(2,3)])
    then have "wf_arena m (set_parent child par a)"
      by (rule wf_cong [OF assms(1) _ art]) (use wfD(2) [OF assms(1)] in \<open>simp_all add: 2(4)\<close>)
    moreover have "up (set_parent child par a) = insert (child, par) (up a)"
      unfolding 2(4) by (rule up_link [OF 2(2) of(2)])
    ultimately show ?thesis using art by (auto simp: 2(4))
  qed (use assms(1) in simp)
  then show "wf_arena m (set_parent child par a)" "size_of (set_parent child par a) = size_of a"
    "by_article (set_parent child par a) = by_article a" "up a \<subseteq> up (set_parent child par a)"
    "article_of (set_parent child par a) = article_of a" by blast+
qed

lemma container_for_id_wf:
  assumes "wf_arena m a" "container_for_id mid a = (c, b)"
  shows "wf_arena m b" "c < size_of b" "size_of a \<le> size_of b" "by_article b = by_article a"
proof -
  have "wf_arena m b \<and> c < size_of b \<and> size_of a \<le> size_of b \<and> by_article b = by_article a"
  proof (cases "by_id a (mid_str mid)")
    case None
    obtain d a' where n: "new_container None a = (d, a')" by fastforce
    note nw = wf_new_container [OF assms(1) n] and no = new_container_of [OF n]
    have b: "b = a'\<lparr>by_id := (by_id a')(mid_str mid \<mapsto> d)\<rparr>" "c = d"
      using assms(2) None n by (auto simp: container_for_id_def)
    have art: "article_of b = article_of a" using nw(3,4) by (auto simp: b fun_upd_idem)
    have "forest b" unfolding b by (rule forest_cong [OF _ _ _ nw(1)]) simp_all
    then have "wf_arena m b"
      by (rule wf_cong [OF assms(1) _ art]) (use nw(2,5) no(3) in \<open>auto simp: b split: if_splits\<close>)
    then show ?thesis using nw(5) no(2,3) by (simp add: b)
  next
    case (Some existing)
    then show ?thesis using assms wfD(2) [OF assms(1) Some] by (auto simp: container_for_id_def)
  qed
  then show "wf_arena m b" "c < size_of b" "size_of a \<le> size_of b" "by_article b = by_article a" by blast+
qed

lemma link_step_wf:
  assumes "wf_arena m a" "\<And>p. prev = Some p \<Longrightarrow> p < size_of a" "link_step ref (a, prev) = (b, prev')"
  shows "wf_arena m b \<and> size_of a \<le> size_of b \<and> by_article b = by_article a \<and> (\<forall>p. prev' = Some p \<longrightarrow> p < size_of b)"
proof -
  obtain c a1 where c: "container_for_id ref a = (c, a1)" by fastforce
  note w = container_for_id_wf [OF assms(1) c]
  show ?thesis
  proof (cases prev)
    case None
    then show ?thesis using assms(3) c w by (auto simp: link_step_def)
  next
    case (Some p)
    then have "p < size_of a1" using assms(2) w(3) by fastforce
    note s = set_parent_wf [OF w(1,2) this]
    from Some c assms(3) have "b = set_parent c p a1" "prev' = Some c" by (auto simp: link_step_def)
    then show ?thesis using s w by simp
  qed
qed

lemma link_fold_wf:
  assumes "wf_arena m a" "\<And>p. prev = Some p \<Longrightarrow> p < size_of a" "fold link_step refs (a, prev) = (b, prev')"
  shows "wf_arena m b \<and> size_of a \<le> size_of b \<and> by_article b = by_article a \<and> (\<forall>p. prev' = Some p \<longrightarrow> p < size_of b)"
  using assms
proof (induction refs arbitrary: a prev)
  case (Cons ref refs)
  obtain a1 p1 where s: "link_step ref (a, prev) = (a1, p1)" by fastforce
  note st = link_step_wf [OF Cons.prems(1,2) s]
  have "wf_arena m b \<and> size_of a1 \<le> size_of b \<and> by_article b = by_article a1 \<and> (\<forall>p. prev' = Some p \<longrightarrow> p < size_of b)"
    by (rule Cons.IH) (use st Cons.prems(3) s in simp_all)
  then show ?case using st by auto
qed auto

lemma link_references_wf: "wf_arena m a \<Longrightarrow> wf_arena m (link_references i r a)"
proof -
  assume w: "wf_arena m a"
  show ?thesis
  proof (cases "get_opt (by_article a) i")
    case None
    then show ?thesis using w by (simp add: link_references_def)
  next
    case (Some child)
    have "i < m" "child = by_article a ! i" using Some wfD(3) [OF w] by (auto simp: get_opt_Some_iff)
    then have lt: "child < size_of a" using wfD(4) [OF w] article_lt by blast
    obtain b prev where b: "fold link_step (drop (length (or_references r) - MAX_REFERENCES) (or_references r)) (a, None) = (b, prev)"
      by fastforce
    have "wf_arena m b \<and> size_of a \<le> size_of b \<and> by_article b = by_article a \<and> (\<forall>p. prev = Some p \<longrightarrow> p < size_of b)"
      by (rule link_fold_wf [OF w _ b]) simp
    then show ?thesis using Some b lt set_parent_wf(1) [of m b child]
      by (cases prev) (auto simp: link_references_def)
  qed
qed

lemma link_all_wf: "wf_arena m a \<Longrightarrow> wf_arena m (fold (\<lambda>(i, r). link_references i r) irs a)"
  by (induction irs arbitrary: a) (auto simp: link_references_wf)

section \<open>Roots\<close>

definition below :: "arena \<Rightarrow> nat \<Rightarrow> nat set" where
  "below a r = {x. (x, r) \<in> (up a)\<^sup>*}"

text \<open>A set that holds a node and the children of its members holds everything below.\<close>

lemma below_closed:
  assumes "forest a" "r \<in> V" "\<And>v. v \<in> V \<Longrightarrow> set (children_of a v) \<subseteq> V"
  shows "below a r \<subseteq> V"
proof
  fix x
  assume "x \<in> below a r"
  then have "(x, r) \<in> (up a)\<^sup>*" by (simp add: below_def)
  then show "x \<in> V"
  proof (induction rule: converse_rtrancl_induct)
    case (step x y)
    then have "x \<in> set (children_of a y)" using forestD(1) [OF assms(1)] by (simp add: up_def)
    then show ?case using step.IH assms(3) by blast
  qed (rule assms(2))
qed

text \<open>
  The search under a root: \<open>vs\<close> are the nodes visited so far.  It visits a node once, so it
  never runs out of the passes it has.
\<close>

lemma first_article_search:
  assumes "forest a" "parent_of a r = None" "r \<in> set (vs @ stack)"
    "distinct (vs @ stack)" "\<And>x. x \<in> set (vs @ stack) \<Longrightarrow> x < size_of a"
    "\<And>x. x \<in> set (vs @ stack) \<Longrightarrow> x = r \<or> (\<exists>y \<in> set vs. parent_of a x = Some y)"
    "\<And>v. v \<in> set vs \<Longrightarrow> set (children_of a v) \<subseteq> set (vs @ stack)"
    "size_of a \<le> left + length vs"
    "\<And>v. v \<in> set vs \<Longrightarrow> article_of a v \<noteq> None \<Longrightarrow> best \<noteq> None"
    "x \<in> below a r" "article_of a x \<noteq> None"
  shows "first_article_loop a left stack best \<noteq> None"
  using assms
proof (induction a left stack best arbitrary: vs rule: first_article_loop.induct)
  case (1 a left best)
  note P = "1.prems"
  have "below a r \<subseteq> set vs" by (rule below_closed [OF P(1)]) (use P(3,7) in auto)
  then have "x \<in> set vs" using P(10) by blast
  then show ?case using P(9) P(11) by (cases best) auto
next
  case (2 a current stack best)
  note P = "2.prems"
  have "length (vs @ current # stack) \<le> card {..<size_of a}"
    unfolding distinct_card [OF P(4), symmetric]
    by (rule card_mono) (use P(5) in auto)
  then show ?case using P(8) by simp
next
  case (3 a left current stack best)
  note P = "3.prems"
  have cur: "current < size_of a" "current \<notin> set vs" using P(4,5) by auto
  then obtain c where c: "get_c a current = Some c" by (simp add: get_c_iff)
  have ch: "children_of a current = c_children c" "article_of a current = c_article c"
    by (simp_all add: children_of_def article_of_def c)
  have new: "parent_of a d = Some current" "d < size_of a" "d \<notin> set (vs @ current # stack)"
    if "d \<in> set (c_children c)" for d
  proof -
    show par: "parent_of a d = Some current" using that ch(1) forestD(3) [OF P(1)] by simp
    show "d < size_of a" by (rule parent_lt [OF par])
    show "d \<notin> set (vs @ current # stack)"
      using P(6) [of d] par P(2) cur(2) by auto
  qed
  let ?best = "case c_article c of None \<Rightarrow> best | Some art \<Rightarrow> Some (case best of None \<Rightarrow> art | Some found \<Rightarrow> min found art)"
  have "first_article_loop a left (rev (c_children c) @ stack) ?best \<noteq> None"
  proof (rule "3.IH"(2) [OF c, of "vs @ [current]"])
    show "distinct ((vs @ [current]) @ rev (c_children c) @ stack)"
      using P(4) new(3) forestD(4) [OF P(1), of current] ch(1) by auto
    show "size_of a \<le> left + length (vs @ [current])" using P(8) by simp
    show "?best \<noteq> None" if "v \<in> set (vs @ [current])" "article_of a v \<noteq> None" for v
      using that P(9) [of v] ch(2) by (auto split: option.split)
    show "y = r \<or> (\<exists>z \<in> set (vs @ [current]). parent_of a y = Some z)"
      if "y \<in> set ((vs @ [current]) @ rev (c_children c) @ stack)" for y
      using that P(6) [of y] new(1) [of y] by auto
    show "set (children_of a v) \<subseteq> set ((vs @ [current]) @ rev (c_children c) @ stack)"
      if "v \<in> set (vs @ [current])" for v
      using that P(7) [of v] ch(1) by auto
  qed (use P(1,2,3,5,10,11) new(2) in auto)
  then show ?case by (simp add: c)
qed

lemma first_article_found:
  assumes "forest a" "parent_of a r = None" "r < size_of a" "x \<in> below a r" "article_of a x \<noteq> None"
  shows "first_article a r \<noteq> None"
  unfolding first_article_def
  by (rule first_article_search [OF assms(1,2) _ _ _ _ _ _ _ assms(4,5), where vs = "[]"])
     (use assms(3) in \<open>auto simp: size_of_def\<close>)

text \<open>Every chain of parents ends.\<close>

lemma root_exists:
  assumes "forest a" "x < size_of a"
  shows "\<exists>r. (x, r) \<in> (up a)\<^sup>* \<and> parent_of a r = None \<and> r < size_of a"
proof -
  have "up a \<subseteq> {..<size_of a} \<times> {..<size_of a}"
    using parent_lt forestD(2) [OF assms(1)] by (auto simp: up_def)
  then have "finite (up a)" by (rule finite_subset) simp
  then have "wf ((up a)\<inverse>)" using forestD(5) [OF assms(1)] by (rule finite_acyclic_wf_converse)
  then show ?thesis using assms(2)
  proof (induction x rule: wf_induct_rule)
    case (less x)
    show ?case
    proof (cases "parent_of a x")
      case (Some y)
      then have "(y, x) \<in> (up a)\<inverse>" "y < size_of a" using forestD(2) [OF assms(1)] by (auto simp: up_def)
      from less.IH [OF this] Some show ?thesis
        by (auto simp: up_def intro: converse_rtrancl_into_rtrancl)
    qed (use less.prems in blast)
  qed
qed

text \<open>A list of roots under which every article is.\<close>

definition covers :: "arena \<Rightarrow> nat list \<Rightarrow> bool" where
  "covers a rs \<longleftrightarrow> distinct rs \<and> (\<forall>r \<in> set rs. r < size_of a \<and> parent_of a r = None) \<and>
     (\<forall>x. article_of a x \<noteq> None \<longrightarrow> (\<exists>r \<in> set rs. x \<in> below a r))"

lemma roots_cover: "forest a \<Longrightarrow> covers a (roots a)"
proof -
  assume f: "forest a"
  have "\<exists>r \<in> set (roots a). x \<in> below a r" if x: "article_of a x \<noteq> None" for x
  proof -
    obtain r where r: "(x, r) \<in> (up a)\<^sup>*" "parent_of a r = None" "r < size_of a"
      using root_exists [OF f] article_lt x by blast
    then have "first_article a r \<noteq> None" using first_article_found [OF f r(2,3) _ x] by (simp add: below_def)
    then have "r \<in> set (roots a)" using r by (simp add: roots_def size_of_def)
    then show ?thesis using r(1) by (auto simp: below_def)
  qed
  then show ?thesis by (auto simp: covers_def roots_def size_of_def)
qed

section \<open>Grouping by subject\<close>

definition grouped :: "nat \<Rightarrow> nat list \<Rightarrow> nat list \<Rightarrow> grouping \<Rightarrow> bool" where
  "grouped m rs processed g \<longleftrightarrow> wf_arena m (g_arena g) \<and>
     covers (g_arena g) (filter (\<lambda>i. i \<notin> set (g_merged g)) rs) \<and>
     set (g_merged g) \<subseteq> set processed \<and>
     (\<forall>s h. g_holders g s = Some h \<longrightarrow> h \<in> set processed \<and> h \<in> set rs \<and> h \<notin> set (g_merged g)) \<and>
     (\<forall>s s' h. g_holders g s = Some h \<longrightarrow> g_holders g s' = Some h \<longrightarrow> s = s')"

lemma not_ancestor_of_root:
  "par < size_of a \<Longrightarrow> parent_of a par = None \<Longrightarrow> child \<noteq> par \<Longrightarrow> \<not> is_ancestor child par a"
  by (cases "containers a") (simp_all add: is_ancestor_def size_of_def)

lemma merge_covers:
  assumes "wf_arena m a" "covers a rs" "child \<in> set rs" "par \<in> set rs" "child \<noteq> par"
  shows "covers (set_parent child par a) (filter (\<lambda>i. i \<noteq> child) rs)"
proof -
  have c: "child < size_of a" "par < size_of a" "parent_of a child = None" "parent_of a par = None"
    using assms(2-4) by (auto simp: covers_def)
  let ?b = "set_parent child par a"
  have b: "?b = modify_c par (\<lambda>c. c\<lparr>c_children := c_children c @ [child]\<rparr>)
         (modify_c child (\<lambda>c. c\<lparr>c_parent := Some par\<rparr>) a)"
    using not_ancestor_of_root [OF c(2,4) assms(5)] assms(5) c(3) by (simp add: set_parent_def)
  note of = link_of [OF assms(5) c(1,2), folded b]
  have up: "up ?b = insert (child, par) (up a)" by (rule up_link [OF c(3) of(2)])
  have mono: "below a r \<subseteq> below ?b r" for r
    unfolding below_def up by (auto intro: rtrancl_mono [THEN subsetD, rotated])
  have "\<exists>r \<in> set (filter (\<lambda>i. i \<noteq> child) rs). x \<in> below ?b r" if x: "article_of ?b x \<noteq> None" for x
  proof -
    obtain r where r: "r \<in> set rs" "x \<in> below a r" using x assms(2) unfolding covers_def of(1) by blast
    show ?thesis
    proof (cases "r = child")
      case True
      then have "(x, par) \<in> (up ?b)\<^sup>*"
        using r(2) mono [of child] by (auto simp: below_def up intro: rtrancl_into_rtrancl)
      then show ?thesis using assms(4,5) by (auto simp: below_def)
    qed (use r mono in auto)
  qed
  then show ?thesis using assms(2) by (auto simp: covers_def of(2,4))
qed

lemma choose_parent_cases: "choose_parent records a b h i = (h, i) \<or> choose_parent records a b h i = (i, h)"
  by (simp add: choose_parent_def Let_def)

lemma group_step_ok:
  assumes "grouped m rs processed g" "i \<in> set rs" "i \<notin> set processed"
  shows "grouped m rs (processed @ [i]) (group_step records i g)"
proof (cases "Option.bind (first_article (g_arena g) i) (get_opt records)")
  case None
  then show ?thesis using assms(1) by (auto simp: group_step_def grouped_def)
next
  case (Some r)
  obtain subject reply where n: "normalise_subject (or_subject r) = (subject, reply)" by fastforce
  have i: "i \<notin> set (g_merged g)" "\<And>s. g_holders g s \<noteq> Some i" using assms by (auto simp: grouped_def)
  show ?thesis
  proof (cases "subject = []")
    case True
    then show ?thesis using Some n assms(1) by (auto simp: group_step_def grouped_def)
  next
    case ne: False
    show ?thesis
    proof (cases "g_holders g subject")
      case None
      then have "group_step records i g = g\<lparr>g_holders := (g_holders g)(subject \<mapsto> i)\<rparr>"
        using Some n ne by (simp add: group_step_def)
      then show ?thesis using assms i by (auto simp: grouped_def split: if_splits)
    next
      case h: (Some holder)
      have hold: "holder \<in> set processed" "holder \<in> set rs" "holder \<notin> set (g_merged g)"
        using assms(1) h by (auto simp: grouped_def)
      have hi: "holder \<noteq> i" using hold(1) assms(3) by blast
      obtain par child where pc: "choose_parent records (g_arena g) reply holder i = (par, child)" by fastforce
      then have cases: "(par = holder \<and> child = i) \<or> (par = i \<and> child = holder)"
        using choose_parent_cases [of records "g_arena g" reply holder i] by auto
      let ?g = "g\<lparr>g_arena := set_parent child par (g_arena g), g_holders := (g_holders g)(subject \<mapsto> par),
                g_merged := g_merged g @ [child]\<rparr>"
      have step: "group_step records i g = ?g" using Some n ne h hi pc by (simp add: group_step_def)
      have w: "wf_arena m (g_arena g)" and cov: "covers (g_arena g) (filter (\<lambda>i. i \<notin> set (g_merged g)) rs)"
        using assms(1) by (auto simp: grouped_def)
      have pcs: "child \<in> set (filter (\<lambda>i. i \<notin> set (g_merged g)) rs)" "par \<in> set (filter (\<lambda>i. i \<notin> set (g_merged g)) rs)"
        "child \<noteq> par" using cases hold hi i(1) assms(2) by auto
      have cov': "covers (g_arena ?g) (filter (\<lambda>i. i \<notin> set (g_merged ?g)) rs)"
        using merge_covers [OF w cov pcs] by (simp add: conj_commute)
      have lt: "child < size_of (g_arena g)" "par < size_of (g_arena g)" using cov pcs by (auto simp: covers_def)
      have w': "wf_arena m (g_arena ?g)" using set_parent_wf(1) [OF w lt] by simp
      have inj: "g_holders g s = Some x \<Longrightarrow> g_holders g s' = Some x \<Longrightarrow> s = s'" for s s' x
        using assms(1) unfolding grouped_def by blast
      have hs: "g_holders g s = Some x \<Longrightarrow> x \<in> set processed \<and> x \<in> set rs \<and> x \<notin> set (g_merged g)" for s x
        using assms(1) unfolding grouped_def by blast
      have "x \<noteq> child" if "g_holders g s = Some x" "s \<noteq> subject" for s x
        using cases i(2) inj [OF that(1), of subject] h that by auto
      then have hs': "\<forall>s x. g_holders ?g s = Some x \<longrightarrow> x \<in> set (processed @ [i]) \<and> x \<in> set rs \<and> x \<notin> set (g_merged ?g)"
        using hs pcs cases hold assms(2) by (auto split: if_splits)
      have inj': "\<forall>s s' x. g_holders ?g s = Some x \<longrightarrow> g_holders ?g s' = Some x \<longrightarrow> s = s'"
        using inj h i(2) cases by (auto split: if_splits)
      have "set (g_merged ?g) \<subseteq> set (processed @ [i])"
        using assms(1) cases hold(1) by (auto simp: grouped_def)
      then show ?thesis unfolding step grouped_def using w' cov' hs' inj' by blast
    qed
  qed
qed

lemma group_fold_ok:
  assumes "grouped m rs processed g" "set todo \<subseteq> set rs" "distinct (processed @ todo)"
  shows "grouped m rs (processed @ todo) (fold (group_step records) todo g)"
  using assms
proof (induction todo arbitrary: processed g)
  case (Cons i todo)
  have "grouped m rs (processed @ [i]) (group_step records i g)"
    by (rule group_step_ok) (use Cons.prems in auto)
  from Cons.IH [OF this] Cons.prems show ?case by simp
qed simp

lemma group_by_subject_ok:
  assumes "wf_arena m a" "covers a rs" "group_by_subject records a rs = (b, rs')"
  shows "wf_arena m b" "covers b rs'"
proof -
  let ?g = "\<lparr>g_arena = a, g_holders = Map.empty, g_merged = []\<rparr>"
  have "grouped m rs [] ?g" using assms(1,2) by (simp add: grouped_def)
  then have "grouped m rs ([] @ rs) (fold (group_step records) rs ?g)"
    by (rule group_fold_ok) (use assms(2) in \<open>auto simp: covers_def\<close>)
  moreover have "b = g_arena (fold (group_step records) rs ?g)"
    "rs' = filter (\<lambda>i. i \<notin> set (g_merged (fold (group_step records) rs ?g))) rs"
    using assms(3) by (simp_all add: group_by_subject_def Let_def)
  ultimately show "wf_arena m b" "covers b rs'" unfolding grouped_def by blast+
qed

end
