(* ===== verification/Thread_Build.thy ===== *)
theory Thread_Build
  imports Thread_Forest
begin

text \<open>
  The depth cap moves nodes and loses none, the tree is then built within the cap, and the
  articles of the threads are the records, each once.
\<close>

section \<open>Moving everything below a node to be its children\<close>

definition under :: "arena \<Rightarrow> nat \<Rightarrow> nat set" where
  "under a t = {x. (x, t) \<in> (up a)\<^sup>+}"

definition moved :: "arena \<Rightarrow> nat \<Rightarrow> nat set \<Rightarrow> arena \<Rightarrow> bool" where
  "moved a0 t D a \<longleftrightarrow> size_of a = size_of a0 \<and> article_of a = article_of a0 \<and>
     by_article a = by_article a0 \<and> by_id a = by_id a0 \<and>
     (\<forall>x. parent_of a x = (if x \<in> D then Some t else parent_of a0 x)) \<and>
     (\<forall>x. children_of a x = (if x \<in> D then [] else children_of a0 x))"

lemma get_opt_update:
  "get_opt (xs[i := v]) j = (if j = i \<and> i < length xs then Some v else get_opt xs j)"
  by (auto simp: get_opt_def)

lemma under_not_self: "forest a \<Longrightarrow> t \<notin> under a t"
  using forestD(5) by (auto simp: under_def acyclic_def)

lemma under_lt: "x \<in> under a t \<Longrightarrow> x < size_of a"
  by (auto simp: under_def up_def dest!: tranclD intro: parent_lt)

lemma under_child: "forest a \<Longrightarrow> x \<in> set (children_of a t) \<Longrightarrow> x \<in> under a t"
  by (auto simp: under_def up_def dest: forestD(3))

lemma under_step: "parent_of a x = Some y \<Longrightarrow> y \<in> insert t (under a t) \<Longrightarrow> x \<in> under a t"
  by (auto simp: under_def up_def intro: trancl_into_trancl2)

lemma under_parent:
  assumes "x \<in> under a t"
  obtains y where "parent_of a x = Some y" "y = t \<or> y \<in> under a t"
proof -
  from assms have "(x, t) \<in> (up a)\<^sup>+" by (simp add: under_def)
  then obtain y where "(x, y) \<in> up a" "(y, t) \<in> (up a)\<^sup>*" by (blast dest: tranclD)
  then show ?thesis using that by (auto simp: up_def under_def rtrancl_eq_or_trancl)
qed

lemma moved_step:
  assumes "moved a0 t D a" "node < size_of a0"
  shows "moved a0 t (insert node D) (modify_c node (\<lambda>c. c\<lparr>c_parent := Some t, c_children := []\<rparr>) a)"
proof -
  have "get_c a node = Some (containers a ! node)" using assms by (simp add: moved_def get_c_iff)
  then have g: "article_of (modify_c node (\<lambda>c. c\<lparr>c_parent := Some t, c_children := []\<rparr>) a) = article_of a"
    "parent_of (modify_c node (\<lambda>c. c\<lparr>c_parent := Some t, c_children := []\<rparr>) a) x = (if x = node then Some t else parent_of a x)"
    "children_of (modify_c node (\<lambda>c. c\<lparr>c_parent := Some t, c_children := []\<rparr>) a) x = (if x = node then [] else children_of a x)"
    for x by (auto simp: fun_eq_iff get_modify parent_of_def children_of_def article_of_def)
  show ?thesis using assms(1) unfolding moved_def g(2,3) by (simp add: g(1))
qed

lemma flatten_ok:
  assumes "forest a0" "moved a0 t (set ds) a" "distinct (ds @ stack)"
    "set (ds @ stack) \<subseteq> under a0 t"
    "\<And>x. x \<in> set (ds @ stack) \<Longrightarrow> \<exists>y \<in> insert t (set ds). parent_of a0 x = Some y"
    "\<And>x. x \<in> insert t (set ds) \<Longrightarrow> set (children_of a0 x) \<subseteq> set (ds @ stack)"
    "\<And>x. x \<in> under a0 t \<Longrightarrow> get_opt seen x = Some (x \<in> set ds)"
    "flatten_loop t a seen stack ds = (a', seen', ds')"
  shows "moved a0 t (set ds') a' \<and> set ds' = under a0 t \<and> distinct ds' \<and>
    (\<forall>x. get_opt seen' x = (if x \<in> under a0 t then Some True else get_opt seen x)) \<and> length seen' = length seen"
  using assms
proof (induction t a seen stack ds rule: flatten_loop.induct)
  case (1 t a seen ds)
  note P = "1.prems"
  have "below a0 t \<subseteq> insert t (set ds)" by (rule below_closed [OF P(1)]) (use P(6) in auto)
  moreover have "under a0 t \<subseteq> below a0 t" by (auto simp: under_def below_def)
  ultimately have D: "set ds = under a0 t" using P(4) under_not_self [OF P(1)] by auto
  have eq: "a' = a" "seen' = seen" "ds' = ds" using P(8) by simp_all
  have "get_opt seen x = (if x \<in> under a0 t then Some True else get_opt seen x)" for x
    using P(7) [of x] D by simp
  then show ?case using P(2,3) D by (simp add: eq)
next
  case (2 t a seen node stack ds)
  note P = "2.prems"
  have node: "node \<in> under a0 t" "node \<notin> set ds" "node \<noteq> t" using P(1,3,4) under_not_self by auto
  then have seen: "get_opt seen node = Some False" using P(7) by auto
  have size: "size_of a = size_of a0" using P(2) by (simp add: moved_def)
  then obtain c where c: "get_c a node = Some c" using under_lt [OF node(1)] by (simp add: get_c_iff)
  have ch: "c_children c = children_of a0 node"
    using P(2) node(2) c by (auto simp: moved_def children_of_def split: option.splits)
  let ?a = "modify_c node (\<lambda>c. c\<lparr>c_parent := Some t, c_children := []\<rparr>) a"
  let ?kids = "rev (c_children c)"
  have kid: "parent_of a0 k = Some node" "k \<in> under a0 t" "k \<notin> set (ds @ node # stack)" if "k \<in> set ?kids" for k
  proof -
    show par: "parent_of a0 k = Some node" using that ch forestD(3) [OF P(1)] by simp
    then show "k \<in> under a0 t" using node(1) by (blast intro: under_step)
    show "k \<notin> set (ds @ node # stack)"
    proof
      assume "k \<in> set (ds @ node # stack)"
      from P(5) [OF this] par node(2,3) show False by auto
    qed
  qed
  have loop: "flatten_loop t ?a (seen[node := True]) (?kids @ stack) (ds @ [node]) = (a', seen', ds')"
    using P(8) seen c by simp
  have IH: "moved a0 t (set ds') a' \<and> set ds' = under a0 t \<and> distinct ds' \<and>
    (\<forall>x. get_opt seen' x = (if x \<in> under a0 t then Some True else get_opt (seen[node := True]) x)) \<and>
    length seen' = length (seen[node := True])"
  proof (rule "2.IH"(4) [OF seen _ refl c P(1) _ _ _ _ _ _ loop])
    show "moved a0 t (set (ds @ [node])) ?a" using moved_step [OF P(2) under_lt [OF node(1)]] by simp
    show "distinct ((ds @ [node]) @ ?kids @ stack)"
      using P(3) kid(3) forestD(4) [OF P(1), of node] ch by auto
    show "set ((ds @ [node]) @ ?kids @ stack) \<subseteq> under a0 t" using P(4) kid(2) by auto
    show "\<exists>y \<in> insert t (set (ds @ [node])). parent_of a0 x = Some y"
      if "x \<in> set ((ds @ [node]) @ ?kids @ stack)" for x
      using that P(5) [of x] kid(1) [of x] by auto
    show "set (children_of a0 x) \<subseteq> set ((ds @ [node]) @ ?kids @ stack)"
      if "x \<in> insert t (set (ds @ [node]))" for x
      using that P(6) [of x] ch by auto
    show "get_opt (seen[node := True]) x = Some (x \<in> set (ds @ [node]))" if "x \<in> under a0 t" for x
    proof -
      have "node < length seen" using seen by (simp add: get_opt_Some_iff)
      then show ?thesis using P(7) [OF that] by (auto simp: get_opt_update)
    qed
  qed simp
  moreover have "get_opt (seen[node := True]) x = get_opt seen x" if "x \<notin> under a0 t" for x
    using that node(1) by (auto simp: get_opt_update)
  ultimately show ?case by auto
qed

text \<open>The arena after the children of the anchor have been replaced by everything below it.\<close>

lemma flattened:
  assumes "forest a0" "t < size_of a0" "moved a0 t (under a0 t) a" "set kids = under a0 t" "distinct kids"
  defines "b \<equiv> modify_c t (\<lambda>c. c\<lparr>c_children := kids\<rparr>) a"
  shows "size_of b = size_of a0" "article_of b = article_of a0" "by_article b = by_article a0" "by_id b = by_id a0"
    "parent_of b x = (if x \<in> under a0 t then Some t else parent_of a0 x)"
    "children_of b x = (if x = t then kids else if x \<in> under a0 t then [] else children_of a0 x)"
    "forest b"
proof -
  have ns: "t \<notin> under a0 t" by (rule under_not_self [OF assms(1)])
  have m: "size_of a = size_of a0" "article_of a = article_of a0" "by_article a = by_article a0" "by_id a = by_id a0"
    "\<And>x. parent_of a x = (if x \<in> under a0 t then Some t else parent_of a0 x)"
    "\<And>x. children_of a x = (if x \<in> under a0 t then [] else children_of a0 x)"
    using assms(3) by (simp_all add: moved_def)
  have g: "get_c a t = Some (containers a ! t)" using assms(2) m(1) by (simp add: get_c_iff)
  have b: "article_of b = article_of a" "parent_of b x = parent_of a x"
    "children_of b x = (if x = t then kids else children_of a x)" for x
    using g by (auto simp: b_def fun_eq_iff get_modify parent_of_def children_of_def article_of_def)
  have P: "parent_of b x = (if x \<in> under a0 t then Some t else parent_of a0 x)" for x by (simp add: b(2) m(5))
  have C: "children_of b x = (if x = t then kids else if x \<in> under a0 t then [] else children_of a0 x)" for x
    by (simp add: b(3) m(6))
  note f = forestD [OF assms(1)]
  have "forest b"
  proof (rule forestI)
    fix i j
    show "j < size_of b" if "parent_of b i = Some j"
    proof -
      have "size_of b = size_of a0" by (simp add: b_def m(1))
      then show ?thesis using that assms(2) f(2) [of i j] by (cases "i \<in> under a0 t") (simp_all add: P)
    qed
    show "i \<in> set (children_of b j)" if "parent_of b i = Some j"
    proof (cases "i \<in> under a0 t")
      case True
      then show ?thesis using that assms(4) by (simp add: P C)
    next
      case False
      then have p: "parent_of a0 i = Some j" using that by (simp add: P)
      then have "j \<noteq> t" "j \<notin> under a0 t" using False under_step [of a0 i j t] by auto
      then show ?thesis using f(1) [OF p] by (simp add: C)
    qed
    show "parent_of b j = Some i" if "j \<in> set (children_of b i)"
    proof (cases "i = t")
      case True
      then show ?thesis using that assms(4) by (simp add: P C)
    next
      case False
      then have j: "i \<notin> under a0 t" "j \<in> set (children_of a0 i)" using that by (auto simp: C split: if_splits)
      have p: "parent_of a0 j = Some i" by (rule f(3) [OF j(2)])
      then have "j \<notin> under a0 t" using False j(1) by (auto elim: under_parent)
      then show ?thesis using p by (simp add: P)
    qed
    show "distinct (children_of b i)" using assms(5) f(4) by (simp add: C)
    have "up b \<subseteq> (up a0)\<^sup>+"
      by (auto simp: up_def P under_def split: if_splits)
    moreover have "acyclic ((up a0)\<^sup>+)" using f(5) by (simp add: acyclic_def)
    ultimately show "acyclic (up b)" by (rule acyclic_subset [rotated])
  qed
  then show "forest b" "size_of b = size_of a0" "article_of b = article_of a0" "by_article b = by_article a0"
    "by_id b = by_id a0" "parent_of b x = (if x \<in> under a0 t then Some t else parent_of a0 x)"
    "children_of b x = (if x = t then kids else if x \<in> under a0 t then [] else children_of a0 x)"
    by (simp_all add: b(1) m(1,2) P C) (simp_all add: b_def m)
qed

text \<open>A node stays below the same root.\<close>

lemma flattened_below:
  assumes "\<And>x. parent_of b x = (if x \<in> under a0 t then Some t else parent_of a0 x)"
    and "parent_of a0 r = None" and "x \<in> below a0 r" and "t \<notin> under a0 t"
  shows "x \<in> below b r"
proof -
  have out: "(y, r) \<in> (up b)\<^sup>*" if "(y, r) \<in> (up a0)\<^sup>*" "y \<notin> under a0 t" for y
    using that
  proof (induction rule: converse_rtrancl_induct)
    case (step y z)
    then have p: "parent_of a0 y = Some z" by (simp add: up_def)
    have "z \<notin> under a0 t" using step.prems under_step [OF p, of t] by auto
    then have "(z, r) \<in> (up b)\<^sup>*" by (rule step.IH)
    moreover have "(y, z) \<in> up b" using p step.prems by (simp add: up_def assms(1))
    ultimately show ?case by (rule converse_rtrancl_into_rtrancl [rotated])
  qed simp
  show ?thesis
  proof (cases "x \<in> under a0 t")
    case True
    then have xt: "(x, t) \<in> (up a0)\<^sup>*" "x \<noteq> r" using assms(2) up_root_trancl by (auto simp: under_def)
    have "(t, r) \<in> (up a0)\<^sup>* \<or> (r, t) \<in> (up a0)\<^sup>*"
      using up_linear [OF xt(1), of r] assms(3) by (auto simp: below_def)
    then have "(t, r) \<in> (up a0)\<^sup>*" using up_root [OF _ assms(2)] by blast
    then have "(t, r) \<in> (up b)\<^sup>*" using assms(4) by (rule out)
    moreover have "(x, t) \<in> up b" using True by (simp add: up_def assms(1))
    ultimately show ?thesis by (auto simp: below_def intro: converse_rtrancl_into_rtrancl)
  qed (use assms(3) out in \<open>simp add: below_def\<close>)
qed

section \<open>The depth cap\<close>

text \<open>
  The state of the search: \<open>P\<close> holds the nodes met and their depths, and everything the
  search still has to look at hangs below them.
\<close>

definition clamp_inv ::
  "nat \<Rightarrow> nat list \<Rightarrow> (nat \<times> nat) set \<Rightarrow> arena \<Rightarrow> bool list \<Rightarrow> (nat \<times> nat) list \<Rightarrow> bool" where
  "clamp_inv m rs P a seen queue \<longleftrightarrow>
     wf_arena m a \<and> covers a rs \<and>
     (\<forall>i < size_of a. get_opt seen i = Some (i \<in> fst ` P)) \<and>
     (\<forall>i d. (i, d) \<in> P \<longrightarrow> d \<le> MAX_DEPTH \<and> (d = MAX_DEPTH \<longrightarrow> children_of a i = []) \<and>
        (d < MAX_DEPTH \<longrightarrow> (\<forall>c \<in> set (children_of a i). (c, d + 1) \<in> P \<union> set queue))) \<and>
     (\<forall>i j. i \<in> fst ` P \<longrightarrow> parent_of a i = Some j \<longrightarrow> j \<in> fst ` P) \<and>
     (\<forall>i d. (i, d) \<in> set queue \<longrightarrow> d < MAX_DEPTH \<and> i < size_of a \<and> i \<notin> fst ` P \<and>
        (\<forall>j. parent_of a i = Some j \<longrightarrow> j \<in> fst ` P)) \<and>
     distinct (map fst queue) \<and> (\<forall>r \<in> set rs. (r, 0) \<in> P \<union> set queue)"

lemma clampD:
  assumes "clamp_inv m rs P a seen queue"
  shows "wf_arena m a" "covers a rs" "i < size_of a \<Longrightarrow> get_opt seen i = Some (i \<in> fst ` P)"
    "(i, d) \<in> P \<Longrightarrow> d \<le> MAX_DEPTH" "(i, MAX_DEPTH) \<in> P \<Longrightarrow> children_of a i = []"
    "(i, d) \<in> P \<Longrightarrow> d < MAX_DEPTH \<Longrightarrow> c \<in> set (children_of a i) \<Longrightarrow> (c, d + 1) \<in> P \<union> set queue"
    "i \<in> fst ` P \<Longrightarrow> parent_of a i = Some j \<Longrightarrow> j \<in> fst ` P"
    "(i, d) \<in> set queue \<Longrightarrow> d < MAX_DEPTH" "(i, d) \<in> set queue \<Longrightarrow> i < size_of a"
    "(i, d) \<in> set queue \<Longrightarrow> i \<notin> fst ` P"
    "(i, d) \<in> set queue \<Longrightarrow> parent_of a i = Some j \<Longrightarrow> j \<in> fst ` P"
    "distinct (map fst queue)" "r \<in> set rs \<Longrightarrow> (r, 0) \<in> P \<union> set queue"
  using assms unfolding clamp_inv_def by blast+

lemma clampI:
  assumes "wf_arena m a" "covers a rs" "\<And>i. i < size_of a \<Longrightarrow> get_opt seen i = Some (i \<in> fst ` P)"
    "\<And>i d. (i, d) \<in> P \<Longrightarrow> d \<le> MAX_DEPTH" "\<And>i. (i, MAX_DEPTH) \<in> P \<Longrightarrow> children_of a i = []"
    "\<And>i d c. (i, d) \<in> P \<Longrightarrow> d < MAX_DEPTH \<Longrightarrow> c \<in> set (children_of a i) \<Longrightarrow> (c, d + 1) \<in> P \<union> set queue"
    "\<And>i j. i \<in> fst ` P \<Longrightarrow> parent_of a i = Some j \<Longrightarrow> j \<in> fst ` P"
    "\<And>i d. (i, d) \<in> set queue \<Longrightarrow> d < MAX_DEPTH \<and> i < size_of a \<and> i \<notin> fst ` P"
    "\<And>i d j. (i, d) \<in> set queue \<Longrightarrow> parent_of a i = Some j \<Longrightarrow> j \<in> fst ` P"
    "distinct (map fst queue)" "\<And>r. r \<in> set rs \<Longrightarrow> (r, 0) \<in> P \<union> set queue"
  shows "clamp_inv m rs P a seen queue"
proof (unfold clamp_inv_def, intro conjI allI impI ballI)
  fix i d j c r
  show "wf_arena m a" "covers a rs" "distinct (map fst queue)" by (rule assms(1,2,10))+
  show "i < size_of a \<Longrightarrow> get_opt seen i = Some (i \<in> fst ` P)" by (rule assms(3))
  show "(i, d) \<in> P \<Longrightarrow> d \<le> MAX_DEPTH" by (rule assms(4))
  show "(i, d) \<in> P \<Longrightarrow> d = MAX_DEPTH \<Longrightarrow> children_of a i = []" by (rule assms(5)) simp
  show "(i, d) \<in> P \<Longrightarrow> d < MAX_DEPTH \<Longrightarrow> c \<in> set (children_of a i) \<Longrightarrow> (c, d + 1) \<in> P \<union> set queue"
    by (rule assms(6))
  show "i \<in> fst ` P \<Longrightarrow> parent_of a i = Some j \<Longrightarrow> j \<in> fst ` P" by (rule assms(7))
  show "(i, d) \<in> set queue \<Longrightarrow> d < MAX_DEPTH" "(i, d) \<in> set queue \<Longrightarrow> i < size_of a"
    "(i, d) \<in> set queue \<Longrightarrow> i \<notin> fst ` P" using assms(8) by simp_all
  show "(i, d) \<in> set queue \<Longrightarrow> parent_of a i = Some j \<Longrightarrow> j \<in> fst ` P" by (rule assms(9))
  show "r \<in> set rs \<Longrightarrow> (r, 0) \<in> P \<union> set queue" by (rule assms(11))
qed

text \<open>Nodes already met are closed upwards, so nothing below a new node has been met.\<close>

lemma unmet_below:
  assumes "clamp_inv m rs P a seen queue" "i \<notin> fst ` P" "x \<in> under a i"
  shows "x \<notin> fst ` P"
proof
  assume "x \<in> fst ` P"
  from assms(3) have "(x, i) \<in> (up a)\<^sup>+" by (simp add: under_def)
  then have "i \<in> fst ` P" using \<open>x \<in> fst ` P\<close>
  proof (induction rule: trancl_induct)
    case (step y z)
    then show ?case using clampD(7) [OF assms(1)] by (simp add: up_def)
  qed (use clampD(7) [OF assms(1)] in \<open>simp add: up_def\<close>)
  with assms(2) show False by simp
qed

lemma clamp_descend:
  assumes inv: "clamp_inv m rs P a seen ((i, d) # queue)" and d: "d + 1 < MAX_DEPTH"
  shows "clamp_inv m rs (insert (i, d) P) a (seen[i := True])
    (queue @ map (\<lambda>c. (c, d + 1)) (children_of a i))"
proof -
  note C = clampD [OF inv] and f = wfD(1) [OF clampD(1) [OF inv]]
  have i: "d < MAX_DEPTH" "i < size_of a" "i \<notin> fst ` P" using C(8,9,10) [of i d] by simp_all
  have kid: "parent_of a c = Some i" "c < size_of a" "c \<notin> fst ` P" "c \<noteq> i" if "c \<in> set (children_of a i)" for c
  proof -
    show p: "parent_of a c = Some i" by (rule forestD(3) [OF f that])
    show "c < size_of a" by (rule parent_lt [OF p])
    show "c \<notin> fst ` P" using C(7) [OF _ p] i(3) by blast
    show "c \<noteq> i" using under_child [OF f that] under_not_self [OF f] by blast
  qed
  have "c \<notin> fst ` set queue" if "c \<in> set (children_of a i)" for c
  proof
    assume "c \<in> fst ` set queue"
    then obtain e where "(c, e) \<in> set queue" by auto
    then have "(c, e) \<in> set ((i, d) # queue)" by simp
    from C(11) [OF this kid(1) [OF that]] i(3) show False by blast
  qed
  then have dist: "distinct (map fst (queue @ map (\<lambda>c. (c, d + 1)) (children_of a i)))"
    using C(12) forestD(4) [OF f] by (auto simp: comp_def)
  show ?thesis
  proof (rule clampI [OF C(1,2)])
    fix x assume "x < size_of a"
    then show "get_opt (seen[i := True]) x = Some (x \<in> fst ` insert (i, d) P)"
      using C(3) [of x] by (auto simp: get_opt_update get_opt_Some_iff)
  next
    fix x e assume "(x, e) \<in> insert (i, d) P"
    then show "e \<le> MAX_DEPTH" using C(4) i(1) by auto
  next
    fix x assume "(x, MAX_DEPTH) \<in> insert (i, d) P"
    then show "children_of a x = []" using C(5) i(1) by auto
  next
    fix x e c assume "(x, e) \<in> insert (i, d) P" "e < MAX_DEPTH" "c \<in> set (children_of a x)"
    then show "(c, e + 1) \<in> insert (i, d) P \<union> set (queue @ map (\<lambda>c. (c, d + 1)) (children_of a i))"
      using C(6) [of x e c] by (cases "(x, e) = (i, d)") auto
  next
    fix x j assume "x \<in> fst ` insert (i, d) P" "parent_of a x = Some j"
    then show "j \<in> fst ` insert (i, d) P" using C(7) [of x j] C(11) [of i d j] by (cases "x = i") simp_all
  next
    fix x e assume "(x, e) \<in> set (queue @ map (\<lambda>c. (c, d + 1)) (children_of a i))"
    then consider "(x, e) \<in> set queue" | "x \<in> set (children_of a i)" "e = d + 1" by auto
    then show "e < MAX_DEPTH \<and> x < size_of a \<and> x \<notin> fst ` insert (i, d) P"
    proof cases
      case 1
      then have "x \<noteq> i" using C(12) by (auto simp: image_iff)
      then show ?thesis using 1 C(8,9,10) [of x e] by simp
    next
      case 2
      then show ?thesis using kid(2,3,4) d by simp
    qed
  next
    fix x e j assume "(x, e) \<in> set (queue @ map (\<lambda>c. (c, d + 1)) (children_of a i))" "parent_of a x = Some j"
    then consider "(x, e) \<in> set queue" | "x \<in> set (children_of a i)" by auto
    then show "j \<in> fst ` insert (i, d) P"
    proof cases
      case 1
      then show ?thesis using C(11) [of x e j] \<open>parent_of a x = Some j\<close> by simp
    next
      case 2
      then show ?thesis using kid(1) \<open>parent_of a x = Some j\<close> by simp
    qed
  next
    fix r assume "r \<in> set rs"
    then show "(r, 0) \<in> insert (i, d) P \<union> set (queue @ map (\<lambda>c. (c, d + 1)) (children_of a i))"
      using C(13) by auto
  qed (rule dist)
qed

lemma clamp_flatten:
  assumes inv: "clamp_inv m rs P a seen ((i, d) # queue)" and d: "\<not> d + 1 < MAX_DEPTH"
    and flat: "flatten_loop i a (seen[i := True]) (rev (children_of a i)) [] = (a', seen', ds)"
  defines "kids \<equiv> sort_key (first_article a') ds"
  shows "clamp_inv m rs (insert (i, d) P \<union> (\<lambda>x. (x, MAX_DEPTH)) ` under a i)
    (modify_c i (\<lambda>c. c\<lparr>c_children := kids\<rparr>) a') seen' queue"
proof -
  note C = clampD [OF inv] and f = wfD(1) [OF clampD(1) [OF inv]]
  have i: "d < MAX_DEPTH" "i < size_of a" "i \<notin> fst ` P" using C(8,9,10) [of i d] by simp_all
  have d1: "d + 1 = MAX_DEPTH" using d i(1) by simp
  have ns: "i \<notin> under a i" by (rule under_not_self [OF f])
  have unmet: "x \<notin> fst ` P" if "x \<in> under a i" for x by (rule unmet_below [OF inv i(3) that])
  have unqueued: "x \<notin> fst ` set queue" if x: "x \<in> under a i" for x
  proof
    assume "x \<in> fst ` set queue"
    then obtain e where "(x, e) \<in> set queue" by auto
    then have e: "(x, e) \<in> set ((i, d) # queue)" by simp
    obtain y where y: "parent_of a x = Some y" "y = i \<or> y \<in> under a i" using x by (rule under_parent)
    from C(11) [OF e y(1)] y(2) i(3) unmet show False by blast
  qed
  have flat': "moved a i (set ds) a' \<and> set ds = under a i \<and> distinct ds \<and>
    (\<forall>x. get_opt seen' x = (if x \<in> under a i then Some True else get_opt (seen[i := True]) x)) \<and>
    length seen' = length (seen[i := True])"
  proof (rule flatten_ok [OF f _ _ _ _ _ _ flat])
    show "moved a i (set []) a" by (simp add: moved_def)
    show "distinct ([] @ rev (children_of a i))" using forestD(4) [OF f] by simp
    show "set ([] @ rev (children_of a i)) \<subseteq> under a i" using under_child [OF f] by auto
    show "\<exists>y \<in> insert i (set []). parent_of a x = Some y" if "x \<in> set ([] @ rev (children_of a i))" for x
      using that forestD(3) [OF f] by simp
    show "get_opt (seen[i := True]) x = Some (x \<in> set [])" if "x \<in> under a i" for x
      using C(3) [OF under_lt [OF that]] unmet [OF that] that ns by (auto simp: get_opt_update)
  qed simp
  then have sd: "set ds = under a i" by blast
  from flat' have D: "moved a i (under a i) a'" "set kids = under a i" "distinct kids"
    unfolding sd by (blast, simp_all add: kids_def sd)
  have seen': "get_opt seen' x = (if x \<in> under a i then Some True else get_opt (seen[i := True]) x)" for x
    using flat' by blast
  define b where "b = modify_c i (\<lambda>c. c\<lparr>c_children := kids\<rparr>) a'"
  note F = flattened [OF f i(2) D, folded b_def]
  let ?P = "insert (i, d) P \<union> (\<lambda>x. (x, MAX_DEPTH)) ` under a i"
  have fstP: "fst ` ?P = insert i (fst ` P) \<union> under a i" by (auto simp: image_image image_Un)
  have w: "wf_arena m b"
    by (rule wf_cong [OF C(1) F(7,2,3)]) (use wfD(2) [OF C(1)] F(1,4) in simp)
  have cov: "covers b rs"
    using C(2) flattened_below [OF F(5) _ _ ns] unfolding covers_def F(1,2)
    by (auto simp: F(5) under_def dest!: up_root_trancl) blast
  have "clamp_inv m rs ?P b seen' queue"
  proof (rule clampI [OF w cov])
    fix x assume "x < size_of b"
    then have "x < size_of a" by (simp add: F(1))
    then show "get_opt seen' x = Some (x \<in> fst ` ?P)"
      unfolding fstP seen' using C(3) [of x] by (auto simp: get_opt_update get_opt_Some_iff)
  next
    fix x e assume "(x, e) \<in> ?P"
    then show "e \<le> MAX_DEPTH" using C(4) i(1) by auto
  next
    fix x assume "(x, MAX_DEPTH) \<in> ?P"
    then have "x \<in> under a i \<or> (x, MAX_DEPTH) \<in> P" using i(1) by auto
    moreover have "x \<noteq> i" if "(x, MAX_DEPTH) \<in> P" using that i(3) by (auto simp: image_iff)
    ultimately show "children_of b x = []" using C(5) [of x] ns by (auto simp: F(6))
  next
    fix x e c assume x: "(x, e) \<in> ?P" "e < MAX_DEPTH" "c \<in> set (children_of b x)"
    then consider "x = i" "e = d" | "(x, e) \<in> P" "x \<noteq> i" using i(3) by force
    then show "(c, e + 1) \<in> ?P \<union> set queue"
    proof cases
      case 1
      then show ?thesis using x(3) D(2) d1 by (auto simp: F(6))
    next
      case 2
      then have "x \<notin> under a i" using unmet by force
      then show ?thesis using C(6) [OF 2(1) x(2), of c] x(3) 2(2) by (auto simp: F(6))
    qed
  next
    fix x j assume x: "x \<in> fst ` ?P" "parent_of b x = Some j"
    show "j \<in> fst ` ?P"
    proof (cases "x \<in> under a i")
      case True
      then show ?thesis using x(2) by (simp add: F(5) fstP)
    next
      case False
      then have "x = i \<or> x \<in> fst ` P" "parent_of a x = Some j" using x by (auto simp: F(5) fstP)
      then show ?thesis unfolding fstP using C(7) C(11) [of i d j] by auto
    qed
  next
    fix x e assume q: "(x, e) \<in> set queue"
    then have "x \<notin> under a i" "x \<noteq> i" using unqueued C(12) by force+
    then show "e < MAX_DEPTH \<and> x < size_of b \<and> x \<notin> fst ` ?P"
      unfolding fstP F(1) using C(8,9,10) [of x e] q by auto
  next
    fix x e j assume q: "(x, e) \<in> set queue" "parent_of b x = Some j"
    then have "x \<notin> under a i" using unqueued by force
    then show "j \<in> fst ` ?P" unfolding fstP using C(11) [of x e j] q by (auto simp: F(5))
  next
    fix r assume "r \<in> set rs"
    then show "(r, 0) \<in> ?P \<union> set queue" using C(13) by auto
  qed (use C(12) in simp)
  then show ?thesis by (simp add: b_def)
qed

lemma clamp_loop_ok:
  "clamp_inv m rs P a seen queue \<Longrightarrow> \<exists>P' seen'. clamp_inv m rs P' (clamp_loop a seen queue) seen' []"
proof (induction a seen queue arbitrary: P rule: clamp_loop.induct)
  case (2 a seen i d queue)
  note C = clampD [OF "2.prems"]
  have seen: "get_opt seen i = Some False" using C(3) [of i] C(9,10) [of i d] by simp
  show ?case
  proof (cases "d + 1 < MAX_DEPTH")
    case True
    have "\<exists>P' seen'. clamp_inv m rs P' (clamp_loop a (seen[i := True])
        (queue @ map (\<lambda>child. (child, d + 1)) (children_of a i))) seen' []"
      by (rule "2.IH"(3) [OF seen _ refl refl True]) (simp, rule clamp_descend [OF "2.prems" True])
    then show ?thesis using seen True by simp
  next
    case False
    obtain a' seen' ds where fl: "flatten_loop i a (seen[i := True]) (rev (children_of a i)) [] = (a', seen', ds)"
      by (metis prod_cases3)
    have "\<exists>P' sn. clamp_inv m rs P' (clamp_loop
        (modify_c i (\<lambda>c. c\<lparr>c_children := sort_key (first_article a') ds\<rparr>) a') seen' queue) sn []"
      using "2.IH"(4) [OF seen _ refl refl False fl [symmetric] refl clamp_flatten [OF "2.prems" False fl]] by simp
    then show ?thesis using seen False fl by simp
  qed
qed auto

lemma clamp_depth_ok:
  assumes "wf_arena m a" "covers a rs"
  shows "\<exists>P seen. clamp_inv m rs P (clamp_depth rs a) seen []"
proof -
  have "clamp_inv m rs {} a (replicate (length (containers a)) False) (map (\<lambda>i. (i, 0)) rs)"
  proof (rule clampI [OF assms])
    show "get_opt (replicate (length (containers a)) False) i = Some (i \<in> fst ` {})" if "i < size_of a" for i
      using that by (simp add: get_opt_def size_of_def)
    show "distinct (map fst (map (\<lambda>i. (i, 0)) rs))" using assms(2) by (simp add: covers_def comp_def)
    show "e < MAX_DEPTH \<and> i < size_of a \<and> i \<notin> fst ` {}" if "(i, e) \<in> set (map (\<lambda>i. (i, 0)) rs)" for i e
      using that assms(2) by (auto simp: covers_def MAX_DEPTH_def)
    show "j \<in> fst ` {}" if "(i, e) \<in> set (map (\<lambda>i. (i, 0)) rs)" "parent_of a i = Some j" for i e j
      using that assms(2) by (auto simp: covers_def)
  qed auto
  then show ?thesis unfolding clamp_depth_def by (rule clamp_loop_ok)
qed

section \<open>Building within the cap\<close>

text \<open>A node whose chains of replies are shorter than \<open>k\<close>.\<close>

fun fits :: "nat \<Rightarrow> arena \<Rightarrow> nat \<Rightarrow> bool" where
  "fits 0 a i = False"
| "fits (Suc k) a i = list_all (fits k a) (children_of a i)"

lemma clamped_fits:
  "clamp_inv m rs P a seen [] \<Longrightarrow> (i, d) \<in> P \<Longrightarrow> fits (Suc (MAX_DEPTH - d)) a i"
proof (induction "MAX_DEPTH - d" arbitrary: i d)
  case 0
  then have "d = MAX_DEPTH" using clampD(4) by fastforce
  then show ?case using clampD(5) [OF 0(2)] 0(3) by simp
next
  case (Suc k)
  then have d: "d < MAX_DEPTH" "k = MAX_DEPTH - (d + 1)" by simp_all
  have "fits (Suc k) a c" if "c \<in> set (children_of a i)" for c
    unfolding d(2) by (rule Suc(1) [OF d(2) Suc(3)]) (use clampD(6) [OF Suc(3,4) d(1) that] in simp)
  then show ?case by (simp add: list_all_iff Suc(2) [symmetric])
qed

primrec tree_articles :: "thread_node \<Rightarrow> nat list" where
  "tree_articles (ThreadNode art cs) =
     (case art of None \<Rightarrow> [] | Some i \<Rightarrow> [i]) @ concat (map tree_articles cs)"

fun tree_nodes :: "nat \<Rightarrow> arena \<Rightarrow> nat \<Rightarrow> nat list" where
  "tree_nodes 0 a i = []"
| "tree_nodes (Suc k) a i = i # concat (map (tree_nodes k a) (children_of a i))"

abbreviation opt_articles :: "thread_node option \<Rightarrow> nat list" where
  "opt_articles t \<equiv> case t of None \<Rightarrow> [] | Some t \<Rightarrow> tree_articles t"

lemma prune_articles:
  "mset (opt_articles (prune art ts)) = mset (case art of None \<Rightarrow> [] | Some i \<Rightarrow> [i]) + mset (concat (map tree_articles ts))"
proof (cases art)
  case None
  then show ?thesis by (cases ts; cases "tl ts") (auto simp: prune_def)
qed (simp add: prune_def)

lemma mset_concat_sort:
  "mset (concat (map f (sort_key k xs))) = mset (concat (map f xs))"
proof -
  have "mset (concat (map f ys)) = sum_mset (image_mset (\<lambda>y. mset (f y)) (mset ys))" for ys
    by (induction ys) simp_all
  then show ?thesis by simp
qed

lemma articles_of_some: "concat (map tree_articles (List.map_filter (\<lambda>t. t) built)) = concat (map opt_articles built)"
  by (induction built) (auto simp: List.map_filter_simps split: option.split)

lemma those_all:
  assumes "\<And>x. x \<in> set xs \<Longrightarrow> \<exists>y. f x = Some y \<and> Q x y"
  shows "\<exists>ys. those (map f xs) = Some ys \<and> list_all2 Q xs ys"
  using assms
proof (induction xs)
  case (Cons x xs)
  obtain y where "f x = Some y" "Q x y" using Cons.prems [of x] by auto
  moreover obtain ys where "those (map f xs) = Some ys" "list_all2 Q xs ys" using Cons by auto
  ultimately show ?case by auto
qed simp

lemma list_all2_concat_mset:
  "list_all2 (\<lambda>x t. mset (g t) = mset (h x)) xs ts \<Longrightarrow> mset (concat (map g ts)) = mset (concat (map h xs))"
  by (induction rule: list_all2_induct) simp_all

abbreviation node_articles :: "arena \<Rightarrow> nat list \<Rightarrow> nat list" where
  "node_articles a \<equiv> List.map_filter (article_of a)"

lemma node_articles_concat: "node_articles a (concat xss) = concat (map (node_articles a) xss)"
  by (induction xss) (simp_all add: List.map_filter_def)

lemma build_ok:
  "fits k a i \<Longrightarrow> i < size_of a \<Longrightarrow> forest a \<Longrightarrow>
   \<exists>t. build k a i = Some t \<and> mset (opt_articles t) = mset (node_articles a (tree_nodes k a i))"
proof (induction k a i rule: build.induct)
  case (2 k a i)
  obtain c where c: "get_c a i = Some c" using "2.prems"(2) by (simp add: get_c_iff)
  have ch: "children_of a i = c_children c" "article_of a i = c_article c"
    by (simp_all add: children_of_def article_of_def c)
  have kid: "\<exists>t. build k a x = Some t \<and> mset (opt_articles t) = mset (node_articles a (tree_nodes k a x))"
    if "x \<in> set (c_children c)" for x
  proof -
    have "x < size_of a" using child_lt(1) [OF "2.prems"(3), of x i] that ch(1) by simp
    moreover have "fits k a x" using "2.prems"(1) that ch(1) by (simp add: list_all_iff)
    ultimately show ?thesis using "2.IH" [OF c that] "2.prems"(3) by blast
  qed
  obtain built where b: "those (map (build k a) (c_children c)) = Some built"
    "list_all2 (\<lambda>x t. mset (opt_articles t) = mset (node_articles a (tree_nodes k a x))) (c_children c) built"
    using those_all [of "c_children c" "build k a", OF kid] by blast
  have "mset (concat (map opt_articles built)) = mset (concat (map (\<lambda>x. node_articles a (tree_nodes k a x)) (c_children c)))"
    by (rule list_all2_concat_mset [OF b(2)])
  then show ?case
    by (simp add: c b(1) prune_articles mset_concat_sort articles_of_some ch node_articles_concat
        List.map_filter_simps comp_def split: option.split)
qed simp

lemma tree_nodes_below: "forest a \<Longrightarrow> set (tree_nodes k a i) \<subseteq> below a i"
proof (induction k a i rule: tree_nodes.induct)
  case (2 k a i)
  have "x \<in> below a i" if "c \<in> set (children_of a i)" "x \<in> set (tree_nodes k a c)" for c x
  proof -
    have "(x, c) \<in> (up a)\<^sup>*" using 2 that by (auto simp: below_def)
    moreover have "(c, i) \<in> up a" using forestD(3) [OF "2.prems" that(1)] by (simp add: up_def)
    ultimately show ?thesis by (auto simp: below_def)
  qed
  then show ?case by (auto simp: below_def)
qed simp

lemma tree_nodes_all:
  assumes "forest a" "fits k a i"
  shows "below a i \<subseteq> set (tree_nodes k a i)"
proof
  fix x
  assume "x \<in> below a i"
  then have "(x, i) \<in> (up a)\<^sup>*" by (simp add: below_def)
  then show "x \<in> set (tree_nodes k a i)" using assms(2)
  proof (induction k arbitrary: i)
    case (Suc k)
    show ?case
    proof (cases "x = i")
      case False
      then obtain c where c: "(x, c) \<in> (up a)\<^sup>*" "(c, i) \<in> up a" using Suc.prems(1) by (auto elim: rtranclE)
      then have mem: "c \<in> set (children_of a i)" using forestD(1) [OF assms(1)] by (simp add: up_def)
      then have "fits k a c" using Suc.prems(2) by (simp add: list_all_iff)
      then show ?thesis using Suc.IH [OF c(1)] mem by auto
    qed simp
  qed simp
qed

lemma distinct_concat_map:
  assumes "distinct xs" "\<And>x. x \<in> set xs \<Longrightarrow> distinct (f x)"
    "\<And>x y. x \<in> set xs \<Longrightarrow> y \<in> set xs \<Longrightarrow> x \<noteq> y \<Longrightarrow> set (f x) \<inter> set (f y) = {}"
  shows "distinct (concat (map f xs))"
  using assms by (induction xs) auto

lemma tree_nodes_distinct: "forest a \<Longrightarrow> distinct (tree_nodes k a i)"
proof (induction k arbitrary: i)
  case (Suc k)
  note f = Suc.prems and sub = tree_nodes_below [OF Suc.prems, of k]
  have edge: "(c, i) \<in> up a" if "c \<in> set (children_of a i)" for c
    using forestD(3) [OF f that] by (simp add: up_def)
  have acyc: "(i, c) \<notin> (up a)\<^sup>*" if "c \<in> set (children_of a i)" for c
    using forestD(5) [OF f] edge [OF that] by (auto simp: acyclic_def dest: rtrancl_into_trancl1)
  have "x \<notin> below a d" if cd: "c \<in> set (children_of a i)" "d \<in> set (children_of a i)" "c \<noteq> d"
    and x: "x \<in> below a c" for c d x
  proof
    assume "x \<in> below a d"
    then have "(c, d) \<in> (up a)\<^sup>* \<or> (d, c) \<in> (up a)\<^sup>*" using x up_linear by (auto simp: below_def)
    moreover have no: "(u, v) \<notin> (up a)\<^sup>*" if uv: "u \<in> set (children_of a i)" "v \<in> set (children_of a i)" "u \<noteq> v" for u v
    proof
      assume "(u, v) \<in> (up a)\<^sup>*"
      with uv(3) obtain w where "(u, w) \<in> up a" "(w, v) \<in> (up a)\<^sup>*" by (auto elim: converse_rtranclE)
      moreover have "w = i" using \<open>(u, w) \<in> up a\<close> edge [OF uv(1)] by (simp add: up_def)
      ultimately show False using acyc [OF uv(2)] by simp
    qed
    ultimately show False using no [OF cd(1,2,3)] no [OF cd(2,1) cd(3) [symmetric]] by blast
  qed
  then have "distinct (concat (map (tree_nodes k a) (children_of a i)))"
    by (intro distinct_concat_map forestD(4) [OF f] Suc.IH f) (use sub in blast)
  moreover have "i \<notin> set (tree_nodes k a c)" if "c \<in> set (children_of a i)" for c
    using acyc [OF that] sub [of c] by (auto simp: below_def)
  ultimately show ?case by auto
qed simp

lemma set_map_filter: "set (List.map_filter f xs) = {y. \<exists>x \<in> set xs. f x = Some y}"
  by (induction xs) (auto simp: List.map_filter_simps split: option.split)

lemma distinct_map_filter:
  "distinct xs \<Longrightarrow> (\<And>x y v. f x = Some v \<Longrightarrow> f y = Some v \<Longrightarrow> x = y) \<Longrightarrow> distinct (List.map_filter f xs)"
  by (induction xs) (auto simp: List.map_filter_simps set_map_filter split: option.split)

text \<open>All articles under the roots, each once.\<close>

lemma cover_articles:
  assumes "wf_arena m a" "covers a rs" "\<And>r. r \<in> set rs \<Longrightarrow> fits k a r"
  shows "mset (node_articles a (concat (map (tree_nodes k a) rs))) = mset [0..<m]"
proof -
  note f = wfD(1) [OF assms(1)]
  let ?ns = "concat (map (tree_nodes k a) rs)"
  have tn: "set (tree_nodes k a r) = below a r" if "r \<in> set rs" for r
    using tree_nodes_below [OF f] tree_nodes_all [OF f assms(3) [OF that]] by blast
  have "distinct ?ns"
  proof (rule distinct_concat_map)
    show "distinct rs" using assms(2) by (simp add: covers_def)
    show "set (tree_nodes k a r) \<inter> set (tree_nodes k a q) = {}" if "r \<in> set rs" "q \<in> set rs" "r \<noteq> q" for r q
      using that assms(2) root_unique [of _ r a q] by (auto simp: tn below_def covers_def)
  qed (rule tree_nodes_distinct [OF f])
  then have "distinct (node_articles a ?ns)"
    by (rule distinct_map_filter) (metis wfD(6) [OF assms(1)])
  moreover have "set (node_articles a ?ns) = set [0..<m]"
  proof (intro set_eqI iffI)
    fix i
    show "i \<in> set (node_articles a ?ns) \<Longrightarrow> i \<in> set [0..<m]"
      using wfD(5) [OF assms(1)] by (auto simp: set_map_filter)
    assume "i \<in> set [0..<m]"
    then have art: "article_of a (by_article a ! i) = Some i" using wfD(4) [OF assms(1)] by simp
    then obtain r where "r \<in> set rs" "by_article a ! i \<in> below a r" using assms(2) by (auto simp: covers_def)
    then show "i \<in> set (node_articles a ?ns)" using art tn by (auto simp: set_map_filter)
  qed
  ultimately show ?thesis by (metis distinct_upt set_eq_iff_mset_eq_distinct)
qed

section \<open>The shape of the tree\<close>

definition depth_le :: "nat \<Rightarrow> thread_node \<Rightarrow> bool" where
  "depth_le n t \<longleftrightarrow> list_all (\<lambda>(_, d). d \<le> n) (walk 0 t)"

lemma walk_shift: "walk (e + n) t = map (\<lambda>(s, d). (s, d + n)) (walk e t)"
proof (induction t arbitrary: e)
  case (ThreadNode art cs)
  have "map (walk (Suc (e + n))) cs = map (\<lambda>c. map (\<lambda>(s, d). (s, d + n)) (walk (Suc e) c)) cs"
    using ThreadNode [of _ "Suc e"] by simp
  then have "concat (map (walk (Suc (e + n))) cs) = concat (map (\<lambda>c. map (\<lambda>(s, d). (s, d + n)) (walk (Suc e) c)) cs)"
    by (rule arg_cong)
  then show ?case by (simp add: map_concat comp_def)
qed

lemma depth_le_node: "depth_le (Suc n) (ThreadNode art cs) \<longleftrightarrow> list_all (depth_le n) cs"
proof -
  have "walk 1 c = map (\<lambda>(s, d). (s, d + 1)) (walk 0 c)" for c using walk_shift [of 0 1 c] by simp
  then show ?thesis by (auto simp: depth_le_def list_all_iff)
qed

lemma depth_le_leaf: "depth_le 0 (ThreadNode art [])"
  by (simp add: depth_le_def)

lemma depth_le_mono: "depth_le n t \<Longrightarrow> n \<le> k \<Longrightarrow> depth_le k t"
  by (auto simp: depth_le_def list_all_iff)

text \<open>A container without an article is kept only to hold several replies together, and
  replies are in the order of their oldest article.\<close>

primrec tidy :: "thread_node \<Rightarrow> bool" where
  "tidy (ThreadNode art cs) \<longleftrightarrow> (art = None \<longrightarrow> 2 \<le> length cs) \<and>
     sorted (map node_first_article cs) \<and> list_all tidy cs"

lemma list_all_sort [simp]: "list_all P (sort_key k xs) = list_all P xs"
  by (simp add: list_all_iff)

lemma list_all_some: "list_all P (List.map_filter (\<lambda>t. t) built) \<longleftrightarrow> list_all (case_option True P) built"
  by (induction built) (auto simp: List.map_filter_simps split: option.split)

lemma those_list_all:
  "those (map f xs) = Some ys \<Longrightarrow> (\<And>x y. x \<in> set xs \<Longrightarrow> f x = Some y \<Longrightarrow> Q y) \<Longrightarrow> list_all Q ys"
proof (induction xs arbitrary: ys)
  case (Cons x xs)
  then obtain y zs where ys: "f x = Some y" "those (map f xs) = Some zs" "ys = y # zs"
    by (auto split: option.splits)
  have "list_all Q zs" by (rule Cons.IH [OF ys(2)]) (use Cons.prems(2) in auto)
  then show ?case using Cons.prems(2) [OF _ ys(1)] ys(3) by simp
qed simp

lemma prune_shape:
  "list_all tidy ts \<Longrightarrow> sorted (map node_first_article ts) \<Longrightarrow> case_option True tidy (prune art ts)"
  "list_all (depth_le n) ts \<Longrightarrow> case_option True (depth_le (Suc n)) (prune art ts)"
proof -
  have "depth_le (Suc n) t" if "depth_le n t" for t using depth_le_mono [OF that] by simp
  then show "list_all tidy ts \<Longrightarrow> sorted (map node_first_article ts) \<Longrightarrow> case_option True tidy (prune art ts)"
    "list_all (depth_le n) ts \<Longrightarrow> case_option True (depth_le (Suc n)) (prune art ts)"
    by (cases ts; cases "tl ts"; auto simp: prune_def depth_le_node split: option.split)+
qed

lemma build_shape:
  "build (Suc k) a i = Some (Some t) \<Longrightarrow> tidy t \<and> depth_le k t"
proof (induction k arbitrary: i t)
  case 0
  then show ?case
    by (cases "get_c a i"; cases "c_children (the (get_c a i))")
       (auto simp: prune_def List.map_filter_simps depth_le_leaf split: option.splits)
next
  case (Suc k)
  then obtain c built where c: "get_c a i = Some c" "those (map (build (Suc k) a) (c_children c)) = Some built"
    "prune (c_article c) (sort_key node_first_article (List.map_filter (\<lambda>t. t) built)) = Some t"
    by (auto split: option.splits simp del: build.simps(2) simp: build.simps(2) [of "Suc k"])
  have "list_all (case_option True (\<lambda>t. tidy t \<and> depth_le k t)) built"
    by (rule those_list_all [OF c(2)]) (use Suc.IH in \<open>auto split: option.split\<close>)
  then have "list_all (case_option True tidy) built" "list_all (case_option True (depth_le k)) built"
    by (auto simp: list_all_iff split: option.splits)
  then show ?case
    using c(3) prune_shape(1) [of "sort_key node_first_article (List.map_filter (\<lambda>t. t) built)" "c_article c"]
      prune_shape(2) [of k "sort_key node_first_article (List.map_filter (\<lambda>t. t) built)" "c_article c"]
    by (simp add: list_all_some)
qed

section \<open>Threading\<close>

lemma thread_built:
  "\<exists>a rs built. thread records = Some (List.map_filter (\<lambda>t. t) built) \<and>
     those (map (build (Suc MAX_DEPTH) a) rs) = Some built \<and>
     mset (concat (map tree_articles (List.map_filter (\<lambda>t. t) built))) = mset [0..<length records]"
proof -
  define a1 where "a1 = fold (\<lambda>(i, r). arena_insert i r) (List.enumerate 0 records) arena_empty"
  define a2 where "a2 = fold (\<lambda>(i, r). link_references i r) (List.enumerate 0 records) a1"
  obtain a3 rs where g: "group_by_subject records a2 (roots a2) = (a3, rs)" by fastforce
  define a4 where "a4 = clamp_depth rs a3"
  let ?m = "length records"
  have "wf_arena ?m a1" using insert_all_wf [OF wf_empty, of records] by (simp add: a1_def)
  then have w2: "wf_arena ?m a2" unfolding a2_def by (rule link_all_wf)
  note w3 = group_by_subject_ok [OF w2 roots_cover [OF wfD(1) [OF w2]] g]
  obtain P seen where inv: "clamp_inv ?m rs P a4 seen []"
    using clamp_depth_ok [OF w3] unfolding a4_def by blast
  note C = clampD [OF inv]
  have fits: "fits (Suc MAX_DEPTH) a4 r" if "r \<in> set rs" for r
    using clamped_fits [OF inv, of r 0] C(13) [OF that] by simp
  have ex: "\<exists>t. build (Suc MAX_DEPTH) a4 r = Some t \<and>
      mset (opt_articles t) = mset (node_articles a4 (tree_nodes (Suc MAX_DEPTH) a4 r))" if "r \<in> set rs" for r
  proof -
    have "r < size_of a4" using C(2) that by (simp add: covers_def)
    then show ?thesis by (rule build_ok [OF fits [OF that] _ wfD(1) [OF C(1)]])
  qed
  obtain built where b: "those (map (build (Suc MAX_DEPTH) a4) rs) = Some built"
    "list_all2 (\<lambda>r t. mset (opt_articles t) = mset (node_articles a4 (tree_nodes (Suc MAX_DEPTH) a4 r))) rs built"
    using those_all [of rs "build (Suc MAX_DEPTH) a4", OF ex] by blast
  let ?ts = "List.map_filter (\<lambda>t. t) built"
  have "thread records = Some ?ts"
    unfolding thread_def Let_def a1_def [symmetric] a2_def [symmetric] g prod.case a4_def [symmetric]
    using b(1) by (simp del: build.simps)
  moreover have "mset (concat (map tree_articles ?ts)) = mset [0..<?m]"
    unfolding articles_of_some list_all2_concat_mset [OF b(2)]
    using cover_articles [OF C(1,2) fits] unfolding node_articles_concat map_map comp_def .
  ultimately show ?thesis using b(1) by blast
qed

lemma thread_total:
  "\<exists>ts. thread records = Some ts \<and> mset (concat (map tree_articles ts)) = mset [0..<length records]"
  using thread_built by blast

text \<open>C7: Threading loses and duplicates nothing, and never runs away.  For any records, whatever
  their message-ids and references say (missing, repeated, cyclic, arbitrarily long), the
  algorithm returns, the articles of the threads it returns are exactly the records, each
  once, no node is deeper than the cap (so the recursion that builds the tree is bounded by
  it), a node without an article holds at least two replies together, and the replies of every
  node are in the order of their oldest article.\<close>

theorem thread_every_article_once:
  "\<exists>ts. thread records = Some ts \<and>
     mset (concat (map tree_articles ts)) = mset [0..<length records] \<and>
     list_all tidy ts \<and> list_all (depth_le MAX_DEPTH) ts"
proof -
  obtain a rs built where b: "thread records = Some (List.map_filter (\<lambda>t. t) built)"
    "those (map (build (Suc MAX_DEPTH) a) rs) = Some built"
    "mset (concat (map tree_articles (List.map_filter (\<lambda>t. t) built))) = mset [0..<length records]"
    using thread_built by blast
  have "list_all (case_option True (\<lambda>t. tidy t \<and> depth_le MAX_DEPTH t)) built"
  proof (rule those_list_all [OF b(2)])
    fix r t assume "build (Suc MAX_DEPTH) a r = Some t"
    then show "case_option True (\<lambda>t. tidy t \<and> depth_le MAX_DEPTH t) t"
      using build_shape [of MAX_DEPTH a r] by (cases t) (simp_all del: build.simps)
  qed
  then have "list_all tidy (List.map_filter (\<lambda>t. t) built)"
    "list_all (depth_le MAX_DEPTH) (List.map_filter (\<lambda>t. t) built)"
    unfolding list_all_some by (auto simp: list_all_iff split: option.splits)
  with b show ?thesis by blast
qed

text \<open>The threads themselves need not be in that order: a root that is grouped under a later
  article of the same subject takes the place of that article.\<close>

lemma thread_root_order:
  "thread (map (\<lambda>s. (overview_empty 1)\<lparr>or_subject := s\<rparr>) [''Re: x'', ''y'', ''x'']) =
     Some [ThreadNode (Some 1) [], ThreadNode (Some 2) [ThreadNode (Some 0) []]]"
  by code_simp

section \<open>Subjects\<close>

lemma subject_loop_True: "snd (subject_loop s True)"
proof (induction s True rule: subject_loop.induct)
  case (1 rest)
  show ?case
    using "1.hyps" by (subst subject_loop.simps) (simp split: option.split)
qed

lemma subject_loop_flag: "subject_loop s True = (fst (subject_loop s False), True)"
proof (induction s False rule: subject_loop.induct)
  case (1 rest)
  show ?case
  proof (cases "strip_tag rest")
    case None
    show ?thesis
      by (subst (1 2) subject_loop.simps)
        (simp add: None prod_eq_iff subject_loop_True split: option.split)
  next
    case (Some tail)
    from "1.hyps"(2) [OF Some] show ?thesis by (subst (1 2) subject_loop.simps) (simp add: Some)
  qed
qed

lemma solid_ends:
  assumes "s \<noteq> []" "solid (hd s)" "solid (last s)"
  shows "trim s = s" "trim_start s = s"
proof -
  obtain c r where s: "s = c # r" using assms(1) by (cases s) auto
  then show "trim_start s = s" using assms(2) by simp
  obtain q d where "s = q @ [d]" using assms(1) by (cases s rule: rev_cases) auto
  then show "trim s = s" using \<open>trim_start s = s\<close> assms(3) by (simp add: trim_def)
qed

text \<open>A reply marker at the front of a subject, in any of the known languages and any
  case, with or without a counter, is removed and remembered, and a list tag is removed and
  not taken for one; so a reply and its original have the same grouping subject.\<close>

theorem subject_markers_stripped:
  assumes "s \<noteq> []" "solid (hd s)" "solid (last s)"
    and "h \<noteq> []" "solid (hd h)" "hd h \<noteq> CHR ''[''" "CHR '':'' \<notin> set h"
    and "list_ex (eq_ignore_ascii_case (prefix_base (trim h))) PREFIXES"
    and "tag \<noteq> []" "CHR ''['' \<notin> set tag" "CHR '']'' \<notin> set tag"
  shows "normalise_subject (h @ '': '' @ s) = (fst (normalise_subject s), True) \<and>
    normalise_subject (''['' @ tag @ ''] '' @ s) = normalise_subject s"
proof
  note s = solid_ends [OF assms(1-3)]
  have "trim (h @ '': '' @ s) = h @ '': '' @ s"
    by (rule solid_ends(1)) (use assms in \<open>simp_all\<close>)
  moreover have "strip_tag (h @ '': '' @ s) = None"
    using assms(4,6) by (cases h) (simp_all add: strip_tag_def strip_prefix_def)
  moreover have "split_once (CHR '':'') (h @ '': '' @ s) = Some (h, SP # s)"
    using assms(7) by (simp add: split_once_Some_iff)
  then have "strip_reply (h @ '': '' @ s) = Some (SP # s)" using assms(8) by (simp add: strip_reply_def)
  moreover have "trim_start (SP # s) = s" using s(2) by simp
  ultimately show "normalise_subject (h @ '': '' @ s) = (fst (normalise_subject s), True)"
    unfolding normalise_subject_def s(1) by (subst subject_loop.simps) (simp only: option.case subject_loop_flag)
  have "trim (''['' @ tag @ ''] '' @ s) = ''['' @ tag @ ''] '' @ s"
    by (rule solid_ends(1)) (use assms in \<open>simp_all add: solid_def is_ascii_graphic_def\<close>)
  moreover have "split_once (CHR '']'') (tag @ ''] '' @ s) = Some (tag, SP # s)"
    using assms(11) by (simp add: split_once_Some_iff)
  then have "strip_tag (''['' @ tag @ ''] '' @ s) = Some (SP # s)"
    using assms(9,10) by (simp add: strip_tag_def strip_prefix_def)
  ultimately show "normalise_subject (''['' @ tag @ ''] '' @ s) = normalise_subject s"
    unfolding normalise_subject_def s(1) using s(2)
    by (subst subject_loop.simps) (simp only: option.case trim_start_sp)
qed

lemma subject_markers_stripped_witness:
  "normalise_subject (''Re[2]'' @ '': '' @ ''a topic'') = (fst (normalise_subject ''a topic''), True)"
proof -
  have "list_ex (eq_ignore_ascii_case (prefix_base (trim ''Re[2]''))) PREFIXES"
    "solid (CHR ''a'')" "solid (CHR ''c'')" "solid (CHR ''R'')" by code_simp+
  then show ?thesis using subject_markers_stripped [of "''a topic''" "''Re[2]''" "''list''"] by simp
qed

end
