(* ===== verification/Client_Error.thy ===== *)
theory Client_Error
  imports Block Command
begin

text \<open>
  \<open>crates/nntp-client/src/error.rs\<close>, \<open>limits.rs\<close> and \<open>cancel.rs\<close>: the errors of the client layer
  and what they mean to a caller, the size limits and the cancellation flag.  A fallible
  operation on a state is a function that returns \<open>client_error + 'a\<close> beside the new state; the
  question mark operator is \<open>and_then\<close>.
\<close>

section \<open>Errors\<close>

text \<open>An \<open>io::Error\<close> of the transport: its \<open>ErrorKind\<close>, as far as the code tells kinds apart, and
  its text.\<close>

datatype io_kind = TimedOut | WouldBlock | UnexpectedEof | OtherKind

datatype net_error = Net_Error (net_kind: io_kind) (net_text: string)

datatype client_error =
    Io net_error
  | Cancelled string
  | ConnectionClosed "string option"
  | Timeout
  | Proto proto_error
  | LineTooLong nat
  | BlockTooLarge string nat
  | UnexpectedResponse string string response_code string
  | AuthenticationRequired string
  | AuthenticationRejected string
  | PlaintextAuthenticationRefused
  | NoSuchGroup string string
  | NoGroupSelected string
  | NoSuchArticle string
  | PostingNotAllowed string
  | PostingRejected response_code string
  | CommandNotSupported string
  | Server string response_code string
  | Tls string
  | FeatureNotCompiled string

definition from_status :: "string \<Rightarrow> status_line \<Rightarrow> client_error" where
  "from_status cmd line =
     (let text = sl_text line; c = sl_code line in
      if c = AUTH_REQUIRED then AuthenticationRequired text
      else if c = AUTH_REJECTED \<or> c = AUTH_OUT_OF_SEQUENCE then AuthenticationRejected text
      else if c = NO_SUCH_GROUP then NoSuchGroup [] text
      else if c = NO_GROUP_SELECTED then NoGroupSelected cmd
      else if c = NO_ARTICLE_SELECTED \<or> c = NO_SUCH_ARTICLE_NUMBER \<or> c = NO_SUCH_ARTICLE_ID
      then NoSuchArticle (if text = [] then cmd else text)
      else if c = UNKNOWN_COMMAND \<or> c = FEATURE_NOT_SUPPORTED then CommandNotSupported cmd
      else Server cmd c text)"

fun is_connection_fatal :: "client_error \<Rightarrow> bool" where
  "is_connection_fatal (Io _) = True"
| "is_connection_fatal (ConnectionClosed _) = True"
| "is_connection_fatal Timeout = True"
| "is_connection_fatal (Proto _) = True"
| "is_connection_fatal (LineTooLong _) = True"
| "is_connection_fatal (BlockTooLarge _ _) = True"
| "is_connection_fatal (Cancelled _) = True"
| "is_connection_fatal (Tls _) = True"
| "is_connection_fatal (UnexpectedResponse _ _ _ _) = False"
| "is_connection_fatal (AuthenticationRequired _) = False"
| "is_connection_fatal (AuthenticationRejected _) = False"
| "is_connection_fatal PlaintextAuthenticationRefused = False"
| "is_connection_fatal (NoSuchGroup _ _) = False"
| "is_connection_fatal (NoGroupSelected _) = False"
| "is_connection_fatal (NoSuchArticle _) = False"
| "is_connection_fatal (CommandNotSupported _) = False"
| "is_connection_fatal (Server _ _ _) = False"
| "is_connection_fatal (PostingNotAllowed _) = False"
| "is_connection_fatal (PostingRejected _ _) = False"
| "is_connection_fatal (FeatureNotCompiled _) = False"

fun is_transient :: "client_error \<Rightarrow> bool" where
  "is_transient (Io _) = True"
| "is_transient (ConnectionClosed _) = True"
| "is_transient Timeout = True"
| "is_transient (Server _ c _) = (as_u16 c < 500)"
| "is_transient _ = False"

fun is_cancelled_error :: "client_error \<Rightarrow> bool" where
  "is_cancelled_error (Cancelled _) = True"
| "is_cancelled_error _ = False"

fun needs_authentication :: "client_error \<Rightarrow> bool" where
  "needs_authentication (AuthenticationRequired _) = True"
| "needs_authentication _ = False"

definition from_io :: "net_error \<Rightarrow> client_error" where
  "from_io e =
     (case net_kind e of
        TimedOut \<Rightarrow> Timeout
      | WouldBlock \<Rightarrow> Timeout
      | UnexpectedEof \<Rightarrow> ConnectionClosed None
      | OtherKind \<Rightarrow> Io e)"

definition server_note :: "string \<Rightarrow> string" where
  "server_note text =
     (if trim text = [] then [] else '' (the server said: '' @ trim text @ '')'')"

definition context_suffix :: "string option \<Rightarrow> string" where
  "context_suffix context' =
     (case context' of Some c \<Rightarrow> '' while reading '' @ c | None \<Rightarrow> [])"

section \<open>Fallible operations on a state\<close>

type_synonym ('s, 'a) action = "'s \<Rightarrow> (client_error + 'a) \<times> 's"

definition ret :: "'a \<Rightarrow> ('s, 'a) action" where
  "ret x s = (Inr x, s)"

definition raise :: "client_error \<Rightarrow> ('s, 'a) action" where
  "raise e s = (Inl e, s)"

definition and_then :: "('s, 'a) action \<Rightarrow> ('a \<Rightarrow> ('s, 'b) action) \<Rightarrow> ('s, 'b) action" where
  "and_then m f s = (case m s of (Inl e, s') \<Rightarrow> (Inl e, s') | (Inr x, s') \<Rightarrow> f x s')"

text \<open>The question mark operator on a \<open>ProtoError\<close>, which \<open>#[from]\<close> converts.\<close>

definition try_proto :: "proto_error + 'a \<Rightarrow> ('s, 'a) action" where
  "try_proto r s = (case r of Inl e \<Rightarrow> (Inl (Proto e), s) | Inr x \<Rightarrow> (Inr x, s))"

lemma action_simps [simp, result_simps]:
  "ret x s = (Inr x, s)" "raise e s = (Inl e, s)"
  "try_proto (Inl p) s = (Inl (Proto p), s)" "try_proto (Inr x) s = (Inr x, s)"
  by (simp_all add: ret_def raise_def try_proto_def)

lemma and_then_Inl [simp]: "m s = (Inl e, s') \<Longrightarrow> and_then m f s = (Inl e, s')"
  by (simp add: and_then_def)

lemma and_then_Inr [simp]: "m s = (Inr x, s') \<Longrightarrow> and_then m f s = f x s'"
  by (simp add: and_then_def)

lemma and_then_cases:
  assumes "and_then m f s = (r, s')"
  obtains (failed) e where "m s = (Inl e, s')" "r = Inl e"
  | (continued) x s1 where "m s = (Inr x, s1)" "f x s1 = (r, s')"
  using assms by (auto simp: and_then_def split: prod.splits sum.splits)

section \<open>Limits\<close>

record limits =
  max_line_len :: nat
  max_block_bytes :: nat
  max_block_lines :: nat

definition DEFAULT :: limits where
  "DEFAULT = \<lparr>max_line_len = 64 * 1024, max_block_bytes = 32 * 1024 * 1024,
     max_block_lines = 4000000\<rparr>"

definition SMALL :: limits where
  "SMALL = \<lparr>max_line_len = 8 * 1024, max_block_bytes = 1024 * 1024, max_block_lines = 10000\<rparr>"

text \<open>\<open>usize::MAX\<close> in every bound.\<close>

definition UNLIMITED :: limits where
  "UNLIMITED = \<lparr>max_line_len = 2 ^ 64 - 1, max_block_bytes = 2 ^ 64 - 1,
     max_block_lines = 2 ^ 64 - 1\<rparr>"

section \<open>The cancellation flag\<close>

text \<open>The content of the \<open>AtomicBool\<close> that every clone of a \<open>Cancel\<close> shares.\<close>

datatype cancel = Cancel (raised: bool)

definition cancel_new :: cancel where
  "cancel_new = Cancel False"

definition cancel_raise :: "cancel \<Rightarrow> cancel" where
  "cancel_raise c = Cancel True"

definition cancel_reset :: "cancel \<Rightarrow> cancel" where
  "cancel_reset c = Cancel False"

definition is_cancelled :: "cancel \<Rightarrow> bool" where
  "is_cancelled c = raised c"

definition cancel_take :: "cancel \<Rightarrow> bool \<times> cancel" where
  "cancel_take c = (raised c, Cancel False)"

section \<open>Properties\<close>

lemma code_neq: "ResponseCode a = ResponseCode b \<longleftrightarrow> a = b"
  by simp

text \<open>the error made from a refusal tells the caller what to do: it asks for credentials
  exactly for a 480, it withdraws the command exactly for a 500 or a 503 (never for a 501, a
  complaint about the arguments), it is worth retrying exactly for a 4xx that has no meaning
  of its own, and it never condemns the connection.\<close>
theorem from_status_remedy:
  "needs_authentication (from_status cmd line) = (as_u16 (sl_code line) = 480) \<and>
   (from_status cmd line = CommandNotSupported cmd) = (as_u16 (sl_code line) \<in> {500, 503}) \<and>
   is_transient (from_status cmd line) =
     (as_u16 (sl_code line) < 500 \<and>
      as_u16 (sl_code line) \<notin> {480, 481, 482, 411, 412, 420, 423, 430}) \<and>
   \<not> is_connection_fatal (from_status cmd line)"
  by (cases "sl_code line") (simp add: from_status_def Let_def code_defs)

end
