(* ===== verification/Connection.thy ===== *)
theory Connection
  imports Client_Error
begin

text \<open>
  \<open>crates/nntp-client/src/connection.rs\<close>: framing.  The transport is a script: what each
  \<open>read\<close> of the socket returns and whether each \<open>write_all\<close> succeeds, in order, and what has
  been written so far.  A property that holds for every script holds for every server, however
  it cuts its bytes into segments and whenever it fails; an exhausted script is an orderly
  end of the stream.  Another thread may raise the cancellation flag at any time, so what each
  look at the flag sees is part of the script.
\<close>

section \<open>The transport\<close>

datatype read_result = Data bytes | ReadFailed net_error

datatype write_result = Written | WriteFailed nat net_error

record transport =
  incoming :: "read_result list"
  outcomes :: "write_result list"
  written :: bytes

text \<open>\<open>Write::write_all\<close>: a failed write may have sent a part of the bytes.\<close>

definition write_all :: "bytes \<Rightarrow> transport \<Rightarrow> (client_error + unit) \<times> transport" where
  "write_all out t =
     (case outcomes t of
        WriteFailed n e # rest \<Rightarrow>
          (Inl (from_io e), t\<lparr>outcomes := rest, written := written t @ take n out\<rparr>)
      | Written # rest \<Rightarrow> (Inr (), t\<lparr>outcomes := rest, written := written t @ out\<rparr>)
      | [] \<Rightarrow> (Inr (), t\<lparr>written := written t @ out\<rparr>))"

text \<open>\<open>Write::flush\<close>.\<close>

definition flush :: "transport \<Rightarrow> (client_error + unit) \<times> transport" where
  "flush t =
     (case outcomes t of
        WriteFailed n e # rest \<Rightarrow> (Inl (from_io e), t\<lparr>outcomes := rest\<rparr>)
      | Written # rest \<Rightarrow> (Inr (), t\<lparr>outcomes := rest\<rparr>)
      | [] \<Rightarrow> (Inr (), t))"

section \<open>The connection\<close>

text \<open>The \<open>BufReader\<close> is its transport and the octets read and not yet consumed.  \<open>looks\<close> is
  \<^const>\<open>None\<close> without a flag and otherwise what the coming looks at it see; when the list is
  used up the flag is down.\<close>

record connection =
  transport :: transport
  buffer :: bytes
  conn_limits :: limits
  desynchronised :: bool
  looks :: "cancel list option"

definition with_limits :: "transport \<Rightarrow> limits \<Rightarrow> connection" where
  "with_limits t lim =
     \<lparr>transport = t, buffer = [], conn_limits = lim, desynchronised = False, looks = None\<rparr>"

definition conn_new :: "transport \<Rightarrow> connection" where
  "conn_new t = with_limits t DEFAULT"

definition set_cancel :: "cancel list \<Rightarrow> connection \<Rightarrow> connection" where
  "set_cancel c k = k\<lparr>looks := Some c\<rparr>"

definition has_buffered_data :: "connection \<Rightarrow> bool" where
  "has_buffered_data k \<longleftrightarrow> buffer k \<noteq> []"

definition into_inner :: "connection \<Rightarrow> transport" where
  "into_inner k = transport k"

text \<open>The I/O of the transport under a connection.\<close>

definition on_transport ::
  "(transport \<Rightarrow> (client_error + 'a) \<times> transport) \<Rightarrow> (connection, 'a) action" where
  "on_transport f k = (case f (transport k) of (r, t) \<Rightarrow> (r, k\<lparr>transport := t\<rparr>))"

definition ensure_synchronised :: "(connection, unit) action" where
  "ensure_synchronised k =
     (if desynchronised k
      then (Inl (ConnectionClosed (Some ''a connection that lost protocol synchronisation'')), k)
      else (Inr (), k))"

definition send :: "libs \<Rightarrow> command \<Rightarrow> (connection, unit) action" where
  "send L cmd =
     and_then ensure_synchronised (\<lambda>_.
     and_then (try_proto (to_wire L cmd)) (\<lambda>b.
     and_then (on_transport (write_all b)) (\<lambda>_.
     on_transport flush)))"

definition send_block :: "bytes list \<Rightarrow> (connection, unit) action" where
  "send_block ls =
     and_then ensure_synchronised (\<lambda>_.
       let out = concat (map (\<lambda>l. stuff l @ [CR, LF]) ls) @ [CHR ''.'', CR, LF] in
       and_then (on_transport (write_all out)) (\<lambda>_.
       on_transport flush))"

text \<open>\<open>BufReader::fill_buf\<close>: reads only when nothing is buffered.\<close>

definition fill_buf :: "(connection, bytes) action" where
  "fill_buf k =
     (if buffer k \<noteq> [] then (Inr (buffer k), k)
      else
        (case incoming (transport k) of
           [] \<Rightarrow> (Inr [], k)
         | Data d # rest \<Rightarrow> (Inr d, k\<lparr>buffer := d, transport := (transport k)\<lparr>incoming := rest\<rparr>\<rparr>)
         | ReadFailed e # rest \<Rightarrow>
             (Inl (from_io e), k\<lparr>transport := (transport k)\<lparr>incoming := rest\<rparr>\<rparr>)))"

definition consume :: "nat \<Rightarrow> connection \<Rightarrow> connection" where
  "consume n k = k\<lparr>buffer := drop n (buffer k)\<rparr>"

definition desync :: "connection \<Rightarrow> connection" where
  "desync k = k\<lparr>desynchronised := True\<rparr>"

text \<open>How many more times the loop of \<open>read_line\<close> can go round.\<close>

definition reads_left :: "connection \<Rightarrow> nat" where
  "reads_left k = length (incoming (transport k)) + (if buffer k = [] then 0 else 1)"

lemma fill_buf_reads_left:
  assumes "fill_buf k = (Inr available, k1)" "available \<noteq> []"
  shows "reads_left (consume (length available) k1) < reads_left k"
  using assms by (auto simp: fill_buf_def reads_left_def consume_def split: if_splits list.splits read_result.splits)

function read_line_loop :: "libs \<Rightarrow> string \<Rightarrow> bytes \<Rightarrow> (connection, bytes) action" where
  "read_line_loop L ctx line k =
     (case fill_buf k of
        (Inl e, k1) \<Rightarrow> (Inl e, k1)
      | (Inr available, k1) \<Rightarrow>
          if available = [] then (Inl (ConnectionClosed (Some ctx)), desync k1)
          else
            (case memchr L LF available of
               Some index \<Rightarrow> (Inr (line @ take index available), consume (index + 1) k1)
             | None \<Rightarrow>
                 let line' = line @ available; k2 = consume (length available) k1 in
                 if length line' > max_line_len (conn_limits k2)
                 then (Inl (LineTooLong (max_line_len (conn_limits k2))), desync k2)
                 else read_line_loop L ctx line' k2))"
  by pat_completeness auto
termination
  by (relation "measure (\<lambda>(L, ctx, line, k). reads_left k)")
     (auto simp: fill_buf_reads_left [OF sym])

declare read_line_loop.simps [simp del]

definition read_line :: "libs \<Rightarrow> string \<Rightarrow> (connection, bytes) action" where
  "read_line L ctx =
     and_then ensure_synchronised (\<lambda>_.
     and_then (read_line_loop L ctx []) (\<lambda>line k.
       if length line > max_line_len (conn_limits k)
       then (Inl (LineTooLong (max_line_len (conn_limits k))), desync k)
       else (Inr (strip_cr_suffix line), k)))"

definition read_status :: "libs \<Rightarrow> (connection, status_line) action" where
  "read_status L =
     and_then (read_line L ''a status line'') (\<lambda>line. try_proto (status_parse line))"

definition command :: "libs \<Rightarrow> command \<Rightarrow> (connection, status_line) action" where
  "command L cmd = and_then (send L cmd) (\<lambda>_. read_status L)"

text \<open>A look at the flag.\<close>

definition look :: "connection \<Rightarrow> bool \<times> connection" where
  "look k =
     (case looks k of
        Some (c # rest) \<Rightarrow> (is_cancelled c, k\<lparr>looks := Some rest\<rparr>)
      | _ \<Rightarrow> (False, k))"

section \<open>Data blocks\<close>

text \<open>The octets still to come, and a bound on the lines in them.\<close>

definition octets :: "read_result \<Rightarrow> nat" where
  "octets r = (case r of Data d \<Rightarrow> length d | ReadFailed _ \<Rightarrow> 0)"

definition octets_left :: "connection \<Rightarrow> nat" where
  "octets_left k = length (buffer k) + sum_list (map octets (incoming (transport k)))"

lemma fill_buf_octets:
  "fill_buf k = (r, k1) \<Longrightarrow> octets_left k1 = octets_left k \<and> (r = Inr available \<longrightarrow> buffer k1 = available)"
  by (auto simp: fill_buf_def octets_left_def octets_def split: if_splits list.splits read_result.splits)

lemma consume_octets:
  "octets_left (consume n k) \<le> octets_left k"
  "0 < n \<Longrightarrow> buffer k \<noteq> [] \<Longrightarrow> octets_left (consume n k) < octets_left k"
  by (auto simp: octets_left_def consume_def)

lemma read_line_loop_octets:
  "read_line_loop L ctx line k = (Inr l, k') \<Longrightarrow> octets_left k' < octets_left k"
proof (induction L ctx line k rule: read_line_loop.induct)
  case (1 L ctx line k)
  obtain r k1 where f: "fill_buf k = (r, k1)" by fastforce
  with "1.prems" obtain available where r: "r = Inr available" "available \<noteq> []"
    by (subst (asm) read_line_loop.simps) (auto split: sum.splits if_splits)
  have b: "buffer k1 = available" "octets_left k1 = octets_left k" using fill_buf_octets [OF f] r by auto
  show ?case
  proof (cases "memchr L LF available")
    case None
    let ?k2 = "consume (length available) k1"
    have "octets_left ?k2 < octets_left k" using consume_octets(2) [of "length available" k1] b r by simp
    moreover have "read_line_loop L ctx (line @ available) ?k2 = (Inr l, k')"
      "\<not> max_line_len (conn_limits ?k2) < length (line @ available)"
      using "1.prems" f r None by (auto simp: read_line_loop.simps [of L ctx line k] Let_def split: if_splits)
    ultimately show ?thesis
      using "1.IH" [OF f [symmetric] r(1) _ None, of "line @ available" ?k2] r(2) by (auto simp: not_less)
  next
    case (Some index)
    then have "k' = consume (index + 1) k1"
      using "1.prems" f r by (simp add: read_line_loop.simps [of L ctx line k])
    then show ?thesis using consume_octets(2) [of "index + 1" k1] b r by simp
  qed
qed

lemma read_line_octets:
  assumes "read_line L ctx k = (Inr l, k')" shows "octets_left k' < octets_left k"
proof -
  obtain line k1 where "read_line_loop L ctx [] k = (Inr line, k1)" "k' = k1"
    using assms unfolding read_line_def
    by (auto simp: ensure_synchronised_def elim!: and_then_cases split: if_splits)
  then show ?thesis using read_line_loop_octets by blast
qed

lemma look_octets: "look k = (b, k1) \<Longrightarrow> octets_left k1 = octets_left k"
  by (auto simp: look_def octets_left_def split: option.splits list.splits)

lemma look_read_octets:
  "(b, k1) = look k \<Longrightarrow> (Inr l, k2) = read_line L ctx k1 \<Longrightarrow> octets_left k2 < octets_left k"
  using look_octets read_line_octets by metis

text \<open>The loop of \<open>read_block_streaming\<close>; \<open>on_line\<close> is a step of the accumulator \<open>acc\<close>.\<close>

function block_loop ::
  "libs \<Rightarrow> (bytes \<Rightarrow> 'a \<Rightarrow> 'a) \<Rightarrow> nat \<Rightarrow> nat \<Rightarrow> 'a \<Rightarrow> connection \<Rightarrow>
     (client_error + nat) \<times> 'a \<times> connection" where
  "block_loop L on_line lines' count acc k =
     (case look k of
        (True, k1) \<Rightarrow> (Inl (Cancelled ''a data block''), acc, desync k1)
      | (False, k1) \<Rightarrow>
          (case read_line L ''a data block'' k1 of
             (Inl e, k2) \<Rightarrow> (Inl e, acc, k2)
           | (Inr line, k2) \<Rightarrow>
               if is_terminator line then (Inr lines', acc, k2)
               else if lines' + 1 > max_block_lines (conn_limits k2)
               then (Inl (BlockTooLarge ''block line count'' (max_block_lines (conn_limits k2))),
                     acc, desync k2)
               else if count + length line > max_block_bytes (conn_limits k2)
               then (Inl (BlockTooLarge ''block size in octets'' (max_block_bytes (conn_limits k2))),
                     acc, desync k2)
               else block_loop L on_line (lines' + 1) (count + length line)
                      (on_line (unstuff line) acc) k2))"
  by pat_completeness auto
termination
  by (relation "measure (\<lambda>(L, on_line, lines', count, acc, k). octets_left k)")
     (auto intro: look_read_octets)

declare block_loop.simps [simp del]

definition read_block_streaming ::
  "libs \<Rightarrow> (bytes \<Rightarrow> 'a \<Rightarrow> 'a) \<Rightarrow> 'a \<Rightarrow> connection \<Rightarrow> (client_error + nat) \<times> 'a \<times> connection" where
  "read_block_streaming L on_line acc k = block_loop L on_line 0 0 acc k"

definition read_block :: "libs \<Rightarrow> (connection, data_block) action" where
  "read_block L k =
     (case read_block_streaming L (\<lambda>line acc. acc @ [line]) [] k of
        (Inl e, _, k') \<Rightarrow> (Inl e, k')
      | (Inr _, ls, k') \<Rightarrow> (Inr (from_lines ls), k'))"

end
