(* ===== verification/Framing.thy ===== *)
theory Framing
  imports Connection Sample_Libs
begin

text \<open>
  What the framing layer promises: a line and a block are read the same whatever the
  segmentation of the stream, limits and desynchronisation included, and a data block that was
  sent is the block that is received.
\<close>

section \<open>The stream ahead\<close>

text \<open>The octets that arrive before the stream ends or fails, and how it does.\<close>

fun arrivals :: "read_result list \<Rightarrow> bytes" where
  "arrivals (Data d # rest) = (if d = [] then [] else d @ arrivals rest)"
| "arrivals _ = []"

fun ending :: "read_result list \<Rightarrow> read_result list" where
  "ending (Data d # rest) = (if d = [] then Data d # rest else ending rest)"
| "ending rs = rs"

definition ahead :: "connection \<Rightarrow> bytes" where
  "ahead k = buffer k @ arrivals (incoming (transport k))"

text \<open>What reading does not touch.\<close>

definition frame :: "connection \<Rightarrow> limits \<times> bool \<times> cancel list option \<times> write_result list \<times> bytes" where
  "frame k = (conn_limits k, desynchronised k, looks k, outcomes (transport k), written (transport k))"

text \<open>What a line is, for a reader that sees the whole stream at once: the octets before the
  first line feed, if they fit.\<close>

definition line_spec :: "nat \<Rightarrow> string \<Rightarrow> bytes \<Rightarrow> read_result list \<Rightarrow> client_error + bytes" where
  "line_spec lim ctx s e =
     (let p = takeWhile (\<lambda>c. c \<noteq> LF) s in
      if length p > lim then Inl (LineTooLong lim)
      else if LF \<in> set s then Inr (strip_cr_suffix p)
      else (case e of
              ReadFailed f # _ \<Rightarrow> Inl (from_io f)
            | _ \<Rightarrow> Inl (ConnectionClosed (Some ctx))))"

lemma fill_buf_cases:
  assumes "fill_buf k = (r, k1)"
  obtains (some) available after where "r = Inr available" "available \<noteq> []" "ahead k = available @ after"
      "ahead k1 = available @ after" "buffer k1 = available" "ending (incoming (transport k1)) = ending (incoming (transport k))"
      "frame k1 = frame k"
  | (closed) "r = Inr []" "ahead k = []" "frame k1 = frame k"
      "\<nexists>f rest. ending (incoming (transport k)) = ReadFailed f # rest"
  | (failed) f rest where "r = Inl (from_io f)" "ahead k = []" "frame k1 = frame k"
      "ending (incoming (transport k)) = ReadFailed f # rest"
proof (cases "buffer k = []")
  case False
  show ?thesis
    by (rule some [of "buffer k" "arrivals (incoming (transport k))"])
      (use False assms in \<open>auto simp: fill_buf_def ahead_def\<close>)
next
  case True
  show ?thesis
  proof (cases "incoming (transport k)")
    case Nil
    show ?thesis
      by (rule closed) (use True Nil assms in \<open>auto simp: fill_buf_def ahead_def\<close>)
  next
    case (Cons a rest)
    show ?thesis
    proof (cases a)
      case (Data d)
      show ?thesis
      proof (cases "d = []")
        case True
        show ?thesis
          by (rule closed)
            (use \<open>buffer k = []\<close> True Cons Data assms in \<open>auto simp: fill_buf_def ahead_def frame_def\<close>)
      next
        case False
        show ?thesis
          by (rule some [of d "arrivals rest"])
            (use \<open>buffer k = []\<close> False Cons Data assms in \<open>auto simp: fill_buf_def ahead_def frame_def\<close>)
      qed
    next
      case (ReadFailed f)
      show ?thesis
        by (rule failed [of f rest])
          (use True Cons ReadFailed assms in \<open>auto simp: fill_buf_def ahead_def frame_def\<close>)
    qed
  qed
qed

lemma consume_ahead:
  "buffer k = a @ b \<Longrightarrow> ahead k = a @ b @ c \<Longrightarrow> ahead (consume (length a) k) = b @ c"
  by (simp add: ahead_def consume_def)

lemma consume_same [simp]:
  "frame (consume n k) = frame k" "incoming (transport (consume n k)) = incoming (transport k)"
  "conn_limits (consume n k) = conn_limits k"
  by (simp_all add: frame_def consume_def)

lemma desync_same [simp]:
  "conn_limits (desync k) = conn_limits k" "desynchronised (desync k)" "ahead (desync k) = ahead k"
  by (simp_all add: desync_def ahead_def)

lemma frameD: "frame k' = frame k \<Longrightarrow> conn_limits k' = conn_limits k \<and> desynchronised k' = desynchronised k"
  by (simp add: frame_def)

lemma first_sep_eq:
  assumes "p @ x # s = q @ x # t" "x \<notin> set p" "x \<notin> set q"
  shows "p = q \<and> s = t"
proof -
  have "takeWhile (\<lambda>c. c \<noteq> x) (r @ x # u) = r" if "x \<notin> set r" for r u
    using that by (subst takeWhile_append2) auto
  then have "p = q" using assms by metis
  with assms show ?thesis by simp
qed

lemma sep_after_prefix:
  assumes "p @ x # s = a @ b" "x \<notin> set a"
  obtains q where "p = a @ q" "b = q @ x # s"
proof -
  from assms(1) obtain us where "p @ us = a \<and> x # s = us @ b \<or> p = a @ us \<and> us @ x # s = b"
    by (auto simp: append_eq_append_conv2)
  then show ?thesis
  proof
    assume *: "p @ us = a \<and> x # s = us @ b"
    with assms(2) have "us = []" by (cases us) auto
    with * that [of "[]"] show ?thesis by simp
  qed (use that in auto)
qed

text \<open>The loop, with the part of the line it holds already.\<close>

lemma read_line_loop_found:
  "memchr_ok L \<Longrightarrow> ahead k = p @ LF # s \<Longrightarrow> LF \<notin> set p \<Longrightarrow>
    (case read_line_loop L ctx line k of
       (Inr l, k') \<Rightarrow> l = line @ p \<and> ahead k' = s \<and> frame k' = frame k \<and>
         ending (incoming (transport k')) = ending (incoming (transport k))
     | (Inl e, k') \<Rightarrow> length (line @ p) > max_line_len (conn_limits k) \<and>
         e = LineTooLong (max_line_len (conn_limits k)) \<and> desynchronised k')"
proof (induction L ctx line k arbitrary: p rule: read_line_loop.induct)
  case (1 L ctx line k)
  obtain r k1 where f: "fill_buf k = (r, k1)" by fastforce
  from f show ?case
  proof (cases rule: fill_buf_cases)
    case (some available after)
    note lim = frameD [OF \<open>frame k1 = frame k\<close>]
    show ?thesis
    proof (cases "LF \<in> set available")
      case True
      then obtain q t where q: "available = q @ LF # t" "LF \<notin> set q" by (metis split_list_first)
      with some "1.prems"(2) have "p @ LF # s = q @ LF # (t @ after)" by simp
      from first_sep_eq [OF this "1.prems"(3) q(2)] have p: "p = q" "s = t @ after" by simp_all
      have "ahead (consume (length (q @ [LF])) k1) = t @ after"
        by (rule consume_ahead) (simp_all add: some q)
      then show ?thesis
        using some f p q "1.prems"(1)
        by (subst read_line_loop.simps) (simp add: memchr_ok_def first_index_append)
    next
      case False
      with some "1.prems"(2) obtain q where q: "p = available @ q" "after = q @ LF # s"
        by (metis sep_after_prefix)
      let ?k2 = "consume (length available) k1"
      have a: "ahead ?k2 = q @ LF # s"
        using consume_ahead [of k1 available "[]" after] some q by simp
      have none: "memchr L LF available = None"
        using False "1.prems"(1) by (simp add: memchr_ok_def first_index_None_iff)
      show ?thesis
      proof (cases "length (line @ available) > max_line_len (conn_limits ?k2)")
        case True
        then show ?thesis
          using f some none q lim by (subst read_line_loop.simps) (simp add: Let_def)
      next
        case False
        from "1.IH" [OF f [symmetric] some(1) some(2) none refl refl False "1.prems"(1) a] "1.prems" q
        show ?thesis
          using f some none q lim False
          by (subst read_line_loop.simps) (simp add: Let_def split: prod.splits sum.splits)
      qed
    qed
  qed (use "1.prems" in auto)
qed

lemma read_line_loop_unfinished:
  "memchr_ok L \<Longrightarrow> LF \<notin> set (ahead k) \<Longrightarrow> length line \<le> max_line_len (conn_limits k) \<Longrightarrow>
    (case read_line_loop L ctx line k of
       (Inr l, k') \<Rightarrow> False
     | (Inl e, k') \<Rightarrow>
         if length (line @ ahead k) > max_line_len (conn_limits k)
         then e = LineTooLong (max_line_len (conn_limits k)) \<and> desynchronised k'
         else (case ending (incoming (transport k)) of
                 ReadFailed f # _ \<Rightarrow> e = from_io f \<and> frame k' = frame k
               | _ \<Rightarrow> e = ConnectionClosed (Some ctx) \<and> desynchronised k'))"
proof (induction L ctx line k rule: read_line_loop.induct)
  case (1 L ctx line k)
  obtain r k1 where f: "fill_buf k = (r, k1)" by fastforce
  from f show ?case
  proof (cases rule: fill_buf_cases)
    case (some available after)
    note lim = frameD [OF \<open>frame k1 = frame k\<close>]
    let ?k2 = "consume (length available) k1"
    have a: "ahead ?k2 = after" using consume_ahead [of k1 available "[]" after] some by simp
    have none: "memchr L LF available = None"
      using "1.prems" some by (simp add: memchr_ok_def first_index_None_iff)
    show ?thesis
    proof (cases "length (line @ available) > max_line_len (conn_limits ?k2)")
      case True
      then show ?thesis
        using f some none lim by (subst read_line_loop.simps) (simp add: Let_def)
    next
      case False
      from "1.IH" [OF f [symmetric] some(1) some(2) none refl refl False "1.prems"(1)] "1.prems" a some False
      show ?thesis
        using f some none lim False
        by (subst read_line_loop.simps)
          (simp add: Let_def split: prod.splits sum.splits list.splits read_result.splits)
    qed
  next
    case closed
    with f "1.prems" show ?thesis
      by (subst read_line_loop.simps) (auto split: list.split read_result.split)
  next
    case (failed e rest)
    with f "1.prems" show ?thesis by (subst read_line_loop.simps) simp
  qed
qed

lemma takeWhile_not_mem: "LF \<notin> set s \<Longrightarrow> takeWhile (\<lambda>c. c \<noteq> LF) s = s"
  by (auto simp: takeWhile_eq_all_conv)

lemma takeWhile_LF [simp]: "LF \<notin> set p \<Longrightarrow> takeWhile (\<lambda>c. c \<noteq> LF) (p @ LF # s) = p"
  by (induction p) auto

lemma split_at_LF:
  assumes "LF \<in> set s"
  obtains p t where "s = p @ LF # t" "LF \<notin> set p" "takeWhile (\<lambda>c. c \<noteq> LF) s = p"
proof -
  obtain p t where "s = p @ LF # t" "LF \<notin> set p" using assms by (metis split_list_first)
  moreover from this have "takeWhile (\<lambda>c. c \<noteq> LF) s = p" by simp
  ultimately show ?thesis using that by blast
qed

lemma read_line_refines:
  assumes "memchr_ok L" "\<not> desynchronised k"
  shows "case read_line L ctx k of (r, k') \<Rightarrow>
     r = line_spec (max_line_len (conn_limits k)) ctx (ahead k) (ending (incoming (transport k))) \<and>
     (case r of
        Inr l \<Rightarrow> ahead k = takeWhile (\<lambda>c. c \<noteq> LF) (ahead k) @ LF # ahead k' \<and> frame k' = frame k \<and>
          ending (incoming (transport k')) = ending (incoming (transport k))
      | Inl e \<Rightarrow> desynchronised k' \<or> (\<exists>f. e = from_io f))"
proof (cases "LF \<in> set (ahead k)")
  case True
  then obtain p s where p: "ahead k = p @ LF # s" "LF \<notin> set p"
    "takeWhile (\<lambda>c. c \<noteq> LF) (ahead k) = p" by (rule split_at_LF)
  from read_line_loop_found [OF assms(1) p(1,2), where ctx = ctx and line = "[]"] show ?thesis
    using assms(2) p(3) True p(1)
    by (auto simp: read_line_def and_then_def ensure_synchronised_def line_spec_def dest: frameD
        split: prod.splits sum.splits)
next
  case False
  from read_line_loop_unfinished [OF assms(1) False, where ctx = ctx and line = "[]"] show ?thesis
    using assms(2) False
    by (auto simp: read_line_def and_then_def ensure_synchronised_def line_spec_def takeWhile_not_mem
        split: prod.splits sum.splits list.splits read_result.splits if_splits)
qed

text \<open>A line that was sent with its terminator is read back.\<close>

lemma read_line_sent:
  assumes "memchr_ok L" "\<not> desynchronised k" "ahead k = l @ [CR, LF] @ s" "LF \<notin> set l"
    "length l + 1 \<le> max_line_len (conn_limits k)"
  shows "\<exists>k'. read_line L ctx k = (Inr l, k') \<and> ahead k' = s \<and> frame k' = frame k"
proof -
  have t: "takeWhile (\<lambda>c. c \<noteq> LF) (ahead k) = l @ [CR]" using assms(3,4) takeWhile_LF [of "l @ [CR]" s] by simp
  obtain r k' where r: "read_line L ctx k = (r, k')" by fastforce
  have "r = Inr l" "ahead k' = s" "frame k' = frame k"
    using read_line_refines [OF assms(1,2), of ctx] assms(3,5) t
    by (auto simp: r line_spec_def)
  with r show ?thesis by simp
qed

section \<open>Blocks\<close>

text \<open>No coming look at the flag finds it raised.\<close>

definition quiet :: "connection \<Rightarrow> bool" where
  "quiet k = (case looks k of None \<Rightarrow> True | Some cs \<Rightarrow> list_all (\<lambda>c. \<not> raised c) cs)"

lemma list_all_tl: "list_all P xs \<Longrightarrow> list_all P (tl xs)"
  by (cases xs) simp_all

lemma look_quiet:
  assumes "quiet k"
  obtains k' where "look k = (False, k')" "quiet k'" "ahead k' = ahead k" "conn_limits k' = conn_limits k"
    "desynchronised k' = desynchronised k" "outcomes (transport k') = outcomes (transport k)" "written (transport k') = written (transport k)"
proof (cases "looks k")
  case None
  show ?thesis by (rule that [of k]) (use None assms in \<open>auto simp: look_def\<close>)
next
  case (Some cs)
  show ?thesis
    by (rule that [of "k\<lparr>looks := Some (tl cs)\<rparr>"])
      (use Some assms in \<open>auto simp: look_def quiet_def is_cancelled_def ahead_def list_all_tl split: list.split\<close>)
qed

lemma block_loop_wire:
  assumes "memchr_ok L"
  shows "quiet k \<Longrightarrow> \<not> desynchronised k \<Longrightarrow> ahead k = wire ls @ s \<Longrightarrow>
    list_all (\<lambda>l. LF \<notin> set l \<and> length (stuff l) < max_line_len (conn_limits k)) ls \<Longrightarrow>
    2 \<le> max_line_len (conn_limits k) \<Longrightarrow> n + length ls \<le> max_block_lines (conn_limits k) \<Longrightarrow>
    b + sum_list (map (length \<circ> stuff) ls) \<le> max_block_bytes (conn_limits k) \<Longrightarrow>
    \<exists>k'. block_loop L f n b acc k = (Inr (n + length ls), fold f ls acc, k') \<and> ahead k' = s \<and>
      \<not> desynchronised k' \<and> conn_limits k' = conn_limits k \<and> quiet k' \<and>
      outcomes (transport k') = outcomes (transport k) \<and> written (transport k') = written (transport k)"
proof (induction ls arbitrary: k n b acc)
  case Nil
  from Nil.prems(1) obtain k1 where k1: "look k = (False, k1)" "quiet k1" "ahead k1 = ahead k"
    "conn_limits k1 = conn_limits k" "desynchronised k1 = desynchronised k" "outcomes (transport k1) = outcomes (transport k)" "written (transport k1) = written (transport k)"
    by (rule look_quiet)
  then have "ahead k1 = TERMINATOR @ [CR, LF] @ s" "\<not> desynchronised k1"
    using Nil.prems by (simp_all add: wire_def)
  from read_line_sent [OF assms this(2,1), of "''a data block''"] Nil.prems k1
  obtain k2 where "read_line L ''a data block'' k1 = (Inr TERMINATOR, k2)" "ahead k2 = s" "frame k2 = frame k1"
    by (auto simp: TERMINATOR_def)
  with k1 Nil.prems show ?case
    by (subst block_loop.simps) (simp add: is_terminator_def TERMINATOR_def frame_def quiet_def)
next
  case (Cons l ls)
  from Cons.prems(1) obtain k1 where k1: "look k = (False, k1)" "quiet k1" "ahead k1 = ahead k"
    "conn_limits k1 = conn_limits k" "desynchronised k1 = desynchronised k" "outcomes (transport k1) = outcomes (transport k)" "written (transport k1) = written (transport k)"
    by (rule look_quiet)
  then have a: "ahead k1 = stuff l @ [CR, LF] @ (wire ls @ s)" "\<not> desynchronised k1"
    using Cons.prems by (simp_all add: wire_def)
  have "LF \<notin> set (stuff l)" using Cons.prems(4) set_stuff [of l] by auto
  from read_line_sent [OF assms a(2,1) this, of "''a data block''"] Cons.prems k1
  obtain k2 where k2: "read_line L ''a data block'' k1 = (Inr (stuff l), k2)" "ahead k2 = wire ls @ s"
    "frame k2 = frame k1" by auto
  then have q: "quiet k2" "\<not> desynchronised k2" "conn_limits k2 = conn_limits k"
    "outcomes (transport k2) = outcomes (transport k)" "written (transport k2) = written (transport k)"
    using k1 a(2) by (simp_all add: frame_def quiet_def)
  have "\<exists>k'. block_loop L f (n + 1) (b + length (stuff l)) (f l acc) k2 =
      (Inr (n + 1 + length ls), fold f ls (f l acc), k') \<and> ahead k' = s \<and> \<not> desynchronised k' \<and>
      conn_limits k' = conn_limits k2 \<and> quiet k' \<and> outcomes (transport k') = outcomes (transport k2) \<and>
      written (transport k') = written (transport k2)"
    using Cons.prems k2(2) q by (intro Cons.IH) auto
  moreover have "block_loop L f n b acc k = block_loop L f (n + 1) (b + length (stuff l)) (f l acc) k2"
    using k1(1) k2(1) q(3) Cons.prems(6,7) dots.enc_not_ends [of l]
    by (subst block_loop.simps) (simp add: dots.dec_enc)
  ultimately show ?case using q by auto
qed

text \<open>A block is read whole, and reading stops behind its terminator.\<close>

lemma read_block_wire:
  assumes "memchr_ok L" "quiet k" "\<not> desynchronised k" "ahead k = wire ls @ s"
    and "list_all (\<lambda>l. LF \<notin> set l \<and> length (stuff l) < max_line_len (conn_limits k)) ls"
    and "2 \<le> max_line_len (conn_limits k)" "length ls \<le> max_block_lines (conn_limits k)"
    and "sum_list (map (length \<circ> stuff) ls) \<le> max_block_bytes (conn_limits k)"
  shows "\<exists>k'. read_block L k = (Inr (from_lines ls), k') \<and> ahead k' = s \<and> \<not> desynchronised k'"
proof -
  from block_loop_wire [OF assms(1-6), where n = 0 and b = 0 and acc = "[]"
      and f = "\<lambda>l acc. acc @ [l]"] assms(7,8)
  obtain k' where "block_loop L (\<lambda>l acc. acc @ [l]) 0 0 [] k = (Inr (length ls), fold (\<lambda>l acc. acc @ [l]) ls [], k')"
    "ahead k' = s" "\<not> desynchronised k'" by auto
  moreover have "fold (\<lambda>l acc. acc @ [l]) ls acc = acc @ ls" for acc by (induction ls arbitrary: acc) auto
  ultimately show ?thesis by (simp add: read_block_def read_block_streaming_def)
qed


section \<open>A connection that has lost its place\<close>

text \<open>An error means that the place in the stream is lost, or comes from the transport.\<close>

definition lost :: "client_error \<Rightarrow> connection \<Rightarrow> bool" where
  "lost e k \<longleftrightarrow> is_connection_fatal e \<and> (desynchronised k \<or> (\<exists>f. e = from_io f))"

lemma from_io_fatal [simp]: "is_connection_fatal (from_io f)"
  by (cases "net_kind f") (simp_all add: from_io_def)

lemma fill_buf_error: "fill_buf k = (Inl e, k') \<Longrightarrow> \<exists>f. e = from_io f"
  by (auto simp: fill_buf_def split: if_splits list.splits read_result.splits)

lemma read_line_loop_lost: "read_line_loop L ctx line k = (Inl e, k') \<Longrightarrow> lost e k'"
proof (induction L ctx line k rule: read_line_loop.induct)
  case (1 L ctx line k)
  show ?case
  proof (cases "fill_buf k")
    case (Pair r k1)
    show ?thesis
    proof (cases r)
      case (Inl e1)
      with Pair "1.prems" fill_buf_error [of k e k'] show ?thesis
        by (auto simp: read_line_loop.simps [of L ctx line k] lost_def)
    next
      case (Inr available)
      with Pair "1.prems" "1.IH" [OF Pair [symmetric] Inr] show ?thesis
        by (auto simp: read_line_loop.simps [of L ctx line k] lost_def Let_def split: if_splits option.splits)
    qed
  qed
qed

lemma fill_buf_frame: "fill_buf k = (r, k') \<Longrightarrow> frame k' = frame k"
  by (auto simp: fill_buf_def frame_def split: if_splits list.splits read_result.splits)

lemma read_line_loop_frame: "read_line_loop L ctx line k = (Inr l, k') \<Longrightarrow> frame k' = frame k"
proof (induction L ctx line k rule: read_line_loop.induct)
  case (1 L ctx line k)
  obtain r k1 where f: "fill_buf k = (r, k1)" by fastforce
  with "1.prems" obtain available where r: "r = Inr available" "available \<noteq> []"
    by (subst (asm) read_line_loop.simps) (auto split: sum.splits if_splits)
  with "1.prems" "1.IH" [OF f [symmetric]] f fill_buf_frame [OF f] show ?case
    by (auto simp: read_line_loop.simps [of L ctx line k] Let_def split: if_splits option.splits)
qed

lemma read_line_frame: "read_line L ctx k = (Inr l, k') \<Longrightarrow> frame k' = frame k \<and> \<not> desynchronised k"
  unfolding read_line_def
  by (auto simp: ensure_synchronised_def dest: read_line_loop_frame elim!: and_then_cases split: if_splits)

lemma read_line_lost: "read_line L ctx k = (Inl e, k') \<Longrightarrow> lost e k'"
  unfolding read_line_def
  by (auto simp: ensure_synchronised_def lost_def [of "ConnectionClosed _"] lost_def [of "LineTooLong _"]
      dest: read_line_loop_lost elim!: and_then_cases split: if_splits)

lemma block_loop_lost:
  "block_loop L f n b acc k = (r, acc', k') \<Longrightarrow>
     (case r of Inl e \<Rightarrow> lost e k' | Inr _ \<Rightarrow> \<not> desynchronised k')"
proof (induction L f n b acc k rule: block_loop.induct)
  case (1 L f n b acc k)
  obtain up k1 where lk: "look k = (up, k1)" by fastforce
  show ?case
  proof (cases up)
    case True
    with lk "1.prems" show ?thesis by (auto simp: block_loop.simps [of L f n b acc k] lost_def)
  next
    case False
    then have down: "up = False" by simp
    obtain r1 k2 where rd: "read_line L ''a data block'' k1 = (r1, k2)" by fastforce
    show ?thesis
    proof (cases r1)
      case (Inl e)
      with lk False rd "1.prems" read_line_lost [of L "''a data block''" k1 e k2] show ?thesis
        by (auto simp: block_loop.simps [of L f n b acc k])
    next
      case (Inr line)
      with rd have "\<not> desynchronised k2" using read_line_frame [of L "''a data block''" k1 line k2] frameD [of k2 k1] by simp
      have step: "(if is_terminator line then (Inr n, acc, k2)
          else if max_block_lines (conn_limits k2) < n + 1
          then (Inl (BlockTooLarge ''block line count'' (max_block_lines (conn_limits k2))), acc, desync k2)
          else if max_block_bytes (conn_limits k2) < b + length line
          then (Inl (BlockTooLarge ''block size in octets'' (max_block_bytes (conn_limits k2))), acc, desync k2)
          else block_loop L f (n + 1) (b + length line) (f (unstuff line) acc) k2) = (r, acc', k')"
        using "1.prems" by (simp add: block_loop.simps [of L f n b acc k] lk rd Inr down)
      note ih = "1.IH" [OF lk [symmetric] down rd [symmetric] Inr]
      consider "is_terminator line" | "\<not> is_terminator line" "max_block_lines (conn_limits k2) < n + 1"
        | "\<not> is_terminator line" "\<not> max_block_lines (conn_limits k2) < n + 1"
          "max_block_bytes (conn_limits k2) < b + length line"
        | "\<not> is_terminator line" "\<not> max_block_lines (conn_limits k2) < n + 1"
          "\<not> max_block_bytes (conn_limits k2) < b + length line" by blast
      then show ?thesis
      proof cases
        case 4
        then show ?thesis using ih [OF 4] step by simp
      qed (use step \<open>\<not> desynchronised k2\<close> in \<open>auto simp: lost_def\<close>)
    qed
  qed
qed

lemma send_lost:
  "send L c (desync k) = (Inl (ConnectionClosed (Some ''a connection that lost protocol synchronisation'')), desync k)"
  "send_block ls (desync k) = (Inl (ConnectionClosed (Some ''a connection that lost protocol synchronisation'')), desync k)"
  "read_line L ctx (desync k) = (Inl (ConnectionClosed (Some ''a connection that lost protocol synchronisation'')), desync k)"
  by (simp_all add: send_def send_block_def read_line_def and_then_def ensure_synchronised_def desync_def)

section \<open>Properties\<close>

text \<open>C33: reading a line does not depend on how the stream is cut into segments: it yields the
  octets before the first line feed, less a final carriage return, and leaves exactly what
  follows; it fails when they do not fit the limit or the stream ends or breaks first, and the
  limit counts the carriage return.\<close>
theorem read_line_any_segmentation:
  assumes "memchr_ok L" "\<not> desynchronised k"
  shows "(case read_line L ctx k of (r, k') \<Rightarrow>
     r = line_spec (max_line_len (conn_limits k)) ctx (ahead k) (ending (incoming (transport k))) \<and>
     (case r of
        Inr l \<Rightarrow> ahead k = takeWhile (\<lambda>c. c \<noteq> LF) (ahead k) @ LF # ahead k' \<and> \<not> desynchronised k'
      | Inl e \<Rightarrow> desynchronised k' \<or> (\<exists>f. e = from_io f)))"
  using read_line_refines [OF assms, of ctx] assms(2) by (auto dest: frameD split: prod.splits sum.splits)

definition sample_stream :: "read_result list \<Rightarrow> transport" where
  "sample_stream rs = \<lparr>incoming = rs, outcomes = [], written = []\<rparr>"

lemma read_line_any_segmentation_witness:
  "fst (read_line sample_libs ''x'' (conn_new (sample_stream [Data ''20'', Data ''5 by'', Data [CHR ''e'', CR, LF]])))
     = Inr ''205 bye''"
proof -
  let ?k = "conn_new (sample_stream [Data ''20'', Data ''5 by'', Data [CHR ''e'', CR, LF]])"
  have "\<not> desynchronised ?k" "ahead ?k = ''205 bye'' @ [CR, LF]" "max_line_len (conn_limits ?k) = 65536"
    by (simp_all add: conn_new_def with_limits_def sample_stream_def ahead_def DEFAULT_def)
  with read_line_any_segmentation [OF sample_libs_ok(1), of ?k "''x''"] show ?thesis
    by (auto simp: line_spec_def strip_cr_suffix_def strip_suffix_def split: prod.splits)
qed

text \<open>C32: a data block that is sent is received: whatever lines it holds, the peer reads back
  exactly those lines and stops exactly behind the terminator, however the stream is cut,
  as long as the block is within the peer's limits.\<close>
theorem block_transfer:
  assumes "memchr_ok L"
    and "send_block ls a = (Inr (), a')" "written (transport a') = written (transport a) @ out"
    and "ahead k = out @ s" "quiet k" "\<not> desynchronised k"
    and "list_all (\<lambda>l. LF \<notin> set l \<and> length (stuff l) < max_line_len (conn_limits k)) ls"
    and "2 \<le> max_line_len (conn_limits k)" "length ls \<le> max_block_lines (conn_limits k)"
    and "sum_list (map (length \<circ> stuff) ls) \<le> max_block_bytes (conn_limits k)"
  shows "case read_block L k of (r, k') \<Rightarrow>
    r = Inr (from_lines ls) \<and> ahead k' = s \<and> \<not> desynchronised k'"
proof -
  have out: "concat (map (\<lambda>l. stuff l @ [CR, LF]) ls) @ [CHR ''.'', CR, LF] = wire ls"
    by (simp add: wire_def TERMINATOR_def comp_def)
  have "written (transport a') = written (transport a) @ wire ls"
    using assms(2) unfolding send_block_def Let_def out
    by (auto simp: ensure_synchronised_def on_transport_def write_all_def flush_def elim!: and_then_cases
        split: if_splits list.splits write_result.splits)
  with assms(3,4) have "ahead k = wire ls @ s" by simp
  from read_block_wire [OF assms(1,5,6) this assms(7-10)] show ?thesis by auto
qed

definition sample_limits :: limits where
  "sample_limits = \<lparr>max_line_len = 10, max_block_bytes = 100, max_block_lines = 10\<rparr>"

lemma block_transfer_witness:
  "fst (read_block sample_libs (with_limits (sample_stream
     [Data ''..'', Data [CR], Data (LF # ''b'' @ [CR, LF]), Data (''.'' @ [CR, LF] @ ''205'')]) sample_limits))
   = Inr (from_lines [''.'', ''b''])"
proof -
  let ?a = "with_limits (sample_stream []) sample_limits"
  let ?k = "with_limits (sample_stream
     [Data ''..'', Data [CR], Data (LF # ''b'' @ [CR, LF]), Data (''.'' @ [CR, LF] @ ''205'')]) sample_limits"
  obtain a' where a: "send_block [''.'', ''b''] ?a = (Inr (), a')"
    "written (transport a') = written (transport ?a) @ wire [''.'', ''b'']"
    by (simp add: send_block_def and_then_def ensure_synchronised_def on_transport_def write_all_def
        flush_def with_limits_def sample_stream_def wire_def TERMINATOR_def stuff_def)
  have "ahead ?k = wire [''.'', ''b''] @ ''205''" "quiet ?k" "\<not> desynchronised ?k"
    by (simp_all add: ahead_def wire_def stuff_def TERMINATOR_def quiet_def with_limits_def sample_stream_def)
  from block_transfer [OF sample_libs_ok(1) a this] show ?thesis
    by (auto simp: with_limits_def sample_limits_def stuff_def split: prod.splits)
qed

text \<open>C34: a connection that has lost its place is never used again.  Every failure to read a
  line or a block is one the owner is told to give the connection up for, and it leaves the
  connection marked unless the transport itself reported it; a block that succeeded leaves it
  unmarked; and a marked connection writes nothing and reads nothing more.\<close>
theorem lost_connection_is_final:
  "(case read_line L ctx k of (Inl e, k') \<Rightarrow> lost e k' | (Inr _, k') \<Rightarrow> \<not> desynchronised k') \<and>
   (case read_block_streaming L f acc k of
      (Inl e, _, k') \<Rightarrow> lost e k' | (Inr _, _, k') \<Rightarrow> \<not> desynchronised k') \<and>
   list_all (\<lambda>k'. k' = desync k)
     [snd (send L c (desync k)), snd (send_block ls (desync k)), snd (read_line L ctx (desync k)),
      snd (command L c (desync k))] \<and>
   list_all (\<lambda>r. isl r)
     [fst (send L c (desync k)), fst (send_block ls (desync k)), map_res (\<lambda>_. ()) (fst (read_line L ctx (desync k))),
      map_res (\<lambda>_. ()) (fst (command L c (desync k)))]"
proof -
  have "case read_line L ctx k of (Inl e, k') \<Rightarrow> lost e k' | (Inr _, k') \<Rightarrow> \<not> desynchronised k'"
    by (auto dest: read_line_lost read_line_frame frameD split: prod.split sum.split)
  moreover have "case read_block_streaming L f acc k of
      (Inl e, _, k') \<Rightarrow> lost e k' | (Inr _, _, k') \<Rightarrow> \<not> desynchronised k'"
    using block_loop_lost [of L f 0 0 acc k]
    by (auto simp: read_block_streaming_def split: prod.split sum.split)
  ultimately show ?thesis by (simp add: send_lost command_def and_then_def)
qed

text \<open>A time-out in the middle of a line drops the part that was read and leaves the connection
  unmarked, so its next user reads the tail of one response as the next response.\<close>

lemma timeout_keeps_tail:
  "(case read_status sample_libs (with_limits (sample_stream
       [Data ''211 9 '', ReadFailed (Net_Error TimedOut []), Data (''205 9 a'' @ [CR, LF])]) sample_limits) of
     (r, k) \<Rightarrow> r = Inl Timeout \<and> \<not> desynchronised k \<and>
       map_res (\<lambda>l. as_u16 (sl_code l)) (fst (read_status sample_libs k)) = Inr 205)"
  by code_simp

text \<open>The line limit is passed by a line whose content meets it exactly.\<close>

lemma line_limit_counts_cr:
  "fst (read_line sample_libs ''x'' (with_limits (sample_stream [Data (''1234567890'' @ [CR, LF])])
     sample_limits)) = Inl (LineTooLong 10)"
  by code_simp

end
