(* ===== verification/Rust_Text.thy ===== *)
theory Rust_Text
  imports Block
begin

text \<open>
  More of Rust's \<open>str\<close>: \<open>replace\<close>, \<open>split_once\<close> and \<open>find\<close> with a string pattern, \<open>splitn\<close>, and
  the trimming of one character.
\<close>

text \<open>\<open>str::replace\<close> with a pattern that is not empty.\<close>

function replace_all :: "string \<Rightarrow> string \<Rightarrow> string \<Rightarrow> string" where
  "replace_all pat with [] = []"
| "replace_all pat with (c # s) =
     (if pat \<noteq> [] \<and> starts_with pat (c # s)
      then with @ replace_all pat with (drop (length pat) (c # s))
      else c # replace_all pat with s)"
  by pat_completeness auto
termination
  by (relation "measure (\<lambda>(pat, with, s). length s)") auto

declare replace_all.simps(2) [simp del]

text \<open>\<open>text.replace("\r\n", "\n")\<close>.\<close>

definition unix_newlines :: "string \<Rightarrow> string" where
  "unix_newlines s = replace_all [CR, LF] [LF] s"

definition split_once_str :: "string \<Rightarrow> string \<Rightarrow> (string \<times> string) option" where
  "split_once_str pat s =
     map_option (\<lambda>i. (take i s, drop (i + length pat) s)) (find_subsequence s pat)"

fun splitn :: "nat \<Rightarrow> char \<Rightarrow> string \<Rightarrow> string list" where
  "splitn 0 d s = []"
| "splitn (Suc 0) d s = [s]"
| "splitn (Suc n) d s =
     (case split_once d s of None \<Rightarrow> [s] | Some (a, b) \<Rightarrow> a # splitn n d b)"

definition trim_end_matches :: "char \<Rightarrow> string \<Rightarrow> string" where
  "trim_end_matches d s = rev (dropWhile (\<lambda>c. c = d) (rev s))"

definition ends_with :: "string \<Rightarrow> string \<Rightarrow> bool" where
  "ends_with pat s \<longleftrightarrow> strip_suffix pat s \<noteq> None"

section \<open>Lemmas\<close>

lemma replace_all_absent:
  "\<lbrakk>\<And>c. c \<in> set s \<Longrightarrow> c \<noteq> hd pat\<rbrakk> \<Longrightarrow> replace_all pat with s = s"
proof (induction s)
  case (Cons c s)
  then have "\<not> (pat \<noteq> [] \<and> starts_with pat (c # s))" by (cases pat) (auto simp: starts_with_def)
  with Cons show ?case by (auto simp: replace_all.simps(2))
qed simp

lemma unix_newlines_id: "CR \<notin> set s \<Longrightarrow> unix_newlines s = s"
  unfolding unix_newlines_def by (rule replace_all_absent) auto

text \<open>On lines without carriage returns, \<open>replace\<close> turns the wire form into text.\<close>

lemma unix_newlines_join:
  "(\<And>l. l \<in> set ls \<Longrightarrow> CR \<notin> set l) \<Longrightarrow> unix_newlines (join [CR, LF] ls) = join [LF] ls"
proof (induction "[CR, LF]" ls rule: join.induct)
  case (3 a b ls)
  have skip: "replace_all [CR, LF] [LF] (a @ CR # LF # s) = a @ LF # replace_all [CR, LF] [LF] s"
    if "CR \<notin> set a" for a s
    using that by (induction a) (auto simp: replace_all.simps(2) starts_with_def)
  from 3 skip [of a] show ?case by (simp add: unix_newlines_def)
qed (simp_all add: unix_newlines_def, simp add: unix_newlines_id [unfolded unix_newlines_def])

lemma find_subsequence_first:
  assumes "find_subsequence s pat = Some i"
  shows "s = take i s @ pat @ drop (i + length pat) s"
  using assms
proof (induction s pat arbitrary: i rule: find_subsequence.induct)
  case (2 c s pat)
  show ?case
  proof (cases "starts_with pat (c # s)")
    case True
    with 2 have "i = 0" "take (length pat) (c # s) = pat" by (simp_all add: starts_with_def)
    then show ?thesis using append_take_drop_id [of "length pat" "c # s"] by simp
  next
    case False
    with 2 show ?thesis by auto
  qed
qed (simp split: if_splits)

end
