(* ===== verification/Article.thy ===== *)
theory Article
  imports Rust_Text Date_Header Message_Id Group
begin

text \<open>
  \<open>crates/nntp-proto/src/article.rs\<close>: content types, transfer encodings and the article
  itself.  The operations that need the MIME tree of the body are in theory Body.
\<close>

section \<open>Content types\<close>

type_synonym params = "(string \<times> string) list"

record content_type =
  ct_type :: string
  ct_subtype :: string
  ct_params :: params

text \<open>\<open>parse_params\<close>: pieces without an equals sign are skipped.\<close>

definition parse_param :: "string \<Rightarrow> (string \<times> string) option" where
  "parse_param piece =
     (case split_once (CHR ''='') piece of
        None \<Rightarrow> None
      | Some (name, raw) \<Rightarrow> Some (to_ascii_lowercase (trim name), trim_quotes (trim raw)))"

definition parse_params :: "string list \<Rightarrow> params" where
  "parse_params pieces = List.map_filter parse_param pieces"

definition get_param :: "string \<Rightarrow> params \<Rightarrow> string option" where
  "get_param name ps = map_option snd (List.find (\<lambda>(candidate, _). candidate = name) ps)"

definition content_type_parse :: "string \<Rightarrow> content_type" where
  "content_type_parse value =
     (let parts = split_on (CHR '';'') value;
          full = to_ascii_lowercase (trim (hd parts));
          (t, sub) = (case split_once (CHR ''/'') full of
                        Some (t, sub) \<Rightarrow> (trim t, trim sub) | None \<Rightarrow> (full, []))
      in \<lparr>ct_type = t, ct_subtype = sub, ct_params = parse_params (tl parts)\<rparr>)"

definition ct_param :: "string \<Rightarrow> content_type \<Rightarrow> string option" where
  "ct_param name c = get_param name (ct_params c)"

definition charset :: "content_type \<Rightarrow> string option" where
  "charset c = ct_param ''charset'' c"

definition boundary :: "content_type \<Rightarrow> string option" where
  "boundary c = ct_param ''boundary'' c"

definition ct_is_text :: "content_type \<Rightarrow> bool" where
  "ct_is_text c \<longleftrightarrow> ct_type c = ''text''"

definition ct_is_multipart :: "content_type \<Rightarrow> bool" where
  "ct_is_multipart c \<longleftrightarrow> ct_type c = ''multipart''"

definition ct_default :: content_type where
  "ct_default = \<lparr>ct_type = ''text'', ct_subtype = ''plain'', ct_params = []\<rparr>"

section \<open>Transfer encodings\<close>

datatype transfer_encoding = TeNone | QuotedPrintable | Base64 | TeUnknown

definition transfer_encoding_parse :: "string \<Rightarrow> transfer_encoding" where
  "transfer_encoding_parse value =
     (let v = to_ascii_lowercase (trim value) in
      if v = [] \<or> v = ''7bit'' \<or> v = ''8bit'' \<or> v = ''binary'' then TeNone
      else if v = ''quoted-printable'' then QuotedPrintable
      else if v = ''base64'' then Base64
      else TeUnknown)"

text \<open>What the headers of an article or of a part say about its body.\<close>

definition headers_content_type :: "libs \<Rightarrow> headers \<Rightarrow> content_type" where
  "headers_content_type L h =
     (case headers_get_decoded L h CONTENT_TYPE of
        Some v \<Rightarrow> content_type_parse v | None \<Rightarrow> ct_default)"

definition headers_transfer_encoding :: "libs \<Rightarrow> headers \<Rightarrow> transfer_encoding" where
  "headers_transfer_encoding L h =
     (case headers_get_decoded L h CONTENT_TRANSFER_ENCODING of
        Some v \<Rightarrow> transfer_encoding_parse v | None \<Rightarrow> TeNone)"

text \<open>A body undone: the transfer encoding first, then the charset, then the line endings.\<close>

definition decode_body :: "libs \<Rightarrow> transfer_encoding \<Rightarrow> string option \<Rightarrow> bytes \<Rightarrow> string" where
  "decode_body L enc cs raw =
     (let octets = (case enc of
            TeNone \<Rightarrow> raw
          | TeUnknown \<Rightarrow> raw
          | QuotedPrintable \<Rightarrow> decode_quoted_printable raw
          | Base64 \<Rightarrow> (case decode_base64 L raw of Some d \<Rightarrow> d | None \<Rightarrow> raw));
          txt = (case cs of
            Some label \<Rightarrow> decode_with_charset L octets label
          | None \<Rightarrow> decode_8bit_lossy L octets)
      in unix_newlines txt)"

section \<open>Articles\<close>

record article =
  art_number :: "u64 option"
  art_headers :: headers
  art_body :: "bytes list"

definition article_from_block :: "libs \<Rightarrow> data_block \<Rightarrow> article" where
  "article_from_block L b =
     (let (head, body) = split_head_body b
      in \<lparr>art_number = None, art_headers = parse_lines L head, art_body = body\<rparr>)"

definition article_from_head_block :: "libs \<Rightarrow> data_block \<Rightarrow> article" where
  "article_from_head_block L b =
     \<lparr>art_number = None, art_headers = parse_lines L (block_lines b), art_body = []\<rparr>"

definition with_number :: "u64 \<Rightarrow> article \<Rightarrow> article" where
  "with_number n a = a\<lparr>art_number := Some n\<rparr>"

definition has_body :: "article \<Rightarrow> bool" where
  "has_body a \<longleftrightarrow> art_body a \<noteq> []"

definition or_empty :: "string option \<Rightarrow> string" where
  "or_empty x = (case x of Some s \<Rightarrow> s | None \<Rightarrow> [])"

definition art_subject :: "libs \<Rightarrow> article \<Rightarrow> string" where
  "art_subject L a = or_empty (headers_get_decoded L (art_headers a) SUBJECT)"

definition art_author :: "libs \<Rightarrow> article \<Rightarrow> string" where
  "art_author L a = or_empty (headers_get_decoded L (art_headers a) FROM)"

definition art_date :: "libs \<Rightarrow> article \<Rightarrow> offset_datetime option" where
  "art_date L a =
     Option.bind (headers_get_decoded L (art_headers a) DATE) (\<lambda>v. res_ok (parse_date L v))"

definition art_message_id :: "libs \<Rightarrow> article \<Rightarrow> message_id option" where
  "art_message_id L a =
     Option.bind (headers_get_decoded L (art_headers a) MESSAGE_ID)
       (\<lambda>v. res_ok (message_id_parse v))"

definition art_references :: "libs \<Rightarrow> article \<Rightarrow> message_id list" where
  "art_references L a =
     (let ids = (case headers_get (art_headers a) REFERENCES of
                   Some v \<Rightarrow> parse_list (decoded_verbatim L v) | None \<Rightarrow> [])
      in if ids \<noteq> [] then ids
         else (case headers_get (art_headers a) IN_REPLY_TO of
                 Some v \<Rightarrow> parse_list (decoded_verbatim L v) | None \<Rightarrow> []))"

definition art_newsgroups :: "libs \<Rightarrow> article \<Rightarrow> group_name list" where
  "art_newsgroups L a =
     List.map_filter (\<lambda>name. res_ok (group_name_parse (trim name)))
       (split_on (CHR '','') (or_empty (headers_get_decoded L (art_headers a) NEWSGROUPS)))"

definition art_content_type :: "libs \<Rightarrow> article \<Rightarrow> content_type" where
  "art_content_type L a = headers_content_type L (art_headers a)"

definition art_transfer_encoding :: "libs \<Rightarrow> article \<Rightarrow> transfer_encoding" where
  "art_transfer_encoding L a = headers_transfer_encoding L (art_headers a)"

definition body_bytes :: "article \<Rightarrow> bytes" where
  "body_bytes a = join [CR, LF] (art_body a)"

definition body_text :: "libs \<Rightarrow> article \<Rightarrow> string" where
  "body_text L a =
     decode_body L (art_transfer_encoding L a) (charset (art_content_type L a)) (body_bytes a)"

definition line_count :: "article \<Rightarrow> nat" where
  "line_count a = length (art_body a)"

end
