(* ===== verification/Body.thy ===== *)
theory Body
  imports Article
begin

text \<open>
  \<open>crates/nntp-proto/src/body.rs\<close> and the operations of \<open>article.rs\<close> that use it: the MIME part
  tree, the part a reader shows, and the text that is shown.  A reference to a part inside a
  tree is the path to it from the root, beside the part itself.
\<close>

section \<open>Dispositions\<close>

definition MAX_PART_DEPTH :: nat where
  "MAX_PART_DEPTH = 8"

definition MAX_PARTS :: nat where
  "MAX_PARTS = 256"

datatype disposition_kind = Inline | Attachment | OtherDisposition

record disposition =
  disp_kind :: disposition_kind
  disp_params :: params

definition disposition_parse :: "string \<Rightarrow> disposition" where
  "disposition_parse value =
     (let pieces = split_on (CHR '';'') value;
          k = to_ascii_lowercase (trim (hd pieces))
      in \<lparr>disp_kind = (if k = [] \<or> k = ''inline'' then Inline
            else if k = ''attachment'' then Attachment else OtherDisposition),
          disp_params = parse_params (tl pieces)\<rparr>)"

definition disp_param :: "string \<Rightarrow> disposition \<Rightarrow> string option" where
  "disp_param name d = get_param name (disp_params d)"

section \<open>Splitting\<close>

definition trim_trailing_space :: "bytes \<Rightarrow> bytes" where
  "trim_trailing_space line = rev (dropWhile (\<lambda>b. b = SP \<or> b = TAB) (rev line))"

definition push_chunk :: "bytes list option \<Rightarrow> bytes list list \<Rightarrow> bytes list list" where
  "push_chunk current chunks = (case current of Some c \<Rightarrow> chunks @ [c] | None \<Rightarrow> chunks)"

text \<open>The loop of \<open>split_on_boundary\<close>: the chunks finished and the one being filled.\<close>

fun boundary_loop ::
  "string \<Rightarrow> bytes list \<Rightarrow> bytes list list \<Rightarrow> bytes list option \<Rightarrow> bytes list list" where
  "boundary_loop b [] chunks current = push_chunk current chunks"
| "boundary_loop b (line # rest) chunks current =
     (let trimmed = trim_trailing_space line in
      if trimmed = ''--'' @ b @ ''--'' then push_chunk current chunks
      else if trimmed = ''--'' @ b then
        (let chunks' = push_chunk current chunks in
         if length chunks' \<ge> MAX_PARTS then chunks'
         else boundary_loop b rest chunks' (Some []))
      else boundary_loop b rest chunks (map_option (\<lambda>c. c @ [line]) current))"

definition split_on_boundary :: "bytes list \<Rightarrow> string \<Rightarrow> bytes list list" where
  "split_on_boundary ls b = boundary_loop b ls [] None"

definition split_part_headers :: "libs \<Rightarrow> bytes list \<Rightarrow> headers \<times> bytes list" where
  "split_part_headers L ls =
     (case position (\<lambda>l. l = []) ls of
        Some index \<Rightarrow>
          (parse_lines L (slice_or_empty 0 index ls), slice_or_empty (index + 1) (length ls) ls)
      | None \<Rightarrow> (headers_new, ls))"

section \<open>The part tree\<close>

datatype body_part = BodyPart
  (bp_headers: headers) (bp_content_type: content_type) (bp_encoding: transfer_encoding)
  (bp_disposition: "disposition option") (bp_lines: "bytes list") (bp_parts: "body_part list")

definition without_splitting :: "libs \<Rightarrow> headers \<Rightarrow> bytes list \<Rightarrow> body_part" where
  "without_splitting L h ls =
     BodyPart h (headers_content_type L h) (headers_transfer_encoding L h)
       (map_option disposition_parse (headers_get_decoded L h CONTENT_DISPOSITION)) ls []"

definition bp_is_multipart :: "body_part \<Rightarrow> bool" where
  "bp_is_multipart p \<longleftrightarrow> ct_is_multipart (bp_content_type p)"

definition set_parts :: "body_part list \<Rightarrow> body_part \<Rightarrow> body_part" where
  "set_parts ps p =
     BodyPart (bp_headers p) (bp_content_type p) (bp_encoding p) (bp_disposition p) (bp_lines p) ps"

text \<open>\<open>split\<close>, as the part it leaves.\<close>

function split_part :: "libs \<Rightarrow> nat \<Rightarrow> body_part \<Rightarrow> body_part" where
  "split_part L depth p =
     (if depth \<ge> MAX_PART_DEPTH \<or> \<not> bp_is_multipart p then p
      else
        (case boundary (bp_content_type p) of
           None \<Rightarrow> p
         | Some b \<Rightarrow>
             if b = [] then p
             else set_parts (bp_parts p @
               map (\<lambda>chunk. case split_part_headers L chunk of
                      (h, body) \<Rightarrow> split_part L (depth + 1) (without_splitting L h body))
                 (split_on_boundary (bp_lines p) b)) p))"
  by pat_completeness auto
termination
  by (relation "measure (\<lambda>(L, depth, p). MAX_PART_DEPTH - depth)") auto

declare split_part.simps [simp del]

definition from_article :: "libs \<Rightarrow> headers \<Rightarrow> bytes list \<Rightarrow> body_part" where
  "from_article L h body = split_part L 0 (without_splitting L h body)"

section \<open>Questions about a part\<close>

definition hex_digit :: "string \<Rightarrow> nat option" where
  "hex_digit c = (case c of [b] \<Rightarrow> hex_value b | _ \<Rightarrow> None)"

text \<open>The percent escapes of an RFC 2231 parameter, over the characters of the value; after a
  percent sign the next two characters are taken whatever they are.\<close>

fun unescape_chars :: "string list \<Rightarrow> bytes" where
  "unescape_chars [] = []"
| "unescape_chars (c # rest) =
     (if c \<noteq> ''%'' then c @ unescape_chars rest
      else
        (case rest of
           [] \<Rightarrow> ''%''
         | [a] \<Rightarrow> ''%''
         | a # b # rest' \<Rightarrow>
             (case (hex_digit a, hex_digit b) of
                (Some high, Some low) \<Rightarrow> char_of (high * 16 + low) # unescape_chars rest'
              | _ \<Rightarrow> CHR ''%'' # unescape_chars rest')))"

definition decode_extended_parameter :: "libs \<Rightarrow> string \<Rightarrow> string" where
  "decode_extended_parameter L value =
     (let pieces = splitn 3 (CHR 0x27) value;
          cs = (case get_opt pieces 0 of Some c \<Rightarrow> c | None \<Rightarrow> []);
          encoded = (case get_opt pieces 2 of Some e \<Rightarrow> e | None \<Rightarrow> value);
          octets = unescape_chars (chars encoded)
      in if cs = [] then decode_8bit_lossy L octets else decode_with_charset L octets cs)"

definition filename :: "libs \<Rightarrow> body_part \<Rightarrow> string option" where
  "filename L p =
     (case Option.bind (bp_disposition p) (disp_param ''filename'') of
        Some name \<Rightarrow> Some (decode_header_value L name)
      | None \<Rightarrow>
          (case Option.bind (bp_disposition p) (disp_param ''filename*'') of
             Some extended \<Rightarrow> Some (decode_extended_parameter L extended)
           | None \<Rightarrow> map_option (decode_header_value L) (ct_param ''name'' (bp_content_type p))))"

definition is_attachment :: "libs \<Rightarrow> body_part \<Rightarrow> bool" where
  "is_attachment L p =
     (case bp_disposition p of
        Some d \<Rightarrow> (case disp_kind d of Inline \<Rightarrow> filename L p \<noteq> None | _ \<Rightarrow> True)
      | None \<Rightarrow> False)"

definition is_signature :: "body_part \<Rightarrow> bool" where
  "is_signature p \<longleftrightarrow> ct_type (bp_content_type p) = ''application'' \<and>
     ct_subtype (bp_content_type p) \<in> {''pgp-signature'', ''pkcs7-signature'', ''x-pkcs7-signature''}"

primrec is_signed :: "body_part \<Rightarrow> bool" where
  "is_signed (BodyPart h ct e d ls ps) \<longleftrightarrow>
     is_signature (BodyPart h ct e d ls ps) \<or> list_ex id (map is_signed ps)"

definition encoded_size :: "body_part \<Rightarrow> nat" where
  "encoded_size p = sum_list (map (\<lambda>l. length l + 2) (bp_lines p)) - 2"

text \<open>\<open>join_lines\<close>.\<close>

definition join_lines :: "bytes list \<Rightarrow> bytes" where
  "join_lines ls = join [CR, LF] ls"

definition part_text :: "libs \<Rightarrow> body_part \<Rightarrow> string" where
  "part_text L p =
     decode_body L (bp_encoding p) (charset (bp_content_type p)) (join_lines (bp_lines p))"

definition is_displayable :: "libs \<Rightarrow> body_part \<Rightarrow> bool" where
  "is_displayable L p \<longleftrightarrow> ct_is_text (bp_content_type p) \<and> \<not> is_attachment L p"

section \<open>Which part to show\<close>

text \<open>\<open>Iterator::find_map\<close> on the results.\<close>

fun first_some :: "'a option list \<Rightarrow> 'a option" where
  "first_some [] = None"
| "first_some (Some x # rest) = Some x"
| "first_some (None # rest) = first_some rest"

type_synonym part_ref = "nat list \<times> body_part"

definition child_ref :: "nat \<times> part_ref option \<Rightarrow> part_ref option" where
  "child_ref = (\<lambda>(i, r). map_option (\<lambda>(path, p). (i # path, p)) r)"

definition keep_plain :: "part_ref option \<Rightarrow> part_ref option" where
  "keep_plain r =
     Option.bind r (\<lambda>(path, p). if ct_subtype (bp_content_type p) = ''plain'' then r else None)"

primrec display_ref :: "libs \<Rightarrow> body_part \<Rightarrow> part_ref option" where
  "display_ref L (BodyPart h ct e d ls ps) =
     (let self = BodyPart h ct e d ls ps;
          found = map child_ref (List.enumerate 0 (map (display_ref L) ps));
          plain = first_some (map keep_plain found)
      in if \<not> bp_is_multipart self then (if is_displayable L self then Some ([], self) else None)
         else if ps = [] then Some ([], self)
         else if ct_subtype ct = ''alternative'' \<and> plain \<noteq> None then plain
         else first_some found)"

definition display_part :: "libs \<Rightarrow> body_part \<Rightarrow> body_part option" where
  "display_part L p = map_option snd (display_ref L p)"

primrec collect_leaves :: "body_part \<Rightarrow> nat list option \<Rightarrow> nat list \<Rightarrow> part_ref list" where
  "collect_leaves (BodyPart h ct e d ls ps) shown here =
     (let self = BodyPart h ct e d ls ps in
      if bp_is_multipart self \<and> ps \<noteq> []
      then concat (map (\<lambda>(i, collect). collect shown (here @ [i]))
             (List.enumerate 0 (map collect_leaves ps)))
      else if shown \<noteq> Some here then [(here, self)] else [])"

definition other_parts :: "libs \<Rightarrow> body_part \<Rightarrow> part_ref list" where
  "other_parts L p =
     filter (\<lambda>(path, q). \<not> is_signature q)
       (collect_leaves p (map_option fst (display_ref L p)) [])"

text \<open>The dash between type and name is U+2014.\<close>

definition em_dash :: string where
  "em_dash = [SP, CHR 0xE2, CHR 0x80, CHR 0x94, SP]"

definition part_summary :: "libs \<Rightarrow> body_part \<Rightarrow> string" where
  "part_summary L p =
     (let ct = bp_content_type p;
          k = (if ct_subtype ct = [] then ct_type ct else ct_type ct @ ''/'' @ ct_subtype ct);
          size = dec (encoded_size p)
      in case filename L p of
           Some name \<Rightarrow> k @ em_dash @ name @ '' ('' @ size @ '' octets)''
         | None \<Rightarrow> k @ '' ('' @ size @ '' octets)'')"

section \<open>Clearsigned text\<close>

definition CLEARSIGN_BEGIN :: string where
  "CLEARSIGN_BEGIN = ''-----BEGIN PGP SIGNED MESSAGE-----''"

definition CLEARSIGN_SIGNATURE :: string where
  "CLEARSIGN_SIGNATURE = ''-----BEGIN PGP SIGNATURE-----''"

definition undash :: "string \<Rightarrow> string" where
  "undash line = (case strip_prefix ''- '' line of Some r \<Rightarrow> r | None \<Rightarrow> line)"

definition strip_clearsign :: "string \<Rightarrow> string option" where
  "strip_clearsign text =
     (case split_once_str CLEARSIGN_BEGIN text of
        None \<Rightarrow> None
      | Some (_, after_marker) \<Rightarrow>
          (case (case split_once_str [LF, LF] after_marker of
                   Some (_, body) \<Rightarrow> Some body
                 | None \<Rightarrow> map_option snd (split_once_str [CR, LF, CR, LF] after_marker)) of
             None \<Rightarrow> None
           | Some body \<Rightarrow>
               let inner = (case split_once_str CLEARSIGN_SIGNATURE body of
                              Some (inner, _) \<Rightarrow> inner | None \<Rightarrow> body)
               in Some (trim_end (join [LF] (map undash (split_on LF inner))))))"

section \<open>Flowed text\<close>

fun split_quote_prefix :: "string \<Rightarrow> nat \<times> string" where
  "split_quote_prefix [] = (0, [])"
| "split_quote_prefix (c # s) =
     (if c = CHR ''>'' then (case split_quote_prefix s of (depth, rest) \<Rightarrow> (depth + 1, rest))
      else (0, c # s))"

definition push_quote_prefix :: "string \<Rightarrow> nat \<Rightarrow> string \<Rightarrow> string" where
  "push_quote_prefix out depth content =
     out @ replicate depth (CHR ''>'') @ (if depth > 0 \<and> content \<noteq> [] then [SP] else [])"

definition flow_step :: "bool \<Rightarrow> string \<Rightarrow> string \<times> nat option \<Rightarrow> string \<times> nat option" where
  "flow_step delete_space line = (\<lambda>(out, open_depth).
     let (depth, rest) = split_quote_prefix line;
         content = (case strip_prefix [SP] rest of Some r \<Rightarrow> r | None \<Rightarrow> rest);
         flowed = ends_with [SP] content \<and> content \<noteq> ''-- '';
         out1 = (case open_depth of
                   Some d \<Rightarrow>
                     if d = depth then out
                     else push_quote_prefix (trim_end_matches SP out @ [LF]) depth content
                 | None \<Rightarrow> push_quote_prefix out depth content)
     in if flowed
        then (out1 @ (if delete_space
                      then (case strip_suffix [SP] content of Some r \<Rightarrow> r | None \<Rightarrow> content)
                      else content), Some depth)
        else (out1 @ content @ [LF], None))"

definition unflow :: "string \<Rightarrow> bool \<Rightarrow> string" where
  "unflow text delete_space =
     (let body = (case strip_suffix [LF] text of Some r \<Rightarrow> r | None \<Rightarrow> text);
          (out, open_depth) = fold (flow_step delete_space) (split_on LF body) ([], None);
          out1 = (if open_depth \<noteq> None then trim_end_matches SP out else out)
      in if ends_with [LF] out1 then butlast out1 else out1)"

section \<open>What an article shows\<close>

definition art_body_part :: "libs \<Rightarrow> article \<Rightarrow> body_part" where
  "art_body_part L a = from_article L (art_headers a) (art_body a)"

definition param_is :: "string \<Rightarrow> string \<Rightarrow> content_type \<Rightarrow> bool" where
  "param_is name value ct =
     (case ct_param name ct of Some v \<Rightarrow> eq_ignore_ascii_case v value | None \<Rightarrow> False)"

definition display_text :: "libs \<Rightarrow> article \<Rightarrow> string" where
  "display_text L a =
     (case display_part L (art_body_part L a) of
        None \<Rightarrow> []
      | Some p \<Rightarrow>
          let raw = part_text L p; ct = bp_content_type p;
              txt = (if param_is ''format'' ''flowed'' ct
                     then unflow raw (param_is ''delsp'' ''yes'' ct) else raw)
          in (case strip_clearsign txt of Some t \<Rightarrow> t | None \<Rightarrow> txt))"

definition art_is_signed :: "libs \<Rightarrow> article \<Rightarrow> bool" where
  "art_is_signed L a \<longleftrightarrow> is_signed (art_body_part L a) \<or>
     list_ex (starts_with ''-----BEGIN PGP SIGNED MESSAGE-----'') (art_body a)"

definition attachments :: "libs \<Rightarrow> article \<Rightarrow> string list" where
  "attachments L a = map (\<lambda>(_, p). part_summary L p) (other_parts L (art_body_part L a))"

end
