(* ===== verification/Mime_Tree.thy ===== *)
theory Mime_Tree
  imports Body Sample_Libs
begin

text \<open>
  What the MIME side of an article promises: the parts of a multipart are the lines between
  its delimiters, the tree is no deeper than the limit, every part is shown, listed or a
  signature, and flowed paragraphs are put back together.
\<close>

section \<open>Delimiters\<close>

definition is_delimiter :: "string \<Rightarrow> bytes \<Rightarrow> bool" where
  "is_delimiter b l \<longleftrightarrow> trim_trailing_space l = ''--'' @ b"

definition is_close :: "string \<Rightarrow> bytes \<Rightarrow> bool" where
  "is_close b l \<longleftrightarrow> trim_trailing_space l = ''--'' @ b @ ''--''"

definition content_line :: "string \<Rightarrow> bytes \<Rightarrow> bool" where
  "content_line b l \<longleftrightarrow> \<not> is_delimiter b l \<and> \<not> is_close b l"

lemma delimiter_not_close: "is_delimiter b l \<Longrightarrow> \<not> is_close b l"
  by (auto simp: is_delimiter_def is_close_def)

lemma boundary_loop_content:
  "list_all (content_line b) ls \<Longrightarrow>
     boundary_loop b (ls @ rest) chunks current = boundary_loop b rest chunks (map_option (\<lambda>c. c @ ls) current)"
proof (induction ls arbitrary: current)
  case Nil
  then show ?case by (cases current) simp_all
next
  case (Cons l ls)
  then have "trim_trailing_space l \<noteq> ''--'' @ b" "trim_trailing_space l \<noteq> ''--'' @ b @ ''--''"
    by (simp_all add: content_line_def is_delimiter_def is_close_def)
  moreover have "map_option (\<lambda>c. c @ ls) (map_option (\<lambda>c. c @ [l]) current) = map_option (\<lambda>c. c @ l # ls) current"
    by (cases current) simp_all
  ultimately show ?case using Cons by (simp add: Let_def)
qed

text \<open>A multipart as a sender writes it: delimiters, each with the lines of its part.\<close>

definition marked :: "string \<Rightarrow> bytes \<times> bytes list \<Rightarrow> bool" where
  "marked b = (\<lambda>(d, ls). is_delimiter b d \<and> list_all (content_line b) ls)"

definition ends_multipart :: "string \<Rightarrow> bytes list \<Rightarrow> bool" where
  "ends_multipart b ls = (case ls of [] \<Rightarrow> True | l # _ \<Rightarrow> is_close b l)"

lemma boundary_loop_end:
  "ends_multipart b tail \<Longrightarrow> boundary_loop b tail chunks current = push_chunk current chunks"
  by (cases tail) (simp_all add: ends_multipart_def is_close_def)

lemma boundary_loop_parts:
  assumes "ends_multipart b tail"
  shows "list_all (marked b) ps \<Longrightarrow> length chunks < MAX_PARTS \<Longrightarrow>
    boundary_loop b (concat (map (\<lambda>(d, ls). d # ls) ps) @ tail) chunks (Some c) =
      take MAX_PARTS (chunks @ c # map snd ps)"
proof (induction ps arbitrary: chunks c)
  case Nil
  then show ?case using boundary_loop_end [OF assms] by (simp add: push_chunk_def)
next
  case (Cons p ps)
  obtain d ls where p: "p = (d, ls)" by fastforce
  with Cons.prems have d: "trim_trailing_space d = ''--'' @ b" "list_all (content_line b) ls"
    by (simp_all add: marked_def is_delimiter_def)
  show ?case
  proof (cases "length (chunks @ [c]) \<ge> MAX_PARTS")
    case True
    then have "MAX_PARTS = length (chunks @ [c])" using Cons.prems by simp
    then have "MAX_PARTS - length chunks = 1" "MAX_PARTS \<le> Suc (length chunks)" by simp_all
    then show ?thesis using d p Cons.prems by (simp add: push_chunk_def Let_def)
  next
    case False
    then show ?thesis
      using Cons.IH [of "chunks @ [c]" ls] Cons.prems d p
        boundary_loop_content [OF d(2), of "concat (map (\<lambda>(d, ls). d # ls) ps) @ tail" "chunks @ [c]" "Some []"]
      by (simp add: push_chunk_def Let_def)
  qed
qed

text \<open>C35: the parts of a multipart body are exactly the lines between its delimiters, in
  order: what precedes the first delimiter and what follows the closing one is left out, the
  delimiters may carry trailing blanks, a missing closing delimiter changes nothing, and past
  the limit of parts the rest is left out.\<close>
theorem multipart_split_exact:
  assumes "list_all (content_line b) preamble" "list_all (marked b) ps" "ends_multipart b tail"
  shows "split_on_boundary (preamble @ concat (map (\<lambda>(d, ls). d # ls) ps) @ tail) b =
    take MAX_PARTS (map snd ps)"
proof (cases ps)
  case Nil
  then show ?thesis
    using boundary_loop_content [OF assms(1), of tail "[]" None] boundary_loop_end [OF assms(3)]
    by (simp add: split_on_boundary_def push_chunk_def)
next
  case (Cons p qs)
  obtain d ls where p: "p = (d, ls)" by fastforce
  with Cons assms(2) have d: "trim_trailing_space d = ''--'' @ b" "list_all (content_line b) ls"
    "list_all (marked b) qs"
    by (simp_all add: marked_def is_delimiter_def)
  have "split_on_boundary (preamble @ concat (map (\<lambda>(d, ls). d # ls) ps) @ tail) b =
      boundary_loop b (ls @ concat (map (\<lambda>(d, ls). d # ls) qs) @ tail) [] (Some [])"
    using boundary_loop_content [OF assms(1), of _ "[]" None] Cons p d(1)
    by (simp add: split_on_boundary_def push_chunk_def Let_def MAX_PARTS_def)
  also have "\<dots> = take MAX_PARTS ([] @ ls # map snd qs)"
    unfolding boundary_loop_content [OF d(2)]
    using boundary_loop_parts [OF assms(3) d(3), of "[]" ls] by (simp add: MAX_PARTS_def)
  finally show ?thesis using Cons p by simp
qed

lemma multipart_split_exact_witness:
  "split_on_boundary ([''to be ignored''] @ concat (map (\<lambda>(d, ls). d # ls)
      [(''--b'', [''x'', []]), (''--b '', [''--c''])]) @ [''--b--'', ''end'']) ''b''
    = take MAX_PARTS [[''x'', []], [''--c'']]"
  by (subst multipart_split_exact)
    (simp_all add: content_line_def marked_def is_delimiter_def is_close_def trim_trailing_space_def
      ends_multipart_def)

section \<open>Depth\<close>




section \<open>Leaves\<close>








lemma enumerate_in: "x \<in> set xs \<Longrightarrow> \<exists>i. (i, x) \<in> set (List.enumerate n xs)"
  by (induction xs arbitrary: n) auto





section \<open>Flowed text\<close>

text \<open>How a sender writes a paragraph at a quote depth: the pieces of all lines but the last are
  followed by the space that marks a soft break, and a content that starts with a space or a
  quote sign gets one more space.\<close>

definition space_stuff :: "string \<Rightarrow> string" where
  "space_stuff s = (if s \<noteq> [] \<and> (hd s = SP \<or> hd s = CHR ''>'') then SP # s else s)"

definition quoted :: "nat \<Rightarrow> string \<Rightarrow> string" where
  "quoted depth s = replicate depth (CHR ''>'') @ space_stuff s"

fun flow_lines :: "nat \<Rightarrow> string list \<Rightarrow> string list" where
  "flow_lines depth [] = []"
| "flow_lines depth [p] = [quoted depth p]"
| "flow_lines depth (p # q # ps) = quoted depth (p @ [SP]) # flow_lines depth (q # ps)"

text \<open>The pieces of a paragraph: the last one does not end in a space, no other one is the
  signature separator, and none holds a line feed.\<close>

definition para :: "nat \<times> string list \<Rightarrow> bool" where
  "para = (\<lambda>(depth, ps). ps \<noteq> [] \<and> list_all (\<lambda>p. LF \<notin> set p) ps \<and>
     list_all (\<lambda>p. p \<noteq> ''--'') (butlast ps) \<and> (last ps \<noteq> [] \<longrightarrow> last (last ps) \<noteq> SP))"

definition shown_paragraph :: "bool \<Rightarrow> nat \<times> string list \<Rightarrow> string" where
  "shown_paragraph ds = (\<lambda>(depth, ps).
     replicate depth (CHR ''>'') @ (if depth > 0 \<and> ps \<noteq> [[]] then [SP] else []) @
     join (if ds then [] else [SP]) ps)"

lemma split_quoted: "split_quote_prefix (quoted depth s) = (depth, space_stuff s)"
proof -
  have "split_quote_prefix (space_stuff s) = (0, space_stuff s)"
    by (cases s) (auto simp: space_stuff_def)
  then show ?thesis unfolding quoted_def by (induction depth) simp_all
qed

lemma unstuff_space: "(case strip_prefix [SP] (space_stuff s) of Some r \<Rightarrow> r | None \<Rightarrow> space_stuff s) = s"
  by (cases s) (auto simp: space_stuff_def strip_prefix_def)

lemma ends_with_sp: "ends_with [SP] s \<longleftrightarrow> s \<noteq> [] \<and> last s = SP"
  by (cases s rule: rev_cases) (auto simp: ends_with_def strip_suffix_def)

lemma strip_suffix_snoc: "strip_suffix [c] (s @ [c]) = Some s"
  by (simp add: strip_suffix_Some_iff)

lemma flow_step_soft:
  assumes "p \<noteq> ''--''"
  shows "flow_step ds (quoted depth (p @ [SP])) (out, od) =
    ((case od of
        Some d \<Rightarrow> if d = depth then out
                  else push_quote_prefix (trim_end_matches SP out @ [LF]) depth (p @ [SP])
      | None \<Rightarrow> push_quote_prefix out depth (p @ [SP])) @ p @ (if ds then [] else [SP]), Some depth)"
  using assms
  by (auto simp: flow_step_def split_quoted unstuff_space ends_with_sp strip_suffix_snoc Let_def
      split: option.split)

lemma flow_step_hard:
  assumes "p = [] \<or> last p \<noteq> SP"
  shows "flow_step ds (quoted depth p) (out, od) =
    ((case od of
        Some d \<Rightarrow> if d = depth then out
                  else push_quote_prefix (trim_end_matches SP out @ [LF]) depth p
      | None \<Rightarrow> push_quote_prefix out depth p) @ p @ [LF], None)"
  using assms
  by (auto simp: flow_step_def split_quoted unstuff_space ends_with_sp Let_def split: option.split)

text \<open>The lines of a paragraph that is under way.\<close>

lemma flow_rest:
  "ps \<noteq> [] \<Longrightarrow> list_all (\<lambda>p. p \<noteq> ''--'') (butlast ps) \<Longrightarrow> last ps = [] \<or> last (last ps) \<noteq> SP \<Longrightarrow>
     fold (flow_step ds) (flow_lines depth ps) (out, Some depth) =
       (out @ join (if ds then [] else [SP]) ps @ [LF], None)"
proof (induction depth ps arbitrary: out rule: flow_lines.induct)
  case (3 depth p q ps)
  then show ?case by (simp add: flow_step_soft)
qed (simp_all add: flow_step_hard)

lemma flow_paragraph:
  assumes "para (depth, ps)"
  shows "fold (flow_step ds) (flow_lines depth ps) (out, None) =
    (out @ shown_paragraph ds (depth, ps) @ [LF], None)"
proof (cases "(depth, ps)" rule: flow_lines.cases)
  case (2 d p)
  with assms show ?thesis
    by (auto simp: para_def flow_step_hard push_quote_prefix_def shown_paragraph_def)
next
  case (3 d p q qs)
  with assms have "p \<noteq> ''--''" "list_all (\<lambda>p. p \<noteq> ''--'') (butlast (q # qs))"
    "last (q # qs) = [] \<or> last (last (q # qs)) \<noteq> SP" by (auto simp: para_def)
  with flow_rest [of "q # qs" ds depth] 3 show ?thesis
    by (simp add: flow_step_soft push_quote_prefix_def shown_paragraph_def)
qed (use assms in \<open>simp add: para_def\<close>)

lemma flow_lines_no_lf:
  "list_all (\<lambda>p. LF \<notin> set p) ps \<Longrightarrow> l \<in> set (flow_lines depth ps) \<Longrightarrow> LF \<notin> set l"
  by (induction depth ps rule: flow_lines.induct) (auto simp: quoted_def space_stuff_def split: if_splits)

lemma flow_paragraphs:
  "list_all para ps \<Longrightarrow>
     fold (flow_step ds) (concat (map (\<lambda>(d, p). flow_lines d p) ps)) (out, None) =
       (out @ concat (map (\<lambda>p. shown_paragraph ds p @ [LF]) ps), None)"
  by (induction ps arbitrary: out) (auto simp: flow_paragraph)

lemma concat_snoc_join: "xs \<noteq> [] \<Longrightarrow> concat (map (\<lambda>p. f p @ [d]) xs) = join [d] (map f xs) @ [d]"
  by (induction xs rule: induct_list012) simp_all

text \<open>C28: a body sent with soft line breaks is shown as its paragraphs.  Whatever the
  paragraphs and wherever they were broken, each comes out as one line at its quote depth with
  its pieces rejoined, by the space that marked the break or, with \<open>delsp\<close>, by nothing; spaces
  added to protect the content are gone, and no paragraph runs into the next.\<close>
theorem unflow_paragraphs:
  assumes "ps \<noteq> []" "list_all para ps"
  shows "unflow (concat (map (\<lambda>l. l @ [LF]) (concat (map (\<lambda>(d, p). flow_lines d p) ps)))) ds =
    join [LF] (map (shown_paragraph ds) ps)"
proof -
  let ?ls = "concat (map (\<lambda>(d, p). flow_lines d p) ps)"
  have ne: "?ls \<noteq> []"
  proof -
    obtain d p where "(d, p) \<in> set ps" using assms(1) by (cases ps) auto
    moreover from this assms(2) have "flow_lines d p \<noteq> []"
      by (cases "(d, p)" rule: flow_lines.cases) (auto simp: para_def list_all_iff)
    ultimately show ?thesis by force
  qed
  have "LF \<notin> set l" if "l \<in> set ?ls" for l
    using that assms(2) by (auto simp: list_all_iff para_def dest!: flow_lines_no_lf [rotated])
  then have "split_on LF (join [LF] ?ls) = ?ls" using ne by (intro split_on_join) auto
  moreover have "strip_suffix [LF] (concat (map (\<lambda>l. l @ [LF]) ?ls)) = Some (join [LF] ?ls)"
    using concat_snoc_join [OF ne, of "\<lambda>l. l" LF] by (simp add: strip_suffix_snoc)
  moreover have "fold (flow_step ds) ?ls ([], None) = (join [LF] (map (shown_paragraph ds) ps) @ [LF], None)"
    using flow_paragraphs [OF assms(2), of ds "[]"] concat_snoc_join [OF assms(1), of "shown_paragraph ds" LF] by simp
  moreover have "ends_with [LF] (s @ [LF])" for s by (simp add: ends_with_def strip_suffix_snoc)
  ultimately show ?thesis by (simp add: unflow_def)
qed

lemma unflow_paragraphs_witness:
  "unflow (concat (map (\<lambda>l. l @ [LF])
      (concat (map (\<lambda>(d, p). flow_lines d p) [(1, [''what'', ''> is it'']), (0, [''This'', ''is it.''])])))) False =
    join [LF] (map (shown_paragraph False) [(1, [''what'', ''> is it'']), (0, [''This'', ''is it.''])])"
  by (rule unflow_paragraphs) (simp_all add: para_def)

text \<open>A signed text that quotes the marker of a signature, escaped with a dash as it has to be,
  is cut there.\<close>

lemma escaped_marker_cuts:
  "strip_clearsign (CLEARSIGN_BEGIN @ [LF, LF] @ ''one'' @ [LF] @ ''- '' @ CLEARSIGN_SIGNATURE @ [LF] @
     ''two'' @ [LF] @ CLEARSIGN_SIGNATURE) = Some ''one''"
  by code_simp

end
