(* ===== verification/Post_Draft.thy ===== *)
theory Post_Draft
  imports Article Thread Sample_Libs
begin

text \<open>
  \<open>crates/nntp-proto/src/post.rs\<close>: an article on its way out.  A draft read from an editor's
  text, what is wrong with it, the lines it is sent as, and the draft of a follow-up.
\<close>

section \<open>Problems\<close>

definition SERVER_OWNED :: "string list" where
  "SERVER_OWNED = [''path'', ''xref'', ''lines'', ''bytes'']"

definition REQUIRED :: "string list" where
  "REQUIRED = [''from'', ''newsgroups'', ''subject'']"

datatype problem =
    MissingHeader string
  | MalformedHeader string
  | BadHeaderName string
  | ServerOwnedHeader string
  | NoNewsgroups
  | EmptyBody

fun show_problem :: "problem \<Rightarrow> string" where
  "show_problem (MissingHeader name) = name @ '' is missing''"
| "show_problem (MalformedHeader line) = ''not a header line: '' @ line"
| "show_problem (BadHeaderName name) = ''not a header name: '' @ name"
| "show_problem (ServerOwnedHeader name) = name @ '' is set by the server, not by the poster''"
| "show_problem NoNewsgroups = ''Newsgroups names no group''"
| "show_problem EmptyBody = ''the article has no body''"

definition canonical :: "string \<Rightarrow> string" where
  "canonical lowercase =
     (if lowercase = ''from'' then ''From''
      else if lowercase = ''newsgroups'' then ''Newsgroups''
      else if lowercase = ''subject'' then ''Subject''
      else ''a required header'')"

section \<open>Drafts\<close>

record draft =
  d_headers :: "(string \<times> string) list"
  d_body :: string

definition draft_empty :: draft where
  "draft_empty = \<lparr>d_headers = [], d_body = []\<rparr>"

text \<open>The loop that collects header lines up to the first blank one, joining continuations.\<close>

fun unfold_loop :: "string list \<Rightarrow> string list \<Rightarrow> string list" where
  "unfold_loop [] unfolded = unfolded"
| "unfold_loop (line # rest) unfolded =
     (if trim line = [] then unfolded
      else if (hd line = SP \<or> hd line = TAB) \<and> unfolded \<noteq> []
      then unfold_loop rest (butlast unfolded @ [last unfolded @ SP # trim line])
      else unfold_loop rest (unfolded @ [line]))"

definition draft_header :: "string \<Rightarrow> string \<times> string" where
  "draft_header line =
     (case split_once (CHR '':'') line of
        Some (name, value) \<Rightarrow> (trim name, trim value) | None \<Rightarrow> ([], line))"

definition draft_parse :: "string \<Rightarrow> draft" where
  "draft_parse input =
     (let text' = map (\<lambda>c. if c = CR then LF else c) (unix_newlines input)
      in \<lparr>d_headers = map draft_header (unfold_loop (split_on LF text') []),
          d_body = (case split_once_str [LF, LF] text' of Some (_, body) \<Rightarrow> body | None \<Rightarrow> [])\<rparr>)"

definition header_is :: "string \<Rightarrow> string \<times> string \<Rightarrow> bool" where
  "header_is name = (\<lambda>(field, _). eq_ignore_ascii_case field name)"

definition header :: "string \<Rightarrow> draft \<Rightarrow> string option" where
  "header name d = map_option snd (List.find (header_is name) (d_headers d))"

definition set_header :: "string \<Rightarrow> string \<Rightarrow> draft \<Rightarrow> draft" where
  "set_header name value d =
     (case position (header_is name) (d_headers d) of
        Some i \<Rightarrow> d\<lparr>d_headers := (d_headers d)[i := (fst (d_headers d ! i), value)]\<rparr>
      | None \<Rightarrow> d\<lparr>d_headers := d_headers d @ [(name, value)]\<rparr>)"

definition draft_newsgroups :: "draft \<Rightarrow> string list" where
  "draft_newsgroups d =
     filter (\<lambda>g. g \<noteq> []) (map trim (split_on (CHR '','')
       (case header ''Newsgroups'' d of Some v \<Rightarrow> v | None \<Rightarrow> [])))"

definition header_problems :: "string \<times> string \<Rightarrow> problem list" where
  "header_problems = (\<lambda>(name, value).
     if name = [] then [MalformedHeader value]
     else if isl (header_name_parse name) then [BadHeaderName name]
     else if list_ex (eq_ignore_ascii_case name) SERVER_OWNED then [ServerOwnedHeader name]
     else [])"

definition missing :: "draft \<Rightarrow> string \<Rightarrow> problem list" where
  "missing d required =
     (case header required d of
        Some v \<Rightarrow> if trim v \<noteq> [] then [] else [MissingHeader (canonical required)]
      | None \<Rightarrow> [MissingHeader (canonical required)])"

definition problems :: "draft \<Rightarrow> problem list" where
  "problems d =
     concat (map header_problems (d_headers d)) @
     concat (map (missing d) REQUIRED) @
     (if header ''Newsgroups'' d \<noteq> None \<and> draft_newsgroups d = [] then [NoNewsgroups] else []) @
     (if trim (d_body d) = [] then [EmptyBody] else [])"

section \<open>The lines that are sent\<close>

definition mime_lines :: "draft \<Rightarrow> bytes list" where
  "mime_lines d =
     (if list_all is_ascii (d_body d) then []
      else (if header ''MIME-Version'' d = None then [''MIME-Version: 1.0''] else []) @
           (if header ''Content-Type'' d = None
            then [''Content-Type: text/plain; charset=utf-8''] else []) @
           (if header ''Content-Transfer-Encoding'' d = None
            then [''Content-Transfer-Encoding: 8bit''] else []))"

text \<open>Empty lines at the end go, down to one line.\<close>

function pop_empty :: "bytes list \<Rightarrow> bytes list" where
  "pop_empty ls = (if ls \<noteq> [] \<and> last ls = [] \<and> length ls > 1 then pop_empty (butlast ls) else ls)"
  by pat_completeness auto
termination
  by (relation "measure length") auto

declare pop_empty.simps [simp del]

definition body_lines :: "string \<Rightarrow> bytes list" where
  "body_lines body = map (trim_end_matches CR) (split_on LF (unix_newlines body))"

definition to_lines :: "libs \<Rightarrow> draft \<Rightarrow> bytes list proto_result" where
  "to_lines L d =
     (if problems d \<noteq> [] then Inl (UnpostableDraft (join ''; '' (map show_problem (problems d))))
      else Inr (pop_empty
        (map (\<lambda>(name, value). name @ '': '' @ encode_header_value L value) (d_headers d) @
         mime_lines d @ [[]] @ body_lines (d_body d))))"

section \<open>Follow-ups\<close>

record follow_up =
  fu_message_id :: "message_id option"
  fu_references :: "message_id list"
  fu_subject :: string
  fu_author :: string
  fu_newsgroups :: "string list"
  fu_body :: string

definition quote_line :: "string \<Rightarrow> string" where
  "quote_line line =
     (if line \<noteq> [] \<and> hd line = CHR ''>'' then CHR ''>'' # line @ [LF]
      else if line = [] then [CHR ''>'', LF]
      else ''> '' @ line @ [LF])"

definition quote :: "string \<Rightarrow> string \<Rightarrow> string" where
  "quote author body =
     (if trim author \<noteq> [] then trim author @ '' wrote:'' @ [LF] else []) @
     concat (map quote_line (takeWhile (\<lambda>l. l \<noteq> ''-- '') (split_on LF (unix_newlines body)))) @
     [LF]"

definition reply_subject :: "string \<Rightarrow> string" where
  "reply_subject s =
     (let subject = trim s
      in if snd (normalise_subject subject) then subject else ''Re: '' @ subject)"

definition reply_references :: "follow_up \<Rightarrow> string list" where
  "reply_references p =
     map mid_str (fu_references p) @
     (case fu_message_id p of Some m \<Rightarrow> [mid_str m] | None \<Rightarrow> [])"

definition follow_up :: "follow_up \<Rightarrow> string \<Rightarrow> draft" where
  "follow_up p from' =
     (let d1 = set_header ''From'' from' draft_empty;
          d2 = set_header ''Newsgroups'' (join '','' (fu_newsgroups p)) d1;
          d3 = set_header ''Subject'' (reply_subject (fu_subject p)) d2;
          refs = reply_references p;
          d4 = (if refs \<noteq> [] then set_header ''References'' (join [SP] refs) d3 else d3)
      in d4\<lparr>d_body := quote (fu_author p) (fu_body p)\<rparr>)"

end
