(* ===== verification/Posting.thy ===== *)
theory Posting
  imports Post_Draft Thread_Build
begin

text \<open>
  What posting promises: the text of a draft is read as it was written, the lines that are
  sent are read back as the article that was composed, and a follow-up joins the thread of the
  article it answers.
\<close>

section \<open>The lines of a draft\<close>

definition chop :: "bytes list \<Rightarrow> bytes list" where
  "chop ls = rev (dropWhile (\<lambda>l. l = []) (rev ls))"

lemma chop_snoc: "chop (ls @ [l]) = (if l = [] then chop ls else ls @ [l])"
  by (simp add: chop_def)

lemma pop_empty_chop: "list_ex (\<lambda>l. l \<noteq> []) ls \<Longrightarrow> pop_empty ls = chop ls"
proof (induction ls rule: pop_empty.induct)
  case (1 ls)
  then have "ls \<noteq> []" by auto
  then obtain ks l where ls: "ls = ks @ [l]" by (cases ls rule: rev_cases) auto
  show ?case
  proof (cases "l = []")
    case True
    with 1 ls have "ks \<noteq> []" "list_ex (\<lambda>l. l \<noteq> []) ks" by auto
    with 1 ls True show ?thesis by (subst pop_empty.simps) (simp add: chop_snoc)
  next
    case False
    with ls show ?thesis by (subst pop_empty.simps) (simp add: chop_snoc)
  qed
qed

lemma chop_append: "list_ex (\<lambda>l. l \<noteq> []) b \<Longrightarrow> chop (a @ b) = a @ chop b"
proof (induction b rule: rev_induct)
  case (snoc l b)
  then show ?case using chop_snoc [of "a @ b" l] by (auto simp: chop_snoc)
qed simp

text \<open>Trimmed of its final newlines, a text is its lines without the empty ones at the end.\<close>

lemma split_on_snoc:
  "split_on d (s @ [c]) =
     (if c = d then split_on d s @ [[]] else butlast (split_on d s) @ [last (split_on d s) @ [c]])"
  by (induction s) (auto split: list.splits)

lemma join_chop: "join [LF] (chop (split_on LF s)) = trim_end_matches LF s"
proof (induction s rule: rev_induct)
  case (snoc c s)
  show ?case
  proof (cases "c = LF")
    case True
    with snoc show ?thesis by (simp add: split_on_snoc chop_snoc trim_end_matches_def)
  next
    case False
    then have "chop (split_on LF (s @ [c])) = split_on LF (s @ [c])"
      by (simp add: split_on_snoc chop_snoc)
    with False show ?thesis by (simp add: join_split_on trim_end_matches_def)
  qed
qed (simp add: chop_def trim_end_matches_def)

lemma trim_newlines: "set s \<subseteq> {CR, LF} \<Longrightarrow> trim s = []"
proof -
  have "set s \<subseteq> {CR, LF} \<Longrightarrow> trim_start s = []"
    by (induction s rule: trim_start.induct) (auto simp: uws1_def)
  then show "set s \<subseteq> {CR, LF} \<Longrightarrow> trim s = []" by (simp add: trim_def trim_end_def)
qed

lemma unix_newlines_keeps: "c \<in> set s \<Longrightarrow> c \<notin> {CR, LF} \<Longrightarrow> c \<in> set (unix_newlines s)"
  unfolding unix_newlines_def
proof (induction "[CR, LF]" "[LF]" s rule: replace_all.induct)
  case (2 a s)
  show ?case
  proof (cases "starts_with [CR, LF] (a # s)")
    case True
    then obtain t where "a = CR" "s = LF # t" by (cases s) (auto simp: starts_with_def)
    with 2 True show ?thesis by (auto simp: replace_all.simps(2))
  next
    case False
    with 2 show ?thesis by (auto simp: replace_all.simps(2))
  qed
qed simp

lemma in_piece: "c \<in> set s \<Longrightarrow> c \<noteq> d \<Longrightarrow> \<exists>p \<in> set (split_on d s). c \<in> set p"
  by (induction s) (auto split: list.splits)

lemma body_lines_nonempty:
  assumes "trim body \<noteq> []"
  shows "list_ex (\<lambda>l. l \<noteq> []) (body_lines body)"
proof -
  obtain c where c: "c \<in> set body" "c \<notin> {CR, LF}" using trim_newlines [of body] assms by auto
  then obtain p where p: "p \<in> set (split_on LF (unix_newlines body))" "c \<in> set p"
    using in_piece [OF unix_newlines_keeps [OF c], of LF] by auto
  have "trim_end_matches CR p \<noteq> []"
    using p(2) c(2) by (auto simp: trim_end_matches_def dropWhile_eq_Nil_conv)
  with p(1) show ?thesis by (auto simp: body_lines_def list_ex_iff)
qed

lemma to_lines_Inr:
  assumes "to_lines L d = Inr ls"
  shows "problems d = []"
    and "ls = map (\<lambda>(name, value). name @ '': '' @ encode_header_value L value) (d_headers d) @
      mime_lines d @ [] # chop (body_lines (d_body d))"
proof -
  show p: "problems d = []" using assms by (auto simp: to_lines_def split: if_splits)
  then have "trim (d_body d) \<noteq> []" by (auto simp: problems_def)
  from body_lines_nonempty [OF this]
  have ne: "list_ex (\<lambda>l. l \<noteq> []) (body_lines (d_body d))" .
  then show "ls = map (\<lambda>(name, value). name @ '': '' @ encode_header_value L value) (d_headers d) @
      mime_lines d @ [] # chop (body_lines (d_body d))"
    using assms p chop_append [OF ne, of "map (\<lambda>(name, value). name @ '': '' @ encode_header_value L value) (d_headers d) @ mime_lines d @ [[]]"]
    by (auto simp: to_lines_def pop_empty_chop)
qed

section \<open>Headers\<close>

text \<open>The header fields a draft is sent with: its own, encoded, and those that say the body is
  UTF-8 when it is not ASCII.\<close>

definition sent_fields :: "libs \<Rightarrow> draft \<Rightarrow> (string \<times> bytes) list" where
  "sent_fields L d =
     map (\<lambda>(name, value). (name, encode_header_value L value)) (d_headers d) @
     (if list_all is_ascii (d_body d) then []
      else filter (\<lambda>(name, _). header name d = None)
        [(''MIME-Version'', ''1.0''), (''Content-Type'', ''text/plain; charset=utf-8''),
         (''Content-Transfer-Encoding'', ''8bit'')])"

definition clean_ends :: "bytes \<Rightarrow> bool" where
  "clean_ends v \<longleftrightarrow> v = [] \<or> hd v \<notin> {SP, TAB} \<and> last v \<notin> {SP, TAB}"

lemma sent_fields_lines:
  "map (\<lambda>(name, value). name @ '': '' @ encode_header_value L value) (d_headers d) @ mime_lines d =
     map (\<lambda>(name, value). name @ '': '' @ value) (sent_fields L d)"
  by (simp add: sent_fields_def mime_lines_def case_prod_unfold)

lemma header_problems_none:
  "header_problems (n, v) = [] \<Longrightarrow> valid_field_name (HeaderName n)"
  by (auto simp: header_problems_def valid_field_name_def header_name_parse_Inr split: if_splits)
    (auto simp: header_name_parse_def split: if_splits)

lemma sent_fields_ok:
  assumes "problems d = []" "list_all (\<lambda>(_, v). clean_ends (encode_header_value L v)) (d_headers d)"
    and "(n, v) \<in> set (sent_fields L d)"
  shows "field_ok (n, v, [])" "trim_value (HeaderValue v) = HeaderValue v" "n \<noteq> []"
proof -
  have own: "valid_field_name (HeaderName name)" if "(name, val) \<in> set (d_headers d)" for name val
    by (rule header_problems_none [of _ val]) (use assms(1) that in \<open>auto simp: problems_def\<close>)
  consider (own) val where "(n, val) \<in> set (d_headers d)" "v = encode_header_value L val"
    | (mime) "(n, v) \<in> {(''MIME-Version'', ''1.0''), (''Content-Type'', ''text/plain; charset=utf-8''),
         (''Content-Transfer-Encoding'', ''8bit'')}"
    using assms(3) by (auto simp: sent_fields_def split: if_splits)
  then have "valid_field_name (HeaderName n) \<and> clean_ends v"
  proof cases
    case own
    with assms(2) show ?thesis using \<open>\<And>name val. (name, val) \<in> set (d_headers d) \<Longrightarrow> valid_field_name (HeaderName name)\<close>
      by (auto simp: list_all_iff)
  next
    case mime
    then show ?thesis
      by (auto simp: clean_ends_def valid_field_name_def header_name_parse_def is_ascii_graphic_def)
  qed
  then show "field_ok (n, v, [])" "trim_value (HeaderValue v) = HeaderValue v" "n \<noteq> []"
    by (cases v rule: rev_cases; auto simp: field_ok_def clean_ends_def trim_value_def valid_field_name_def header_name_parse_Inr)+
qed

lemma to_lines_read_back:
  assumes "memchr_ok L" "to_lines L d = Inr ls" "CR \<notin> set (d_body d)"
    and "list_all (\<lambda>(_, v). clean_ends (encode_header_value L v)) (d_headers d)"
  shows "art_headers (article_from_block L (from_lines ls)) =
      \<lparr>entries = map (\<lambda>(n, v). (HeaderName n, HeaderValue v)) (sent_fields L d), malformed = []\<rparr> \<and>
    join [LF] (art_body (article_from_block L (from_lines ls))) = trim_end_matches LF (d_body d)"
proof -
  note pr = to_lines_Inr [OF assms(2)]
  let ?hs = "map (\<lambda>(name, value). name @ '': '' @ value) (sent_fields L d)"
  have ls: "ls = ?hs @ [] # chop (body_lines (d_body d))"
    using pr(2) sent_fields_lines [of L d] by simp
  have "[] \<notin> set ?hs" by auto
  then have pos: "position (\<lambda>l. l = []) ls = Some (length ?hs)"
    unfolding ls by (intro position_append) auto
  have "parse_lines_loop L (concat (map field_lines (map (\<lambda>(n, v). (n, v, [])) (sent_fields L d))) @ []) headers_new =
      parse_lines_loop L [] (headers_new\<lparr>entries := entries headers_new @ map (\<lambda>(name, first, conts).
         (HeaderName name, HeaderValue (first @ concat conts))) (map (\<lambda>(n, v). (n, v, [])) (sent_fields L d))\<rparr>)"
    by (rule parse_fields [OF assms(1)]) (use sent_fields_ok(1) [OF pr(1) assms(4)] in auto)
  moreover have "concat (map field_lines (map (\<lambda>(n, v). (n, v, [])) fs)) = map (\<lambda>(name, value). name @ '': '' @ value) fs"
    for fs by (induction fs) (auto simp: field_lines_def)
  ultimately have "parse_lines_loop L ?hs headers_new =
      \<lparr>entries = map (\<lambda>(n, v). (HeaderName n, HeaderValue v)) (sent_fields L d), malformed = []\<rparr>"
    by (simp add: headers_new_def case_prod_unfold comp_def)
  then have "parse_lines L ?hs =
      \<lparr>entries = map (\<lambda>(n, v). (HeaderName n, HeaderValue v)) (sent_fields L d), malformed = []\<rparr>"
    using sent_fields_ok(2) [OF pr(1) assms(4)]
    by (auto simp: parse_lines_def)
  moreover have "split_head_body (from_lines ls) = (?hs, chop (body_lines (d_body d)))"
    using pos by (simp add: split_head_body_def from_lines_def slice_or_empty_def) (simp add: ls)
  moreover have "body_lines (d_body d) = split_on LF (d_body d)"
  proof -
    have "trim_end_matches CR p = p" if "p \<in> set (split_on LF (d_body d))" for p
    proof -
      have "CR \<notin> set p" using that split_by_subset assms(3) by fastforce
      then show ?thesis by (cases p rule: rev_cases) (auto simp: trim_end_matches_def)
    qed
    then show ?thesis using assms(3) by (simp add: body_lines_def unix_newlines_id map_idI)
  qed
  ultimately show ?thesis by (simp add: article_from_block_def join_chop)
qed

text \<open>what is posted is what was composed.  When a draft is accepted, the article a reader
  makes of the lines that are sent has the headers of the draft, in order, with the values as
  encoded for the wire, and the headers that declare UTF-8 exactly when the body needs them and
  the draft has none; no line is malformed, and the body is the body of the draft without the
  newlines at its end.\<close>
theorem draft_is_posted:
  assumes "memchr_ok L" "to_lines L d = Inr ls" "CR \<notin> set (d_body d)"
    and "list_all (\<lambda>(_, v). clean_ends (encode_header_value L v)) (d_headers d)"
  shows "art_headers (article_from_block L (from_lines ls)) =
      \<lparr>entries = map (\<lambda>(n, v). (HeaderName n, HeaderValue v)) (sent_fields L d), malformed = []\<rparr> \<and>
    join [LF] (art_body (article_from_block L (from_lines ls))) = trim_end_matches LF (d_body d)"
  using assms by (rule to_lines_read_back)

lemma split_on_piece: "p \<in> set (split_on d s) \<Longrightarrow> d \<notin> set p"
  by (auto dest!: split_by_pieces simp: list_all_iff)

lemma draft_is_posted_witness:
  "\<exists>ls. to_lines sample_libs \<lparr>d_headers = [(''From'', ''a''), (''Newsgroups'', ''b''), (''Subject'', ''c'')],
       d_body = ''text'' @ [LF]\<rparr> = Inr ls \<and>
     join [LF] (art_body (article_from_block sample_libs (from_lines ls))) = ''text''"
proof -
  let ?d = "\<lparr>d_headers = [(''From'', ''a''), (''Newsgroups'', ''b''), (''Subject'', ''c'')], d_body = ''text'' @ [LF]\<rparr>"
  have "\<not> isl (to_lines sample_libs ?d)" by code_simp
  then obtain ls where ls: "to_lines sample_libs ?d = Inr ls" by (cases "to_lines sample_libs ?d") auto
  from draft_is_posted [OF sample_libs_ok(1) ls] ls show ?thesis
    by (auto simp: encode_header_value_def is_ascii_def clean_ends_def trim_end_matches_def)
qed

section \<open>Reading a draft\<close>

definition plain_header :: "string \<times> string \<Rightarrow> bool" where
  "plain_header = (\<lambda>(n, v). valid_field_name (HeaderName n) \<and> trim v = v \<and> set v \<inter> {CR, LF} = {})"

definition header_line :: "string \<times> string \<Rightarrow> string" where
  "header_line = (\<lambda>(n, v). n @ '': '' @ v)"

lemma plain_headerD:
  assumes "plain_header (n, v)"
  shows "n \<noteq> []" "solid (hd n)" "CHR '':'' \<notin> set n" "trim n = n" "set (header_line (n, v)) \<inter> {CR, LF} = {}"
    "draft_header (header_line (n, v)) = (n, v)"
proof -
  have n: "n \<noteq> []" "list_all is_ascii_graphic n" "CHR '':'' \<notin> set n"
    using assms by (auto simp: plain_header_def valid_field_name_def header_name_parse_Inr list_all_iff)
  show "n \<noteq> []" "CHR '':'' \<notin> set n" by (fact n)+
  show "solid (hd n)" using n by (cases n) (auto simp: solid_def)
  show t: "trim n = n" by (rule trim_graphic) (fact n)
  show "set (header_line (n, v)) \<inter> {CR, LF} = {}"
    using assms n by (auto simp: header_line_def plain_header_def list_all_iff is_ascii_graphic_def)
  have "split_once (CHR '':'') (header_line (n, v)) = Some (n, SP # v)"
    using n(3) by (simp add: split_once_Some_iff header_line_def)
  then show "draft_header (header_line (n, v)) = (n, v)"
    using assms t by (simp add: draft_header_def plain_header_def)
qed

lemma trim_solid_ne: "s \<noteq> [] \<Longrightarrow> solid (hd s) \<Longrightarrow> trim s \<noteq> []"
proof
  assume s: "s \<noteq> []" "solid (hd s)" "trim s = []"
  then have "trim_start s = s" by (cases s) auto
  with s(3) have "trim_rev (rev s) = []" by (simp add: trim_def trim_end_def)
  moreover have "trim_rev (t @ [c]) \<noteq> []" if "solid c" for t c
    using that by (induction t rule: trim_rev.induct) (auto simp: uws1_def uws2_def uws3_def solid_def is_ascii_graphic_def)
  ultimately show False using s(1,2) by (cases s) auto
qed

lemma unfold_plain:
  "list_all plain_header hs \<Longrightarrow>
     unfold_loop (map header_line hs @ [] # rest) u = u @ map header_line hs"
proof (induction hs arbitrary: u)
  case (Cons h hs)
  obtain n v where h: "h = (n, v)" by fastforce
  with Cons.prems have p: "n \<noteq> []" "solid (hd n)" using plain_headerD(1,2) by auto
  then have "header_line h \<noteq> []" "solid (hd (header_line h))" by (auto simp: header_line_def h)
  moreover from this have "hd (header_line h) \<noteq> SP" "hd (header_line h) \<noteq> TAB"
    by (auto simp: solid_def is_ascii_graphic_def)
  ultimately show ?case using Cons trim_solid_ne by simp
qed simp

lemma find_blank_skip:
  "LF \<notin> set l \<Longrightarrow> find_subsequence (l @ s) [LF, LF] = map_option ((+) (length l)) (find_subsequence s [LF, LF])"
proof (induction l)
  case Nil
  then show ?case by (cases "find_subsequence s [LF, LF]") auto
next
  case (Cons c l)
  then show ?case by (cases "find_subsequence s [LF, LF]") (auto simp: starts_with_def)
qed

lemma find_blank:
  "hs \<noteq> [] \<Longrightarrow> list_all (\<lambda>l. l \<noteq> [] \<and> LF \<notin> set l) hs \<Longrightarrow>
     find_subsequence (join [LF] hs @ LF # LF # body) [LF, LF] = Some (length (join [LF] hs))"
proof (induction "[LF]" hs rule: join.induct)
  case (2 x)
  then show ?case by (simp add: find_blank_skip starts_with_def)
next
  case (3 x y ys)
  obtain c r where "join [LF] (y # ys) = c # r" "c \<noteq> LF"
    using 3(3) by (cases y; cases ys) auto
  with 3 show ?case by (auto simp: find_blank_skip [of x] starts_with_def)
qed simp

text \<open>a draft is read as it was written.  Header lines, an empty line and a body give
  back those headers and that body, which is kept as it is, empty lines included.\<close>
theorem draft_parse_written:
  assumes "hs \<noteq> []" "list_all plain_header hs" "CR \<notin> set body"
  shows "draft_parse (join [LF] (map header_line hs) @ [LF, LF] @ body) = \<lparr>d_headers = hs, d_body = body\<rparr>"
proof -
  let ?t = "join [LF] (map header_line hs) @ [LF, LF] @ body"
  have l: "list_all (\<lambda>l. l \<noteq> [] \<and> LF \<notin> set l) (map header_line hs)"
    using assms(2) plain_headerD(1,5) by (force simp: list_all_iff header_line_def)
  have j: "CR \<notin> set (join [LF] xs)" if "\<And>x. x \<in> set xs \<Longrightarrow> CR \<notin> set x" for xs
    using that by (induction "[LF]" xs rule: join.induct) auto
  have m: "CR \<notin> set x" if "x \<in> set (map header_line hs)" for x
    using that assms(2) plain_headerD(5) by (fastforce simp: list_all_iff)
  have "CR \<notin> set (join [LF] (map header_line hs))" by (rule j) (rule m)
  then have cr: "CR \<notin> set ?t" using assms(3) by simp
  then have t: "map (\<lambda>c. if c = CR then LF else c) (unix_newlines ?t) = ?t"
    by (subst unix_newlines_id) (auto intro!: map_idI)
  have tj: "?t = join [LF] (map header_line hs @ [] # split_on LF body)"
  proof -
    have "join [LF] (xs @ ys) = join [LF] xs @ LF # join [LF] ys" if "xs \<noteq> []" "ys \<noteq> []" for xs ys
      using that by (induction "[LF]" xs rule: join.induct) (auto simp: neq_Nil_conv)
    moreover have "join [LF] ([] # split_on LF body) = LF # body"
      using join_split_on [of LF body] by (cases "split_on LF body") auto
    ultimately show ?thesis using assms(1) by simp
  qed
  have "split_on LF ?t = map header_line hs @ [] # split_on LF body"
    unfolding tj using l split_on_piece [of _ LF body] by (intro split_on_join) (auto simp: list_all_iff)
  then have "unfold_loop (split_on LF ?t) [] = map header_line hs" using unfold_plain [OF assms(2)] by simp
  moreover have "map draft_header (map header_line hs) = hs"
    using assms(2) plain_headerD(6) by (auto simp: list_all_iff intro!: map_idI)
  moreover have "split_once_str [LF, LF] ?t = Some (join [LF] (map header_line hs), body)"
    using find_blank [OF _ l] assms(1) by (simp add: split_once_str_def)
  ultimately show ?thesis by (simp only: draft_parse_def Let_def t option.case prod.case)
qed

lemma draft_parse_written_witness:
  "draft_parse (join [LF] (map header_line [(''From'', ''a'')]) @ [LF, LF] @ [LF] @ ''x'') =
     \<lparr>d_headers = [(''From'', ''a'')], d_body = LF # ''x''\<rparr>"
  by (subst draft_parse_written)
    (auto simp: plain_header_def valid_field_name_def header_name_parse_def is_ascii_graphic_def
      intro!: trim_graphic)

text \<open>When the line between headers and body holds a blank, it still ends the headers, but the
  body is looked for behind the next empty line: a paragraph is lost.\<close>

lemma blank_separator_loses_text:
  "d_body (draft_parse (''From: a'' @ [LF, SP, LF] @ ''one'' @ [LF, LF] @ ''two'')) = ''two''"
  by code_simp

end
