(* ===== verification/Follow_Up.thy ===== *)
theory Follow_Up
  imports Posting
begin

text \<open>
  A follow-up joins the thread of the article it answers: the subject it is given groups with
  the parent's, and its references read back as the chain that leads to the parent.
\<close>

lemma trim_start_idem: "trim_start (trim_start s) = trim_start s"
  by (induction s rule: trim_start.induct) auto

lemma trim_rev_idem: "trim_rev (trim_rev s) = trim_rev s"
  by (induction s rule: trim_rev.induct) auto

lemma trim_start_prefix:
  assumes "trim_start (y @ z) = y @ z" shows "trim_start y = y"
proof (cases "y @ z" rule: trim_start.cases)
  case (1 a b c s)
  with assms have "\<not> uws1 a" "\<not> uws2 a b" "\<not> uws3 a b c"
    using trim_start_suffix [of "b # c # s"] trim_start_suffix [of "c # s"] trim_start_suffix [of s]
    by (auto split: if_splits dest!: arg_cong [of _ _ length])
  with 1 show ?thesis
    by (cases y rule: trim_start.cases) auto
next
  case (2 a b)
  with assms have "\<not> uws1 a" "\<not> uws2 a b" by (auto split: if_splits)
  with 2 show ?thesis by (cases y rule: trim_start.cases) auto
next
  case (3 a)
  with assms show ?thesis by (cases y rule: trim_start.cases) (auto split: if_splits)
qed (use assms in auto)

lemma trim_fixed: "trim_start (trim s) = trim s" "trim_rev (rev (trim s)) = rev (trim s)" "trim (trim s) = trim s"
proof -
  obtain p where "rev (trim_start s) = p @ trim_rev (rev (trim_start s))" using trim_rev_suffix by blast
  then have "trim_start s = trim s @ rev p" by (simp add: trim_def trim_end_def) (metis rev_append rev_rev_ident)
  then show 1: "trim_start (trim s) = trim s" using trim_start_prefix trim_start_idem by metis
  show 2: "trim_rev (rev (trim s)) = rev (trim s)" by (simp add: trim_def trim_end_def trim_rev_idem)
  show "trim (trim s) = trim s" using 1 2 by (simp add: trim_def [of "trim s"] trim_end_def)
qed

lemma trim_rev_append:
  assumes "trim_rev u = u" "u \<noteq> []" "is_ascii a" "is_ascii b" "is_ascii c"
  shows "trim_rev (u @ a # b # c # v) = u @ a # b # c # v"
proof (cases u rule: trim_rev.cases)
  case (1 z y x s)
  with assms(1) have "\<not> uws1 z" "\<not> uws2 y z" "\<not> uws3 x y z"
    using trim_rev_suffix [of "y # x # s"] trim_rev_suffix [of "x # s"] trim_rev_suffix [of s]
    by (auto split: if_splits dest!: arg_cong [of _ _ length])
  with 1 show ?thesis by simp
next
  case (2 z y)
  with assms show ?thesis by (auto simp: uws3_def is_ascii_def split: if_splits)
next
  case (3 z)
  with assms show ?thesis by (auto simp: uws3_def uws2_def is_ascii_def split: if_splits)
qed (use assms in simp)

lemma trim_re:
  assumes "trim_rev (rev t) = rev t" "t \<noteq> []"
  shows "trim (''Re: '' @ t) = ''Re: '' @ t"
proof -
  have "trim_rev (rev t @ '' :eR'') = rev t @ '' :eR''"
    using trim_rev_append [OF assms(1), of SP "CHR '':''" "CHR ''e''" "''R''"] assms(2)
    by (simp add: is_ascii_def)
  moreover have "trim_start (''Re: '' @ t) = ''Re: '' @ t"
    by (simp add: uws1_def uws2_def uws3_def)
  ultimately show ?thesis by (simp add: trim_def trim_end_def)
qed

lemma reply_subject_groups: "normalise_subject (reply_subject s) = (fst (normalise_subject s), True)"
proof -
  define t where "t = trim s"
  have t: "trim_start t = t" "trim_rev (rev t) = rev t" "trim t = t" by (simp_all add: t_def trim_fixed)
  have n: "normalise_subject s = normalise_subject t" using t(3) by (simp add: normalise_subject_def t_def)
  show ?thesis
  proof (cases "snd (normalise_subject t)")
    case True
    then show ?thesis by (simp add: reply_subject_def Let_def t_def [symmetric] n prod_eq_iff)
  next
    case False
    have re: "normalise_subject (''Re: '' @ t) = (fst (normalise_subject t), True)" if "t \<noteq> []"
    proof -
      have "strip_tag (''Re: '' @ t) = None" by (simp add: strip_tag_def strip_prefix_def)
      moreover have "split_once (CHR '':'') (''Re: '' @ t) = Some (''Re'', SP # t)" by simp
      moreover have "list_ex (eq_ignore_ascii_case (prefix_base (trim ''Re''))) PREFIXES" by code_simp
      ultimately have "subject_loop (''Re: '' @ t) False = subject_loop (trim_start (SP # t)) True"
        by (subst subject_loop.simps) (simp add: strip_reply_def)
      then show ?thesis
        using trim_re [OF t(2) that] t by (simp add: normalise_subject_def subject_loop_flag)
    qed
    have "normalise_subject ''Re: '' = (fst (normalise_subject []), True)" by code_simp
    with re False show ?thesis
      by (cases "t = []") (simp_all add: reply_subject_def Let_def t_def [symmetric] n)
  qed
qed

text \<open>A list of message-ids as they stand in a \<open>References\<close> header.\<close>

lemma parse_list_sp: "parse_list (SP # s) = parse_list s"
proof -
  have "position (\<lambda>c. c = CHR ''<'') (SP # s) = map_option Suc (position (\<lambda>c. c = CHR ''<'') s)"
    by (simp add: position_def Let_def)
  then show ?thesis by (cases "position (\<lambda>c. c = CHR ''<'') s") (simp_all add: parse_list.simps [of s] parse_list.simps [of "SP # s"])
qed

lemma message_id_shape:
  assumes "message_id_valid m"
  obtains inner where "mid_str m = ''<'' @ inner @ ''>''" "CHR ''>'' \<notin> set inner"
proof -
  obtain inner where m: "mid_str m = ''<'' @ inner @ ''>''"
    and c: "\<not> list_ex (\<lambda>c. char_is_whitespace c \<or> char_is_control c \<or> c = ''<'' \<or> c = ''>'') (chars inner)"
    and u: "utf8_valid (mid_str m)"
    using assms by (auto simp: message_id_valid_def)
  have "utf8_valid (inner @ [CHR ''>''])"
    using u by (simp add: m utf8_valid_ascii_Cons is_ascii_def del: utf8_valid.simps(2))
  then have "utf8_valid inner" by (rule utf8_valid_snoc [rotated]) (simp add: is_ascii_def)
  then have "CHR ''>'' \<notin> set inner"
    using c chars_ascii_mem [of inner "CHR ''>''"] by (auto simp: is_ascii_def list_ex_iff)
  with m that show ?thesis by blast
qed

lemma parse_list_id:
  assumes "message_id_valid m"
  shows "parse_list (mid_str m @ s) = m # parse_list s"
proof -
  obtain inner where m: "mid_str m = ''<'' @ inner @ ''>''" "CHR ''>'' \<notin> set inner"
    using assms by (rule message_id_shape)
  have "position (\<lambda>c. c = CHR ''<'') (mid_str m @ s) = Some 0" by (simp add: m position_def)
  moreover have "position (\<lambda>c. c = CHR ''>'') ((CHR ''<'' # inner) @ CHR ''>'' # s) = Some (length (CHR ''<'' # inner))"
    by (rule position_append) (use m(2) in auto)
  then have "position (\<lambda>c. c = CHR ''>'') (mid_str m @ s) = Some (length inner + 1)" by (simp add: m)
  moreover have "take (length inner + 1 + 1) (mid_str m @ s) = mid_str m" "drop (length inner + 1 + 1) (mid_str m @ s) = s"
    by (simp_all add: m)
  ultimately show ?thesis
    using message_id_reparse [OF assms] by (subst parse_list.simps) (simp del: take_append drop_append)
qed

lemma parse_list_ids: "list_all message_id_valid ms \<Longrightarrow> parse_list (join [SP] (map mid_str ms)) = ms"
proof (induction ms rule: induct_list012)
  case 1
  show ?case by (subst parse_list.simps) (simp add: position_def)
next
  case (2 m)
  have "parse_list [] = []" by (subst parse_list.simps) (simp add: position_def)
  with 2 parse_list_id [of m "[]"] show ?case by simp
next
  case (3 m n ms)
  with parse_list_id [of m "SP # join [SP] (map mid_str (n # ms))"] show ?case by (simp add: parse_list_sp)
qed

lemma header_names:
  "\<not> eq_ignore_ascii_case ''From'' ''Newsgroups''" "\<not> eq_ignore_ascii_case ''From'' ''Subject''"
  "\<not> eq_ignore_ascii_case ''From'' ''References''" "\<not> eq_ignore_ascii_case ''Newsgroups'' ''Subject''"
  "\<not> eq_ignore_ascii_case ''Newsgroups'' ''References''" "\<not> eq_ignore_ascii_case ''Subject'' ''References''"
  by code_simp+

lemma set_header_new:
  "list_all (\<lambda>h. \<not> header_is n h) (d_headers d) \<Longrightarrow> set_header n v d = d\<lparr>d_headers := d_headers d @ [(n, v)]\<rparr>"
  using position_None [of "header_is n" "d_headers d"] by (auto simp: set_header_def list_all_iff)

text \<open>C37: a follow-up lands in the thread it answers.  Its references are those of the parent
  and then the parent itself, so its parent by reference is the article answered; its subject
  is a reply to the same subject, whatever reply markers the parent's has; and it goes where
  the parent says.\<close>
theorem follow_up_joins_thread:
  assumes "list_all message_id_valid (fu_references p @ (case fu_message_id p of Some m \<Rightarrow> [m] | None \<Rightarrow> []))"
  shows "(case header ''References'' (follow_up p sender) of Some v \<Rightarrow> parse_list v | None \<Rightarrow> []) =
      fu_references p @ (case fu_message_id p of Some m \<Rightarrow> [m] | None \<Rightarrow> []) \<and>
    map_option normalise_subject (header ''Subject'' (follow_up p sender)) =
      Some (fst (normalise_subject (fu_subject p)), True) \<and>
    header ''Newsgroups'' (follow_up p sender) = Some (join '','' (fu_newsgroups p)) \<and>
    header ''From'' (follow_up p sender) = Some sender"
proof -
  let ?ms = "fu_references p @ (case fu_message_id p of Some m \<Rightarrow> [m] | None \<Rightarrow> [])"
  have r: "reply_references p = map mid_str ?ms" by (simp add: reply_references_def split: option.split)
  have d: "d_headers (follow_up p sender) =
      [(''From'', sender), (''Newsgroups'', join '','' (fu_newsgroups p)), (''Subject'', reply_subject (fu_subject p))] @
      (if ?ms = [] then [] else [(''References'', join [SP] (map mid_str ?ms))])"
    unfolding follow_up_def r
    by (simp add: Let_def set_header_new draft_empty_def header_is_def header_names)
  have "header n (follow_up p sender) = map_option snd (List.find (header_is n) (d_headers (follow_up p sender)))" for n
    by (simp add: header_def)
  moreover have "parse_list (join [SP] (map mid_str ?ms)) = ?ms" using assms by (rule parse_list_ids)
  ultimately show ?thesis
    using reply_subject_groups [of "fu_subject p"]
    by (simp add: d header_is_def header_names)
qed

lemma follow_up_joins_thread_witness:
  "header ''Newsgroups'' (follow_up \<lparr>fu_message_id = Some (MessageId ''<b@c>''), fu_references = [MessageId ''<a@c>''],
     fu_subject = ''RE: hi'', fu_author = ''x'', fu_newsgroups = [''misc.test''], fu_body = ''hi''\<rparr> ''me'') =
     Some ''misc.test''"
proof -
  have "message_id_valid (MessageId ''<a@c>'')" "message_id_valid (MessageId ''<b@c>'')"
    by (rule conjunct1 [OF message_id_parse_valid [of "''<a@c>''"]]; code_simp)
      (rule conjunct1 [OF message_id_parse_valid [of "''<b@c>''"]]; code_simp)
  then show ?thesis
    using follow_up_joins_thread [of "\<lparr>fu_message_id = Some (MessageId ''<b@c>''), fu_references = [MessageId ''<a@c>''],
     fu_subject = ''RE: hi'', fu_author = ''x'', fu_newsgroups = [''misc.test''], fu_body = ''hi''\<rparr>" "''me''"] by simp
qed

end
