(* ===== verification/Client.thy ===== *)
theory Client
  imports Framing Capabilities List_Resp Overview Body Post_Draft
begin

text \<open>
  \<open>crates/nntp-client/src/client.rs\<close>: the conversation.  The client is the connection and the
  session state that commands depend on; every method is an action on it.  A streaming method
  takes the step its callback makes on an accumulator and returns the accumulator, filled as
  far as the response was read, beside its result.
\<close>

section \<open>State\<close>

record greeting =
  g_code :: response_code
  g_text :: string
  posting_allowed :: bool

record client_options =
  opt_limits :: limits
  opt_encrypted :: bool

definition default_options :: client_options where
  "default_options = \<lparr>opt_limits = DEFAULT, opt_encrypted = False\<rparr>"

datatype overview_style =
  OverviewUnknown | OverviewOver | OverviewXOver | OverviewUnavailable

datatype header_style = HeaderUnknown | HeaderHdr | HeaderXHdr | HeaderUnavailable

record article_id =
  aid_number :: "u64 option"
  aid_message_id :: "message_id option"

definition article_id_parse :: "status_line \<Rightarrow> article_id" where
  "article_id_parse line =
     \<lparr>aid_number =
        (case Option.bind (get_opt (args line) 0) parse_u64 of
           Some n \<Rightarrow> if n \<noteq> 0 then Some n else None | None \<Rightarrow> None),
      aid_message_id = Option.bind (get_opt (args line) 1) (\<lambda>raw. res_ok (message_id_parse raw))\<rparr>"

record client =
  conn :: connection
  client_greeting :: greeting
  caps :: capabilities
  encrypted :: bool
  authenticated :: bool
  selected :: "group_summary option"
  cached_fmt :: "overview_fmt option"
  overview_style :: overview_style
  header_style :: header_style

text \<open>A method of the connection inside a method of the client.\<close>

definition on_conn :: "(connection, 'a) action \<Rightarrow> (client, 'a) action" where
  "on_conn m c = (case m (conn c) of (r, k) \<Rightarrow> (r, c\<lparr>conn := k\<rparr>))"

definition modify :: "('s \<Rightarrow> 's) \<Rightarrow> ('s, unit) action" where
  "modify f s = (Inr (), f s)"

definition from_parts :: "connection \<Rightarrow> greeting \<Rightarrow> bool \<Rightarrow> client" where
  "from_parts k g enc =
     \<lparr>conn = k, client_greeting = g, caps = caps_new, encrypted = enc, authenticated = False,
      selected = None, cached_fmt = None, overview_style = OverviewUnknown,
      header_style = HeaderUnknown\<rparr>"

definition with_options :: "libs \<Rightarrow> transport \<Rightarrow> client_options \<Rightarrow> client_error + client" where
  "with_options L t opts =
     (case read_status L (with_limits t (opt_limits opts)) of
        (Inl e, _) \<Rightarrow> Inl e
      | (Inr line, k) \<Rightarrow>
          if is_error (sl_code line) then Inl (Server ''greeting'' (sl_code line) (sl_text line))
          else Inr (from_parts k
            \<lparr>g_code = sl_code line, g_text = sl_text line,
             posting_allowed = (sl_code line = GREETING_POSTING_ALLOWED)\<rparr> (opt_encrypted opts)))"

definition client_new :: "libs \<Rightarrow> transport \<Rightarrow> client_error + client" where
  "client_new L t = with_options L t default_options"

definition set_encrypted :: "bool \<Rightarrow> client \<Rightarrow> client" where
  "set_encrypted enc c = c\<lparr>encrypted := enc\<rparr>"

section \<open>Opening\<close>

definition refresh_capabilities :: "libs \<Rightarrow> (client, capabilities) action" where
  "refresh_capabilities L =
     and_then (on_conn (command L (command.Capabilities None))) (\<lambda>line.
       if sl_code line = CAPABILITIES_FOLLOW
       then and_then (on_conn (read_block L)) (\<lambda>block.
            and_then (modify (\<lambda>c. c\<lparr>caps := caps_parse L block\<rparr>)) (\<lambda>_ c. (Inr (caps c), c)))
       else if is_error (sl_code line)
       then and_then (modify (\<lambda>c. c\<lparr>caps := caps_new\<rparr>)) (\<lambda>_ c. (Inr (caps c), c))
       else raise (UnexpectedResponse ''CAPABILITIES'' ''101'' (sl_code line) (sl_text line)))"

definition set_posting :: "bool \<Rightarrow> client \<Rightarrow> client" where
  "set_posting b c = c\<lparr>client_greeting := (client_greeting c)\<lparr>posting_allowed := b\<rparr>\<rparr>"

definition enter_reader_mode :: "libs \<Rightarrow> (client, unit) action" where
  "enter_reader_mode L =
     and_then (on_conn (command L ModeReader)) (\<lambda>line.
       if sl_code line = GREETING_POSTING_ALLOWED then modify (set_posting True)
       else if sl_code line = GREETING_NO_POSTING then modify (set_posting False)
       else if sl_code line \<in> {UNKNOWN_COMMAND, SYNTAX_ERROR, FEATURE_NOT_SUPPORTED} then ret ()
       else if is_error (sl_code line) then raise (from_status ''MODE READER'' line)
       else ret ())"

definition handshake :: "libs \<Rightarrow> (client, unit) action" where
  "handshake L =
     and_then (refresh_capabilities L) (\<lambda>cs.
       if needs_mode_reader cs \<or> caps_is_empty cs
       then and_then (enter_reader_mode L) (\<lambda>_.
            and_then (refresh_capabilities L) (\<lambda>_. ret ()))
       else ret ())"

definition authenticate ::
  "libs \<Rightarrow> string \<Rightarrow> string option \<Rightarrow> bool \<Rightarrow> (client, unit) action" where
  "authenticate L username password allow_plaintext c =
     (if \<not> encrypted c \<and> \<not> allow_plaintext then (Inl PlaintextAuthenticationRefused, c)
      else
        and_then (on_conn (command L (AuthInfoUser username))) (\<lambda>line.
          if sl_code line = AUTH_ACCEPTED then modify (\<lambda>c. c\<lparr>authenticated := True\<rparr>)
          else if sl_code line \<noteq> AUTH_PASSWORD_REQUIRED then raise (from_status ''AUTHINFO USER'' line)
          else
            (case password of
               None \<Rightarrow> raise (AuthenticationRejected
                 ''the server asked for a password and none was supplied'')
             | Some pass \<Rightarrow>
                 and_then (on_conn (command L (AuthInfoPass pass))) (\<lambda>line.
                   if sl_code line \<noteq> AUTH_ACCEPTED then raise (from_status ''AUTHINFO PASS'' line)
                   else and_then (modify (\<lambda>c. c\<lparr>authenticated := True\<rparr>)) (\<lambda>_ c.
                        (Inr (), snd (refresh_capabilities L c)))))) c)"

definition select_group :: "libs \<Rightarrow> group_name \<Rightarrow> (client, group_summary) action" where
  "select_group L grp =
     and_then (on_conn (command L (GroupCmd grp))) (\<lambda>line.
       if sl_code line \<noteq> GROUP_SELECTED
       then raise (case from_status ''GROUP'' line of
                     NoSuchGroup _ text' \<Rightarrow> NoSuchGroup (gn_str grp) text' | other \<Rightarrow> other)
       else and_then (try_proto (group_summary_parse line (Some grp))) (\<lambda>summary.
            and_then (modify (\<lambda>c. c\<lparr>selected := Some summary\<rparr>)) (\<lambda>_. ret summary)))"

section \<open>Lists\<close>

definition require_block :: "string \<Rightarrow> status_line \<Rightarrow> response_code \<Rightarrow> (client, unit) action" where
  "require_block name line expected =
     (if sl_code line = expected then ret () else raise (from_status name line))"

text \<open>\<open>read_block_streaming\<close> of the connection inside a streaming method.\<close>

definition stream_block ::
  "libs \<Rightarrow> (bytes \<Rightarrow> 'a \<Rightarrow> 'a) \<Rightarrow> 'a \<Rightarrow> client \<Rightarrow> (client_error + unit) \<times> 'a \<times> client" where
  "stream_block L f acc c =
     (case read_block_streaming L f acc (conn c) of
        (r, acc', k) \<Rightarrow> (map_res (\<lambda>_. ()) r, acc', c\<lparr>conn := k\<rparr>))"

text \<open>The callback of the collecting methods: an entry or the line that is none.\<close>

definition collect :: "'e + string \<Rightarrow> 'e list_result \<Rightarrow> 'e list_result" where
  "collect x r =
     (case x of
        Inl entry \<Rightarrow> r\<lparr>lr_entries := lr_entries r @ [entry]\<rparr>
      | Inr line \<Rightarrow> r\<lparr>lr_skipped := lr_skipped r @ [line]\<rparr>)"

definition nothing :: "'e list_result" where
  "nothing = \<lparr>lr_entries = [], lr_skipped = []\<rparr>"

text \<open>A line of a response as an entry, or as itself when it does not parse.\<close>

definition entry_or_line :: "bytes \<Rightarrow> 'x + 'e \<Rightarrow> 'e + string" where
  "entry_or_line raw r = (case r of Inr entry \<Rightarrow> Inl entry | Inl _ \<Rightarrow> Inr (lossy raw))"

definition list_groups_streaming ::
  "libs \<Rightarrow> wildmat option \<Rightarrow> (active_entry + string \<Rightarrow> 'a \<Rightarrow> 'a) \<Rightarrow> 'a \<Rightarrow> client \<Rightarrow>
     (client_error + unit) \<times> 'a \<times> client" where
  "list_groups_streaming L pattern on_entry acc c =
     (case and_then (on_conn (command L (ListCmd (Active pattern))))
             (\<lambda>line. require_block ''LIST ACTIVE'' line INFORMATION_FOLLOWS) c of
        (Inl e, c') \<Rightarrow> (Inl e, acc, c')
      | (Inr _, c') \<Rightarrow> stream_block L (\<lambda>raw. on_entry (entry_or_line raw (active_parse L raw))) acc c')"

text \<open>What a collecting method makes of its streaming counterpart.\<close>

definition collected ::
  "(client_error + unit) \<times> 'e list_result \<times> client \<Rightarrow> (client_error + 'e list_result) \<times> client" where
  "collected = (\<lambda>(r, acc, c). (map_res (\<lambda>_. acc) r, c))"

definition list_groups :: "libs \<Rightarrow> wildmat option \<Rightarrow> (client, active_entry list_result) action" where
  "list_groups L pattern c = collected (list_groups_streaming L pattern collect nothing c)"

definition list_group_descriptions ::
  "libs \<Rightarrow> wildmat option \<Rightarrow> (client, newsgroup_entry list_result) action" where
  "list_group_descriptions L pattern =
     and_then (on_conn (command L (ListCmd (NewsgroupsKw pattern)))) (\<lambda>line.
     and_then (require_block ''LIST NEWSGROUPS'' line INFORMATION_FOLLOWS) (\<lambda>_ c.
       collected (stream_block L (\<lambda>raw. collect (entry_or_line raw (newsgroup_parse L raw))) nothing c)))"

section \<open>Overview\<close>

definition overview_format :: "libs \<Rightarrow> (client, overview_fmt) action" where
  "overview_format L c =
     (case cached_fmt c of
        Some fmt \<Rightarrow> (Inr fmt, c)
      | None \<Rightarrow>
          and_then (on_conn (command L (ListCmd list_keyword.OverviewFmt))) (\<lambda>line.
          and_then
            (if sl_code line = INFORMATION_FOLLOWS
             then and_then (on_conn (read_block L)) (\<lambda>block. ret (fmt_parse L block))
             else ret fmt_standard) (\<lambda>fmt.
          and_then (modify (\<lambda>c. c\<lparr>cached_fmt := Some fmt\<rparr>)) (\<lambda>_. ret fmt))) c)"

definition resolve_overview_style :: "client \<Rightarrow> overview_style" where
  "resolve_overview_style c =
     (if overview_style c = OverviewUnknown \<and> has_over (caps c) then OverviewOver
      else if overview_style c = OverviewUnknown \<and> \<not> caps_is_empty (caps c) then OverviewXOver
      else overview_style c)"

definition verb_unsupported :: "status_line \<Rightarrow> bool" where
  "verb_unsupported line \<longleftrightarrow> sl_code line \<in> {UNKNOWN_COMMAND, FEATURE_NOT_SUPPORTED}"

text \<open>The command for a style and its name.\<close>

definition overview_command :: "overview_style \<Rightarrow> art_range \<Rightarrow> command \<times> string" where
  "overview_command style rng =
     (if style = OverviewXOver then (command.XOver rng, ''XOVER'')
      else (command.Over (RoiRange rng), ''OVER''))"

function overview_streaming ::
  "libs \<Rightarrow> art_range \<Rightarrow> overview_fmt \<Rightarrow> (overview_record + string \<Rightarrow> 'a \<Rightarrow> 'a) \<Rightarrow> 'a \<Rightarrow> client \<Rightarrow>
     (client_error + unit) \<times> 'a \<times> client" where
  "overview_streaming L rng fmt on_record acc c =
     (let style = resolve_overview_style c; (cmd, name) = overview_command style rng in
      if style = OverviewUnavailable then (Inl (CommandNotSupported ''OVER''), acc, c)
      else
        (case on_conn (command L cmd) c of
           (Inl e, c1) \<Rightarrow> (Inl e, acc, c1)
         | (Inr line, c1) \<Rightarrow>
             if sl_code line = OVERVIEW_FOLLOWS
             then stream_block L (\<lambda>raw. on_record (entry_or_line raw (overview_parse L fmt raw))) acc
               (c1\<lparr>overview_style := (if style = OverviewXOver then OverviewXOver else OverviewOver)\<rparr>)
             else if verb_unsupported line \<and> style \<noteq> OverviewXOver
             then overview_streaming L rng fmt on_record acc (c1\<lparr>overview_style := OverviewXOver\<rparr>)
             else (Inl (from_status name line), acc,
               if verb_unsupported line then c1\<lparr>overview_style := OverviewUnavailable\<rparr> else c1)))"
  by pat_completeness auto
termination
  by (relation "measure (\<lambda>(L, rng, fmt, f, acc, c). if resolve_overview_style c = OverviewXOver then 0 else 1)")
     (auto simp: resolve_overview_style_def)

declare overview_streaming.simps [simp del]

definition overview :: "libs \<Rightarrow> art_range \<Rightarrow> (client, overview_record list_result) action" where
  "overview L rng c =
     (if selected c = None then (Inl (NoGroupSelected ''OVER''), c)
      else and_then (overview_format L)
        (\<lambda>fmt c. collected (overview_streaming L rng fmt collect nothing c)) c)"

section \<open>Articles\<close>

definition spec_of :: "command \<Rightarrow> article_spec option" where
  "spec_of cmd = (case cmd of Article s \<Rightarrow> Some s | Head s \<Rightarrow> Some s | Body s \<Rightarrow> Some s | _ \<Rightarrow> None)"

definition needs_group :: "command \<Rightarrow> bool" where
  "needs_group cmd = (case spec_of cmd of Some s \<Rightarrow> needs_selected_group s | None \<Rightarrow> False)"

definition fetch_block ::
  "libs \<Rightarrow> string \<Rightarrow> command \<Rightarrow> response_code \<Rightarrow> (client, article_id \<times> data_block) action" where
  "fetch_block L name cmd expected c =
     (if needs_group cmd \<and> selected c = None then (Inl (NoGroupSelected name), c)
      else
        and_then (on_conn (command L cmd)) (\<lambda>line.
          if sl_code line \<noteq> expected then raise (from_status name line)
          else and_then (on_conn (read_block L)) (\<lambda>block. ret (article_id_parse line, block))) c)"

definition fetch_article :: "libs \<Rightarrow> article_spec \<Rightarrow> (client, article) action" where
  "fetch_article L spec =
     and_then (fetch_block L ''ARTICLE'' (Article spec) ARTICLE_FOLLOWS) (\<lambda>(aid, block).
       ret ((article_from_block L block)\<lparr>art_number := aid_number aid\<rparr>))"

definition fetch_head :: "libs \<Rightarrow> article_spec \<Rightarrow> (client, article) action" where
  "fetch_head L spec =
     and_then (fetch_block L ''HEAD'' (Head spec) HEAD_FOLLOWS) (\<lambda>(aid, block).
       ret ((article_from_head_block L block)\<lparr>art_number := aid_number aid\<rparr>))"

definition fetch_body :: "libs \<Rightarrow> article_spec \<Rightarrow> (client, data_block) action" where
  "fetch_body L spec =
     and_then (fetch_block L ''BODY'' (Body spec) BODY_FOLLOWS) (\<lambda>(_, block). ret block)"

definition stat :: "libs \<Rightarrow> article_spec \<Rightarrow> (client, article_id) action" where
  "stat L spec c =
     (if needs_selected_group spec \<and> selected c = None then (Inl (NoGroupSelected ''STAT''), c)
      else
        and_then (on_conn (command L (Stat spec))) (\<lambda>line.
          if sl_code line \<noteq> ARTICLE_EXISTS then raise (from_status ''STAT'' line)
          else ret (article_id_parse line)) c)"

definition server_date :: "libs \<Rightarrow> (client, datetime) action" where
  "server_date L =
     and_then (on_conn (command L Date)) (\<lambda>line.
       if sl_code line \<noteq> SERVER_DATE then raise (from_status ''DATE'' line)
       else and_then (try_proto (arg 0 ''DATE response'' ''timestamp'' line)) (\<lambda>raw.
            try_proto (parse_server_date L raw)))"

definition server_help :: "libs \<Rightarrow> (client, string) action" where
  "server_help L =
     and_then (on_conn (command L Help)) (\<lambda>line.
       if sl_code line \<noteq> HELP_TEXT_FOLLOWS then raise (from_status ''HELP'' line)
       else and_then (on_conn (read_block L)) (\<lambda>block. ret (block_to_text L block)))"

section \<open>Header fields\<close>

definition resolve_header_style :: "client \<Rightarrow> header_style" where
  "resolve_header_style c =
     (if header_style c = HeaderUnknown \<and> has_hdr (caps c) then HeaderHdr
      else if header_style c = HeaderUnknown \<and> \<not> caps_is_empty (caps c) then HeaderXHdr
      else header_style c)"

definition header_command :: "header_style \<Rightarrow> header_name \<Rightarrow> range_or_id \<Rightarrow> command \<times> string" where
  "header_command style field target =
     (if style = HeaderXHdr then (XHdr field target, ''XHDR'') else (Hdr field target, ''HDR''))"

definition names_message :: "range_or_id \<Rightarrow> bool" where
  "names_message target = (case target of RoiMessageId _ \<Rightarrow> True | _ \<Rightarrow> False)"

function header_field_streaming ::
  "libs \<Rightarrow> header_name \<Rightarrow> range_or_id \<Rightarrow> (header_entry + string \<Rightarrow> 'a \<Rightarrow> 'a) \<Rightarrow> 'a \<Rightarrow> client \<Rightarrow>
     (client_error + unit) \<times> 'a \<times> client" where
  "header_field_streaming L field target on_entry acc c =
     (let style = resolve_header_style c; (cmd, name) = header_command style field target in
      if \<not> names_message target \<and> selected c = None then (Inl (NoGroupSelected ''HDR''), acc, c)
      else if style = HeaderUnavailable then (Inl (CommandNotSupported ''HDR''), acc, c)
      else
        (case on_conn (command L cmd) c of
           (Inl e, c1) \<Rightarrow> (Inl e, acc, c1)
         | (Inr line, c1) \<Rightarrow>
             if sl_code line \<in> {HEADERS_FOLLOW, HEAD_FOLLOWS}
             then stream_block L (\<lambda>raw. on_entry (case header_entry_parse L raw of
                    Some entry \<Rightarrow> Inl entry | None \<Rightarrow> Inr (lossy raw))) acc
               (c1\<lparr>header_style := (if style = HeaderXHdr then HeaderXHdr else HeaderHdr)\<rparr>)
             else if verb_unsupported line \<and> style \<noteq> HeaderXHdr
             then header_field_streaming L field target on_entry acc (c1\<lparr>header_style := HeaderXHdr\<rparr>)
             else (Inl (from_status name line), acc,
               if verb_unsupported line then c1\<lparr>header_style := HeaderUnavailable\<rparr> else c1)))"
  by pat_completeness auto
termination
  by (relation "measure (\<lambda>(L, field, target, f, acc, c). if resolve_header_style c = HeaderXHdr then 0 else 1)")
     (auto simp: resolve_header_style_def)

declare header_field_streaming.simps [simp del]

definition header_field ::
  "libs \<Rightarrow> header_name \<Rightarrow> range_or_id \<Rightarrow> (client, header_entry list_result) action" where
  "header_field L field target c = collected (header_field_streaming L field target collect nothing c)"

section \<open>Groups and articles by number\<close>

definition number_of_line :: "bytes \<Rightarrow> u64 option" where
  "number_of_line line = (if utf8_valid line then parse_u64 (trim line) else None)"

definition article_numbers ::
  "libs \<Rightarrow> group_name option \<Rightarrow> art_range option \<Rightarrow> (client, group_summary \<times> u64 list) action" where
  "article_numbers L grp rng c =
     (if grp = None \<and> selected c = None then (Inl (NoGroupSelected ''LISTGROUP''), c)
      else
        and_then (on_conn (command L (ListGroup grp rng))) (\<lambda>line.
          if sl_code line \<noteq> GROUP_SELECTED
          then raise (if sl_code line = NO_SUCH_GROUP
            then NoSuchGroup (case grp of Some g \<Rightarrow> gn_str g | None \<Rightarrow> ''the selected group'') (sl_text line)
            else from_status ''LISTGROUP'' line)
          else
            and_then (try_proto (group_summary_parse line grp)) (\<lambda>summary.
            and_then (on_conn (read_block L)) (\<lambda>block.
            and_then (modify (\<lambda>c. c\<lparr>selected := Some summary\<rparr>)) (\<lambda>_.
              ret (summary, List.map_filter number_of_line (block_lines block)))))) c)"

definition step :: "libs \<Rightarrow> string \<Rightarrow> command \<Rightarrow> (client, article_id) action" where
  "step L name cmd c =
     (if selected c = None then (Inl (NoGroupSelected name), c)
      else
        and_then (on_conn (command L cmd)) (\<lambda>line.
          if sl_code line \<noteq> ARTICLE_EXISTS then raise (from_status name line)
          else ret (article_id_parse line)) c)"

definition next_article :: "libs \<Rightarrow> (client, article_id) action" where
  "next_article L = step L ''NEXT'' Next"

definition previous_article :: "libs \<Rightarrow> (client, article_id) action" where
  "previous_article L = step L ''LAST'' Last"

text \<open>The loops over a block that was read whole.\<close>

definition entries_of :: "(bytes \<Rightarrow> 'x + 'e) \<Rightarrow> data_block \<Rightarrow> 'e list_result" where
  "entries_of parse_line block =
     fold (\<lambda>raw. collect (entry_or_line raw (parse_line raw))) (block_lines block) nothing"

definition refusal_or_unsupported :: "string \<Rightarrow> status_line \<Rightarrow> client_error" where
  "refusal_or_unsupported name line =
     (if sl_code line \<in> {UNKNOWN_COMMAND, FEATURE_NOT_SUPPORTED} then CommandNotSupported name
      else from_status name line)"

definition group_creation_times ::
  "libs \<Rightarrow> wildmat option \<Rightarrow> (client, active_times_entry list_result) action" where
  "group_creation_times L pattern =
     and_then (on_conn (command L (ListCmd (ActiveTimes pattern)))) (\<lambda>line.
       if sl_code line \<noteq> INFORMATION_FOLLOWS
       then raise (refusal_or_unsupported ''LIST ACTIVE.TIMES'' line)
       else and_then (on_conn (read_block L)) (\<lambda>block. ret (entries_of (active_times_parse L) block)))"

definition available_header_fields :: "libs \<Rightarrow> (client, string list) action" where
  "available_header_fields L =
     and_then (on_conn (command L (ListCmd HeadersKw))) (\<lambda>line.
       if sl_code line \<noteq> INFORMATION_FOLLOWS
       then raise (refusal_or_unsupported ''LIST HEADERS'' line)
       else and_then (on_conn (read_block L)) (\<lambda>block.
            ret (filter (\<lambda>l. l \<noteq> []) (map (\<lambda>l. trim (lossy l)) (block_lines block)))))"

definition new_groups :: "libs \<Rightarrow> datetime \<Rightarrow> (client, active_entry list_result) action" where
  "new_groups L since =
     and_then (on_conn (command L (NewGroups since))) (\<lambda>line.
       if sl_code line \<noteq> NEW_GROUPS_FOLLOW then raise (from_status ''NEWGROUPS'' line)
       else and_then (on_conn (read_block L)) (\<lambda>block. ret (entries_of (active_parse L) block)))"

section \<open>Posting and leaving\<close>

definition check_can_post :: "client \<Rightarrow> client_error + unit" where
  "check_can_post c =
     (if \<not> posting_allowed (client_greeting c)
      then Inl (PostingNotAllowed ''the server greeted with 201, posting prohibited'')
      else if \<not> caps_is_empty (caps c) \<and> \<not> has_post (caps c)
      then Inl (PostingNotAllowed ''the server does not advertise POST'')
      else Inr ())"

definition post :: "libs \<Rightarrow> draft \<Rightarrow> (client, string) action" where
  "post L d =
     and_then (\<lambda>c. (check_can_post c, c)) (\<lambda>_.
     and_then (try_proto (to_lines L d)) (\<lambda>ls.
     and_then (on_conn (command L Post)) (\<lambda>line.
       if sl_code line \<noteq> SEND_ARTICLE
       then raise (if sl_code line = POSTING_NOT_PERMITTED then PostingNotAllowed (sl_text line)
                   else from_status ''POST'' line)
       else
         and_then (on_conn (send_block ls)) (\<lambda>_.
         and_then (on_conn (read_status L)) (\<lambda>line.
           if sl_code line = ARTICLE_POSTED then ret (sl_text line)
           else raise (if sl_code line \<in> {POSTING_NOT_PERMITTED, POSTING_FAILED}
                       then PostingRejected (sl_code line) (sl_text line)
                       else from_status ''POST'' line))))))"

definition quit :: "libs \<Rightarrow> (client, unit) action" where
  "quit L c =
     (case on_conn (command L Quit) c of
        (Inl (ConnectionClosed _), c') \<Rightarrow> (Inr (), c')
      | (Inl e, c') \<Rightarrow> (Inl e, c')
      | (Inr line, c') \<Rightarrow> (Inr (), c'))"

end
