(* ===== verification/Sending.thy ===== *)
theory Sending
  imports Client "HOL-Library.Sublist"
begin

text \<open>
  What a method of the client can put on the wire: how much, and of which commands.  The rules
  follow the way a method is put together.
\<close>

section \<open>What is sent\<close>

definition sent :: "connection \<Rightarrow> bytes" where
  "sent k = written (transport k)"

lemma sent_simps [simp]:
  "sent (desync k) = sent k" "sent (consume n k) = sent k"
  by (simp_all add: sent_def desync_def consume_def)

lemma fill_buf_sent: "fill_buf k = (r, k') \<Longrightarrow> sent k' = sent k"
  by (auto dest: fill_buf_frame simp: frame_def sent_def)

lemma read_line_loop_sent: "read_line_loop L ctx line k = (r, k') \<Longrightarrow> sent k' = sent k"
proof (induction L ctx line k rule: read_line_loop.induct)
  case (1 L ctx line k)
  obtain r1 k1 where f: "fill_buf k = (r1, k1)" by fastforce
  note s = fill_buf_sent [OF f]
  show ?case
  proof (cases r1)
    case (Inr available)
    with f s "1.prems" "1.IH" [OF f [symmetric] Inr] show ?thesis
      by (auto simp: read_line_loop.simps [of L ctx line k] Let_def split: if_splits option.splits)
  qed (use f s "1.prems" in \<open>simp add: read_line_loop.simps [of L ctx line k]\<close>)
qed

lemma read_line_sent_same: "read_line L ctx k = (r, k') \<Longrightarrow> sent k' = sent k"
  unfolding read_line_def
  by (auto simp: ensure_synchronised_def dest!: read_line_loop_sent elim!: and_then_cases split: if_splits)

lemma read_status_sent: "read_status L k = (r, k') \<Longrightarrow> sent k' = sent k"
  unfolding read_status_def
  by (auto dest: read_line_sent_same elim!: and_then_cases simp: try_proto_def split: sum.splits)

lemma look_sent: "look k = (b, k') \<Longrightarrow> sent k' = sent k"
  by (auto simp: look_def sent_def split: option.splits list.splits)

lemma block_loop_sent: "block_loop L f n b acc k = (r, acc', k') \<Longrightarrow> sent k' = sent k"
proof (induction L f n b acc k rule: block_loop.induct)
  case (1 L f n b acc k)
  obtain up k1 where lk: "look k = (up, k1)" by fastforce
  obtain r1 k2 where rd: "read_line L ''a data block'' k1 = (r1, k2)" by fastforce
  have s: "sent k1 = sent k" "sent k2 = sent k" using look_sent [OF lk] read_line_sent_same [OF rd] by simp_all
  show ?case
  proof (cases "up = False \<and> (\<exists>line. r1 = Inr line)")
    case True
    then obtain line where u: "up = False" "r1 = Inr line" by blast
    note ih = "1.IH" [OF lk [symmetric] u(1) rd [symmetric] u(2)]
    have "(if is_terminator line then (Inr n, acc, k2)
        else if max_block_lines (conn_limits k2) < n + 1
        then (Inl (BlockTooLarge ''block line count'' (max_block_lines (conn_limits k2))), acc, desync k2)
        else if max_block_bytes (conn_limits k2) < b + length line
        then (Inl (BlockTooLarge ''block size in octets'' (max_block_bytes (conn_limits k2))), acc, desync k2)
        else block_loop L f (n + 1) (b + length line) (f (unstuff line) acc) k2) = (r, acc', k')"
      using "1.prems" by (simp add: block_loop.simps [of L f n b acc k] lk rd u)
    note step = this
    consider "is_terminator line" | "\<not> is_terminator line" "max_block_lines (conn_limits k2) < n + 1"
      | "\<not> is_terminator line" "\<not> max_block_lines (conn_limits k2) < n + 1"
        "max_block_bytes (conn_limits k2) < b + length line"
      | "\<not> is_terminator line" "\<not> max_block_lines (conn_limits k2) < n + 1"
        "\<not> max_block_bytes (conn_limits k2) < b + length line" by blast
    then show ?thesis
    proof cases
      case 4
      then show ?thesis using ih [OF 4] step s by simp
    qed (use step s in auto)
  next
    case False
    with "1.prems" lk rd s show ?thesis
      by (cases up; cases r1) (auto simp: block_loop.simps [of L f n b acc k])
  qed
qed

lemma read_block_streaming_sent: "read_block_streaming L f acc k = (r, acc', k') \<Longrightarrow> sent k' = sent k"
  by (auto simp: read_block_streaming_def dest: block_loop_sent)

lemma read_block_sent: "read_block L k = (r, k') \<Longrightarrow> sent k' = sent k"
  by (auto simp: read_block_def dest: read_block_streaming_sent split: prod.splits sum.splits)

text \<open>Writing sends a part of what it is given, and all of it when it succeeds.\<close>

lemma on_transport_write:
  "on_transport (write_all b) k = (r, k') \<Longrightarrow>
     \<exists>w. prefix w b \<and> sent k' = sent k @ w \<and> (isl r \<or> w = b)"
  by (auto simp: on_transport_def write_all_def sent_def take_is_prefix
      split: list.splits write_result.splits prod.splits)

lemma on_transport_flush: "on_transport flush k = (r, k') \<Longrightarrow> sent k' = sent k"
  by (auto simp: on_transport_def flush_def sent_def split: list.splits write_result.splits prod.splits)

lemma ensure_same: "ensure_synchronised k = (r, k') \<Longrightarrow> k' = k"
  by (auto simp: ensure_synchronised_def split: if_splits)

lemma send_sent:
  assumes "send L cmd k = (r, k')"
  shows "\<exists>w. (w = [] \<or> (\<exists>b. to_wire L cmd = Inr b \<and> prefix w b)) \<and> sent k' = sent k @ w \<and>
    (isl r \<or> to_wire L cmd = Inr w)"
  using assms unfolding send_def
  by (auto elim!: and_then_cases dest!: ensure_same on_transport_write on_transport_flush
      simp: try_proto_def split: sum.splits)

lemma send_block_sent:
  assumes "send_block ls k = (r, k')"
  shows "\<exists>w. prefix w (wire ls) \<and> sent k' = sent k @ w \<and> (isl r \<or> w = wire ls)"
proof -
  have out: "concat (map (\<lambda>l. stuff l @ [CR, LF]) ls) @ [CHR ''.'', CR, LF] = wire ls"
    by (simp add: wire_def TERMINATOR_def comp_def)
  show ?thesis
    using assms unfolding send_block_def Let_def out
    by (auto elim!: and_then_cases dest!: ensure_same on_transport_write on_transport_flush)
qed

lemma command_sent:
  assumes "command L cmd k = (r, k')"
  shows "\<exists>w. (w = [] \<or> (\<exists>b. to_wire L cmd = Inr b \<and> prefix w b)) \<and> sent k' = sent k @ w \<and>
    (isl r \<or> to_wire L cmd = Inr w)"
  using assms unfolding command_def
  by (auto elim!: and_then_cases dest!: send_sent read_status_sent)

section \<open>What a method may send\<close>

text \<open>At most \<open>n\<close> pieces were sent, each a part of something that \<open>Q\<close> allows.\<close>

definition emits :: "nat \<Rightarrow> (bytes \<Rightarrow> bool) \<Rightarrow> client \<Rightarrow> client \<Rightarrow> bool" where
  "emits n Q c c' \<longleftrightarrow>
     (\<exists>ws. length ws \<le> n \<and> list_all (\<lambda>w. \<exists>b. Q b \<and> prefix w b) ws \<and>
        sent (conn c') = sent (conn c) @ concat ws)"

text \<open>A method that sends that much and keeps the part \<open>F\<close> of the state.\<close>

definition does :: "nat \<Rightarrow> (bytes \<Rightarrow> bool) \<Rightarrow> (client \<Rightarrow> 'f) \<Rightarrow> (client, 'a) action \<Rightarrow> bool" where
  "does n Q F m \<longleftrightarrow> (\<forall>c r c'. m c = (r, c') \<longrightarrow> emits n Q c c' \<and> F c' = F c)"

named_theorems does_rules \<open>what the pieces of a method send\<close>

lemma emits_refl: "sent (conn c') = sent (conn c) \<Longrightarrow> emits n Q c c'"
  by (auto simp: emits_def intro: exI [of _ "[]"])

lemma emits_one: "Q b \<Longrightarrow> prefix w b \<Longrightarrow> sent (conn c') = sent (conn c) @ w \<Longrightarrow> 0 < n \<Longrightarrow> emits n Q c c'"
  by (auto simp: emits_def intro!: exI [of _ "[w]"])

lemma emits_trans: "emits n Q a b \<Longrightarrow> emits m Q b c \<Longrightarrow> emits (n + m) Q a c"
  unfolding emits_def
proof clarify
  fix ws vs
  assume "length ws \<le> n" "list_all (\<lambda>w. \<exists>b. Q b \<and> prefix w b) ws" "sent (conn b) = sent (conn a) @ concat ws"
    "length vs \<le> m" "list_all (\<lambda>w. \<exists>b. Q b \<and> prefix w b) vs" "sent (conn c) = sent (conn b) @ concat vs"
  then show "\<exists>us. length us \<le> n + m \<and> list_all (\<lambda>w. \<exists>b. Q b \<and> prefix w b) us \<and>
      sent (conn c) = sent (conn a) @ concat us"
    by (intro exI [of _ "ws @ vs"]) simp
qed

lemma emits_mono: "emits n Q a b \<Longrightarrow> n \<le> m \<Longrightarrow> (\<And>x. Q x \<Longrightarrow> P x) \<Longrightarrow> emits m P a b"
  unfolding emits_def by (elim exE conjE) (rule exI, auto elim!: list_all_mono, blast)

lemma does_and_then:
  assumes "does n Q F m" "\<And>x. does k Q F (f x)"
  shows "does (n + k) Q F (and_then m f)"
  unfolding does_def
proof (intro allI impI)
  fix c r c' assume "and_then m f c = (r, c')"
  then show "emits (n + k) Q c c' \<and> F c' = F c"
  proof (cases rule: and_then_cases)
    case (failed e)
    with assms(1) have "emits n Q c c' \<and> F c' = F c" by (auto simp: does_def)
    then show ?thesis using emits_mono [of n Q c c' "n + k"] by auto
  next
    case (continued x c1)
    with assms have "emits n Q c c1 \<and> F c1 = F c" "emits k Q c1 c' \<and> F c' = F c1" by (auto simp: does_def)
    then show ?thesis using emits_trans by auto
  qed
qed

text \<open>The rule for a first part that sends nothing.\<close>

lemmas does_quiet_then [does_rules] = does_and_then [where n = 0 and k = 0, simplified]

lemma does_if [does_rules]: "does n Q F m \<Longrightarrow> does n Q F m' \<Longrightarrow> does n Q F (if b then m else m')"
  by simp

lemma does_mono: "does n Q F m \<Longrightarrow> n \<le> k \<Longrightarrow> does k Q F m"
  unfolding does_def using emits_mono by metis

lemma does_ret [does_rules]: "does n Q F (ret x)" "does n Q F (raise e)" "does n Q F (try_proto r)"
  by (auto simp: does_def emits_refl try_proto_def split: sum.splits)

lemma does_modify [does_rules]:
  "(\<And>c. conn (f c) = conn c \<and> F (f c) = F c) \<Longrightarrow> does n Q F (modify f)"
  by (auto simp: does_def modify_def emits_refl)

lemma does_result [does_rules]: "does n Q F (\<lambda>c. (g c, c))"
  by (auto simp: does_def emits_refl)

lemma does_guard [does_rules]: "does n Q F m \<Longrightarrow> does n Q F (\<lambda>c. if P c then (Inl e, c) else m c)"
  by (auto simp: does_def emits_refl)

text \<open>\<open>F\<close> does not look at the connection.\<close>

definition off_conn :: "(client \<Rightarrow> 'f) \<Rightarrow> bool" where
  "off_conn F \<longleftrightarrow> (\<forall>c k. F (c\<lparr>conn := k\<rparr>) = F c)"

lemma does_command:
  assumes "off_conn F" "\<And>b. to_wire L cmd = Inr b \<Longrightarrow> Q b" "0 < n"
  shows "does n Q F (on_conn (command L cmd))"
  unfolding does_def
proof (intro allI impI)
  fix c r c' assume "on_conn (command L cmd) c = (r, c')"
  then obtain k where k: "command L cmd (conn c) = (r, k)" "c' = c\<lparr>conn := k\<rparr>"
    by (auto simp: on_conn_def split: prod.splits)
  from command_sent [OF k(1)] obtain w where
    w: "w = [] \<or> (\<exists>b. to_wire L cmd = Inr b \<and> prefix w b)" "sent k = sent (conn c) @ w" by blast
  have "emits n Q c c'"
    using w assms(2,3) k(2) by (auto intro: emits_refl emits_one)
  with k(2) assms(1) show "emits n Q c c' \<and> F c' = F c" by (simp add: off_conn_def)
qed

lemma does_read_block [does_rules]: "off_conn F \<Longrightarrow> does n Q F (on_conn (read_block L))"
  by (auto simp: does_def on_conn_def off_conn_def emits_refl dest: read_block_sent split: prod.splits)

lemma does_read_status [does_rules]: "off_conn F \<Longrightarrow> does n Q F (on_conn (read_status L))"
  by (auto simp: does_def on_conn_def off_conn_def emits_refl dest: read_status_sent split: prod.splits)

lemma does_send_block:
  assumes "off_conn F" "Q (wire ls)" "0 < n"
  shows "does n Q F (on_conn (send_block ls))"
  unfolding does_def
proof (intro allI impI)
  fix c r c' assume "on_conn (send_block ls) c = (r, c')"
  then obtain k where k: "send_block ls (conn c) = (r, k)" "c' = c\<lparr>conn := k\<rparr>"
    by (auto simp: on_conn_def split: prod.splits)
  from send_block_sent [OF k(1)] obtain w where "prefix w (wire ls)" "sent k = sent (conn c) @ w" by blast
  with k(2) assms show "emits n Q c c' \<and> F c' = F c" by (auto simp: off_conn_def intro: emits_one)
qed

section \<open>The methods\<close>

text \<open>What the methods keep: whether the transport is encrypted and, for all but the two that
  select one, the group.\<close>

definition kept :: "bool \<Rightarrow> client \<Rightarrow> bool \<times> group_summary option" where
  "kept sel c = (encrypted c, if sel then selected c else None)"

lemma kept_off [does_rules, simp]: "off_conn (kept sel)"
  by (simp add: off_conn_def kept_def)

lemma kept_updates [simp]:
  "kept sel (c\<lparr>caps := a\<rparr>) = kept sel c" "kept sel (c\<lparr>authenticated := b\<rparr>) = kept sel c"
  "kept sel (c\<lparr>cached_fmt := d\<rparr>) = kept sel c" "kept sel (c\<lparr>overview_style := e\<rparr>) = kept sel c"
  "kept sel (c\<lparr>header_style := f\<rparr>) = kept sel c" "kept sel (c\<lparr>client_greeting := g\<rparr>) = kept sel c"
  "kept sel (c\<lparr>conn := k\<rparr>) = kept sel c" "kept False (c\<lparr>selected := h\<rparr>) = kept False c"
  by (simp_all add: kept_def)

lemma does_result_of_state [does_rules]: "does n Q F m \<Longrightarrow> does n Q F (\<lambda>c. map_prod f id (m c))"
  by (auto simp: does_def map_prod_def split: prod.splits) 

lemma does_case_option [does_rules]:
  "does n Q F a \<Longrightarrow> (\<And>x. does n Q F (b x)) \<Longrightarrow> does n Q F (case x of None \<Rightarrow> a | Some y \<Rightarrow> b y)"
  by (simp split: option.split)

lemma does_case_prod [does_rules]:
  "(\<And>x y. does n Q F (f x y)) \<Longrightarrow> does n Q F (case p of (x, y) \<Rightarrow> f x y)"
  by (simp split: prod.split)

lemma does_cmd_then:
  assumes "\<And>b. to_wire L cmd = Inr b \<Longrightarrow> Q b" "\<And>line. does n Q (kept s) (f line)"
  shows "does (Suc n) Q (kept s) (and_then (on_conn (command L cmd)) f)"
proof -
  have "does (1 + n) Q (kept s) (and_then (on_conn (command L cmd)) f)"
    by (intro does_and_then does_command kept_off) (use assms in auto)
  then show ?thesis by simp
qed

text \<open>That every encoding of a command is allowed.\<close>

definition permits :: "libs \<Rightarrow> (bytes \<Rightarrow> bool) \<Rightarrow> command \<Rightarrow> bool" where
  "permits L Q cmd \<longleftrightarrow> (\<forall>b. to_wire L cmd = Inr b \<longrightarrow> Q b)"

lemma permitsD: "permits L Q cmd \<Longrightarrow> to_wire L cmd = Inr b \<Longrightarrow> Q b"
  by (simp add: permits_def)

lemma does_cmd [does_rules]:
  "permits L Q cmd \<Longrightarrow> (\<And>line. does n Q (kept s) (f line)) \<Longrightarrow>
     does (Suc n) Q (kept s) (and_then (on_conn (command L cmd)) f)"
  by (rule does_cmd_then) (auto dest: permitsD)

lemma does_refresh:
  "permits L Q (command.Capabilities None) \<Longrightarrow> does (Suc 0) Q (kept s) (refresh_capabilities L)"
  unfolding refresh_capabilities_def by (rule does_cmd) (auto intro!: does_rules)

lemma does_reader: "permits L Q ModeReader \<Longrightarrow> does (Suc 0) Q (kept s) (enter_reader_mode L)"
  unfolding enter_reader_mode_def by (rule does_cmd) (auto intro!: does_rules simp: set_posting_def)

lemma does_handshake:
  assumes "permits L Q (command.Capabilities None)" "permits L Q ModeReader"
  shows "does 3 Q (kept s) (handshake L)"
proof -
  have "does (Suc 0 + 0) Q (kept s) (and_then (refresh_capabilities L) (\<lambda>_. ret ()))"
    by (intro does_and_then does_refresh does_ret assms)
  then have tail: "does (Suc 0 + Suc 0) Q (kept s) (and_then (enter_reader_mode L) (\<lambda>_. and_then (refresh_capabilities L) (\<lambda>_. ret ())))"
    by (intro does_and_then does_reader assms) simp
  have "does (Suc 0 + (Suc 0 + Suc 0)) Q (kept s) (handshake L)"
    unfolding handshake_def
    by (rule does_and_then [OF does_refresh [OF assms(1)]], rule does_if [OF tail does_ret(1)])
  then show ?thesis by (simp add: numeral_3_eq_3)
qed

lemma does_authenticate:
  assumes "encrypted c \<or> allow \<Longrightarrow> permits L Q (AuthInfoUser user)"
    "\<And>p. encrypted c \<or> allow \<Longrightarrow> pass = Some p \<Longrightarrow> permits L Q (AuthInfoPass p)"
    "permits L Q (command.Capabilities None)"
    and "authenticate L user pass allow c = (r, c')"
  shows "emits 3 Q c c' \<and> kept s c' = kept s c"
proof (cases "encrypted c \<or> allow")
  case False
  with assms(4) show ?thesis by (auto simp: authenticate_def emits_refl)
next
  case True
  have refresh: "does (Suc 0) Q (kept s) (\<lambda>c. (Inr (), snd (refresh_capabilities L c)))"
    using does_refresh [OF assms(3), of s] by (auto simp: does_def) (metis prod.collapse)+
  have "does (Suc (Suc (0 + Suc 0))) Q (kept s) (and_then (on_conn (command L (AuthInfoUser user))) (\<lambda>line.
      if sl_code line = AUTH_ACCEPTED then modify (\<lambda>c. c\<lparr>authenticated := True\<rparr>)
      else if sl_code line \<noteq> AUTH_PASSWORD_REQUIRED then raise (from_status ''AUTHINFO USER'' line)
      else (case pass of
         None \<Rightarrow> raise (AuthenticationRejected ''the server asked for a password and none was supplied'')
       | Some p \<Rightarrow> and_then (on_conn (command L (AuthInfoPass p))) (\<lambda>line.
           if sl_code line \<noteq> AUTH_ACCEPTED then raise (from_status ''AUTHINFO PASS'' line)
           else and_then (modify (\<lambda>c. c\<lparr>authenticated := True\<rparr>)) (\<lambda>_ c.
                  (Inr (), snd (refresh_capabilities L c)))))))"
    using assms(1,2) True
    by (intro does_cmd does_if does_ret does_modify) (auto split: option.split intro!: does_cmd does_if does_ret does_modify does_and_then [where n = 0 and k = "Suc 0", simplified] refresh)
  with True assms(4) show ?thesis
    by (auto simp: does_def authenticate_def numeral_3_eq_3)
qed

lemma does_select: "permits L Q (GroupCmd g) \<Longrightarrow> does (Suc 0) Q (kept False) (select_group L g)"
  unfolding select_group_def by (rule does_cmd) (auto intro!: does_rules)

text \<open>Streaming: the accumulator does not matter here.\<close>

lemma stream_block_does:
  "stream_block L f acc c = (r, acc', c') \<Longrightarrow> emits n Q c c' \<and> kept s c' = kept s c"
  by (auto simp: stream_block_def emits_refl dest: read_block_streaming_sent split: prod.splits)

lemma does_collected [does_rules]:
  "does n Q (kept s) (\<lambda>c. collected (stream_block L f acc c))"
  by (auto simp: does_def collected_def split: prod.splits dest: stream_block_does)

lemma does_list_groups:
  assumes "permits L Q (ListCmd (Active pat))"
  shows "does (Suc 0) Q (kept s) (list_groups L pat)"
proof -
  have "list_groups L pat = and_then (on_conn (command L (ListCmd (Active pat))))
      (\<lambda>line. and_then (require_block ''LIST ACTIVE'' line INFORMATION_FOLLOWS) (\<lambda>_ c.
         collected (stream_block L (\<lambda>raw. collect (entry_or_line raw (active_parse L raw))) nothing c)))"
    by (rule ext) (auto simp: list_groups_def list_groups_streaming_def and_then_def collected_def
        split: prod.split sum.split)
  then show ?thesis
    using assms by (simp only:) (rule does_cmd, auto intro!: does_rules simp: require_block_def)
qed

lemma does_descriptions:
  "permits L Q (ListCmd (NewsgroupsKw pat)) \<Longrightarrow> does (Suc 0) Q (kept s) (list_group_descriptions L pat)"
  unfolding list_group_descriptions_def by (rule does_cmd) (auto intro!: does_rules simp: require_block_def)

lemma does_overview_format:
  assumes "permits L Q (ListCmd list_keyword.OverviewFmt)"
  shows "does (Suc 0) Q (kept s) (overview_format L)"
proof -
  have "does (Suc 0) Q (kept s) (and_then (on_conn (command L (ListCmd list_keyword.OverviewFmt))) (\<lambda>line.
      and_then (if sl_code line = INFORMATION_FOLLOWS
         then and_then (on_conn (read_block L)) (\<lambda>block. ret (fmt_parse L block)) else ret fmt_standard) (\<lambda>fmt.
      and_then (modify (\<lambda>c. c\<lparr>cached_fmt := Some fmt\<rparr>)) (\<lambda>_. ret fmt))))"
    by (rule does_cmd [OF assms]) (auto intro!: does_rules)
  then show ?thesis by (auto simp: does_def overview_format_def emits_refl split: option.splits)
qed

lemma on_conn_command:
  assumes "permits L Q cmd" "on_conn (command L cmd) c = (r, c')"
  shows "emits (Suc 0) Q c c'" "kept s c' = kept s c"
  using does_command [OF kept_off [of s] permitsD [OF assms(1)], where n = "Suc 0"] assms(2) by (auto simp: does_def)

lemma emits_update:
  "emits n Q (c\<lparr>overview_style := a\<rparr>) c' = emits n Q c c'"
  "emits n Q c (c'\<lparr>overview_style := a\<rparr>) = emits n Q c c'"
  "emits n Q (c\<lparr>header_style := b\<rparr>) c' = emits n Q c c'"
  "emits n Q c (c'\<lparr>header_style := b\<rparr>) = emits n Q c c'"
  by (simp_all add: emits_def)

text \<open>With \<open>XOVER\<close> settled there is one command; otherwise at most one more.\<close>

lemma overview_x_does:
  assumes "permits L Q (command.XOver rng)" "resolve_overview_style c = OverviewXOver"
    and "overview_streaming L rng fmt f acc c = (r, acc', c')"
  shows "emits 1 Q c c' \<and> kept s c' = kept s c"
proof -
  obtain r1 c1 where k: "on_conn (command L (command.XOver rng)) c = (r1, c1)" by fastforce
  note o = on_conn_command [OF assms(1) k]
  have b: "emits 1 Q c c2 \<and> kept s c2 = kept s c" if "stream_block L g acc (c1\<lparr>overview_style := a\<rparr>) = (r2, acc2, c2)"
    for g a r2 acc2 c2
    using stream_block_does [OF that, of 0 Q s] o emits_trans [of "Suc 0" Q c c1 0 c2] by (simp add: emits_update)
  show ?thesis
    using assms(2,3) k o b
    by (auto simp: overview_streaming.simps [of L rng fmt f acc c] overview_command_def Let_def emits_update
        split: sum.splits if_splits)
qed

lemma overview_does:
  assumes "permits L Q (command.XOver rng)" "permits L Q (command.Over (RoiRange rng))"
    and "overview_streaming L rng fmt f acc c = (r, acc', c')"
  shows "emits 2 Q c c' \<and> kept s c' = kept s c"
proof (cases "resolve_overview_style c = OverviewXOver")
  case True
  with overview_x_does [OF assms(1) True assms(3)] emits_mono [of 1 Q c c' 2] show ?thesis by simp
next
  case False
  obtain r1 c1 where k: "on_conn (command L (command.Over (RoiRange rng))) c = (r1, c1)" by fastforce
  note o = on_conn_command [OF assms(2) k]
  have b: "emits 2 Q c c2 \<and> kept s c2 = kept s c" if "stream_block L g acc (c1\<lparr>overview_style := a\<rparr>) = (r2, acc2, c2)"
    for g a r2 acc2 c2
    using stream_block_does [OF that, of 1 Q s] o emits_trans [of "Suc 0" Q c c1 1 c2] by (simp add: emits_update numeral_2_eq_2)
  have x: "emits 2 Q c c2 \<and> kept s c2 = kept s c"
    if "overview_streaming L rng fmt f acc (c1\<lparr>overview_style := OverviewXOver\<rparr>) = (r2, acc2, c2)" for r2 acc2 c2
    using overview_x_does [OF assms(1) _ that] o emits_trans [of "Suc 0" Q c c1 1 c2]
    by (simp add: emits_update resolve_overview_style_def numeral_2_eq_2)
  have "emits 2 Q c c1" "emits 2 Q c c" using o(1) emits_mono by (auto simp: emits_refl)
  then show ?thesis
    using False assms(3) k o(2) b x
    by (auto simp: overview_streaming.simps [of L rng fmt f acc c] overview_command_def Let_def emits_update
        split: sum.splits if_splits)
qed

end
