(* ===== verification/Session.thy ===== *)
theory Session
  imports Sending
begin

text \<open>
  Sessions with a server: any sequence of the methods of the client.  Every method is shown to
  send only commands of its own and, for a posting, the article; what holds of one request is
  carried to all sessions by one induction.
\<close>

section \<open>The other methods\<close>

text \<open>The header fields, like the overview.\<close>

lemma header_x_does:
  assumes "permits L Q (XHdr field target)" "resolve_header_style c = HeaderXHdr"
    and "header_field_streaming L field target f acc c = (r, acc', c')"
  shows "emits 1 Q c c' \<and> kept s c' = kept s c"
proof -
  obtain r1 c1 where k: "on_conn (command L (XHdr field target)) c = (r1, c1)" by fastforce
  note o = on_conn_command [OF assms(1) k]
  have b: "emits 1 Q c c2 \<and> kept s c2 = kept s c" if "stream_block L g acc (c1\<lparr>header_style := a\<rparr>) = (r2, acc2, c2)"
    for g a r2 acc2 c2
    using stream_block_does [OF that, of 0 Q s] o emits_trans [of "Suc 0" Q c c1 0 c2] by (simp add: emits_update)
  have "emits 1 Q c c" by (simp add: emits_refl)
  then show ?thesis
    using assms(2,3) k o b
    by (auto simp: header_field_streaming.simps [of L field target f acc c] header_command_def Let_def emits_update
        split: sum.splits if_splits)
qed

lemma header_does:
  assumes "permits L Q (XHdr field target)" "permits L Q (Hdr field target)"
    and "header_field_streaming L field target f acc c = (r, acc', c')"
  shows "emits 2 Q c c' \<and> kept s c' = kept s c"
proof (cases "resolve_header_style c = HeaderXHdr")
  case True
  with header_x_does [OF assms(1) True assms(3)] emits_mono [of 1 Q c c' 2] show ?thesis by simp
next
  case False
  obtain r1 c1 where k: "on_conn (command L (Hdr field target)) c = (r1, c1)" by fastforce
  note o = on_conn_command [OF assms(2) k]
  have b: "emits 2 Q c c2 \<and> kept s c2 = kept s c" if "stream_block L g acc (c1\<lparr>header_style := a\<rparr>) = (r2, acc2, c2)"
    for g a r2 acc2 c2
    using stream_block_does [OF that, of 1 Q s] o emits_trans [of "Suc 0" Q c c1 1 c2]
    by (simp add: emits_update numeral_2_eq_2)
  have x: "emits 2 Q c c2 \<and> kept s c2 = kept s c"
    if "header_field_streaming L field target f acc (c1\<lparr>header_style := HeaderXHdr\<rparr>) = (r2, acc2, c2)" for r2 acc2 c2
    using header_x_does [OF assms(1) _ that] o emits_trans [of "Suc 0" Q c c1 1 c2]
    by (simp add: emits_update resolve_header_style_def numeral_2_eq_2)
  have "emits 2 Q c c1" "emits 2 Q c c" using o(1) emits_mono by (auto simp: emits_refl)
  then show ?thesis
    using False assms(3) k o(2) b x
    by (auto simp: header_field_streaming.simps [of L field target f acc c] header_command_def Let_def emits_update
        split: sum.splits if_splits)
qed

lemma does_fetch: "permits L Q cmd \<Longrightarrow> does (Suc 0) Q (kept s) (fetch_block L name cmd want)"
  unfolding fetch_block_def by (intro does_guard does_cmd) (auto intro!: does_rules)

lemma does_fetch_then:
  "permits L Q cmd \<Longrightarrow> (\<And>x. does 0 Q (kept s) (f x)) \<Longrightarrow>
     does (Suc 0) Q (kept s) (and_then (fetch_block L name cmd want) f)"
  using does_and_then [OF does_fetch [of L Q cmd s name want], of 0 f] by simp

lemma does_articles:
  "permits L Q (Article spec) \<Longrightarrow> does (Suc 0) Q (kept s) (fetch_article L spec)"
  "permits L Q (Head spec) \<Longrightarrow> does (Suc 0) Q (kept s) (fetch_head L spec)"
  "permits L Q (Body spec) \<Longrightarrow> does (Suc 0) Q (kept s) (fetch_body L spec)"
  "permits L Q (Stat spec) \<Longrightarrow> does (Suc 0) Q (kept s) (stat L spec)"
  unfolding fetch_article_def fetch_head_def fetch_body_def stat_def
  by (auto intro!: does_fetch_then does_guard does_cmd does_rules)

lemma does_simple:
  "permits L Q Date \<Longrightarrow> does (Suc 0) Q (kept s) (server_date L)"
  "permits L Q Help \<Longrightarrow> does (Suc 0) Q (kept s) (server_help L)"
  "permits L Q cmd \<Longrightarrow> does (Suc 0) Q (kept s) (step L name cmd)"
  "permits L Q (ListCmd (ActiveTimes pat)) \<Longrightarrow> does (Suc 0) Q (kept s) (group_creation_times L pat)"
  "permits L Q (ListCmd HeadersKw) \<Longrightarrow> does (Suc 0) Q (kept s) (available_header_fields L)"
  "permits L Q (NewGroups since) \<Longrightarrow> does (Suc 0) Q (kept s) (new_groups L since)"
  unfolding server_date_def server_help_def step_def group_creation_times_def available_header_fields_def
    new_groups_def
  by (auto intro!: does_guard does_cmd does_rules)

lemma does_numbers: "permits L Q (ListGroup g rng) \<Longrightarrow> does (Suc 0) Q (kept False) (article_numbers L g rng)"
  unfolding article_numbers_def by (intro does_guard does_cmd) (auto intro!: does_rules)

lemma does_quit: "permits L Q Quit \<Longrightarrow> quit L c = (r, c') \<Longrightarrow> emits (Suc 0) Q c c' \<and> kept s c' = kept s c"
  using on_conn_command [of L Q Quit c]
  by (auto simp: quit_def split: prod.splits sum.splits client_error.splits)

text \<open>The exchange of a posting, after the checks.\<close>

definition post_exchange :: "libs \<Rightarrow> bytes list \<Rightarrow> (client, string) action" where
  "post_exchange L ls =
     and_then (on_conn (command L Post)) (\<lambda>line.
       if sl_code line \<noteq> SEND_ARTICLE
       then raise (if sl_code line = POSTING_NOT_PERMITTED then PostingNotAllowed (sl_text line)
                   else from_status ''POST'' line)
       else
         and_then (on_conn (send_block ls)) (\<lambda>_.
         and_then (on_conn (read_status L)) (\<lambda>line.
           if sl_code line = ARTICLE_POSTED then ret (sl_text line)
           else raise (if sl_code line \<in> {POSTING_NOT_PERMITTED, POSTING_FAILED}
                       then PostingRejected (sl_code line) (sl_text line)
                       else from_status ''POST'' line))))"

lemma post_cases:
  "post L d c =
     (case check_can_post c of
        Inl e \<Rightarrow> (Inl e, c)
      | Inr _ \<Rightarrow> (case to_lines L d of Inl e \<Rightarrow> (Inl (Proto e), c) | Inr ls \<Rightarrow> post_exchange L ls c))"
  by (auto simp: post_def post_exchange_def and_then_def try_proto_def split: sum.split)

lemma does_post:
  assumes "permits L Q Post" "\<And>ls. to_lines L d = Inr ls \<Longrightarrow> Q (wire ls)"
  shows "does 2 Q (kept s) (post L d)"
proof -
  have "does (Suc (Suc 0)) Q (kept s) (post_exchange L ls)" if "to_lines L d = Inr ls" for ls
  proof -
    have "does (Suc 0 + 0) Q (kept s) (and_then (on_conn (send_block ls)) (\<lambda>_.
        and_then (on_conn (read_status L)) (\<lambda>line. if sl_code line = ARTICLE_POSTED then ret (sl_text line)
             else raise (if sl_code line \<in> {POSTING_NOT_PERMITTED, POSTING_FAILED}
                         then PostingRejected (sl_code line) (sl_text line) else from_status ''POST'' line))))"
      by (intro does_and_then does_send_block) (use assms(2) [OF that] in \<open>auto intro!: does_rules\<close>)
    then show ?thesis
      unfolding post_exchange_def by (intro does_cmd [OF assms(1)] does_if does_ret) simp
  qed
  then show ?thesis
    by (auto simp: does_def post_cases emits_refl numeral_2_eq_2 split: sum.splits)
qed

section \<open>Requests\<close>

datatype request =
    RefreshCapabilities | EnterReaderMode | Handshake
  | Authenticate string "string option" bool
  | SelectGroup group_name
  | ListGroups "wildmat option" | ListDescriptions "wildmat option" | OverviewFormat
  | Overview art_range
  | FetchArticle article_spec | FetchHead article_spec | FetchBody article_spec | StatArticle article_spec
  | ServerDate | ServerHelp
  | HeaderField header_name range_or_id
  | ArticleNumbers "group_name option" "art_range option"
  | NextArticle | PreviousArticle
  | CreationTimes "wildmat option" | HeaderFields | GroupsSince datetime
  | PostDraft draft | QuitSession

text \<open>The state a request leaves behind.\<close>

fun perform :: "libs \<Rightarrow> request \<Rightarrow> client \<Rightarrow> client" where
  "perform L RefreshCapabilities c = snd (refresh_capabilities L c)"
| "perform L EnterReaderMode c = snd (enter_reader_mode L c)"
| "perform L Handshake c = snd (handshake L c)"
| "perform L (Authenticate user pass allow) c = snd (authenticate L user pass allow c)"
| "perform L (SelectGroup g) c = snd (select_group L g c)"
| "perform L (ListGroups pat) c = snd (list_groups L pat c)"
| "perform L (ListDescriptions pat) c = snd (list_group_descriptions L pat c)"
| "perform L request.OverviewFormat c = snd (overview_format L c)"
| "perform L (Overview rng) c = snd (overview L rng c)"
| "perform L (FetchArticle spec) c = snd (fetch_article L spec c)"
| "perform L (FetchHead spec) c = snd (fetch_head L spec c)"
| "perform L (FetchBody spec) c = snd (fetch_body L spec c)"
| "perform L (StatArticle spec) c = snd (stat L spec c)"
| "perform L ServerDate c = snd (server_date L c)"
| "perform L ServerHelp c = snd (server_help L c)"
| "perform L (HeaderField field target) c = snd (header_field L field target c)"
| "perform L (ArticleNumbers g rng) c = snd (article_numbers L g rng c)"
| "perform L NextArticle c = snd (next_article L c)"
| "perform L PreviousArticle c = snd (previous_article L c)"
| "perform L (CreationTimes pat) c = snd (group_creation_times L pat c)"
| "perform L HeaderFields c = snd (available_header_fields L c)"
| "perform L (GroupsSince since) c = snd (new_groups L since c)"
| "perform L (PostDraft d) c = snd (post L d c)"
| "perform L QuitSession c = snd (quit L c)"

text \<open>The commands a request may send.\<close>

fun commands_of :: "request \<Rightarrow> command list" where
  "commands_of RefreshCapabilities = [command.Capabilities None]"
| "commands_of EnterReaderMode = [ModeReader]"
| "commands_of Handshake = [command.Capabilities None, ModeReader]"
| "commands_of (Authenticate user pass allow) =
     [AuthInfoUser user, command.Capabilities None] @ (case pass of Some p \<Rightarrow> [AuthInfoPass p] | None \<Rightarrow> [])"
| "commands_of (SelectGroup g) = [GroupCmd g]"
| "commands_of (ListGroups pat) = [ListCmd (Active pat)]"
| "commands_of (ListDescriptions pat) = [ListCmd (NewsgroupsKw pat)]"
| "commands_of request.OverviewFormat = [ListCmd list_keyword.OverviewFmt]"
| "commands_of (Overview rng) =
     [ListCmd list_keyword.OverviewFmt, command.Over (RoiRange rng), command.XOver rng]"
| "commands_of (FetchArticle spec) = [Article spec]"
| "commands_of (FetchHead spec) = [Head spec]"
| "commands_of (FetchBody spec) = [Body spec]"
| "commands_of (StatArticle spec) = [Stat spec]"
| "commands_of ServerDate = [Date]"
| "commands_of ServerHelp = [Help]"
| "commands_of (HeaderField field target) = [Hdr field target, XHdr field target]"
| "commands_of (ArticleNumbers g rng) = [ListGroup g rng]"
| "commands_of NextArticle = [Next]"
| "commands_of PreviousArticle = [Last]"
| "commands_of (CreationTimes pat) = [ListCmd (ActiveTimes pat)]"
| "commands_of HeaderFields = [ListCmd HeadersKw]"
| "commands_of (GroupsSince since) = [NewGroups since]"
| "commands_of (PostDraft d) = [Post]"
| "commands_of QuitSession = [Quit]"

definition selects :: "request \<Rightarrow> bool" where
  "selects q = (case q of SelectGroup _ \<Rightarrow> True | ArticleNumbers _ _ \<Rightarrow> True | _ \<Rightarrow> False)"

lemma does_snd: "does n Q F m \<Longrightarrow> n \<le> 3 \<Longrightarrow> emits 3 Q c (snd (m c)) \<and> F (snd (m c)) = F c"
  unfolding does_def by (cases "m c") (auto intro: emits_mono)

text \<open>Requests that depend on the selected group, and what can be sent in a state.\<close>

definition needs_selection :: "request \<Rightarrow> bool" where
  "needs_selection q =
     (case q of
        Overview _ \<Rightarrow> True
      | FetchArticle spec \<Rightarrow> needs_selected_group spec
      | FetchHead spec \<Rightarrow> needs_selected_group spec
      | FetchBody spec \<Rightarrow> needs_selected_group spec
      | StatArticle spec \<Rightarrow> needs_selected_group spec
      | HeaderField _ target \<Rightarrow> \<not> names_message target
      | ArticleNumbers g _ \<Rightarrow> g = None
      | NextArticle \<Rightarrow> True
      | PreviousArticle \<Rightarrow> True
      | _ \<Rightarrow> False)"

definition may_authenticate :: "client \<Rightarrow> request \<Rightarrow> bool" where
  "may_authenticate c q = (case q of Authenticate _ _ allow \<Rightarrow> encrypted c \<or> allow | _ \<Rightarrow> True)"

definition commands_in :: "client \<Rightarrow> request \<Rightarrow> command list" where
  "commands_in c q =
     (if needs_selection q \<and> selected c = None \<or> \<not> may_authenticate c q then [] else commands_of q)"

lemma refused_request:
  "needs_selection q \<Longrightarrow> selected c = None \<Longrightarrow> perform L q c = c"
  by (cases q)
    (auto simp: needs_selection_def overview_def fetch_article_def fetch_head_def fetch_body_def stat_def
      fetch_block_def needs_group_def spec_of_def and_then_def header_field_def header_field_streaming.simps
      header_command_def Let_def collected_def article_numbers_def next_article_def previous_article_def step_def)

lemma does_overview:
  assumes "permits L Q (ListCmd list_keyword.OverviewFmt)" "permits L Q (command.Over (RoiRange rng))"
    "permits L Q (command.XOver rng)"
  shows "does 3 Q (kept s) (overview L rng)"
proof -
  have "does 2 Q (kept s) (\<lambda>c. collected (overview_streaming L rng fmt collect nothing c))" for fmt
    unfolding does_def
  proof (intro allI impI)
    fix c r c' assume "collected (overview_streaming L rng fmt collect nothing c) = (r, c')"
    then obtain r1 acc where "overview_streaming L rng fmt collect nothing c = (r1, acc, c')"
      by (auto simp: collected_def split: prod.splits)
    then show "emits 2 Q c c' \<and> kept s c' = kept s c" by (rule overview_does [OF assms(3,2)])
  qed
  then have "does (Suc 0 + 2) Q (kept s) (and_then (overview_format L)
      (\<lambda>fmt c. collected (overview_streaming L rng fmt collect nothing c)))"
    by (intro does_and_then does_overview_format assms(1))
  then show ?thesis by (auto simp: does_def overview_def emits_refl numeral_3_eq_3)
qed

lemma does_header:
  assumes "permits L Q (Hdr field target)" "permits L Q (XHdr field target)"
  shows "does 2 Q (kept s) (header_field L field target)"
  unfolding does_def
proof (intro allI impI)
  fix c r c' assume "header_field L field target c = (r, c')"
  then obtain r1 acc where "header_field_streaming L field target collect nothing c = (r1, acc, c')"
    by (auto simp: header_field_def collected_def split: prod.splits)
  then show "emits 2 Q c c' \<and> kept s c' = kept s c" by (rule header_does [OF assms(2,1)])
qed

lemma perform_does:
  assumes "list_all (permits L Q) (commands_in c q)"
    and "\<And>d ls. q = PostDraft d \<Longrightarrow> to_lines L d = Inr ls \<Longrightarrow> Q (wire ls)"
    and "s \<Longrightarrow> \<not> selects q"
  shows "emits 3 Q c (perform L q c) \<and> kept s (perform L q c) = kept s c"
proof (cases "needs_selection q \<and> selected c = None")
  case True
  then show ?thesis by (simp add: refused_request emits_refl)
next
  case False
  show ?thesis
  proof (cases q)
    case (Authenticate user pass allow)
    obtain r c' where a: "authenticate L user pass allow c = (r, c')" by fastforce
    show ?thesis
    proof (cases "encrypted c \<or> allow")
      case True
      have "emits 3 Q c c' \<and> kept s c' = kept s c"
        by (rule does_authenticate [OF _ _ _ a])
          (use assms(1) Authenticate False True in \<open>auto simp: commands_in_def may_authenticate_def\<close>)
      with a Authenticate show ?thesis by simp
    next
      case F: False
      with a Authenticate show ?thesis by (auto simp: authenticate_def emits_refl)
    qed
  next
    case QuitSession
    obtain r c' where a: "quit L c = (r, c')" by fastforce
    have "emits (Suc 0) Q c c' \<and> kept s c' = kept s c"
      by (rule does_quit [OF _ a])
        (use assms(1) QuitSession in \<open>simp add: commands_in_def may_authenticate_def needs_selection_def\<close>)
    with a QuitSession emits_mono [of "Suc 0" Q c c' 3] show ?thesis by simp
  next
    case (SelectGroup g)
    with assms(3) have "\<not> s" by (auto simp: selects_def)
    with SelectGroup assms(1) does_snd [OF does_select, of L Q g c] show ?thesis
      by (simp add: commands_in_def may_authenticate_def needs_selection_def)
  next
    case (ArticleNumbers g rng)
    with assms(3) have "\<not> s" by (auto simp: selects_def)
    have "permits L Q (ListGroup g rng)"
      using ArticleNumbers assms(1) False by (auto simp: commands_in_def may_authenticate_def)
    from does_snd [OF does_numbers [OF this], of c] ArticleNumbers \<open>\<not> s\<close> show ?thesis by simp
  next
    case (PostDraft d)
    have "permits L Q Post"
      using PostDraft assms(1) by (simp add: commands_in_def may_authenticate_def needs_selection_def)
    then have "does 2 Q (kept s) (post L d)" using assms(2) [OF PostDraft] by (rule does_post)
    from does_snd [OF this, of c] PostDraft show ?thesis by simp
  qed (use assms(1) False in \<open>auto simp: commands_in_def may_authenticate_def next_article_def previous_article_def
      intro!: does_snd does_refresh does_reader does_handshake does_list_groups does_descriptions does_overview_format
        does_overview does_articles does_header does_simple\<close>)
qed

section \<open>Sessions\<close>

text \<open>
  What holds of every request holds of a session: an invariant of the client, and that only
  allowed pieces are sent.
\<close>

locale client_session =
  fixes run :: "request \<Rightarrow> client \<Rightarrow> client"
    and asked :: "request \<Rightarrow> bool"
    and inv :: "client \<Rightarrow> bool"
    and allowed :: "bytes \<Rightarrow> bool"
  assumes run_inv: "inv c \<Longrightarrow> asked q \<Longrightarrow> inv (run q c)"
    and run_emits: "inv c \<Longrightarrow> asked q \<Longrightarrow> emits 3 allowed c (run q c)"
begin

lemma session:
  "inv c \<Longrightarrow> list_all asked qs \<Longrightarrow>
     inv (fold run qs c) \<and> emits (3 * length qs) allowed c (fold run qs c)"
proof (induction qs arbitrary: c)
  case (Cons q qs)
  then have "inv (run q c)" "emits 3 allowed c (run q c)" by (simp_all add: run_inv run_emits)
  with Cons have "inv (fold run qs (run q c))" "emits (3 * length qs) allowed (run q c) (fold run qs (run q c))"
    by simp_all
  with emits_trans [OF \<open>emits 3 allowed c (run q c)\<close> this(2)] show ?case by simp
qed (simp add: emits_refl)

end

text \<open>Everything but credentials: any other command and any article that is posted.\<close>

definition credential :: "command \<Rightarrow> bool" where
  "credential cmd = (case cmd of AuthInfoUser _ \<Rightarrow> True | AuthInfoPass _ \<Rightarrow> True | _ \<Rightarrow> False)"

definition posted :: "libs \<Rightarrow> bytes \<Rightarrow> bool" where
  "posted L b \<longleftrightarrow> (\<exists>d ls. to_lines L d = Inr ls \<and> b = wire ls)"

definition no_credential :: "libs \<Rightarrow> bytes \<Rightarrow> bool" where
  "no_credential L b \<longleftrightarrow> (\<exists>cmd. \<not> credential cmd \<and> to_wire L cmd = Inr b) \<or> posted L b"

definition never_allows_plaintext :: "request \<Rightarrow> bool" where
  "never_allows_plaintext q = (case q of Authenticate _ _ allow \<Rightarrow> \<not> allow | _ \<Rightarrow> True)"

lemma commands_of_credential:
  "cmd \<in> set (commands_of q) \<Longrightarrow> credential cmd \<Longrightarrow> \<exists>u p a. q = Authenticate u p a"
  by (cases q) (auto simp: credential_def split: option.splits)

interpretation confidential: client_session "perform L" never_allows_plaintext "\<lambda>c :: client. \<not> encrypted c" "no_credential L" for L
proof unfold_locales
  fix c :: client and q assume a: "\<not> encrypted c" "never_allows_plaintext q"
  have "list_all (permits L (no_credential L)) (commands_in c q)"
    using a commands_of_credential [of _ q]
    by (auto simp: list_all_iff commands_in_def permits_def no_credential_def may_authenticate_def
        never_allows_plaintext_def split: request.splits)
  then have "emits 3 (no_credential L) c (perform L q c) \<and> kept False (perform L q c) = kept False c"
    by (rule perform_does) (auto simp: no_credential_def posted_def)
  with a(1) show "\<not> encrypted (perform L q c)" "emits 3 (no_credential L) c (perform L q c)"
    by (simp_all add: kept_def)
qed

text \<open>Everything that does not depend on a selected group.\<close>

definition group_command :: "command \<Rightarrow> bool" where
  "group_command cmd =
     (case cmd of
        Article spec \<Rightarrow> needs_selected_group spec
      | Head spec \<Rightarrow> needs_selected_group spec
      | Body spec \<Rightarrow> needs_selected_group spec
      | Stat spec \<Rightarrow> needs_selected_group spec
      | command.Over target \<Rightarrow> \<not> names_message target
      | command.XOver _ \<Rightarrow> True
      | Hdr _ target \<Rightarrow> \<not> names_message target
      | XHdr _ target \<Rightarrow> \<not> names_message target
      | ListGroup g _ \<Rightarrow> g = None
      | Next \<Rightarrow> True
      | Last \<Rightarrow> True
      | _ \<Rightarrow> False)"

definition group_free :: "libs \<Rightarrow> bytes \<Rightarrow> bool" where
  "group_free L b \<longleftrightarrow> (\<exists>cmd. \<not> group_command cmd \<and> to_wire L cmd = Inr b) \<or> posted L b"

lemma commands_of_group: "cmd \<in> set (commands_of q) \<Longrightarrow> group_command cmd \<Longrightarrow> needs_selection q"
  by (cases q) (auto simp: group_command_def needs_selection_def names_message_def split: option.splits)

interpretation unselected: client_session "perform L" "\<lambda>q. \<not> selects q" "\<lambda>c :: client. selected c = None" "group_free L" for L
proof unfold_locales
  fix c :: client and q assume a: "selected c = None" "\<not> selects q"
  have "list_all (permits L (group_free L)) (commands_in c q)"
    using a commands_of_group [of _ q]
    by (auto simp: list_all_iff commands_in_def permits_def group_free_def)
  then have "emits 3 (group_free L) c (perform L q c) \<and> kept True (perform L q c) = kept True c"
    by (rule perform_does) (use a in \<open>auto simp: group_free_def posted_def\<close>)
  with a(1) show "selected (perform L q c) = None" "emits 3 (group_free L) c (perform L q c)"
    by (simp_all add: kept_def)
qed

end
