(* ===== verification/Conversation.thy ===== *)
theory Conversation
  imports Session Posting Sample_Libs
begin

text \<open>
  What a user of the client can rely on over a whole conversation: secrets, the selected group, a
  lost connection, the choice between the standard verbs and their older names, and posting.
\<close>

section \<open>A client to evaluate\<close>

definition roomy :: limits where
  "roomy = \<lparr>max_line_len = 60, max_block_bytes = 100, max_block_lines = 10\<rparr>"

definition sample_client :: "bool \<Rightarrow> read_result list \<Rightarrow> client" where
  "sample_client enc rs =
     from_parts (with_limits (sample_stream rs) roomy)
       \<lparr>g_code = GREETING_POSTING_ALLOWED, g_text = ''hi'', posting_allowed = True\<rparr> enc"

section \<open>Sessions\<close>

text \<open>C30: A password never crosses an unencrypted connection unless the caller allows it: from a
  client whose transport is not encrypted, whatever requests are made, in any number and order and
  whatever the server answers, every piece sent is a part of a command other than \<open>AUTHINFO\<close> or of
  an article that is posted, as long as no request allows plaintext.\<close>
theorem credentials_stay_private:
  assumes "\<not> encrypted c" "list_all never_allows_plaintext qs"
  shows "\<not> encrypted (fold (perform L) qs c) \<and>
    emits (3 * length qs) (no_credential L) c (fold (perform L) qs c)"
  by (rule confidential.session [OF assms])

lemma credentials_stay_private_witness:
  "emits 6 (no_credential sample_libs) (sample_client False [])
     (fold (perform sample_libs) [Authenticate ''joe'' (Some ''secret'') False, ServerHelp] (sample_client False []))"
  using credentials_stay_private [of "sample_client False []"
      "[Authenticate ''joe'' (Some ''secret'') False, ServerHelp]" sample_libs]
  by (simp add: sample_client_def from_parts_def never_allows_plaintext_def)

text \<open>C1: Without a selected group, no session that selects none sends a command that needs one:
  \<open>OVER\<close>, \<open>HDR\<close>, \<open>NEXT\<close>, \<open>LAST\<close>, \<open>LISTGROUP\<close> and the article commands by number are refused by
  the client itself.\<close>
theorem group_commands_need_selection:
  assumes "selected c = None" "list_all (\<lambda>q. \<not> selects q) qs"
  shows "selected (fold (perform L) qs c) = None \<and>
    emits (3 * length qs) (group_free L) c (fold (perform L) qs c)"
  by (rule unselected.session [OF assms])

lemma group_commands_need_selection_witness:
  "selected (fold (perform sample_libs) [NextArticle, FetchArticle (SpecNumber 3), ServerHelp]
     (sample_client False [])) = None"
  using group_commands_need_selection [of "sample_client False []"
      "[NextArticle, FetchArticle (SpecNumber 3), ServerHelp]" sample_libs]
  by (simp add: sample_client_def from_parts_def selects_def)

section \<open>A lost connection\<close>

lemma lost_command:
  assumes "desynchronised (conn c)"
  shows "on_conn (command L cmd) c =
    (Inl (ConnectionClosed (Some ''a connection that lost protocol synchronisation'')), c)"
proof -
  have "conn c = desync (conn c)" using assms by (simp add: desync_def)
  then have "command L cmd (conn c) =
      (Inl (ConnectionClosed (Some ''a connection that lost protocol synchronisation'')), conn c)"
    using send_lost(1) [of L cmd "conn c"] by (simp add: command_def)
  then show ?thesis by (simp add: on_conn_def)
qed

text \<open>A method that leaves the state as it is, whatever it returns.\<close>

definition idle :: "(client, 'a) action \<Rightarrow> client \<Rightarrow> bool" where
  "idle m c \<longleftrightarrow> snd (m c) = c"

lemma idle_and_then: "idle m c \<Longrightarrow> (\<And>x. idle (f x) c) \<Longrightarrow> idle (and_then m f) c"
  by (auto simp: idle_def and_then_def split: prod.split sum.split)

lemma idle_ret: "idle (ret x) c" "idle (raise e) c"
  by (simp_all add: idle_def)

lemma lost_overview_streaming:
  "desynchronised (conn c) \<Longrightarrow> snd (snd (overview_streaming L rng fmt f acc c)) = c"
  by (auto simp: overview_streaming.simps [of L rng fmt f acc c] Let_def lost_command split: prod.split)

lemma lost_header_streaming:
  "desynchronised (conn c) \<Longrightarrow> snd (snd (header_field_streaming L field target f acc c)) = c"
  by (auto simp: header_field_streaming.simps [of L field target f acc c] Let_def lost_command split: prod.split)

lemma lost_fetch_block: "desynchronised (conn c) \<Longrightarrow> idle (fetch_block L name cmd want) c"
  by (simp add: idle_def fetch_block_def lost_command)

lemma lost_overview_format: "desynchronised (conn c) \<Longrightarrow> idle (overview_format L) c"
  by (simp add: idle_def overview_format_def lost_command split: option.split)

lemma snd_collected: "snd (collected r) = snd (snd r)"
  by (simp add: collected_def case_prod_unfold)

lemma lost_collecting:
  assumes "desynchronised (conn c)"
  shows "idle (overview L rng) c" "idle (header_field L field target) c"
proof -
  have "idle (\<lambda>c. collected (overview_streaming L rng fmt collect nothing c)) c" for fmt
    using lost_overview_streaming [OF assms] by (simp add: idle_def snd_collected)
  with idle_and_then [OF lost_overview_format [OF assms, of L] this] show "idle (overview L rng) c"
    by (simp add: overview_def idle_def)
  show "idle (header_field L field target) c"
    using lost_header_streaming [OF assms] by (simp add: idle_def header_field_def snd_collected)
qed

lemma lost_fetches:
  assumes "desynchronised (conn c)"
  shows "idle (fetch_article L spec) c" "idle (fetch_head L spec) c" "idle (fetch_body L spec) c"
  unfolding fetch_article_def fetch_head_def fetch_body_def
  by (auto intro!: idle_and_then lost_fetch_block assms idle_ret split: prod.split)

lemma perform_lost: "desynchronised (conn c) \<Longrightarrow> perform L q c = c"
  by (cases q)
    (simp_all add: lost_command lost_fetches [unfolded idle_def] lost_collecting [unfolded idle_def]
      lost_overview_format [unfolded idle_def] refresh_capabilities_def enter_reader_mode_def handshake_def
      authenticate_def select_group_def list_groups_def list_groups_streaming_def list_group_descriptions_def
      collected_def stat_def server_date_def server_help_def article_numbers_def next_article_def
      previous_article_def step_def group_creation_times_def available_header_fields_def new_groups_def
      post_cases post_exchange_def quit_def split: sum.split)

text \<open>Once the position in the stream is lost, the client neither sends nor reads anything
  more: every session from then on leaves it as it is.\<close>
theorem lost_client_is_silent:
  assumes "desynchronised (conn c)"
  shows "fold (perform L) qs c = c"
  using assms by (induction qs) (simp_all add: perform_lost)

lemma lost_client_is_silent_witness:
  "fold (perform sample_libs) [Handshake, QuitSession]
     (sample_client False []\<lparr>conn := desync (conn (sample_client False []))\<rparr>) =
   sample_client False []\<lparr>conn := desync (conn (sample_client False []))\<rparr>"
  by (rule lost_client_is_silent) (simp add: desync_def)

section \<open>The choice of a verb\<close>

text \<open>The commands that the overview of a range may send.\<close>

definition over_or_xover :: "libs \<Rightarrow> art_range \<Rightarrow> bytes \<Rightarrow> bool" where
  "over_or_xover L rng b \<longleftrightarrow>
     to_wire L (command.Over (RoiRange rng)) = Inr b \<or> to_wire L (command.XOver rng) = Inr b"

text \<open>Asking with one verb, \<open>OVER\<close> or \<open>XOVER\<close>, and what comes of the answer.  The outcome of a call
  is its result, what the callback has gathered, and the client.  A verb that works is remembered
  before the records are read; \<open>XOVER\<close> unknown as well means that the client will not ask again;
  any other answer is the error it stands for and nothing is learnt from it.\<close>

definition asked_with :: "libs \<Rightarrow> overview_style \<Rightarrow> art_range \<Rightarrow> client \<Rightarrow> (client_error + status_line) \<times> client" where
  "asked_with L verb rng = on_conn (command L (fst (overview_command verb rng)))"

definition verb_settles ::
  "libs \<Rightarrow> art_range \<Rightarrow> overview_fmt \<Rightarrow> (overview_record + string \<Rightarrow> 'a \<Rightarrow> 'a) \<Rightarrow> 'a \<Rightarrow>
     overview_style \<Rightarrow> client \<Rightarrow> (client_error + unit) \<times> 'a \<times> client \<Rightarrow> bool" where
  "verb_settles L rng fmt f acc verb c outcome \<longleftrightarrow>
     (case asked_with L verb rng c of
        (Inl e, c1) \<Rightarrow> outcome = (Inl e, acc, c1) \<and> overview_style c1 = overview_style c
      | (Inr line, c1) \<Rightarrow>
          if sl_code line = OVERVIEW_FOLLOWS
          then outcome = stream_block L (\<lambda>raw. f (entry_or_line raw (overview_parse L fmt raw))) acc
                 (c1\<lparr>overview_style := verb\<rparr>) \<and> overview_style (snd (snd outcome)) = verb
          else if verb_unsupported line
          then verb = OverviewXOver \<and>
            outcome = (Inl (CommandNotSupported ''XOVER''), acc, c1\<lparr>overview_style := OverviewUnavailable\<rparr>)
          else outcome = (Inl (from_status (snd (overview_command verb rng)) line), acc, c1) \<and>
            overview_style c1 = overview_style c)"

text \<open>Whether the server does not know \<open>OVER\<close>.\<close>

definition over_refused :: "libs \<Rightarrow> art_range \<Rightarrow> client \<Rightarrow> bool" where
  "over_refused L rng c \<longleftrightarrow>
     (case fst (asked_with L OverviewOver rng c) of
        Inr line \<Rightarrow> sl_code line \<noteq> OVERVIEW_FOLLOWS \<and> verb_unsupported line | Inl _ \<Rightarrow> False)"

lemma stream_block_styles:
  "stream_block L f acc c = (r, acc', c') \<Longrightarrow> overview_style c' = overview_style c"
  by (auto simp: stream_block_def split: prod.splits)

lemma on_conn_styles: "on_conn m c = (r, c') \<Longrightarrow> overview_style c' = overview_style c"
  by (auto simp: on_conn_def split: prod.splits)

lemma from_status_unsupported:
  "verb_unsupported line \<Longrightarrow> from_status name line = CommandNotSupported name"
  by (cases "sl_code line") (auto simp: verb_unsupported_def from_status_def Let_def code_defs)

lemma stream_block_settles:
  "overview_style (snd (snd (stream_block L f acc (c\<lparr>overview_style := v\<rparr>)))) = v"
  by (simp add: stream_block_def split: prod.split)

lemma xover_settles:
  assumes "resolve_overview_style c = OverviewXOver"
  shows "verb_settles L rng fmt f acc OverviewXOver c (overview_streaming L rng fmt f acc c)"
  using assms stream_block_settles on_conn_styles from_status_unsupported [of _ "''XOVER''"]
  by (auto simp: verb_settles_def asked_with_def overview_command_def overview_streaming.simps [of L rng fmt f acc c]
      split: prod.split sum.split)

lemma over_settles:
  assumes "resolve_overview_style c \<notin> {OverviewXOver, OverviewUnavailable}" "\<not> over_refused L rng c"
  shows "verb_settles L rng fmt f acc OverviewOver c (overview_streaming L rng fmt f acc c)"
  using assms stream_block_settles on_conn_styles
  by (auto simp: verb_settles_def asked_with_def over_refused_def overview_command_def
      overview_streaming.simps [of L rng fmt f acc c] split: prod.split sum.split)

lemma over_falls_back:
  assumes "resolve_overview_style c \<notin> {OverviewXOver, OverviewUnavailable}" "over_refused L rng c"
  shows "overview_streaming L rng fmt f acc c =
    overview_streaming L rng fmt f acc ((snd (asked_with L OverviewOver rng c))\<lparr>overview_style := OverviewXOver\<rparr>)"
proof -
  obtain r1 c1 where k: "on_conn (command L (command.Over (RoiRange rng))) c = (r1, c1)" by fastforce
  with assms show ?thesis
    by (auto simp: asked_with_def over_refused_def overview_command_def Let_def
        overview_streaming.simps [of L rng fmt f acc c] split: sum.splits)
qed

lemma resolve_settled:
  "overview_style c \<noteq> OverviewUnknown \<Longrightarrow> resolve_overview_style c = overview_style c"
  by (simp add: resolve_overview_style_def)

text \<open>C29: Fetching an overview settles which verb the server knows.  \<open>OVER\<close> is tried first, unless
  \<open>XOVER\<close> is known to be the verb; when the server does not know \<open>OVER\<close>, \<open>XOVER\<close> is sent behind it
  on the same connection, and that ends it: at most two commands are sent, and none once both are
  known to be missing.  The verb that worked is remembered, and is the one the next fetch starts
  with; only a server that has refused \<open>XOVER\<close> as unknown makes the client stop asking.\<close>
theorem overview_verb_settles:
  "case overview_streaming L rng fmt f acc c of (r, acc', c') \<Rightarrow>
     emits 2 (over_or_xover L rng) c c' \<and>
     (resolve_overview_style c = OverviewXOver \<longrightarrow> emits 1 (\<lambda>b. to_wire L (command.XOver rng) = Inr b) c c') \<and>
     (if resolve_overview_style c = OverviewUnavailable then (r, acc', c') = (Inl (CommandNotSupported ''OVER''), acc, c)
      else if resolve_overview_style c = OverviewXOver then verb_settles L rng fmt f acc OverviewXOver c (r, acc', c')
      else if over_refused L rng c
      then verb_settles L rng fmt f acc OverviewXOver
        ((snd (asked_with L OverviewOver rng c))\<lparr>overview_style := OverviewXOver\<rparr>) (r, acc', c')
      else verb_settles L rng fmt f acc OverviewOver c (r, acc', c')) \<and>
     (overview_style c' \<noteq> OverviewUnknown \<longrightarrow> resolve_overview_style c' = overview_style c')"
proof -
  obtain r acc' c' where o: "overview_streaming L rng fmt f acc c = (r, acc', c')" by (metis prod_cases3)
  have two: "emits 2 (over_or_xover L rng) c c'"
    by (rule conjunct1 [OF overview_does [OF _ _ o]]) (auto simp: permits_def over_or_xover_def)
  have one: "emits 1 (\<lambda>b. to_wire L (command.XOver rng) = Inr b) c c'"
    if "resolve_overview_style c = OverviewXOver"
    by (rule conjunct1 [OF overview_x_does [OF _ that o]]) (auto simp: permits_def)
  have none: "(r, acc', c') = (Inl (CommandNotSupported ''OVER''), acc, c)"
    if "resolve_overview_style c = OverviewUnavailable"
    using o that by (simp add: overview_streaming.simps [of L rng fmt f acc c] overview_command_def)
  let ?x = "(snd (asked_with L OverviewOver rng c))\<lparr>overview_style := OverviewXOver\<rparr>"
  have "resolve_overview_style ?x = OverviewXOver" by (simp add: resolve_settled)
  note x = xover_settles [OF this, of L rng fmt f acc]
  show ?thesis
    using o two one none x over_falls_back [of c L rng fmt f acc] over_settles [of c L rng fmt f acc]
      xover_settles [of c L rng fmt f acc] resolve_settled [of c'] by simp
qed

lemma overview_verb_settles_witness:
  "case overview_streaming sample_libs (Single 1) fmt_standard collect nothing
      (sample_client False [Data (''500 what'' @ [CR, LF] @ ''224 here'' @ [CR, LF] @ ''.'' @ [CR, LF])]) of
     (r, acc', c') \<Rightarrow> r = Inr () \<and> overview_style c' = OverviewXOver \<and> resolve_overview_style c' = OverviewXOver"
proof -
  let ?c = "sample_client False [Data (''500 what'' @ [CR, LF] @ ''224 here'' @ [CR, LF] @ ''.'' @ [CR, LF])]"
  have "case overview_streaming sample_libs (Single 1) fmt_standard collect nothing ?c of
     (r, acc', c') \<Rightarrow> r = Inr () \<and> overview_style c' = OverviewXOver"
    by code_simp
  with overview_verb_settles [where L = sample_libs and rng = "Single 1" and fmt = fmt_standard and f = collect
      and acc = nothing and c = ?c]
  show ?thesis by (auto split: prod.splits)
qed

section \<open>Posting\<close>

definition post_command :: bytes where
  "post_command = ''POST'' @ [CR, LF]"

lemma post_wire: "to_wire L Post = Inr post_command"
  by code_simp

text \<open>Whether the server answers \<open>POST\<close> by asking for the article.\<close>

definition asks_for_article :: "libs \<Rightarrow> client \<Rightarrow> bool" where
  "asks_for_article L c =
     (case fst (on_conn (command L Post) c) of Inr line \<Rightarrow> sl_code line = SEND_ARTICLE | Inl _ \<Rightarrow> False)"

lemma on_conn_sends:
  "on_conn (command L Post) c = (r, c') \<Longrightarrow>
     \<exists>w. prefix w post_command \<and> sent (conn c') = sent (conn c) @ w \<and> (isl r \<or> w = post_command)"
  using command_sent [of L Post "conn c"] by (fastforce simp: on_conn_def post_wire split: prod.splits)

lemma on_conn_block_sends:
  "on_conn (send_block ls) c = (r, c') \<Longrightarrow>
     \<exists>w. prefix w (wire ls) \<and> sent (conn c') = sent (conn c) @ w \<and> (isl r \<or> w = wire ls)"
  using send_block_sent [of ls "conn c"] by (auto simp: on_conn_def split: prod.splits)

lemma on_conn_status_sends:
  "on_conn (read_status L) c = (r, c') \<Longrightarrow> sent (conn c') = sent (conn c)"
  by (auto simp: on_conn_def dest: read_status_sent split: prod.splits)

lemma post_exchange_sends:
  assumes "post_exchange L ls c = (r, c')"
  shows "\<exists>w. sent (conn c') = sent (conn c) @ w \<and> (isl r \<or> w = post_command @ wire ls) \<and>
    prefix w (if asks_for_article L c then post_command @ wire ls else post_command)"
  using assms unfolding post_exchange_def
proof (cases rule: and_then_cases)
  case (failed e)
  with on_conn_sends [OF failed(1)] show ?thesis by (auto simp: asks_for_article_def)
next
  case (continued line c1)
  from on_conn_sends [OF continued(1)] have c1: "sent (conn c1) = sent (conn c) @ post_command" by auto
  show ?thesis
  proof (cases "sl_code line = SEND_ARTICLE")
    case False
    with continued c1 show ?thesis by (intro exI [of _ post_command]) (auto simp: asks_for_article_def split: if_splits)
  next
    case True
    then have asks: "asks_for_article L c" using continued(1) by (simp add: asks_for_article_def)
    from continued(2) True have "and_then (on_conn (send_block ls)) (\<lambda>_.
        and_then (on_conn (read_status L)) (\<lambda>line. if sl_code line = ARTICLE_POSTED then ret (sl_text line)
           else raise (if sl_code line \<in> {POSTING_NOT_PERMITTED, POSTING_FAILED}
                       then PostingRejected (sl_code line) (sl_text line)
                       else from_status ''POST'' line))) c1 = (r, c')"
      by simp
    then show ?thesis
    proof (cases rule: and_then_cases)
      case (failed e)
      with on_conn_block_sends [OF failed(1)] c1 asks show ?thesis by (fastforce simp: prefix_def)
    next
      case (continued u c2)
      from on_conn_block_sends [OF continued(1)] have c2: "sent (conn c2) = sent (conn c1) @ wire ls" by auto
      from continued(2) have "sent (conn c') = sent (conn c2)"
        by (auto elim!: and_then_cases dest!: on_conn_status_sends split: if_splits)
      with c1 c2 asks show ?thesis by (intro exI [of _ "post_command @ wire ls"]) simp
    qed
  qed
qed

text \<open>C1: Posting takes two steps.  Nothing is sent when the client may not post or the draft
  cannot be encoded; otherwise \<open>POST\<close> is sent, the article follows only if the server asks for it,
  and a success means that exactly the command and the article as a data block were sent.\<close>
theorem post_two_steps:
  "case post L d c of (r, c') \<Rightarrow>
     (case (check_can_post c, to_lines L d) of
        (Inr _, Inr ls) \<Rightarrow>
          \<exists>w. sent (conn c') = sent (conn c) @ w \<and> (isl r \<or> w = post_command @ wire ls) \<and>
            prefix w (if asks_for_article L c then post_command @ wire ls else post_command)
      | _ \<Rightarrow> isl r \<and> c' = c)"
  using post_exchange_sends [of L _ c]
  by (auto simp: post_cases split: sum.split prod.split)

text \<open>C31: A draft that is posted arrives, when its body holds no carriage return, its encoded header
  values have no blanks at their ends and none of the lines sent holds a line feed (a header value
  with one is sent as two fields).  When \<open>post\<close> returns a reply, a peer that reads what the client
  sent behind \<open>POST\<close>, in whatever segments and within its limits, receives an article with the
  header fields of the draft in their order, each value encoded for the wire, then for a body that
  is not ASCII the MIME fields the draft does not give itself, and no others; and with the body of
  the draft less the line feeds at its end.\<close>
theorem posted_article_arrives:
  assumes "memchr_ok L" "post L d c = (Inr reply, c')" "to_lines L d = Inr ls"
    and "CR \<notin> set (d_body d)" "list_all (\<lambda>(_, v). clean_ends (encode_header_value L v)) (d_headers d)"
    and "sent (conn c') = sent (conn c) @ post_command @ ahead k" "quiet k" "\<not> desynchronised k"
    and "list_all (\<lambda>l. LF \<notin> set l \<and> length (stuff l) < max_line_len (conn_limits k)) ls"
    and "2 \<le> max_line_len (conn_limits k)" "length ls \<le> max_block_lines (conn_limits k)"
    and "sum_list (map (length \<circ> stuff) ls) \<le> max_block_bytes (conn_limits k)"
  shows "case fst (read_block L k) of
      Inl _ \<Rightarrow> False
    | Inr block \<Rightarrow>
        entries (art_headers (article_from_block L block)) =
          map (\<lambda>(n, v). (HeaderName n, HeaderValue v)) (sent_fields L d) \<and>
        join [LF] (art_body (article_from_block L block)) = trim_end_matches LF (d_body d)"
proof -
  have "sent (conn c') = sent (conn c) @ post_command @ wire ls"
    using assms(2,3) post_exchange_sends [of L ls c] by (auto simp: post_cases split: sum.splits)
  with assms(6) have "ahead k = wire ls @ []" by simp
  from read_block_wire [OF assms(1,7,8) this assms(9-12)]
  have "fst (read_block L k) = Inr (from_lines ls)" by auto
  with to_lines_read_back [OF assms(1,3-5)] show ?thesis by simp
qed

definition sample_draft :: draft where
  "sample_draft =
     \<lparr>d_headers = [(''From'', ''a''), (''Newsgroups'', ''b''), (''Subject'', ''c'')], d_body = ''text'' @ [LF]\<rparr>"

lemma posted_article_arrives_witness:
  "\<exists>reply c' ls.
     post sample_libs sample_draft (sample_client False [Data (''340 go'' @ [CR, LF]), Data (''240 ok'' @ [CR, LF])])
       = (Inr reply, c') \<and>
     to_lines sample_libs sample_draft = Inr ls \<and>
     (\<exists>block. fst (read_block sample_libs (with_limits (sample_stream [Data (wire ls)]) roomy)) = Inr block \<and>
        join [LF] (art_body (article_from_block sample_libs block)) = ''text'')"
proof -
  let ?c = "sample_client False [Data (''340 go'' @ [CR, LF]), Data (''240 ok'' @ [CR, LF])]"
  have "\<not> isl (to_lines sample_libs sample_draft)" by code_simp
  then obtain ls where ls: "to_lines sample_libs sample_draft = Inr ls"
    by (cases "to_lines sample_libs sample_draft") auto
  let ?k = "with_limits (sample_stream [Data (wire ls)]) roomy"
  have "\<not> isl (fst (post sample_libs sample_draft ?c))" by code_simp
  then obtain reply c' where p: "post sample_libs sample_draft ?c = (Inr reply, c')"
    by (cases "post sample_libs sample_draft ?c"; cases "fst (post sample_libs sample_draft ?c)") auto
  have "case to_lines sample_libs sample_draft of Inl _ \<Rightarrow> False | Inr ls \<Rightarrow>
      list_all (\<lambda>l. LF \<notin> set l \<and> length (stuff l) < 60) ls \<and> length ls \<le> 10 \<and>
      sum_list (map (length \<circ> stuff) ls) \<le> 100"
    by code_simp
  with ls have l: "list_all (\<lambda>l. LF \<notin> set l \<and> length (stuff l) < max_line_len (conn_limits ?k)) ls"
    "length ls \<le> max_block_lines (conn_limits ?k)"
    "sum_list (map (length \<circ> stuff) ls) \<le> max_block_bytes (conn_limits ?k)"
    by (simp_all add: with_limits_def roomy_def)
  have "sent (conn c') = sent (conn ?c) @ post_command @ wire ls"
    using p ls post_exchange_sends [of sample_libs ls ?c] by (auto simp: post_cases split: sum.splits)
  then have s: "sent (conn c') = sent (conn ?c) @ post_command @ ahead ?k"
    by (simp add: ahead_def with_limits_def sample_stream_def)
  have k: "quiet ?k" "\<not> desynchronised ?k" "2 \<le> max_line_len (conn_limits ?k)"
    by (simp_all add: quiet_def with_limits_def sample_stream_def roomy_def)
  have d: "CR \<notin> set (d_body sample_draft)"
    "list_all (\<lambda>(_, v). clean_ends (encode_header_value sample_libs v)) (d_headers sample_draft)"
    by (simp_all add: sample_draft_def encode_header_value_def is_ascii_def clean_ends_def)
  from posted_article_arrives [OF sample_libs_ok(1) p ls d s k(1,2) l(1) k(3) l(2,3)]
  obtain block where "fst (read_block sample_libs ?k) = Inr block"
    "join [LF] (art_body (article_from_block sample_libs block)) = trim_end_matches LF (d_body sample_draft)"
    by (auto split: sum.splits)
  moreover have "trim_end_matches LF (d_body sample_draft) = ''text''" by code_simp
  ultimately show ?thesis using p ls by auto
qed

section \<open>What the client does not do\<close>

text \<open>\<open>authenticate\<close> discards the result of the refresh behind it, so a time-out there is not seen
  and the late answer to \<open>CAPABILITIES\<close> is read as the answer to the next command.\<close>

lemma authenticate_hides_timeout:
  "(case authenticate sample_libs ''joe'' (Some ''pw'') False (sample_client True
       [Data (''381 more'' @ [CR, LF]), Data (''281 ok'' @ [CR, LF]), ReadFailed (Net_Error TimedOut []),
        Data (''101 caps'' @ [CR, LF])]) of
      (r, c) \<Rightarrow> r = Inr () \<and> \<not> desynchronised (conn c) \<and>
        fst (server_date sample_libs c) = Inl (Server ''DATE'' (rc_new 101) ''caps''))"
  by code_simp

text \<open>A draft that cannot be posted is refused with an error that counts as fatal to the
  connection, although nothing was sent.\<close>

lemma unpostable_draft_is_fatal:
  assumes "check_can_post c = Inr ()" "to_lines L d = Inl e"
  shows "\<exists>err. post L d c = (Inl err, c) \<and> is_connection_fatal err"
  using assms by (simp add: post_cases)

end
