(* ===== verification/Corpus.thy ===== *)
theory Corpus
  imports Rust_Text Ordered_Map Libs
begin

text \<open>
  \<open>crates/nntp-testserver/src/corpus.rs\<close> and \<open>config.rs\<close>: what a test server serves and how it
  is told to behave.  A group keeps its articles in a \<open>BTreeMap\<close>, the sorted list of its entries.
  Article numbers are 64-bit words and the number after the largest one wraps, as it does in a
  release build; a build with overflow checks panics there.
\<close>

section \<open>Articles\<close>

record stored =
  st_message_id :: string
  st_head :: "bytes list"
  st_body :: "bytes list"

definition stored_new :: "string \<Rightarrow> stored" where
  "stored_new message_id = \<lparr>st_message_id = message_id, st_head = [], st_body = []\<rparr>"

definition with_header :: "string \<Rightarrow> string \<Rightarrow> stored \<Rightarrow> stored" where
  "with_header name value a = a\<lparr>st_head := st_head a @ [name @ '': '' @ value]\<rparr>"

definition with_raw_header :: "bytes \<Rightarrow> stored \<Rightarrow> stored" where
  "with_raw_header line a = a\<lparr>st_head := st_head a @ [line]\<rparr>"

definition with_line :: "string \<Rightarrow> stored \<Rightarrow> stored" where
  "with_line line a = a\<lparr>st_body := st_body a @ [line]\<rparr>"

definition with_raw_line :: "bytes \<Rightarrow> stored \<Rightarrow> stored" where
  "with_raw_line line a = a\<lparr>st_body := st_body a @ [line]\<rparr>"

definition simple :: "string \<Rightarrow> string \<Rightarrow> string \<Rightarrow> string \<Rightarrow> string list \<Rightarrow> stored" where
  "simple message_id subject from date body =
     fold with_line body
       (with_header ''Newsgroups'' ''misc.test''
       (with_header ''Date'' date
       (with_header ''Subject'' subject
       (with_header ''From'' from
       (with_header ''Message-ID'' message_id
       (stored_new message_id))))))"

definition blank :: "char \<Rightarrow> bool" where
  "blank c \<longleftrightarrow> c = SP \<or> c = TAB"

text \<open>The function \<open>trim\<close> of the module.\<close>

definition trim_blank :: "bytes \<Rightarrow> bytes" where
  "trim_blank s = rev (dropWhile blank (rev (dropWhile blank s)))"

text \<open>The loop of \<open>header_value\<close>; \<open>found\<close> is the value so far.\<close>

fun header_value_loop :: "string \<Rightarrow> bytes list \<Rightarrow> bytes option \<Rightarrow> bytes option" where
  "header_value_loop name [] found = found"
| "header_value_loop name (line # rest) found =
     (if line \<noteq> [] \<and> blank (hd line)
      then header_value_loop name rest (map_option (\<lambda>value. value @ line) found)
      else
        (case found of
           Some value \<Rightarrow> Some value
         | None \<Rightarrow>
             (case split_once (CHR '':'') line of
                None \<Rightarrow> header_value_loop name rest None
              | Some (field, value) \<Rightarrow>
                  if eq_ignore_ascii_case field name
                  then header_value_loop name rest (Some (trim_blank value))
                  else header_value_loop name rest None)))"

definition header_value :: "string \<Rightarrow> stored \<Rightarrow> bytes option" where
  "header_value name a = header_value_loop name (st_head a) None"

definition stored_byte_len :: "stored \<Rightarrow> nat" where
  "stored_byte_len a =
     sum_list (map (\<lambda>line. length line + 2) (st_head a)) + 2 +
     sum_list (map (\<lambda>line. length line + 2) (st_body a))"

definition line_count :: "stored \<Rightarrow> nat" where
  "line_count a = length (st_body a)"

definition field_or_empty :: "string \<Rightarrow> stored \<Rightarrow> bytes" where
  "field_or_empty name a = (case header_value name a of Some v \<Rightarrow> v | None \<Rightarrow> [])"

definition overview_line :: "u64 \<Rightarrow> string \<Rightarrow> stored \<Rightarrow> bytes" where
  "overview_line number grp a =
     u64_to_string number @
     concat (map (\<lambda>value. TAB # value)
       [field_or_empty ''Subject'' a, field_or_empty ''From'' a, field_or_empty ''Date'' a,
        st_message_id a, field_or_empty ''References'' a, dec (stored_byte_len a),
        dec (line_count a)]) @
     TAB # ''Xref: test.invalid '' @ grp @ '':'' @ u64_to_string number"

section \<open>Groups\<close>

datatype posting = Permitted | Prohibited | Moderated

fun flag :: "posting \<Rightarrow> string" where
  "flag Permitted = ''y''"
| "flag Prohibited = ''n''"
| "flag Moderated = ''m''"

record newsgroup =
  ng_name :: string
  ng_description :: string
  ng_posting :: posting
  ng_created :: u64
  ng_articles :: "(u64, stored) btree_map"

definition newsgroup_new :: "string \<Rightarrow> newsgroup" where
  "newsgroup_new name =
     \<lparr>ng_name = name, ng_description = [], ng_posting = Permitted, ng_created = 1000000000,
      ng_articles = []\<rparr>"

definition with_description :: "string \<Rightarrow> newsgroup \<Rightarrow> newsgroup" where
  "with_description d g = g\<lparr>ng_description := d\<rparr>"

definition with_posting :: "posting \<Rightarrow> newsgroup \<Rightarrow> newsgroup" where
  "with_posting p g = g\<lparr>ng_posting := p\<rparr>"

definition article_at :: "u64 \<Rightarrow> stored \<Rightarrow> newsgroup \<Rightarrow> newsgroup" where
  "article_at number a g = g\<lparr>ng_articles := bt_put number a (ng_articles g)\<rparr>"

definition low :: "newsgroup \<Rightarrow> u64 option" where
  "low g = (case ng_articles g of [] \<Rightarrow> None | (number, _) # _ \<Rightarrow> Some number)"

definition high :: "newsgroup \<Rightarrow> u64 option" where
  "high g = (if ng_articles g = [] then None else Some (fst (last (ng_articles g))))"

definition next_number :: "newsgroup \<Rightarrow> u64" where
  "next_number g = (case high g of Some h \<Rightarrow> h + 1 | None \<Rightarrow> 1)"

definition with_article :: "stored \<Rightarrow> newsgroup \<Rightarrow> newsgroup" where
  "with_article a g = article_at (next_number g) a g"

definition watermarks :: "newsgroup \<Rightarrow> u64 \<times> u64" where
  "watermarks g = (case (low g, high g) of (Some l, Some h) \<Rightarrow> (l, h) | _ \<Rightarrow> (1, 0))"

definition article_by_number :: "u64 \<Rightarrow> newsgroup \<Rightarrow> stored option" where
  "article_by_number number g = bt_get number (ng_articles g)"

definition article_by_id :: "string \<Rightarrow> newsgroup \<Rightarrow> (u64 \<times> stored) option" where
  "article_by_id message_id g =
     List.find (\<lambda>(_, a). eq_ignore_ascii_case (st_message_id a) message_id) (ng_articles g)"

section \<open>The corpus\<close>

record corpus =
  corpus_groups :: "newsgroup list"

definition corpus_new :: corpus where
  "corpus_new = \<lparr>corpus_groups = []\<rparr>"

definition with_group :: "newsgroup \<Rightarrow> corpus \<Rightarrow> corpus" where
  "with_group g k = k\<lparr>corpus_groups := corpus_groups k @ [g]\<rparr>"

definition find_group :: "string \<Rightarrow> corpus \<Rightarrow> newsgroup option" where
  "find_group name k = List.find (\<lambda>g. ng_name g = name) (corpus_groups k)"

text \<open>What \<open>find_mut\<close> lends is written back: the first group of the name is replaced.\<close>

fun update_group :: "string \<Rightarrow> (newsgroup \<Rightarrow> newsgroup) \<Rightarrow> newsgroup list \<Rightarrow> newsgroup list" where
  "update_group name f [] = []"
| "update_group name f (g # gs) =
     (if ng_name g = name then f g # gs else g # update_group name f gs)"

text \<open>One turn of the loop of \<open>inject\<close>.\<close>

definition inject_one :: "stored \<Rightarrow> string \<Rightarrow> corpus \<times> (string \<times> u64) list \<Rightarrow> corpus \<times> (string \<times> u64) list" where
  "inject_one a name = (\<lambda>(k, filed).
     case find_group name k of
       None \<Rightarrow> (k, filed)
     | Some g \<Rightarrow>
         (k\<lparr>corpus_groups := update_group name (with_article a) (corpus_groups k)\<rparr>,
          filed @ [(name, next_number g)]))"

definition inject :: "string list \<Rightarrow> stored \<Rightarrow> corpus \<Rightarrow> corpus \<times> (string \<times> u64) list" where
  "inject names a k = fold (inject_one a) names (k, [])"

definition find_by_id :: "string \<Rightarrow> corpus \<Rightarrow> (newsgroup \<times> u64 \<times> stored) option" where
  "find_by_id message_id k =
     (case List.map_filter (\<lambda>g. map_option (\<lambda>(number, a). (g, number, a)) (article_by_id message_id g))
             (corpus_groups k) of
        [] \<Rightarrow> None | x # _ \<Rightarrow> Some x)"

section \<open>Configuration\<close>

datatype greeting_mode = PostingAllowed | NoPosting | Refuse u16 string

datatype capability_profile = Modern | NoOver | Transit | Legacy

record quirks =
  no_overview_fmt :: bool
  reject_open_ended_ranges :: bool
  refuse_post :: "string option"
  close_after_commands :: "nat option"
  truncate_block :: bool
  overlong_help_line :: bool
  bare_lf :: bool
  over_advertised_but_missing :: bool
  no_list_wildmat :: bool
  line_delay :: "nat option"

definition quirks_default :: quirks where
  "quirks_default =
     \<lparr>no_overview_fmt = False, reject_open_ended_ranges = False, refuse_post = None,
      close_after_commands = None, truncate_block = False, overlong_help_line = False,
      bare_lf = False, over_advertised_but_missing = False, no_list_wildmat = False,
      line_delay = None\<rparr>"

record credentials =
  cred_username :: string
  cred_password :: string

record server_config =
  cfg_greeting :: greeting_mode
  cfg_capabilities :: capability_profile
  cfg_credentials :: "credentials option"
  cfg_require_auth :: bool
  cfg_quirks :: quirks
  cfg_server_name :: string
  cfg_starttls :: bool
  cfg_idle_timeout :: nat

definition config_default :: server_config where
  "config_default =
     \<lparr>cfg_greeting = PostingAllowed, cfg_capabilities = Modern, cfg_credentials = None,
      cfg_require_auth = False, cfg_quirks = quirks_default, cfg_server_name = ''test.invalid'',
      cfg_starttls = False, cfg_idle_timeout = 30\<rparr>"

definition with_capabilities :: "capability_profile \<Rightarrow> server_config \<Rightarrow> server_config" where
  "with_capabilities p cfg = cfg\<lparr>cfg_capabilities := p\<rparr>"

definition with_require_auth :: "string \<Rightarrow> string \<Rightarrow> server_config \<Rightarrow> server_config" where
  "with_require_auth user pass cfg =
     cfg\<lparr>cfg_credentials := Some \<lparr>cred_username = user, cred_password = pass\<rparr>,
         cfg_require_auth := True\<rparr>"

definition with_greeting :: "greeting_mode \<Rightarrow> server_config \<Rightarrow> server_config" where
  "with_greeting g cfg = cfg\<lparr>cfg_greeting := g\<rparr>"

definition with_quirks :: "quirks \<Rightarrow> server_config \<Rightarrow> server_config" where
  "with_quirks q cfg = cfg\<lparr>cfg_quirks := q\<rparr>"

definition with_idle_timeout :: "nat \<Rightarrow> server_config \<Rightarrow> server_config" where
  "with_idle_timeout t cfg = cfg\<lparr>cfg_idle_timeout := t\<rparr>"

definition with_starttls :: "bool \<Rightarrow> server_config \<Rightarrow> server_config" where
  "with_starttls b cfg = cfg\<lparr>cfg_starttls := b\<rparr>"

definition line_terminator :: "server_config \<Rightarrow> bytes" where
  "line_terminator cfg = (if bare_lf (cfg_quirks cfg) then [LF] else [CR, LF])"

end
