(* ===== verification/Server.thy ===== *)
theory Server
  imports Corpus Command Connection "HOL-Library.Signed_Division"
begin

text \<open>
  \<open>crates/nntp-testserver/src/session.rs\<close>: one session of the test server.  The methods are
  generic in the transport; this is their instance at transports in memory, the way the tests of
  the crate use them: what is written is appended to \<open>sv_out\<close>, and writing does not fail.  The
  input is the octets still to come, and for a duplex stream the segments its reads return.
  The corpus that sessions share behind a lock is part of the state; the lock is held only while
  a handler looks at it, so a handler is one step.
\<close>

section \<open>State\<close>

datatype flow = Continue | Close | UpgradeToTls | ReadArticle

datatype outcome = Closed | Upgrade

record posted_article =
  pa_lines :: "bytes list"

record server =
  sv_corpus :: corpus
  sv_config :: server_config
  sv_authenticated :: bool
  sv_pending_user :: "string option"
  sv_reader_mode :: bool
  sv_group :: "string option"
  sv_article :: "u64 option"
  sv_served :: nat
  sv_truncate :: bool
  sv_encrypted :: bool
  sv_close_requested :: bool
  sv_postbox :: "posted_article list option"
  sv_process_id :: nat
  sv_out :: bytes

definition session_new :: "nat \<Rightarrow> corpus \<Rightarrow> server_config \<Rightarrow> server" where
  "session_new pid k cfg =
     \<lparr>sv_corpus = k, sv_config = cfg, sv_authenticated = False, sv_pending_user = None,
      sv_reader_mode = (cfg_capabilities cfg \<noteq> Transit), sv_group = None, sv_article = None,
      sv_served = 0, sv_truncate = truncate_block (cfg_quirks cfg), sv_encrypted = False,
      sv_close_requested = False, sv_postbox = None, sv_process_id = pid, sv_out = []\<rparr>"

definition set_postbox :: "posted_article list \<Rightarrow> server \<Rightarrow> server" where
  "set_postbox p s = s\<lparr>sv_postbox := Some p\<rparr>"

definition set_server_encrypted :: "bool \<Rightarrow> server \<Rightarrow> server" where
  "set_server_encrypted b s = s\<lparr>sv_encrypted := b\<rparr>"

section \<open>Output\<close>

definition put :: "bytes \<Rightarrow> server \<Rightarrow> server" where
  "put b s = s\<lparr>sv_out := sv_out s @ b\<rparr>"

definition eol :: "server \<Rightarrow> bytes" where
  "eol s = line_terminator (sv_config s)"

definition status :: "nat \<Rightarrow> string \<Rightarrow> server \<Rightarrow> server" where
  "status c txt s = put (dec c @ '' '' @ txt @ eol s) s"

text \<open>The lines of a block on the wire; a truncated block stops behind its first line.\<close>

fun block_out :: "bytes \<Rightarrow> bool \<Rightarrow> nat \<Rightarrow> bytes list \<Rightarrow> bytes" where
  "block_out nl partial index [] = (if partial then [] else ''.'' @ nl)"
| "block_out nl partial index (line # rest) =
     (if partial \<and> 1 \<le> index then []
      else (if line \<noteq> [] \<and> hd line = CHR ''.'' then ''.'' else []) @ line @ nl @
           block_out nl partial (index + 1) rest)"

definition send_lines :: "bytes list \<Rightarrow> server \<Rightarrow> server" where
  "send_lines ls s =
     (let partial = sv_truncate s;
          s' = s\<lparr>sv_truncate := False, sv_close_requested := sv_close_requested s \<or> partial\<rparr>
      in put (block_out (eol s) partial 0 ls) s')"

definition reply_block :: "nat \<Rightarrow> string \<Rightarrow> bytes list \<Rightarrow> server \<Rightarrow> server" where
  "reply_block c txt ls s = send_lines ls (status c txt s)"

section \<open>Helpers\<close>

definition trim_eol :: "bytes \<Rightarrow> bytes" where
  "trim_eol line =
     (let line = (case strip_suffix [LF] line of Some l \<Rightarrow> l | None \<Rightarrow> line)
      in case strip_suffix [CR] line of Some l \<Rightarrow> l | None \<Rightarrow> line)"

text \<open>\<open>BufRead::read_until(b'\n')\<close> on octets in memory.\<close>

definition read_until_lf :: "bytes \<Rightarrow> bytes \<times> bytes" where
  "read_until_lf input =
     (case split_once LF input of Some (a, rest) \<Rightarrow> (a @ [LF], rest) | None \<Rightarrow> (input, []))"

definition parse_range :: "string \<Rightarrow> (u64 \<times> u64 option) option" where
  "parse_range a =
     (case split_once (CHR ''-'') a of
        None \<Rightarrow> map_option (\<lambda>n. (n, Some n)) (parse_u64 a)
      | Some (l, h) \<Rightarrow>
          if h = [] then map_option (\<lambda>n. (n, None)) (parse_u64 l)
          else (case (parse_u64 l, parse_u64 h) of (Some m, Some n) \<Rightarrow> Some (m, Some n) | _ \<Rightarrow> None))"

definition headers_follow_code :: "string \<Rightarrow> nat" where
  "headers_follow_code verb = (if starts_with ''X'' verb then 221 else 225)"

definition header_line :: "u64 \<Rightarrow> stored \<Rightarrow> string \<Rightarrow> bytes" where
  "header_line number a field =
     u64_to_string number @ (case header_value field a of Some v \<Rightarrow> SP # v | None \<Rightarrow> [])"

text \<open>\<open>s.get(a..b)\<close> and \<open>s.get(a..)\<close> of a text: \<^const>\<open>None\<close> past the end or inside a scalar.\<close>

definition char_boundary :: "nat \<Rightarrow> string \<Rightarrow> bool" where
  "char_boundary n s \<longleftrightarrow> n = length s \<or> n < length s \<and> \<not> cont (s ! n)"

definition str_slice :: "nat \<Rightarrow> nat \<Rightarrow> string \<Rightarrow> string option" where
  "str_slice a b s =
     (if a \<le> b \<and> char_boundary a s \<and> char_boundary b s then Some (take (b - a) (drop a s)) else None)"

definition str_from :: "nat \<Rightarrow> string \<Rightarrow> string option" where
  "str_from a s = str_slice a (length s) s"

text \<open>Integer division of Rust truncates.\<close>

definition days_from_civil :: "int \<Rightarrow> nat \<Rightarrow> nat \<Rightarrow> int" where
  "days_from_civil year month day =
     (let year = (if month \<le> 2 then year - 1 else year);
          era = (if 0 \<le> year then year else year - 399) sdiv 400;
          year_of_era = year - era * 400;
          month' = int month;
          day_of_year = (153 * (if month' > 2 then month' - 3 else month' + 9) + 2) sdiv 5 + int day - 1;
          day_of_era = year_of_era * 365 + year_of_era sdiv 4 - year_of_era sdiv 100 + day_of_year
      in era * 146097 + day_of_era - 719468)"

definition date_year :: "string \<Rightarrow> (int \<times> string) option" where
  "date_year date =
     (if length date = 8 then
        Option.bind (Option.bind (str_prefix 4 date) parse_i32) (\<lambda>year.
        map_option (\<lambda>rest. (year, rest)) (str_from 4 date))
      else if length date = 6 then
        Option.bind (Option.bind (str_prefix 2 date) parse_i32) (\<lambda>two.
        map_option (\<lambda>rest. (if 70 \<le> two then 1900 + two else 2000 + two, rest)) (str_from 2 date))
      else None)"

definition parse_newgroups_date :: "string list \<Rightarrow> u64 option" where
  "parse_newgroups_date arguments =
     Option.bind (get_opt arguments 0) (\<lambda>date.
     Option.bind (get_opt arguments 1) (\<lambda>time.
     Option.bind (date_year date) (\<lambda>(year, rest).
     Option.bind (Option.bind (str_prefix 2 rest) parse_u32) (\<lambda>month.
     Option.bind (Option.bind (str_from 2 rest) parse_u32) (\<lambda>day.
     Option.bind (Option.bind (str_prefix 2 time) parse_u32) (\<lambda>hour.
     Option.bind (Option.bind (str_slice 2 4 time) parse_u32) (\<lambda>minute.
     Option.bind (Option.bind (str_slice 4 6 time) parse_u32) (\<lambda>second.
       if \<not> (1 \<le> month \<and> month \<le> 12) \<or> \<not> (1 \<le> day \<and> day \<le> 31) then None
       else if 23 < hour \<or> 59 < minute \<or> 60 < second then None
       else
         let seconds = days_from_civil year month day * 86400 + int hour * 3600 + int minute * 60 + int second
         in Some (of_int (max seconds 0))))))))))"

section \<open>A posted article\<close>

definition pa_header :: "string \<Rightarrow> posted_article \<Rightarrow> string option" where
  "pa_header name p =
     (let prefix = to_ascii_lowercase name @ '':'' in
      map_option
        (\<lambda>line. case split_once (CHR '':'') (lossy line) of Some (_, value) \<Rightarrow> trim value | None \<Rightarrow> [])
        (List.find (\<lambda>line. starts_with prefix (to_ascii_lowercase (lossy line)))
          (takeWhile (\<lambda>line. line \<noteq> []) (pa_lines p))))"

definition pa_body_text :: "posted_article \<Rightarrow> string" where
  "pa_body_text p = join [LF] (map lossy (drop 1 (dropWhile (\<lambda>line. line \<noteq> []) (pa_lines p))))"

definition newsgroups_of :: "posted_article \<Rightarrow> string list" where
  "newsgroups_of p =
     filter (\<lambda>g. g \<noteq> [])
       (map trim (split_on (CHR '','') (case pa_header ''Newsgroups'' p of Some v \<Rightarrow> v | None \<Rightarrow> [])))"

lemma read_until_lf_shrinks: "read_until_lf input = (line, rest) \<Longrightarrow> line \<noteq> [] \<Longrightarrow> length rest < length input"
  by (auto simp: read_until_lf_def split_once_Some_iff split: option.splits)

function read_article :: "bytes list \<Rightarrow> bytes \<Rightarrow> bytes list \<times> bytes" where
  "read_article ls input =
     (case read_until_lf input of
        (line, rest) \<Rightarrow>
          if line = [] then (ls, rest)
          else
            let content = trim_eol line in
            if content = ''.'' then (ls, rest)
            else read_article
              (ls @ [case strip_prefix ''.'' content of Some r \<Rightarrow> r | None \<Rightarrow> content]) rest)"
  by pat_completeness auto
termination
  by (relation "measure (\<lambda>(ls, input). length input)") (auto intro: read_until_lf_shrinks sym)

declare read_article.simps [simp del]

text \<open>A missing header, in the order the server asks for them.\<close>

definition missing_header :: "posted_article \<Rightarrow> string option" where
  "missing_header p =
     List.find (\<lambda>name. case pa_header name p of None \<Rightarrow> True | Some v \<Rightarrow> trim v = [])
       [''From'', ''Newsgroups'', ''Subject'']"

definition stored_of :: "string \<Rightarrow> posted_article \<Rightarrow> stored" where
  "stored_of message_id p =
     \<lparr>st_message_id = message_id,
      st_head = takeWhile (\<lambda>line. line \<noteq> []) (pa_lines p),
      st_body = drop 1 (dropWhile (\<lambda>line. line \<noteq> []) (pa_lines p))\<rparr>"

definition assigned_id :: "posted_article \<Rightarrow> server \<Rightarrow> string" where
  "assigned_id p s =
     (case pa_header ''Message-ID'' p of
        Some v \<Rightarrow> v
      | None \<Rightarrow> ''<'' @ dec (sv_served s) @ ''.'' @ dec (sv_process_id s) @ ''@test.invalid>'')"

definition accept_article :: "bytes list \<Rightarrow> server \<Rightarrow> flow \<times> server" where
  "accept_article ls s =
     (let p = \<lparr>pa_lines = ls\<rparr> in
      case refuse_post (cfg_quirks (sv_config s)) of
        Some reason \<Rightarrow> (Continue, status 441 reason s)
      | None \<Rightarrow>
          (case missing_header p of
             Some name \<Rightarrow> (Continue, status 441 (''missing '' @ name @ '' header'') s)
           | None \<Rightarrow>
               let message_id = assigned_id p s;
                   (k, filed) = inject (newsgroups_of p) (stored_of message_id p) (sv_corpus s);
                   s1 = s\<lparr>sv_corpus := k\<rparr> in
               if filed = [] then (Continue, status 441 ''no such newsgroup here'' s1)
               else
                 let s2 = s1\<lparr>sv_postbox := map_option (\<lambda>ps. ps @ [p]) (sv_postbox s1)\<rparr> in
                 (Continue, status 240 (''article received '' @ message_id) s2)))"

section \<open>Commands\<close>

definition needs_auth :: "server \<Rightarrow> bool" where
  "needs_auth s \<longleftrightarrow> cfg_require_auth (sv_config s) \<and> \<not> sv_authenticated s"

definition selected_group :: "server \<Rightarrow> newsgroup option" where
  "selected_group s = Option.bind (sv_group s) (\<lambda>name. find_group name (sv_corpus s))"

definition greet :: "server \<Rightarrow> flow \<times> server" where
  "greet s =
     (case cfg_greeting (sv_config s) of
        PostingAllowed \<Rightarrow> (Continue, status 200 (cfg_server_name (sv_config s) @ '' ready, posting allowed'') s)
      | NoPosting \<Rightarrow> (Continue, status 201 (cfg_server_name (sv_config s) @ '' ready, posting prohibited'') s)
      | Refuse c txt \<Rightarrow> (Close, status (unat c) txt s))"

definition starttls :: "server \<Rightarrow> flow \<times> server" where
  "starttls s =
     (if \<not> cfg_starttls (sv_config s) then (Continue, status 500 ''command not recognised'' s)
      else if sv_encrypted s then (Continue, status 502 ''TLS is already active'' s)
      else if sv_authenticated s
      then (Continue, status 502 ''STARTTLS is not permitted after authentication'' s)
      else (UpgradeToTls, status 382 ''continue with TLS negotiation'' s))"

definition VERSION :: string where
  "VERSION = ''0.2.0''"

definition server_capabilities :: "server \<Rightarrow> server" where
  "server_capabilities s =
     (let cfg = sv_config s in
      if cfg_capabilities cfg = Legacy then status 500 ''command not recognised'' s
      else reply_block 101 ''capability list follows''
        ([''VERSION 2''] @
         (case cfg_capabilities cfg of
            Modern \<Rightarrow> [''READER'', ''OVER MSGID'', ''HDR'']
          | NoOver \<Rightarrow> [''READER'']
          | Transit \<Rightarrow> if sv_reader_mode s then [''READER'', ''OVER MSGID''] else [''IHAVE'', ''MODE-READER'']
          | Legacy \<Rightarrow> []) @
         [''LIST ACTIVE ACTIVE.TIMES NEWSGROUPS OVERVIEW.FMT''] @
         (if cfg_greeting cfg \<noteq> NoPosting \<and> cfg_capabilities cfg \<noteq> Transit then [''POST''] else []) @
         (if cfg_starttls cfg \<and> \<not> sv_encrypted s then [''STARTTLS''] else []) @
         (if cfg_credentials cfg \<noteq> None then [''AUTHINFO USER''] else []) @
         [''IMPLEMENTATION nntp-testserver '' @ VERSION]) s)"

definition mode :: "string list \<Rightarrow> server \<Rightarrow> server" where
  "mode arguments s =
     (if \<not> (case get_opt arguments 0 of Some a \<Rightarrow> eq_ignore_ascii_case a ''READER'' | None \<Rightarrow> False)
      then status 501 ''MODE READER is the only mode supported'' s
      else if cfg_capabilities (sv_config s) = Legacy then status 500 ''command not recognised'' s
      else
        let s' = s\<lparr>sv_reader_mode := True\<rparr> in
        if cfg_greeting (sv_config s) = NoPosting then status 201 ''reader mode, posting prohibited'' s'
        else status 200 ''reader mode, posting allowed'' s')"

definition second_argument :: "string list \<Rightarrow> string" where
  "second_argument arguments = (case get_opt arguments 1 of Some a \<Rightarrow> a | None \<Rightarrow> [])"

definition authinfo :: "string list \<Rightarrow> server \<Rightarrow> server" where
  "authinfo arguments s =
     (case cfg_credentials (sv_config s) of
        None \<Rightarrow> status 502 ''authentication is not available'' s
      | Some cred \<Rightarrow>
          let kw = map_option to_ascii_uppercase (get_opt arguments 0) in
          if kw = Some ''USER'' then
            status 381 ''password required'' (s\<lparr>sv_pending_user := Some (second_argument arguments)\<rparr>)
          else if kw = Some ''PASS'' then
            (if sv_pending_user s = None then status 482 ''AUTHINFO USER required first'' s
             else if sv_pending_user s = Some (cred_username cred) \<and>
                     second_argument arguments = cred_password cred
             then status 281 ''authentication accepted'' (s\<lparr>sv_authenticated := True\<rparr>)
             else status 481 ''authentication rejected'' (s\<lparr>sv_pending_user := None\<rparr>))
          else status 501 ''AUTHINFO USER or AUTHINFO PASS'' s)"

definition date :: "server \<Rightarrow> server" where
  "date s = status 111 ''20260917080910'' s"

definition helping :: "server \<Rightarrow> server" where
  "helping s =
     (let s' = status 100 ''help text follows'' s in
      if overlong_help_line (cfg_quirks (sv_config s')) then send_lines [replicate 200000 (CHR ''x'')] s'
      else send_lines [''ARTICLE BODY CAPABILITIES DATE GROUP HEAD HELP'',
                       ''LIST LISTGROUP MODE NEXT LAST OVER QUIT STAT XOVER''] s')"

definition group_reply :: "newsgroup \<Rightarrow> string \<Rightarrow> string" where
  "group_reply g name =
     (case watermarks g of (l, h) \<Rightarrow>
        dec (length (ng_articles g)) @ '' '' @ u64_to_string l @ '' '' @ u64_to_string h @ '' '' @ name)"

definition select :: "string list \<Rightarrow> server \<Rightarrow> server" where
  "select arguments s =
     (case get_opt arguments 0 of
        None \<Rightarrow> status 501 ''GROUP needs a newsgroup name'' s
      | Some name \<Rightarrow>
          (case find_group name (sv_corpus s) of
             None \<Rightarrow> status 411 ''No such newsgroup'' s
           | Some g \<Rightarrow>
               status 211 (group_reply g (ng_name g))
                 (s\<lparr>sv_group := Some (ng_name g), sv_article := low g\<rparr>)))"

definition listgroup :: "string list \<Rightarrow> server \<Rightarrow> server" where
  "listgroup arguments s =
     (case (case get_opt arguments 0 of Some name \<Rightarrow> Some name | None \<Rightarrow> sv_group s) of
        None \<Rightarrow> status 412 ''no newsgroup selected'' s
      | Some name \<Rightarrow>
          (case find_group name (sv_corpus s) of
             None \<Rightarrow> status 411 ''No such newsgroup'' s
           | Some g \<Rightarrow>
               reply_block 211 (group_reply g name) (map (\<lambda>(n, _). u64_to_string n) (ng_articles g))
                 (s\<lparr>sv_group := Some name\<rparr>)))"

text \<open>The pattern of \<open>LIST\<close>: the kw takes none, the server refuses it, it is no wildmat, or it
  is read.\<close>

definition active_line :: "newsgroup \<Rightarrow> bytes" where
  "active_line g =
     (case watermarks g of (l, h) \<Rightarrow>
        ng_name g @ '' '' @ u64_to_string h @ '' '' @ u64_to_string l @ '' '' @ flag (ng_posting g))"

definition list_pattern :: "string \<Rightarrow> string list \<Rightarrow> server \<Rightarrow> string + wildmat option" where
  "list_pattern kw arguments s =
     (case get_opt arguments 1 of
        Some a \<Rightarrow>
          if kw \<in> {''ACTIVE'', ''NEWSGROUPS'', ''ACTIVE.TIMES''} then
            (if no_list_wildmat (cfg_quirks (sv_config s)) then Inl ''LIST does not take a pattern here''
             else (case wildmat_parse a of Inr w \<Rightarrow> Inr (Some w) | Inl _ \<Rightarrow> Inl ''invalid wildmat''))
          else Inr None
      | None \<Rightarrow> Inr None)"

definition keeps :: "wildmat option \<Rightarrow> newsgroup \<Rightarrow> bool" where
  "keeps pattern g = (case pattern of None \<Rightarrow> True | Some w \<Rightarrow> wildmat_matches w (ng_name g))"

definition listing :: "string list \<Rightarrow> server \<Rightarrow> server" where
  "listing arguments s =
     (let kw = (case get_opt arguments 0 of None \<Rightarrow> ''ACTIVE'' | Some k \<Rightarrow> to_ascii_uppercase k) in
      case list_pattern kw arguments s of
        Inl txt \<Rightarrow> status 501 txt s
      | Inr pattern \<Rightarrow>
          let groups = filter (keeps pattern) (corpus_groups (sv_corpus s)) in
          if kw = ''ACTIVE'' then
            reply_block 215 ''list of newsgroups follows'' (map active_line groups) s
          else if kw = ''NEWSGROUPS'' then
            reply_block 215 ''descriptions follow'' (map (\<lambda>g. ng_name g @ TAB # ng_description g) groups) s
          else if kw = ''ACTIVE.TIMES'' then
            reply_block 215 ''creation times follow''
              (map (\<lambda>g. ng_name g @ '' '' @ u64_to_string (ng_created g) @ '' tester@test.invalid'') groups) s
          else if kw = ''OVERVIEW.FMT'' then
            (if no_overview_fmt (cfg_quirks (sv_config s)) then status 503 ''overview format not available'' s
             else reply_block 215 ''overview format follows''
               [''Subject:'', ''From:'', ''Date:'', ''Message-ID:'', ''References:'', '':bytes'', '':lines'',
                ''Xref:full''] s)
          else if kw = ''HEADERS'' then reply_block 215 ''field list follows'' ['':''] s
          else status 501 (''LIST '' @ kw @ '' is not supported'') s)"

text \<open>Whether the first argument is a message-id.\<close>

definition names_id :: "string list \<Rightarrow> bool" where
  "names_id arguments = (case get_opt arguments 0 of Some a \<Rightarrow> starts_with ''<'' a | None \<Rightarrow> False)"

text \<open>The article number of \<open>ARTICLE\<close> and its kin: a refusal, or \<^const>\<open>None\<close> for a message-id.\<close>

definition wanted_number :: "string list \<Rightarrow> server \<Rightarrow> (nat \<times> string) + u64 option" where
  "wanted_number arguments s =
     (case get_opt arguments 0 of
        Some a \<Rightarrow>
          if starts_with ''<'' a then Inr None
          else (case parse_u64 a of Some n \<Rightarrow> Inr (Some n) | None \<Rightarrow> Inl (501, ''bad article number''))
      | None \<Rightarrow>
          (case sv_article s of Some n \<Rightarrow> Inr (Some n) | None \<Rightarrow> Inl (420, ''no article selected'')))"

definition wanted_article ::
  "string list \<Rightarrow> u64 option \<Rightarrow> server \<Rightarrow> (nat \<times> string) + (u64 \<times> stored) option" where
  "wanted_article arguments number s =
     (case number of
        None \<Rightarrow>
          Inr (map_option (\<lambda>(_, _, a). (0, a))
            (Option.bind (get_opt arguments 0) (\<lambda>i. find_by_id i (sv_corpus s))))
      | Some n \<Rightarrow>
          (case selected_group s of
             None \<Rightarrow> Inl (412, ''no newsgroup selected'')
           | Some g \<Rightarrow> Inr (map_option (\<lambda>a. (n, a)) (article_by_number n g))))"

definition fetch_reply :: "string \<Rightarrow> u64 \<Rightarrow> stored \<Rightarrow> server \<Rightarrow> server" where
  "fetch_reply verb number a s =
     (let named = u64_to_string number @ '' '' @ st_message_id a in
      if verb = ''STAT'' then status 223 named s
      else if verb = ''HEAD'' then reply_block 221 (named @ '' head follows'') (st_head a) s
      else if verb = ''BODY'' then reply_block 222 (named @ '' body follows'') (st_body a) s
      else reply_block 220 (named @ '' article follows'') (st_head a @ [[]] @ st_body a) s)"

definition fetch :: "string \<Rightarrow> string list \<Rightarrow> server \<Rightarrow> server" where
  "fetch verb arguments s =
     (case wanted_number arguments s of
        Inl (c, txt) \<Rightarrow> status c txt s
      | Inr number \<Rightarrow>
          (case wanted_article arguments number s of
             Inl (c, txt) \<Rightarrow> status c txt s
           | Inr None \<Rightarrow> status (if names_id arguments then 430 else 423) ''no such article'' s
           | Inr (Some (n, a)) \<Rightarrow>
               fetch_reply verb n a (if n \<noteq> 0 then s\<lparr>sv_article := Some n\<rparr> else s)))"

definition in_range :: "u64 \<Rightarrow> u64 \<Rightarrow> u64 \<times> 'a \<Rightarrow> bool" where
  "in_range l h = (\<lambda>(number, _). l \<le> number \<and> number \<le> h)"

definition over_range :: "string list \<Rightarrow> newsgroup \<Rightarrow> server \<Rightarrow> (nat \<times> string) + u64 \<times> u64" where
  "over_range arguments g s =
     (case get_opt arguments 0 of
        None \<Rightarrow> (case sv_article s of Some n \<Rightarrow> Inr (n, n) | None \<Rightarrow> Inl (420, ''no article selected''))
      | Some a \<Rightarrow>
          (case parse_range a of
             None \<Rightarrow> Inl (501, ''bad range'')
           | Some (l, None) \<Rightarrow>
               if reject_open_ended_ranges (cfg_quirks (sv_config s))
               then Inl (501, ''open-ended ranges are not supported'')
               else Inr (l, case high g of Some h \<Rightarrow> h | None \<Rightarrow> l)
           | Some (l, Some h) \<Rightarrow> Inr (l, h)))"

definition over :: "string \<Rightarrow> string list \<Rightarrow> server \<Rightarrow> server" where
  "over verb arguments s =
     (if verb = ''OVER'' \<and> over_advertised_but_missing (cfg_quirks (sv_config s)) \<or>
         verb = ''OVER'' \<and> cfg_capabilities (sv_config s) = NoOver
      then status 500 ''command not recognised'' s
      else if names_id arguments then
        (case find_by_id (hd arguments) (sv_corpus s) of
           None \<Rightarrow> status 430 ''no such article'' s
         | Some (g, number, a) \<Rightarrow>
             reply_block 224 ''overview information follows'' [overview_line number (ng_name g) a] s)
      else
        (case selected_group s of
           None \<Rightarrow> status 412 ''no newsgroup selected'' s
         | Some g \<Rightarrow>
             (case over_range arguments g s of
                Inl (c, txt) \<Rightarrow> status c txt s
              | Inr (l, h) \<Rightarrow>
                  let ls = map (\<lambda>(number, a). overview_line number (ng_name g) a)
                    (filter (in_range l h) (ng_articles g)) in
                  if ls = [] then status 423 ''no articles in that range'' s
                  else reply_block 224 ''overview information follows'' ls s)))"

definition hdr_range :: "string list \<Rightarrow> server \<Rightarrow> (nat \<times> string) + u64 \<times> u64 option" where
  "hdr_range arguments s =
     (case get_opt arguments 1 of
        None \<Rightarrow> (case sv_article s of Some n \<Rightarrow> Inr (n, Some n) | None \<Rightarrow> Inl (420, ''no article selected''))
      | Some a \<Rightarrow> (case parse_range a of Some r \<Rightarrow> Inr r | None \<Rightarrow> Inl (501, ''bad range'')))"

definition hdr :: "string \<Rightarrow> string list \<Rightarrow> server \<Rightarrow> server" where
  "hdr verb arguments s =
     (if verb = ''HDR'' \<and> cfg_capabilities (sv_config s) = NoOver
      then status 500 ''command not recognised'' s
      else
        (case get_opt arguments 0 of
           None \<Rightarrow> status 501 ''HDR needs a header name'' s
         | Some field \<Rightarrow>
             let follows = field @ '' header follows'' in
             if names_id (drop 1 arguments) then
               (case find_by_id (second_argument arguments) (sv_corpus s) of
                  None \<Rightarrow> status 430 ''no such article'' s
                | Some (_, _, a) \<Rightarrow>
                    reply_block (headers_follow_code verb) follows [header_line 0 a field] s)
             else
               (case selected_group s of
                  None \<Rightarrow> status 412 ''no newsgroup selected'' s
                | Some g \<Rightarrow>
                    (case hdr_range arguments s of
                       Inl (c, txt) \<Rightarrow> status c txt s
                     | Inr (l, h) \<Rightarrow>
                         reply_block (headers_follow_code verb) follows
                           (map (\<lambda>(number, a). header_line number a field)
                             (filter (in_range l (case h of Some x \<Rightarrow> x | None \<Rightarrow> - 1)) (ng_articles g))) s))))"

definition newgroups :: "string list \<Rightarrow> server \<Rightarrow> server" where
  "newgroups arguments s =
     (case parse_newgroups_date arguments of
        None \<Rightarrow> status 501 ''NEWGROUPS needs yyyymmdd hhmmss [GMT]'' s
      | Some since \<Rightarrow>
          reply_block 231 ''list of new newsgroups follows''
            (map active_line (filter (\<lambda>g. since \<le> ng_created g) (corpus_groups (sv_corpus s)))) s)"

definition offer :: "server \<Rightarrow> flow \<times> server" where
  "offer s =
     (if cfg_greeting (sv_config s) = NoPosting then (Continue, status 440 ''posting not permitted'' s)
      else (ReadArticle, status 340 ''send the article; end with a lone .'' s))"

text \<open>The neighbour of the current article.  The key above the largest number wraps.\<close>

definition neighbour :: "string \<Rightarrow> u64 \<Rightarrow> (u64, stored) btree_map \<Rightarrow> (u64 \<times> stored) option" where
  "neighbour verb current arts =
     (if verb = ''NEXT'' then List.find (\<lambda>(number, _). current + 1 \<le> number) arts
      else List.find (\<lambda>(number, _). number < current) (rev arts))"

definition move :: "string \<Rightarrow> server \<Rightarrow> server" where
  "move verb s =
     (case selected_group s of
        None \<Rightarrow> status 412 ''no newsgroup selected'' s
      | Some g \<Rightarrow>
          (case sv_article s of
             None \<Rightarrow> status 420 ''no article selected'' s
           | Some current \<Rightarrow>
               (case neighbour verb current (ng_articles g) of
                  Some (number, a) \<Rightarrow>
                    status 223 (u64_to_string number @ '' '' @ st_message_id a) (s\<lparr>sv_article := Some number\<rparr>)
                | None \<Rightarrow>
                    if verb = ''NEXT'' then status 421 ''no next article'' s
                    else status 422 ''no previous article'' s)))"

section \<open>The command loop\<close>

definition over_limit :: "server \<Rightarrow> bool" where
  "over_limit s =
     (case close_after_commands (cfg_quirks (sv_config s)) of Some limit \<Rightarrow> limit < sv_served s | None \<Rightarrow> False)"

text \<open>The table of the verbs.\<close>

definition run_verb :: "string \<Rightarrow> string list \<Rightarrow> server \<Rightarrow> flow \<times> server" where
  "run_verb verb arguments s =
     (if verb = [] then (Continue, status 500 ''empty command'' s)
      else if verb = ''QUIT'' then (Close, status 205 ''closing connection'' s)
      else if verb = ''CAPABILITIES'' then (Continue, server_capabilities s)
      else if verb = ''MODE'' then (Continue, mode arguments s)
      else if verb = ''AUTHINFO'' then (Continue, authinfo arguments s)
      else if verb = ''DATE'' then (Continue, date s)
      else if verb = ''HELP'' then (Continue, helping s)
      else if verb = ''STARTTLS'' then starttls s
      else if needs_auth s then (Continue, status 480 ''authentication required'' s)
      else if verb = ''GROUP'' then (Continue, select arguments s)
      else if verb = ''LISTGROUP'' then (Continue, listgroup arguments s)
      else if verb = ''LIST'' then (Continue, listing arguments s)
      else if verb \<in> {''ARTICLE'', ''HEAD'', ''BODY'', ''STAT''} then (Continue, fetch verb arguments s)
      else if verb \<in> {''OVER'', ''XOVER''} then (Continue, over verb arguments s)
      else if verb \<in> {''HDR'', ''XHDR''} then (Continue, hdr verb arguments s)
      else if verb = ''NEWGROUPS'' then (Continue, newgroups arguments s)
      else if verb = ''POST'' then offer s
      else if verb \<in> {''NEXT'', ''LAST''} then (Continue, move verb s)
      else (Continue, status 500 (''command '' @ verb @ '' not recognised'') s))"

definition dispatch :: "bytes \<Rightarrow> server \<Rightarrow> flow \<times> server" where
  "dispatch line s =
     (let s' = s\<lparr>sv_served := sv_served s + 1\<rparr> in
      if over_limit s' then (Close, s')
      else
        (case split_ascii_whitespace (lossy line) of
           [] \<Rightarrow> run_verb [] [] s'
         | v # arguments \<Rightarrow> run_verb (to_ascii_uppercase v) arguments s'))"

definition handle :: "bytes \<Rightarrow> server \<Rightarrow> flow \<times> server" where
  "handle line s =
     (case dispatch line s of (fl, s') \<Rightarrow> (if sv_close_requested s' then Close else fl, s'))"

lemma read_article_le: "read_article ls input = (ls', rest) \<Longrightarrow> length rest \<le> length input"
proof (induction ls input rule: read_article.induct)
  case (1 ls input)
  obtain line rest1 where r: "read_until_lf input = (line, rest1)" by fastforce
  have le: "length rest1 \<le> length input"
    using r by (auto simp: read_until_lf_def split_once_Some_iff split: option.splits)
  show ?case
    using "1.prems" "1.IH" [OF r [symmetric]] r le
    by (auto simp: read_article.simps [of ls input] Let_def split: if_splits)
qed

text \<open>\<open>run\<close> behind the greeting: the result, the session and the input that was not read.\<close>

function run_loop :: "bytes \<Rightarrow> server \<Rightarrow> outcome \<times> server \<times> bytes" where
  "run_loop input s =
     (case read_until_lf input of
        (line, rest) \<Rightarrow>
          if line = [] then (Closed, s, rest)
          else
            (case handle (trim_eol line) s of
               (Continue, s') \<Rightarrow> run_loop rest s'
             | (Close, s') \<Rightarrow> (Closed, s', rest)
             | (UpgradeToTls, s') \<Rightarrow> (Upgrade, s', rest)
             | (ReadArticle, s') \<Rightarrow>
                 (case read_article [] rest of
                    (ls, rest') \<Rightarrow>
                      (case accept_article ls s' of
                         (Close, s'') \<Rightarrow> (Closed, s'', rest')
                       | (_, s'') \<Rightarrow> run_loop rest' s''))))"
  by pat_completeness auto
termination
  by (relation "measure (\<lambda>(input, s). length input)")
    (auto dest!: sym [of "(_, _)"] read_until_lf_shrinks read_article_le intro: le_less_trans)

declare run_loop.simps [simp del]

definition run_session :: "bytes \<Rightarrow> server \<Rightarrow> outcome \<times> server \<times> bytes" where
  "run_session input s =
     (case greet s of (Close, s') \<Rightarrow> (Closed, s', input) | (_, s') \<Rightarrow> run_loop input s')"

section \<open>Duplex streams\<close>

text \<open>The \<open>BufReader\<close> over a duplex stream: what it holds and what the coming reads return.  A read
  of no octets is the end of the stream.\<close>

record source =
  src_buffer :: bytes
  src_reads :: "read_result list"

definition source_new :: "read_result list \<Rightarrow> source" where
  "source_new rs = \<lparr>src_buffer = [], src_reads = rs\<rparr>"

text \<open>\<open>read_until\<close> goes round until a line feed or the end; \<open>line\<close> is what it has so far.\<close>

function read_until_src :: "bytes \<Rightarrow> source \<Rightarrow> (net_error + bytes) \<times> source" where
  "read_until_src line d =
     (if src_buffer d \<noteq> [] then
        (case split_once LF (src_buffer d) of
           Some (a, rest) \<Rightarrow> (Inr (line @ a @ [LF]), d\<lparr>src_buffer := rest\<rparr>)
         | None \<Rightarrow> read_until_src (line @ src_buffer d) (d\<lparr>src_buffer := []\<rparr>))
      else
        (case src_reads d of
           [] \<Rightarrow> (Inr line, d)
         | ReadFailed e # rs \<Rightarrow> (Inl e, d\<lparr>src_reads := rs\<rparr>)
         | Data x # rs \<Rightarrow>
             if x = [] then (Inr line, d\<lparr>src_reads := rs\<rparr>)
             else read_until_src line (d\<lparr>src_buffer := x, src_reads := rs\<rparr>)))"
  by pat_completeness auto
termination
  by (relation "measure (\<lambda>(line, d). 2 * length (src_reads d) + (if src_buffer d = [] then 0 else 1))") auto

declare read_until_src.simps [simp del]

definition src_left :: "source \<Rightarrow> nat" where
  "src_left d = length (src_buffer d) + sum_list (map octets (src_reads d))"

lemma read_until_src_left:
  "read_until_src line d = (Inr l, d') \<Longrightarrow> length l + src_left d' = length line + src_left d"
proof (induction line d rule: read_until_src.induct)
  case (1 line d)
  then show ?case
    by (subst (asm) (3) read_until_src.simps)
      (auto simp: src_left_def octets_def split_once_Some_iff split: if_splits option.splits list.splits read_result.splits)
qed

lemma read_until_src_shrinks:
  "(Inr l, d') = read_until_src [] d \<Longrightarrow> l \<noteq> [] \<Longrightarrow> src_left d' < src_left d"
  using read_until_src_left [of "[]" d l d'] by (cases l) auto

function read_article_src :: "bytes list \<Rightarrow> source \<Rightarrow> (net_error + bytes list) \<times> source" where
  "read_article_src ls d =
     (case read_until_src [] d of
        (Inl e, d') \<Rightarrow> (Inl e, d')
      | (Inr line, d') \<Rightarrow>
          if line = [] then (Inr ls, d')
          else
            let content = trim_eol line in
            if content = ''.'' then (Inr ls, d')
            else read_article_src
              (ls @ [case strip_prefix ''.'' content of Some r \<Rightarrow> r | None \<Rightarrow> content]) d')"
  by pat_completeness auto
termination
  by (relation "measure (\<lambda>(ls, d). src_left d)") (auto intro: read_until_src_shrinks)

declare read_article_src.simps [simp del]

lemma read_article_src_left: "read_article_src ls d = (Inr ls', d') \<Longrightarrow> src_left d' \<le> src_left d"
proof (induction ls d rule: read_article_src.induct)
  case (1 ls d)
  obtain r d1 where r: "read_until_src [] d = (r, d1)" by fastforce
  show ?case
  proof (cases r)
    case (Inl e)
    with "1.prems" r show ?thesis by (simp add: read_article_src.simps [of ls d])
  next
    case (Inr line)
    with read_until_src_left [of "[]" d line d1] r have "src_left d1 \<le> src_left d" by simp
    with "1.prems" "1.IH" [OF r [symmetric] Inr] r Inr show ?thesis
      by (auto simp: read_article_src.simps [of ls d] Let_def split: if_splits)
  qed
qed

datatype session_error = Read_Error net_error | Data_After_Starttls

text \<open>\<open>command_loop_duplex\<close>.\<close>

function loop_duplex :: "source \<Rightarrow> server \<Rightarrow> (session_error + outcome) \<times> server \<times> source" where
  "loop_duplex d s =
     (case read_until_src [] d of
        (Inl e, d') \<Rightarrow> (Inl (Read_Error e), s, d')
      | (Inr line, d') \<Rightarrow>
          if line = [] then (Inr Closed, s, d')
          else
            (case handle (trim_eol line) s of
               (Continue, s') \<Rightarrow> loop_duplex d' s'
             | (Close, s') \<Rightarrow> (Inr Closed, s', d')
             | (UpgradeToTls, s') \<Rightarrow>
                 if src_buffer d' \<noteq> [] then (Inl Data_After_Starttls, s', d') else (Inr Upgrade, s', d')
             | (ReadArticle, s') \<Rightarrow>
                 (case read_article_src [] d' of
                    (Inl e, d'') \<Rightarrow> (Inl (Read_Error e), s', d'')
                  | (Inr ls, d'') \<Rightarrow>
                      (case accept_article ls s' of
                         (Close, s'') \<Rightarrow> (Inr Closed, s'', d'')
                       | (_, s'') \<Rightarrow> loop_duplex d'' s''))))"
  by pat_completeness auto
termination
  by (relation "measure (\<lambda>(d, s). src_left d)")
    (auto intro: read_until_src_shrinks dest!: sym [of "(Inr _, _)"] read_article_src_left read_until_src_shrinks [OF sym]
      intro: le_less_trans)

declare loop_duplex.simps [simp del]

definition run_duplex :: "read_result list \<Rightarrow> server \<Rightarrow> (session_error + outcome) \<times> server \<times> source" where
  "run_duplex rs s =
     (case greet s of (Close, s') \<Rightarrow> (Inr Closed, s', source_new rs) | (_, s') \<Rightarrow> loop_duplex (source_new rs) s')"

definition resume_duplex :: "read_result list \<Rightarrow> server \<Rightarrow> (session_error + outcome) \<times> server \<times> source" where
  "resume_duplex rs s = loop_duplex (source_new rs) s"

end
