(* ===== verification/Server_Session.thy ===== *)
theory Server_Session
  imports Server
begin

text \<open>
  What holds of whole sessions with the test server: what a client learns before it has logged
  in, what a session keeps of the corpus, and that segmentation does not matter.
\<close>

section \<open>The frame of the handlers\<close>

text \<open>The session with another corpus.\<close>

definition swap :: "corpus \<Rightarrow> server \<Rightarrow> server" where
  "swap k s = s\<lparr>sv_corpus := k\<rparr>"

lemma swap_simps [simp]:
  "sv_config (swap k s) = sv_config s" "sv_authenticated (swap k s) = sv_authenticated s"
  "sv_out (swap k s) = sv_out s" "sv_corpus (swap k s) = k" "sv_served (swap k s) = sv_served s"
  "sv_close_requested (swap k s) = sv_close_requested s" "sv_encrypted (swap k s) = sv_encrypted s"
  "sv_reader_mode (swap k s) = sv_reader_mode s" "sv_pending_user (swap k s) = sv_pending_user s"
  "needs_auth (swap k s) = needs_auth s"
  by (simp_all add: swap_def needs_auth_def)

lemma over_limit_swap [simp]: "over_limit (swap k s) = over_limit s"
  by (simp add: over_limit_def split: option.split)

text \<open>Updates of the other fields commute with the exchange and leave the corpus.\<close>

lemma swap_updates [simp]:
  "(swap k s)\<lparr>sv_served := n\<rparr> = swap k (s\<lparr>sv_served := n\<rparr>)"
  "(swap k s)\<lparr>sv_reader_mode := b\<rparr> = swap k (s\<lparr>sv_reader_mode := b\<rparr>)"
  "(swap k s)\<lparr>sv_pending_user := u\<rparr> = swap k (s\<lparr>sv_pending_user := u\<rparr>)"
  "(swap k s)\<lparr>sv_authenticated := b\<rparr> = swap k (s\<lparr>sv_authenticated := b\<rparr>)"
  "status c t (swap k s) = swap k (status c t s)" "send_lines ls (swap k s) = swap k (send_lines ls s)"
  by (simp_all add: swap_def status_def send_lines_def put_def eol_def Let_def)

lemma output_frame [simp]:
  "sv_corpus (status c t s) = sv_corpus s" "sv_corpus (send_lines ls s) = sv_corpus s"
  "sv_config (status c t s) = sv_config s" "sv_config (send_lines ls s) = sv_config s"
  "sv_authenticated (status c t s) = sv_authenticated s"
  "sv_authenticated (send_lines ls s) = sv_authenticated s"
  "sv_group (status c t s) = sv_group s" "sv_group (send_lines ls s) = sv_group s"
  "sv_article (status c t s) = sv_article s" "sv_article (send_lines ls s) = sv_article s"
  "sv_served (status c t s) = sv_served s" "sv_served (send_lines ls s) = sv_served s"
  "sv_encrypted (status c t s) = sv_encrypted s" "sv_encrypted (send_lines ls s) = sv_encrypted s"
  by (simp_all add: status_def send_lines_def put_def Let_def)

lemma reply_block_swap [simp]: "reply_block c t ls (swap k s) = swap k (reply_block c t ls s)"
  by (simp add: reply_block_def)

lemma reply_block_frame [simp]:
  "sv_corpus (reply_block c t ls s) = sv_corpus s" "sv_config (reply_block c t ls s) = sv_config s"
  "sv_authenticated (reply_block c t ls s) = sv_authenticated s"
  "sv_group (reply_block c t ls s) = sv_group s" "sv_article (reply_block c t ls s) = sv_article s"
  "sv_encrypted (reply_block c t ls s) = sv_encrypted s"
  by (simp_all add: reply_block_def)

section \<open>Before the login\<close>

text \<open>A handler that neither looks at the corpus nor changes it.\<close>

definition blind :: "(server \<Rightarrow> server) \<Rightarrow> server \<Rightarrow> bool" where
  "blind h s \<longleftrightarrow> (\<forall>k. h (swap k s) = swap k (h s)) \<and> sv_corpus (h s) = sv_corpus s"

lemma blind_status: "blind (status c t) s" "blind date s" "blind helping s"
  by (simp_all add: blind_def date_def helping_def Let_def)

lemma blind_reply_block: "blind (reply_block c t ls) s"
  by (simp add: blind_def)

lemma blind_if: "blind f s \<Longrightarrow> blind g s \<Longrightarrow> blind (if b then f else g) s"
  by simp

lemma blind_capabilities: "blind server_capabilities s"
  unfolding blind_def server_capabilities_def Let_def swap_simps
  by (simp only: swap_updates reply_block_swap output_frame reply_block_frame if_distrib [of "swap _"] if_distrib [of sv_corpus]
    if_cancel simp_thms all_simps)

lemma blind_mode: "blind (mode as) s"
  by (simp add: blind_def mode_def Let_def)

lemma blind_authinfo: "blind (authinfo as) s"
  unfolding blind_def by (intro conjI allI; cases "cfg_credentials (sv_config s)"; simp add: authinfo_def Let_def del: map_option_eq_Some)

lemmas blind_public = blind_status blind_capabilities blind_mode blind_authinfo

lemma starttls_swap:
  "starttls (swap k s) = map_prod id (swap k) (starttls s)" "sv_corpus (snd (starttls s)) = sv_corpus s"
  "fst (starttls s) \<noteq> ReadArticle"
  by (simp_all add: starttls_def)

text \<open>The same for a handler that also decides how to go on.\<close>

definition blind_flow :: "(server \<Rightarrow> flow \<times> server) \<Rightarrow> server \<Rightarrow> bool" where
  "blind_flow h s \<longleftrightarrow>
     (\<forall>k. h (swap k s) = map_prod id (swap k) (h s)) \<and> sv_corpus (snd (h s)) = sv_corpus s \<and>
     fst (h s) \<noteq> ReadArticle"

lemma blind_flow_intros:
  "blind h s \<Longrightarrow> blind_flow (\<lambda>s. (Continue, h s)) s" "blind h s \<Longrightarrow> blind_flow (\<lambda>s. (Close, h s)) s"
  "blind_flow starttls s"
  "blind_flow f s \<Longrightarrow> blind_flow g s \<Longrightarrow> blind_flow (\<lambda>s. if b then f s else g s) s"
  "needs_auth s \<Longrightarrow> blind_flow f s \<Longrightarrow> blind_flow (\<lambda>s. if needs_auth s then f s else g s) s"
  by (simp_all add: blind_flow_def blind_def starttls_swap)

lemma run_verb_blind: "needs_auth s \<Longrightarrow> blind_flow (run_verb verb as) s"
  unfolding run_verb_def by (intro blind_flow_intros blind_public)

section \<open>What every handler keeps\<close>

text \<open>No handler changes the configuration, and none logs a client out.\<close>

definition steady :: "server \<Rightarrow> server \<Rightarrow> bool" where
  "steady s s' \<longleftrightarrow> sv_config s' = sv_config s \<and> (sv_authenticated s \<longrightarrow> sv_authenticated s') \<and>
     sv_encrypted s' = sv_encrypted s"

lemma steady_refl [simp]: "steady s s"
  by (simp add: steady_def)

lemma steady_trans: "steady s s' \<Longrightarrow> steady s' s'' \<Longrightarrow> steady s s''"
  by (auto simp: steady_def)

lemma steady_out [simp]:
  "steady s (status c t s') = steady s s'" "steady s (send_lines ls s') = steady s s'"
  "steady s (reply_block c t ls s') = steady s s'"
  by (simp_all add: steady_def)

lemma steady_updates [simp]:
  "steady s (s'\<lparr>sv_group := g\<rparr>) = steady s s'" "steady s (s'\<lparr>sv_article := a\<rparr>) = steady s s'"
  "steady s (s'\<lparr>sv_served := n\<rparr>) = steady s s'" "steady s (s'\<lparr>sv_reader_mode := b\<rparr>) = steady s s'"
  "steady s (s'\<lparr>sv_pending_user := u\<rparr>) = steady s s'" "steady s (s'\<lparr>sv_corpus := k\<rparr>) = steady s s'"
  "steady s (s'\<lparr>sv_postbox := p\<rparr>) = steady s s'" "steady s s' \<Longrightarrow> steady s (s'\<lparr>sv_authenticated := True\<rparr>)"
  by (simp_all add: steady_def)

lemma steady_if [intro]: "steady s a \<Longrightarrow> steady s b \<Longrightarrow> steady s (if c then a else b)"
  by simp

lemma steady_public:
  "steady s (server_capabilities s)" "steady s (mode as s)" "steady s (authinfo as s)" "steady s (date s)"
  "steady s (helping s)"
  unfolding server_capabilities_def mode_def authinfo_def date_def helping_def Let_def
  by (auto split: option.split)

lemma steady_reading:
  "steady s (select as s)" "steady s (listgroup as s)" "steady s (listing as s)" "steady s (fetch verb as s)"
  "steady s (over verb as s)" "steady s (hdr verb as s)" "steady s (newgroups as s)" "steady s (move verb s)"
  unfolding select_def listgroup_def listing_def fetch_def fetch_reply_def over_def hdr_def newgroups_def move_def Let_def
  by (auto split: option.split sum.split prod.split)

lemma steady_flows: "steady s (snd (starttls s))" "steady s (snd (offer s))"
  by (simp_all add: starttls_def offer_def)

lemma steady_run_verb: "steady s (snd (run_verb verb as s))"
  unfolding run_verb_def if_distrib [of snd] snd_conv
  by (intro steady_if steady_public steady_reading steady_flows) simp_all

lemma handle_steady: "steady s (snd (handle line s))"
proof -
  have "steady s (snd (run_verb v as (s\<lparr>sv_served := n\<rparr>)))" for v as n
    using steady_run_verb [of "s\<lparr>sv_served := n\<rparr>" v as] by (simp add: steady_def)
  then show ?thesis
    by (simp add: handle_def dispatch_def Let_def split: prod.split list.split)
      (auto dest: sym [of "(_, _)"] simp: prod_eq_iff)
qed

lemma accept_article_steady: "steady s (snd (accept_article ls s))"
  by (simp add: accept_article_def Let_def split: option.split prod.split)

text \<open>A command before the login.\<close>

lemma handle_blind:
  assumes "needs_auth s" "handle line s = (fl, s')"
  shows "handle line (swap k s) = (fl, swap k s')" "sv_corpus s' = sv_corpus s" "fl \<noteq> ReadArticle"
proof -
  have b: "blind_flow (run_verb v as) (s\<lparr>sv_served := n\<rparr>)" for v as n
    using run_verb_blind [of "s\<lparr>sv_served := n\<rparr>"] assms(1) by (simp add: needs_auth_def)
  let ?s = "s\<lparr>sv_served := sv_served s + 1\<rparr>"
  have d: "dispatch line (swap k s) = map_prod id (swap k) (dispatch line s) \<and>
      sv_corpus (snd (dispatch line s)) = sv_corpus s \<and> fst (dispatch line s) \<noteq> ReadArticle"
    using b [of _ _ "Suc (sv_served s)"]
    by (simp add: dispatch_def Let_def blind_flow_def split: list.split)
  obtain f1 s1 where d1: "dispatch line s = (f1, s1)" by fastforce
  with d assms(2) show "handle line (swap k s) = (fl, swap k s')" "sv_corpus s' = sv_corpus s" "fl \<noteq> ReadArticle"
    by (auto simp: handle_def split: if_splits)
qed

lemma run_loop_steady: "run_loop input s = (oc, s', rest) \<Longrightarrow> steady s s'"
proof (induction input s rule: run_loop.induct)
  case (1 input s)
  obtain line rest1 where r: "read_until_lf input = (line, rest1)" by fastforce
  obtain fl s1 where h: "handle (trim_eol line) s = (fl, s1)" by fastforce
  have 2: "steady s s1" using handle_steady [of s "trim_eol line"] h by simp
  obtain ls rest2 where ra: "read_article [] rest1 = (ls, rest2)" by fastforce
  obtain f2 s2 where ac: "accept_article ls s1 = (f2, s2)" by fastforce
  have 3: "steady s s2" using accept_article_steady [of s1 ls] ac steady_trans [OF 2] by simp
  show ?case
    using "1.prems" "1.IH" [OF r [symmetric]] r h ra ac 2 3
    by (auto simp: run_loop.simps [of input s] intro: steady_trans split: flow.splits if_splits)
qed

lemma run_loop_after:
  assumes "read_until_lf input = (line, rest1)" "line \<noteq> []" "handle (trim_eol line) s = (fl, s1)"
    and "run_loop input s = (oc, s', rest)"
  shows "steady s1 s'"
proof -
  obtain ls rest2 where ra: "read_article [] rest1 = (ls, rest2)" by fastforce
  obtain f2 s2 where ac: "accept_article ls s1 = (f2, s2)" by fastforce
  have "steady s1 s2" using accept_article_steady [of s1 ls] ac by simp
  then show ?thesis
    using assms ra ac
    by (auto simp: run_loop.simps [of input s] intro: steady_trans dest!: run_loop_steady split: flow.splits)
qed

text \<open>C26: A server that requires a login tells nothing about its articles before it: a session at
  whose end nobody is logged in writes the same octets, comes to the same end and leaves the same
  state whatever the corpus is, and it does not change the corpus.\<close>
theorem locked_out_learns_nothing:
  assumes "cfg_require_auth (sv_config s)" "run_loop input s = (oc, s', rest)" "\<not> sv_authenticated s'"
  shows "run_loop input (s\<lparr>sv_corpus := k\<rparr>) = (oc, s'\<lparr>sv_corpus := k\<rparr>, rest) \<and>
    sv_corpus s' = sv_corpus s"
  unfolding swap_def [symmetric]
  using assms
proof (induction input s arbitrary: oc s' rest rule: run_loop.induct)
  case (1 input s)
  obtain line rest1 where r: "read_until_lf input = (line, rest1)" by fastforce
  obtain fl s1 where h: "handle (trim_eol line) s = (fl, s1)" by fastforce
  have st: "steady s s1" using handle_steady [of s "trim_eol line"] h by simp
  show ?case
  proof (cases "line = []")
    case True
    with "1.prems" r show ?thesis by (simp add: run_loop.simps [of input])
  next
    case False
    have na: "needs_auth s"
      using "1.prems"(1,3) st run_loop_after [OF r False h "1.prems"(2)] by (auto simp: needs_auth_def steady_def)
    note b = handle_blind [OF na h]
    show ?thesis
      using "1.prems" "1.IH"(1) [OF r [symmetric] False h [symmetric]] r h b False st
      by (cases fl) (auto simp: run_loop.simps [of input] steady_def)
  qed
qed

definition guarded_config :: server_config where
  "guarded_config = with_require_auth ''joe'' ''pw'' config_default"

lemma locked_out_learns_nothing_witness:
  "sv_out (fst (snd (run_loop (''GROUP a'' @ [LF] @ ''HELP'' @ [LF])
       (session_new 7 (with_group (newsgroup_new ''a'') corpus_new) guarded_config)))) =
   sv_out (fst (snd (run_loop (''GROUP a'' @ [LF] @ ''HELP'' @ [LF]) (session_new 7 corpus_new guarded_config))))"
proof -
  let ?i = "''GROUP a'' @ [LF] @ ''HELP'' @ [LF]"
  let ?s = "session_new 7 corpus_new guarded_config"
  obtain oc s' rest where r: "run_loop ?i ?s = (oc, s', rest)" by (metis prod_cases3)
  have "\<not> sv_authenticated (fst (snd (run_loop ?i ?s)))" by code_simp
  with r have n: "\<not> sv_authenticated s'" by simp
  have c: "cfg_require_auth (sv_config ?s)"
    by (simp add: session_new_def guarded_config_def with_require_auth_def)
  have "session_new 7 (with_group (newsgroup_new ''a'') corpus_new) guarded_config =
      ?s\<lparr>sv_corpus := with_group (newsgroup_new ''a'') corpus_new\<rparr>"
    by (simp add: session_new_def)
  with locked_out_learns_nothing [OF c r n] r show ?thesis by simp
qed

section \<open>Segmentation\<close>

text \<open>A stream whose reads all return octets, and everything that is still to come from it.\<close>

definition quiet_src :: "source \<Rightarrow> bool" where
  "quiet_src d \<longleftrightarrow> list_all (\<lambda>r. case r of Data x \<Rightarrow> x \<noteq> [] | ReadFailed _ \<Rightarrow> False) (src_reads d)"

definition content :: "read_result \<Rightarrow> bytes" where
  "content r = (case r of Data x \<Rightarrow> x | ReadFailed _ \<Rightarrow> [])"

definition to_come :: "source \<Rightarrow> bytes" where
  "to_come d = src_buffer d @ concat (map content (src_reads d))"

lemma read_until_lf_cons:
  "LF \<notin> set a \<Longrightarrow> read_until_lf (a @ LF # rest) = (a @ [LF], rest)"
  "LF \<notin> set a \<Longrightarrow> read_until_lf (a @ b) = (case read_until_lf b of (l, rest) \<Rightarrow> (a @ l, rest))"
proof -
  assume "LF \<notin> set a"
  then show f: "read_until_lf (a @ LF # rest) = (a @ [LF], rest)"
  proof -
    have "split_once LF (a @ LF # rest) = Some (a, rest)" using \<open>LF \<notin> set a\<close> by (simp add: split_once_Some_iff)
    then show ?thesis by (simp add: read_until_lf_def)
  qed
  show "read_until_lf (a @ b) = (case read_until_lf b of (l, rest) \<Rightarrow> (a @ l, rest))"
  proof (cases "split_once LF b")
    case None
    with \<open>LF \<notin> set a\<close> have "split_once LF (a @ b) = None" by (simp add: split_once_None_iff)
    with None show ?thesis by (simp add: read_until_lf_def)
  next
    case (Some p)
    then obtain x y where p: "p = (x, y)" "b = x @ LF # y" "LF \<notin> set x" by (cases p) (auto simp: split_once_Some_iff)
    with \<open>LF \<notin> set a\<close> have "split_once LF (a @ b) = Some (a @ x, y)" by (auto simp: split_once_Some_iff)
    with Some p show ?thesis by (simp add: read_until_lf_def)
  qed
qed

lemma read_until_src_quiet:
  "quiet_src d \<Longrightarrow> read_until_src line d = (r, d') \<Longrightarrow>
     (\<exists>l. r = Inr (line @ l) \<and> read_until_lf (to_come d) = (l, to_come d')) \<and> quiet_src d'"
proof (induction line d arbitrary: r d' rule: read_until_src.induct)
  case (1 line d)
  show ?case
  proof (cases "src_buffer d = []")
    case False
    show ?thesis
    proof (cases "split_once LF (src_buffer d)")
      case (Some p)
      then obtain a rest where p: "p = (a, rest)" "src_buffer d = a @ LF # rest" "LF \<notin> set a"
        by (cases p) (auto simp: split_once_Some_iff)
      then have "read_until_lf (to_come d) = (a @ [LF], rest @ concat (map content (src_reads d)))"
        by (simp add: to_come_def read_until_lf_cons(1))
      with "1.prems" Some p False show ?thesis
        by (auto simp: read_until_src.simps [of line d] to_come_def quiet_src_def)
    next
      case None
      let ?d = "d\<lparr>src_buffer := []\<rparr>"
      have rec: "read_until_src (line @ src_buffer d) ?d = (r, d')"
        using "1.prems"(2) None False by (simp add: read_until_src.simps [of line d])
      have "quiet_src ?d" using "1.prems"(1) by (simp add: quiet_src_def)
      from "1.IH"(1) [OF False None this rec] obtain l where
        l: "r = Inr ((line @ src_buffer d) @ l)" "read_until_lf (to_come ?d) = (l, to_come d')" "quiet_src d'" by auto
      have "to_come d = src_buffer d @ to_come ?d" by (simp add: to_come_def)
      with l None show ?thesis by (auto simp: read_until_lf_cons(2) split_once_None_iff)
    qed
  next
    case True
    show ?thesis
    proof (cases "src_reads d")
      case Nil
      with "1.prems" True show ?thesis
        by (auto simp: read_until_src.simps [of line d] to_come_def read_until_lf_def)
    next
      case (Cons x rs)
      with "1.prems"(1) obtain b where x: "x = Data b" "b \<noteq> []"
        by (auto simp: quiet_src_def split: read_result.splits)
      let ?d = "d\<lparr>src_buffer := b, src_reads := rs\<rparr>"
      have rec: "read_until_src line ?d = (r, d')"
        using "1.prems"(2) True Cons x by (simp add: read_until_src.simps [of line d])
      have q: "quiet_src ?d" using "1.prems"(1) Cons by (simp add: quiet_src_def)
      have "to_come ?d = to_come d" using True Cons x by (simp add: to_come_def content_def)
      with "1.IH"(2) [OF _ Cons x(1) x(2) q rec] True show ?thesis by auto
    qed
  qed
qed

lemma read_article_src_quiet:
  "quiet_src d \<Longrightarrow> read_article_src ls d = (r, d') \<Longrightarrow>
     (\<exists>ls'. r = Inr ls' \<and> read_article ls (to_come d) = (ls', to_come d')) \<and> quiet_src d'"
proof (induction ls d arbitrary: r d' rule: read_article_src.induct)
  case (1 ls d)
  obtain r1 d1 where r1: "read_until_src [] d = (r1, d1)" by fastforce
  with read_until_src_quiet [OF "1.prems"(1) r1] obtain l where
    l: "r1 = Inr l" "read_until_lf (to_come d) = (l, to_come d1)" "quiet_src d1" by auto
  show ?case
    using "1.prems"(2) "1.IH" [OF r1 [symmetric] l(1) _ refl] l r1
    by (auto simp: read_article_src.simps [of ls d] read_article.simps [of ls "to_come d"] Let_def split: if_splits)
qed

text \<open>C28: How the network cuts the octets of a client into segments changes nothing: a session over
  a duplex stream handles the same commands with the same effect and the same answers as one that
  has all the octets before it, except that it refuses to go on to TLS when octets of the client
  have already been read past the \<open>STARTTLS\<close>.\<close>
theorem session_any_segmentation:
  assumes "quiet_src d" "run_loop (to_come d) s = (oc, s', rest)"
  shows "\<exists>r d'. loop_duplex d s = (r, s', d') \<and> to_come d' = rest \<and>
    r = (if oc = Upgrade \<and> src_buffer d' \<noteq> [] then Inl Data_After_Starttls else Inr oc)"
  using assms
proof (induction d s arbitrary: oc s' rest rule: loop_duplex.induct)
  case (1 d s)
  obtain r1 d1 where r1: "read_until_src [] d = (r1, d1)" by fastforce
  with read_until_src_quiet [OF "1.prems"(1) r1] obtain l where
    l: "r1 = Inr l" "read_until_lf (to_come d) = (l, to_come d1)" "quiet_src d1" by auto
  obtain fl s1 where h: "handle (trim_eol l) s = (fl, s1)" by fastforce
  obtain ra d2 where ra: "read_article_src [] d1 = (ra, d2)" by fastforce
  with read_article_src_quiet [OF l(3) ra] obtain ls where
    ls: "ra = Inr ls" "read_article [] (to_come d1) = (ls, to_come d2)" "quiet_src d2" by auto
  obtain f2 s2 where ac: "accept_article ls s1 = (f2, s2)" by fastforce
  note unfolded = loop_duplex.simps [of d] run_loop.simps [of "to_come d"]
  show ?case
  proof (cases "l = []")
    case True
    with "1.prems"(2) l r1 show ?thesis by (auto simp: unfolded)
  next
    case False
    note ih = "1.IH" [OF r1 [symmetric] l(1) False h [symmetric]]
    show ?thesis
    proof (cases fl)
      case Continue
      with "1.prems"(2) ih(1) [OF Continue l(3)] l r1 h False show ?thesis by (simp add: unfolded)
    next
      case Close
      with "1.prems"(2) l r1 h False show ?thesis by (auto simp: unfolded)
    next
      case UpgradeToTls
      with "1.prems"(2) l r1 h False show ?thesis by (auto simp: unfolded)
    next
      case ReadArticle
      note go = ih(2-) [OF ReadArticle ra [symmetric] ls(1) ac [symmetric] _ ls(3)]
      from ReadArticle "1.prems"(2) l r1 h False ra ls ac go show ?thesis
        by (cases f2) (simp_all add: unfolded)
    qed
  qed
qed

end
