(* ===== verification/Filing.thy ===== *)
theory Filing
  imports Corpus
begin

text \<open>
  What filing an article does to a corpus, and what a walk along a group visits.
\<close>

section \<open>Numbers\<close>

definition group_ok :: "newsgroup \<Rightarrow> bool" where
  "group_ok g \<longleftrightarrow> bt_ok (ng_articles g)"

definition corpus_ok :: "corpus \<Rightarrow> bool" where
  "corpus_ok k \<longleftrightarrow> list_all group_ok (corpus_groups k)"

text \<open>That \<open>n\<close> more articles can be numbered without passing the largest 64-bit number.\<close>

definition room :: "nat \<Rightarrow> newsgroup \<Rightarrow> bool" where
  "room n g \<longleftrightarrow> (case high g of Some h \<Rightarrow> unat h + n < 2 ^ 64 | None \<Rightarrow> n < 2 ^ 64)"

lemma high_is_last:
  "group_ok g \<Longrightarrow> high g = Some h \<Longrightarrow> (m, b) \<in> set (ng_articles g) \<Longrightarrow> m \<le> h"
  unfolding group_ok_def high_def
proof (induction "ng_articles g" arbitrary: g rule: rev_induct)
  case (snoc x xs)
  then show ?case
    by (cases x) (auto simp: bt_ok_def sorted_wrt_append snoc(2) [symmetric] split: if_splits)
qed simp

lemma next_number_new:
  assumes "group_ok g" "room 1 g" "(m, b) \<in> set (ng_articles g)"
  shows "m < next_number g"
proof (cases "high g")
  case None
  with assms(3) show ?thesis by (auto simp: high_def split: if_splits)
next
  case (Some h)
  have "unat (h + 1) = unat h + 1"
    using assms(2) Some by (simp add: room_def unat_plus_if')
  then have "h < h + 1" by (simp add: word_less_nat_alt)
  with high_is_last [OF assms(1) Some assms(3)] Some show ?thesis by (simp add: next_number_def)
qed

lemma with_article_appends:
  assumes "group_ok g" "room 1 g"
  shows "ng_articles (with_article a g) = ng_articles g @ [(next_number g, a)]"
    "group_ok (with_article a g)" "high (with_article a g) = Some (next_number g)"
    "ng_name (with_article a g) = ng_name g"
proof -
  show p: "ng_articles (with_article a g) = ng_articles g @ [(next_number g, a)]"
    using next_number_new [OF assms] by (auto simp: with_article_def article_at_def intro: bt_put_snoc)
  show "group_ok (with_article a g)"
    using assms(1) bt_ok_put by (auto simp: group_ok_def with_article_def article_at_def)
  show "high (with_article a g) = Some (next_number g)" by (simp add: high_def p)
  show "ng_name (with_article a g) = ng_name g" by (simp add: with_article_def article_at_def)
qed

lemma room_with_article:
  assumes "group_ok g" "room (Suc n) g"
  shows "room n (with_article a g)"
proof -
  have "room 1 g" using assms(2) by (auto simp: room_def split: option.splits)
  from with_article_appends(3) [OF assms(1) this, of a] show ?thesis
    using assms(2) by (auto simp: room_def next_number_def unat_plus_if' split: option.splits)
qed

lemma room_mono: "room n g \<Longrightarrow> m \<le> n \<Longrightarrow> room m g"
  by (auto simp: room_def split: option.splits)

section \<open>Filing an article\<close>

lemma find_update_group:
  "(\<And>g. ng_name (f g) = ng_name g) \<Longrightarrow>
     List.find (\<lambda>g. ng_name g = m) (update_group n f gs) =
       (if m = n then map_option f (List.find (\<lambda>g. ng_name g = n) gs) else List.find (\<lambda>g. ng_name g = m) gs)"
  by (induction gs) auto

lemma set_update_group:
  "set (update_group n f gs) \<subseteq> set gs \<union> f ` {g \<in> set gs. ng_name g = n}"
  by (induction gs) auto

lemma ng_name_with_article [simp]: "ng_name (with_article a g) = ng_name g"
  by (simp add: with_article_def article_at_def)

lemma find_Some_in: "List.find P xs = Some x \<Longrightarrow> x \<in> set xs \<and> P x"
  by (induction xs) (auto split: if_splits)

text \<open>Every number that was taken keeps its article.\<close>

definition extends :: "corpus \<Rightarrow> corpus \<Rightarrow> bool" where
  "extends k k' \<longleftrightarrow>
     map ng_name (corpus_groups k') = map ng_name (corpus_groups k) \<and>
     (\<forall>name g. find_group name k = Some g \<longrightarrow>
        (\<exists>g' new. find_group name k' = Some g' \<and> ng_articles g' = ng_articles g @ new))"

lemma extends_refl: "extends k k"
  by (simp add: extends_def)

lemma extends_trans: "extends k k' \<Longrightarrow> extends k' k'' \<Longrightarrow> extends k k''"
  unfolding extends_def by (metis append_assoc)

lemma map_name_update: "(\<And>g. ng_name (f g) = ng_name g) \<Longrightarrow> map ng_name (update_group n f gs) = map ng_name gs"
  by (induction gs) auto

definition serves :: "corpus \<Rightarrow> stored \<Rightarrow> string \<times> u64 \<Rightarrow> bool" where
  "serves k a = (\<lambda>(name, n). case find_group name k of Some g \<Rightarrow> article_by_number n g = Some a | None \<Rightarrow> False)"

lemma article_by_number_in:
  "group_ok g \<Longrightarrow> article_by_number n g = Some a \<longleftrightarrow> (n, a) \<in> set (ng_articles g)"
  by (simp add: article_by_number_def group_ok_def bt_get_set)

lemma find_group_ok: "corpus_ok k \<Longrightarrow> find_group name k = Some g \<Longrightarrow> group_ok g \<and> ng_name g = name"
  by (auto simp: corpus_ok_def find_group_def list_all_iff dest!: find_Some_in)

lemma serves_extends:
  assumes "corpus_ok k" "corpus_ok k'" "extends k k'" "serves k a p"
  shows "serves k' a p"
proof -
  obtain name n where p: "p = (name, n)" by (cases p)
  with assms(4) obtain g where g: "find_group name k = Some g" "article_by_number n g = Some a"
    by (auto simp: serves_def split: option.splits)
  with assms(3) obtain g' new where g': "find_group name k' = Some g'" "ng_articles g' = ng_articles g @ new"
    unfolding extends_def by blast
  have "group_ok g" "group_ok g'" using find_group_ok assms(1,2) g(1) g'(1) by auto
  with g g' p show ?thesis by (simp add: serves_def article_by_number_in)
qed

text \<open>What filing \<open>a\<close> adds, when \<open>filed\<close> lists the groups and numbers it was given: every
  group keeps its articles and gets \<open>a\<close> behind them once for each of its numbers in the
  list, and each of these numbers is above all that the group had.\<close>

definition adds :: "stored \<Rightarrow> (string \<times> u64) list \<Rightarrow> corpus \<Rightarrow> corpus \<Rightarrow> bool" where
  "adds a filed k k' \<longleftrightarrow>
     map ng_name (corpus_groups k') = map ng_name (corpus_groups k) \<and>
     (\<forall>name g. find_group name k = Some g \<longrightarrow>
        (\<exists>g'. find_group name k' = Some g' \<and>
           ng_articles g' = ng_articles g @ map (\<lambda>(_, n). (n, a)) (filter (\<lambda>(m, _). m = name) filed)) \<and>
        (\<forall>n. (name, n) \<in> set filed \<longrightarrow> (\<forall>(old, _) \<in> set (ng_articles g). old < n)))"

lemma adds_none: "adds a [] k k"
  by (simp add: adds_def)

lemma adds_append:
  assumes "adds a f k k'" "adds a f' k' k''"
  shows "adds a (f @ f') k k''"
  unfolding adds_def
proof (intro conjI allI impI)
  show "map ng_name (corpus_groups k'') = map ng_name (corpus_groups k)"
    using assms by (simp add: adds_def)
  fix name g assume g: "find_group name k = Some g"
  with assms(1) obtain g' where g': "find_group name k' = Some g'"
    "ng_articles g' = ng_articles g @ map (\<lambda>(_, n). (n, a)) (filter (\<lambda>(m, _). m = name) f)"
    and old: "\<forall>n. (name, n) \<in> set f \<longrightarrow> (\<forall>(old, _) \<in> set (ng_articles g). old < n)"
    unfolding adds_def by blast
  from assms(2) g'(1) obtain g'' where g'': "find_group name k'' = Some g''"
    "ng_articles g'' = ng_articles g' @ map (\<lambda>(_, n). (n, a)) (filter (\<lambda>(m, _). m = name) f')"
    and old': "\<forall>n. (name, n) \<in> set f' \<longrightarrow> (\<forall>(old, _) \<in> set (ng_articles g'). old < n)"
    unfolding adds_def by blast
  show "\<exists>g''. find_group name k'' = Some g'' \<and>
      ng_articles g'' = ng_articles g @ map (\<lambda>(_, n). (n, a)) (filter (\<lambda>(m, _). m = name) (f @ f'))"
    using g'(2) g'' by simp
  show "\<forall>(old, _) \<in> set (ng_articles g). old < n" if "(name, n) \<in> set (f @ f')" for n
    using that old old' unfolding g'(2) set_append by (metis UnCI UnE)
qed

lemma adds_extends: "adds a filed k k' \<Longrightarrow> extends k k'"
  unfolding adds_def extends_def by blast

lemma adds_serves:
  assumes "adds a filed k k'" "corpus_ok k'" "(name, n) \<in> set filed" "find_group name k = Some g"
  shows "serves k' a (name, n)"
proof -
  from assms(1,4) obtain g' where g': "find_group name k' = Some g'"
    "ng_articles g' = ng_articles g @ map (\<lambda>(_, n). (n, a)) (filter (\<lambda>(m, _). m = name) filed)"
    unfolding adds_def by blast
  have "(n, a) \<in> set (ng_articles g')" using assms(3) by (force simp: g'(2))
  then show ?thesis
    using find_group_ok [OF assms(2) g'(1)] g'(1) by (simp add: serves_def article_by_number_in)
qed

definition spacious :: "nat \<Rightarrow> corpus \<Rightarrow> bool" where
  "spacious n k \<longleftrightarrow> list_all (room n) (corpus_groups k)"

lemma inject_one_step:
  fixes a :: stored
  assumes "corpus_ok k" "spacious (Suc n) k" "find_group name k = Some g"
  defines "k' \<equiv> k\<lparr>corpus_groups := update_group name (with_article a) (corpus_groups k)\<rparr>"
  shows "corpus_ok k'" "spacious n k'" "adds a [(name, next_number g)] k k'"
proof -
  have ok: "group_ok h" "room (Suc n) h" if "h \<in> set (corpus_groups k)" for h
    using that assms(1,2) by (auto simp: corpus_ok_def spacious_def list_all_iff)
  have one: "room 1 h" if "h \<in> set (corpus_groups k)" for h
    by (rule room_mono [OF ok(2) [OF that]]) simp
  have mem: "h \<in> set (corpus_groups k) \<or> (\<exists>h0 \<in> set (corpus_groups k). h = with_article a h0)"
    if "h \<in> set (corpus_groups k')" for h
    using that set_update_group [of name "with_article a" "corpus_groups k"] by (auto simp: k'_def)
  show ok': "corpus_ok k'"
    using mem ok with_article_appends(2) [OF ok(1) one]
    by (fastforce simp: corpus_ok_def list_all_iff)
  show "spacious n k'"
    using mem ok room_with_article room_mono [of "Suc n" _ n]
    by (fastforce simp: spacious_def list_all_iff)
  have g: "g \<in> set (corpus_groups k)" using assms(3) by (auto simp: find_group_def dest: find_Some_in)
  have found: "find_group m k' = (if m = name then Some (with_article a g) else find_group m k)" for m
    using assms(3) find_update_group [of "with_article a" m name "corpus_groups k"]
    by (auto simp: find_group_def k'_def)
  note new = with_article_appends(1) [OF ok(1) [OF g] one [OF g], of a]
    next_number_new [OF ok(1) [OF g] one [OF g]]
  have "map ng_name (corpus_groups k') = map ng_name (corpus_groups k)"
    by (simp add: k'_def map_name_update)
  then show "adds a [(name, next_number g)] k k'"
    using found assms(3) new by (auto simp: adds_def)
qed

lemma inject_loop:
  "corpus_ok k \<Longrightarrow> spacious (length names) k \<Longrightarrow>
     fold (inject_one a) names (k, filed) = (k', filed') \<Longrightarrow>
     \<exists>new. filed' = filed @ new \<and> corpus_ok k' \<and> adds a new k k' \<and>
       map fst new = filter (\<lambda>n. find_group n k \<noteq> None) names"
proof (induction names arbitrary: k filed)
  case (Cons name names)
  show ?case
  proof (cases "find_group name k")
    case None
    have "spacious (length names) k"
      using Cons.prems(2) room_mono by (fastforce simp: spacious_def list_all_iff)
    with Cons None show ?thesis by (simp add: inject_one_def)
  next
    case (Some g)
    let ?k = "k\<lparr>corpus_groups := update_group name (with_article a) (corpus_groups k)\<rparr>"
    from inject_one_step [OF Cons.prems(1) _ Some, of "length names" a] Cons.prems(2)
    have k: "corpus_ok ?k" "spacious (length names) ?k" "adds a [(name, next_number g)] k ?k" by simp_all
    have same: "find_group n ?k = None \<longleftrightarrow> find_group n k = None" for n
      using find_update_group [of "with_article a" n name "corpus_groups k"] Some by (auto simp: find_group_def)
    have "inject_one a name (k, filed) = (?k, filed @ [(name, next_number g)])"
      using Some by (simp add: inject_one_def)
    with Cons.prems(3) have "fold (inject_one a) names (?k, filed @ [(name, next_number g)]) = (k', filed')"
      by simp
    from Cons.IH [OF k(1,2) this] obtain new where new: "filed' = (filed @ [(name, next_number g)]) @ new"
      "corpus_ok k'" "adds a new ?k k'" "map fst new = filter (\<lambda>n. find_group n k \<noteq> None) names"
      by (auto simp: same)
    from adds_append [OF k(3) new(3)] new(1,2,4) Some show ?thesis
      by (intro exI [of _ "(name, next_number g) # new"]) simp
  qed
qed (auto simp: adds_none)

lemma inject_adds:
  assumes "corpus_ok k" "spacious (length names) k" "inject names a k = (k', filed)"
  shows "corpus_ok k'" "extends k k'" "list_all (serves k' a) filed"
    "map fst filed = filter (\<lambda>n. find_group n k \<noteq> None) names" "adds a filed k k'"
proof -
  from inject_loop [OF assms(1,2), of a "[]"] assms(3)
  show k: "corpus_ok k'" "adds a filed k k'"
    and names: "map fst filed = filter (\<lambda>n. find_group n k \<noteq> None) names" by (auto simp: inject_def)
  show "extends k k'" using k(2) by (rule adds_extends)
  have "find_group name k \<noteq> None" if "(name, n) \<in> set filed" for name n
  proof -
    have "name \<in> set (map fst filed)" using that by force
    then show ?thesis unfolding names by simp
  qed
  with adds_serves [OF k(2,1)] show "list_all (serves k' a) filed" by (fastforce simp: list_all_iff)
qed

text \<open>C27: Filing an article keeps the corpus in order: it is filed once for every name it gives of a
  group the server carries, in the order of the names, and is served there.  Each of its numbers
  is above all numbers the group had, and apart from the article under these numbers every group
  is what it was: nothing else is added, and every article that was there keeps its number.\<close>
theorem filed_article_is_served:
  assumes "corpus_ok k" "spacious (length names) k" "inject names a k = (k', filed)"
  shows "corpus_ok k' \<and> extends k k' \<and> list_all (serves k' a) filed \<and>
    map fst filed = filter (\<lambda>n. find_group n k \<noteq> None) names \<and>
    (\<forall>name g. find_group name k = Some g \<longrightarrow>
      (\<exists>g'. find_group name k' = Some g' \<and>
         ng_articles g' = ng_articles g @ map (\<lambda>(_, n). (n, a)) (filter (\<lambda>(m, _). m = name) filed)) \<and>
      (\<forall>n. (name, n) \<in> set filed \<longrightarrow> (\<forall>(old, _) \<in> set (ng_articles g). old < n)))"
  using inject_adds [OF assms] unfolding adds_def by blast

lemma filed_article_is_served_witness:
  "list_all (serves (fst (inject [''a'', ''x'', ''a''] (stored_new ''<i>'') (with_group (newsgroup_new ''a'') corpus_new)))
     (stored_new ''<i>'')) [(''a'', 1), (''a'', 2)]"
proof -
  let ?k = "with_group (newsgroup_new ''a'') corpus_new"
  have i: "inject [''a'', ''x'', ''a''] (stored_new ''<i>'') ?k =
      (fst (inject [''a'', ''x'', ''a''] (stored_new ''<i>'') ?k), [(''a'', 1), (''a'', 2)])"
    by code_simp
  have "corpus_ok ?k" "spacious (length [''a'', ''x'', ''a'']) ?k"
    by (simp_all add: corpus_ok_def spacious_def with_group_def corpus_new_def newsgroup_new_def group_ok_def room_def
        high_def)
  from filed_article_is_served [OF this i] show ?thesis by blast
qed

end
