(* ===== verification/Serving.thy ===== *)
theory Serving
  imports Server_Session Filing
begin

text \<open>
  What the commands of the test server mean for a client: walking along a group, and taking an
  article and giving it back.
\<close>

lemma codes [simp]:
  "dec 211 = ''211''" "dec 215 = ''215''" "dec 220 = ''220''" "dec 221 = ''221''" "dec 222 = ''222''"
  "dec 223 = ''223''" "dec 224 = ''224''" "dec 240 = ''240''" "dec 340 = ''340''"
  by code_simp+

section \<open>Walking along a group\<close>

lemma find_first: "list_all (\<lambda>x. \<not> P x) p \<Longrightarrow> P x \<Longrightarrow> List.find P (p @ x # q) = Some x"
  by (induction p) auto

lemma find_none: "list_all (\<lambda>x. \<not> P x) xs \<Longrightarrow> List.find P xs = None"
  by (induction xs) auto

lemma inc_above: "a < b \<Longrightarrow> a + 1 \<le> b \<and> \<not> a + 1 \<le> a" for a b :: u64
  using unat_inc [of a b] by (simp add: word_le_nat_alt word_less_nat_alt)

text \<open>Two neighbours in a sorted group.\<close>

lemma neighbour_next:
  assumes "bt_ok (p @ x # y # q)"
  shows "neighbour ''NEXT'' (fst x) (p @ x # y # q) = Some y"
    "neighbour ''LAST'' (fst y) (p @ x # y # q) = Some x"
proof -
  have o: "fst x < fst y" "list_all (\<lambda>z. fst z < fst x) p" "list_all (\<lambda>z. fst y < fst z) q"
    using assms by (auto simp: bt_ok_def sorted_wrt_append list_all_iff)
  note up = inc_above [OF o(1)]
  have "\<not> fst x + 1 \<le> fst z" if "z \<in> set p" for z
    using that o(2) up by (auto simp: list_all_iff)
  then have "list_all (\<lambda>z. \<not> (case z of (n, _) \<Rightarrow> fst x + 1 \<le> n)) (p @ [x])"
    using up by (auto simp: list_all_iff)
  from find_first [OF this, of y q] up show "neighbour ''NEXT'' (fst x) (p @ x # y # q) = Some y"
    by (simp add: neighbour_def case_prod_unfold)
  have "list_all (\<lambda>z. \<not> (case z of (n, _) \<Rightarrow> n < fst y)) (rev q @ [y])"
    using o(3) by (auto simp: list_all_iff)
  from find_first [OF this, of x "rev p"] o(1) show "neighbour ''LAST'' (fst y) (p @ x # y # q) = Some x"
    by (simp add: neighbour_def case_prod_unfold)
qed

lemma neighbour_end:
  assumes "bt_ok (p @ [x])" "fst x \<noteq> - 1"
  shows "neighbour ''NEXT'' (fst x) (p @ [x]) = None"
proof -
  have o: "list_all (\<lambda>z. fst z < fst x) p"
    using assms(1) by (auto simp: bt_ok_def sorted_wrt_append list_all_iff)
  have "fst x < - 1" using assms(2) by (simp add: word_order.not_eq_extremum)
  note up = inc_above [OF this]
  then have "\<not> fst x + 1 \<le> fst z" if "z \<in> set (p @ [x])" for z
    using that o by (auto simp: list_all_iff)
  then have "list_all (\<lambda>z. \<not> (case z of (n, _) \<Rightarrow> fst x + 1 \<le> n)) (p @ [x])"
    unfolding list_all_iff case_prod_unfold by blast
  from find_none [OF this] show ?thesis by (simp add: neighbour_def case_prod_unfold)
qed

lemma two_neighbours:
  assumes "Suc i < length xs"
  shows "xs = take i xs @ xs ! i # xs ! Suc i # drop (Suc (Suc i)) xs"
  using assms by (metis Cons_nth_drop_Suc Suc_lessD id_take_nth_drop)

lemma move_to:
  assumes "selected_group s = Some g" "sv_article s = Some n" "neighbour verb n (ng_articles g) = Some (m, a)"
  shows "sv_article (move verb s) = Some m" "sv_group (move verb s) = sv_group s"
    "sv_corpus (move verb s) = sv_corpus s"
    "sv_out (move verb s) = sv_out s @ ''223 '' @ u64_to_string m @ '' '' @ st_message_id a @ eol s"
  using assms by (simp_all add: move_def status_def put_def eol_def)

text \<open>C29: \<open>NEXT\<close> walks along a group: from the article that \<open>GROUP\<close> selects, repeating it visits the
  articles of the group one after the other in the order of their numbers, \<open>LAST\<close> leads back, and
  behind the last article the answer is 421 and nothing moves.\<close>
theorem next_walks_group:
  assumes "corpus_ok (sv_corpus s)" "find_group name (sv_corpus s) = Some g" "i < length (ng_articles g)"
  defines "at j \<equiv> (move ''NEXT'' ^^ j) (select [name] s)"
  shows "sv_article (at i) = Some (fst (ng_articles g ! i)) \<and> selected_group (at i) = Some g \<and>
    (if Suc i < length (ng_articles g)
     then sv_article (move ''LAST'' (at (Suc i))) = Some (fst (ng_articles g ! i))
     else fst (ng_articles g ! i) \<noteq> - 1 \<longrightarrow> at (Suc i) = status 421 ''no next article'' (at i))"
proof -
  let ?as = "ng_articles g"
  have g: "bt_ok ?as" "ng_name g = name"
    using find_group_ok [OF assms(1,2)] by (auto simp: group_ok_def)
  have walk: "sv_article (at j) = Some (fst (?as ! j)) \<and> sv_group (at j) = Some name \<and> sv_corpus (at j) = sv_corpus s"
    if "j < length ?as" for j
    using that
  proof (induction j)
    case 0
    then have "low g = Some (fst (?as ! 0))" by (cases ?as) (auto simp: low_def)
    with assms(2) g(2) show ?case by (simp add: at_def select_def get_opt_def)
  next
    case (Suc j)
    then have h: "sv_article (at j) = Some (fst (?as ! j))" "sv_group (at j) = Some name" "sv_corpus (at j) = sv_corpus s"
      by auto
    obtain m a where ma: "?as ! Suc j = (m, a)" by fastforce
    have n: "neighbour ''NEXT'' (fst (?as ! j)) ?as = Some (m, a)"
      using neighbour_next(1) [of "take j ?as" "?as ! j" "?as ! Suc j" "drop (Suc (Suc j)) ?as"]
        two_neighbours [OF Suc.prems] g(1) ma by simp
    have "selected_group (at j) = Some g" using h(2,3) assms(2) by (simp add: selected_group_def)
    from move_to(1-3) [OF this h(1) n] h ma show ?case by (simp add: at_def)
  qed
  from walk [OF assms(3)] have w: "sv_article (at i) = Some (fst (?as ! i))" "selected_group (at i) = Some g"
    using assms(2) by (auto simp: selected_group_def)
  show ?thesis
  proof (cases "Suc i < length ?as")
    case True
    from walk [OF True] have x: "sv_article (at (Suc i)) = Some (fst (?as ! Suc i))" "selected_group (at (Suc i)) = Some g"
      using assms(2) by (auto simp: selected_group_def)
    obtain m a where ma: "?as ! i = (m, a)" by fastforce
    have "neighbour ''LAST'' (fst (?as ! Suc i)) ?as = Some (m, a)"
      using neighbour_next(2) [of "take i ?as" "?as ! i" "?as ! Suc i" "drop (Suc (Suc i)) ?as"]
        two_neighbours [OF True] g(1) ma by simp
    from move_to(1) [OF x(2,1) this] True w ma show ?thesis by simp
  next
    case False
    with assms(3) have "?as = take i ?as @ [?as ! i]" by (metis Suc_lessI take_Suc_conv_app_nth take_all_iff not_less)
    with neighbour_end [of "take i ?as" "?as ! i"] g(1)
    have "fst (?as ! i) \<noteq> - 1 \<Longrightarrow> neighbour ''NEXT'' (fst (?as ! i)) ?as = None" by simp
    with False w show ?thesis by (auto simp: at_def move_def)
  qed
qed

end
