(* ===== verification/End_To_End.thy ===== *)
theory End_To_End
  imports Serving Conversation Follow_Up
begin

text \<open>
  The client of \<open>nntp-client\<close> against the server of \<open>nntp-testserver\<close>: what one writes is what the
  other reads.
\<close>

section \<open>A client that hears an answer\<close>

text \<open>The connection is sound, is not being cancelled, takes what is written, and has \<open>s\<close> to read.\<close>

definition hears :: "connection \<Rightarrow> bytes \<Rightarrow> bool" where
  "hears k s \<longleftrightarrow> ahead k = s \<and> quiet k \<and> \<not> desynchronised k \<and> outcomes (transport k) = []"

lemma hears_frame: "hears k s \<Longrightarrow> frame k' = frame k \<Longrightarrow> ahead k' = s' \<Longrightarrow> hears k' s'"
  by (auto simp: hears_def frame_def quiet_def)

text \<open>A status line \<open>abc text\<close> that fits the limit.\<close>

lemma hears_status:
  assumes "memchr_ok L" "hears k (([a, b, c] @ SP # tx) @ [CR, LF] @ s)"
    and "is_ascii_digit a" "is_ascii_digit b" "is_ascii_digit c" "LF \<notin> set tx" "list_all is_ascii tx"
    and "length tx + 5 \<le> max_line_len (conn_limits k)"
    and "strip_eol ([a, b, c] @ SP # tx) = [a, b, c] @ SP # tx"
  shows "\<exists>k' v. read_status L k = (Inr \<lparr>sl_code = ResponseCode v, sl_text = tx\<rparr>, k') \<and>
    unat v = 100 * (code a - 48) + 10 * (code b - 48) + (code c - 48) \<and>
    hears k' s \<and> conn_limits k' = conn_limits k \<and> sent k' = sent k"
proof -
  let ?l = "[a, b, c] @ SP # tx"
  have "LF \<notin> set ?l" using assms(3-6) by (auto simp: is_ascii_digit_def)
  moreover have "\<not> desynchronised k" "ahead k = ?l @ [CR, LF] @ s" using assms(2) by (auto simp: hears_def)
  moreover have "length ?l + 1 \<le> max_line_len (conn_limits k)" using assms(8) by simp
  ultimately obtain k' where k': "read_line L ''a status line'' k = (Inr ?l, k')" "ahead k' = s" "frame k' = frame k"
    using read_line_sent [OF assms(1)] by metis
  from status_parse_shape [of ?l a b c "SP # tx"] assms(3-5,9)
  obtain v where v: "status_parse ?l = Inr \<lparr>sl_code = ResponseCode v, sl_text = lossy tx\<rparr>"
    "unat v = 100 * (code a - 48) + 10 * (code b - 48) + (code c - 48)"
    by (auto simp: status_shape_def)
  have "read_status L k = (Inr \<lparr>sl_code = ResponseCode v, sl_text = tx\<rparr>, k')"
    using k'(1) v(1) assms(7) by (simp add: read_status_def lossy_ascii)
  moreover have "hears k' s" by (rule hears_frame [OF assms(2) k'(3,2)])
  moreover have "conn_limits k' = conn_limits k" "sent k' = sent k"
    using k'(3) by (auto simp: frame_def sent_def)
  ultimately show ?thesis using v(2) by blast
qed

lemma hears_send:
  assumes "hears k s" "to_wire L cmd = Inr b"
  shows "\<exists>k'. send L cmd k = (Inr (), k') \<and> hears k' s \<and> conn_limits k' = conn_limits k \<and> sent k' = sent k @ b"
  using assms
  by (auto simp: send_def and_then_def ensure_synchronised_def hears_def on_transport_def write_all_def flush_def
      ahead_def quiet_def sent_def)

lemma hears_send_block:
  assumes "hears k s"
  shows "\<exists>k'. send_block ls k = (Inr (), k') \<and> hears k' s \<and> conn_limits k' = conn_limits k \<and> sent k' = sent k @ wire ls"
  using assms
  by (auto simp: send_block_def Let_def and_then_def ensure_synchronised_def hears_def on_transport_def write_all_def
      flush_def ahead_def quiet_def sent_def wire_def TERMINATOR_def comp_def)

lemma hears_block:
  assumes "memchr_ok L" "hears k (wire ls @ s)"
    and "list_all (\<lambda>l. LF \<notin> set l \<and> length (stuff l) < max_line_len (conn_limits k)) ls"
    and "2 \<le> max_line_len (conn_limits k)" "length ls \<le> max_block_lines (conn_limits k)"
    and "sum_list (map (length \<circ> stuff) ls) \<le> max_block_bytes (conn_limits k)"
  shows "\<exists>k'. read_block L k = (Inr (from_lines ls), k') \<and> ahead k' = s \<and> \<not> desynchronised k'"
  using read_block_wire [OF assms(1) _ _ _ assms(3-6), of s] assms(2) by (auto simp: hears_def)

section \<open>What the server writes\<close>

text \<open>A server that works as it should and that the client may use.\<close>

definition in_order :: "server \<Rightarrow> bool" where
  "in_order s \<longleftrightarrow> close_after_commands (cfg_quirks (sv_config s)) = None \<and> refuse_post (cfg_quirks (sv_config s)) = None \<and>
     \<not> bare_lf (cfg_quirks (sv_config s)) \<and> \<not> sv_truncate s \<and> \<not> sv_close_requested s \<and> \<not> needs_auth s \<and>
     cfg_greeting (sv_config s) \<noteq> NoPosting"

lemma run_loop_line:
  assumes "LF \<notin> set l"
  shows "run_loop (l @ [CR, LF] @ rest) s =
    (case handle l s of
       (Continue, s') \<Rightarrow> run_loop rest s'
     | (Close, s') \<Rightarrow> (Closed, s', rest)
     | (UpgradeToTls, s') \<Rightarrow> (Upgrade, s', rest)
     | (ReadArticle, s') \<Rightarrow>
         (case read_article [] rest of (ls, rest') \<Rightarrow>
            (case accept_article ls s' of
               (Close, s'') \<Rightarrow> (Closed, s'', rest')
             | (_, s'') \<Rightarrow> run_loop rest' s'')))"
proof -
  have "read_until_lf (l @ [CR, LF] @ rest) = (l @ [CR, LF], rest)"
    using read_until_lf_cons(1) [of "l @ [CR]" rest] assms by simp
  moreover have "trim_eol (l @ [CR, LF]) = l"
    using strip_eol_crlf [of l] by (simp add: trim_eol_def strip_eol_def)
  ultimately show ?thesis by (simp add: run_loop.simps [of "l @ CR # LF # rest"])
qed

lemma run_loop_end: "run_loop [] s = (Closed, s, [])"
  by (simp add: run_loop.simps read_until_lf_def)

lemma block_out_wire: "block_out [CR, LF] False n ls = wire ls"
  by (induction ls arbitrary: n) (auto simp: wire_def stuff_def TERMINATOR_def)

lemma reply_block_out:
  "in_order s \<Longrightarrow> sv_out (reply_block c t ls s) = sv_out s @ dec c @ '' '' @ t @ [CR, LF] @ wire ls"
  by (simp add: reply_block_def send_lines_def status_def put_def eol_def line_terminator_def in_order_def
      block_out_wire Let_def)

lemma status_out: "in_order s \<Longrightarrow> sv_out (status c t s) = sv_out s @ dec c @ '' '' @ t @ [CR, LF]"
  by (simp add: status_def put_def eol_def line_terminator_def in_order_def)

lemma read_article_wire:
  "list_all (\<lambda>l. LF \<notin> set l) ls \<Longrightarrow> read_article acc (wire ls @ rest) = (acc @ ls, rest)"
proof (induction ls arbitrary: acc)
  case Nil
  have "read_until_lf (''.'' @ [CR, LF] @ rest) = (''.'' @ [CR, LF], rest)"
    using read_until_lf_cons(1) [of "''.'' @ [CR]" rest] by simp
  moreover have "trim_eol (''.'' @ [CR, LF]) = ''.''"
    using strip_eol_crlf [of "''.''"] by (simp add: trim_eol_def strip_eol_def)
  ultimately show ?case by (subst read_article.simps) (simp add: wire_def TERMINATOR_def)
next
  case (Cons l ls)
  have "LF \<notin> set (stuff l)" using Cons.prems by (auto simp: stuff_def)
  then have "read_until_lf (stuff l @ [CR, LF] @ wire ls @ rest) = (stuff l @ [CR, LF], wire ls @ rest)"
    using read_until_lf_cons(1) [of "stuff l @ [CR]" "wire ls @ rest"] by simp
  moreover have "trim_eol (stuff l @ [CR, LF]) = stuff l"
    using strip_eol_crlf [of "stuff l"] by (simp add: trim_eol_def strip_eol_def)
  moreover have "stuff l \<noteq> ''.''" by (auto simp: stuff_def split: if_splits)
  moreover have "(case strip_prefix ''.'' (stuff l) of Some r \<Rightarrow> r | None \<Rightarrow> stuff l) = l"
    by (cases l) (auto simp: stuff_def strip_prefix_def)
  moreover have "wire (l # ls) @ rest = stuff l @ [CR, LF] @ wire ls @ rest" by (simp add: wire_def)
  ultimately show ?case
    using Cons by (subst read_article.simps) (simp add: Let_def)
qed

section \<open>An article that is asked for\<close>

lemma strip_eol_same: "l \<noteq> [] \<Longrightarrow> last l \<notin> {CR, LF} \<Longrightarrow> strip_eol l = l"
  by (auto simp: strip_eol_def strip_suffix_Some_iff split: option.split)

text \<open>A command line whose words are known.\<close>

lemma handle_words:
  assumes "in_order s" "split_ascii_whitespace (lossy line) = v # words" "to_ascii_uppercase v = verb"
    and "run_verb verb words (s\<lparr>sv_served := sv_served s + 1\<rparr>) = (fl, s')" "\<not> sv_close_requested s'"
  shows "handle line s = (fl, s')"
  using assms by (simp add: handle_def dispatch_def Let_def over_limit_def in_order_def)

lemma in_order_updates [simp]:
  "in_order (s\<lparr>sv_served := n\<rparr>) = in_order s" "in_order (s\<lparr>sv_article := x\<rparr>) = in_order s"
  "in_order (s\<lparr>sv_corpus := k\<rparr>) = in_order s" "in_order (s\<lparr>sv_postbox := p\<rparr>) = in_order s"
  by (simp_all add: in_order_def needs_auth_def)

lemma in_order_answers:
  "in_order s \<Longrightarrow> in_order (status c t s) \<and> in_order (reply_block c t ls s)"
  by (simp add: in_order_def needs_auth_def reply_block_def send_lines_def status_def put_def Let_def)

lemma in_order_open: "in_order s \<Longrightarrow> \<not> sv_close_requested s"
  by (simp add: in_order_def)

lemma number_not_id: "\<not> starts_with ''<'' (u64_to_string n)"
proof -
  obtain d ds where d: "u64_to_string n = d # ds" by (cases "u64_to_string n") auto
  then have "is_ascii_digit d" using u64_to_string_digits [of n] by simp
  then show ?thesis using d by (auto simp: starts_with_def is_ascii_digit_def)
qed

lemma handle_article:
  assumes "in_order s" "selected_group s = Some g" "article_by_number n g = Some a" "n \<noteq> 0"
  defines "s1 \<equiv> s\<lparr>sv_served := sv_served s + 1, sv_article := Some n\<rparr>"
  shows "handle (''ARTICLE '' @ u64_to_string n) s =
    (Continue, reply_block 220 (u64_to_string n @ '' '' @ st_message_id a @ '' article follows'')
       (st_head a @ [[]] @ st_body a) s1)"
proof (rule handle_words [OF assms(1), where v = "''ARTICLE''" and words = "[u64_to_string n]"])
  have "split_ascii_whitespace (''ARTICLE'' @ SP # u64_to_string n) = [''ARTICLE'', u64_to_string n]"
    using split_ws_single(2) [of "''ARTICLE''" SP "u64_to_string n"] split_ws_single(1) [of "u64_to_string n"]
    by (simp add: u64_to_string_graphic) (simp add: ascii_defs)
  moreover have "list_all is_ascii (''ARTICLE '' @ u64_to_string n)"
    using graphic_all_ascii [OF u64_to_string_graphic [of n]] by (simp add: is_ascii_def)
  note lossy_ascii [OF this]
  ultimately show "split_ascii_whitespace (lossy (''ARTICLE '' @ u64_to_string n)) = [''ARTICLE'', u64_to_string n]"
    by (simp only: append.simps)
  show "to_ascii_uppercase ''ARTICLE'' = ''ARTICLE''" by code_simp
  have "\<not> needs_auth (s\<lparr>sv_served := sv_served s + 1\<rparr>)" using assms(1) by (simp add: in_order_def needs_auth_def)
  moreover have "fetch ''ARTICLE'' [u64_to_string n] (s\<lparr>sv_served := sv_served s + 1\<rparr>) =
      reply_block 220 (u64_to_string n @ '' '' @ st_message_id a @ '' article follows'')
       (st_head a @ [[]] @ st_body a) s1"
    using assms(2-4)
    by (simp add: fetch_def wanted_number_def wanted_article_def get_opt_def number_not_id selected_group_def
        fetch_reply_def s1_def)
  ultimately show "run_verb ''ARTICLE'' [u64_to_string n] (s\<lparr>sv_served := sv_served s + 1\<rparr>) =
      (Continue, reply_block 220 (u64_to_string n @ '' '' @ st_message_id a @ '' article follows'')
       (st_head a @ [[]] @ st_body a) s1)"
    by (simp add: run_verb_def)
  show "\<not> sv_close_requested (reply_block 220 (u64_to_string n @ '' '' @ st_message_id a @ '' article follows'')
       (st_head a @ [[]] @ st_body a) s1)"
    using assms(1) in_order_answers [of s1] in_order_open by (simp add: s1_def)
qed

lemma article_wire:
  "to_wire L (Article (SpecNumber n)) = Inr ((''ARTICLE '' @ u64_to_string n) @ [CR, LF])"
proof -
  have "clean (''ARTICLE '' @ u64_to_string n)"
    using clean_u64 [of n] by (simp add: is_ascii_control_def)
  moreover have "length (''ARTICLE '' @ u64_to_string n) + 2 \<le> MAX_COMMAND_LEN"
    using length_u64_to_string [of n] by (simp add: MAX_COMMAND_LEN_def)
  ultimately show ?thesis by (simp add: to_wire_def finish_cases push_with_optional_arg_def)
qed

text \<open>What fits the limits of a client.\<close>

definition fits :: "limits \<Rightarrow> bytes list \<Rightarrow> bool" where
  "fits lim ls \<longleftrightarrow>
     list_all (\<lambda>l. LF \<notin> set l \<and> length (stuff l) < max_line_len lim) ls \<and>
     length ls \<le> max_block_lines lim \<and> sum_list (map (length \<circ> stuff) ls) \<le> max_block_bytes lim"

text \<open>The answer to \<open>ARTICLE n\<close>.\<close>

definition article_answer :: "u64 \<Rightarrow> stored \<Rightarrow> bytes" where
  "article_answer n a =
     (''220 '' @ u64_to_string n @ '' '' @ st_message_id a @ '' article follows'') @ [CR, LF] @
     wire (st_head a @ [[]] @ st_body a)"

lemma server_answers_article:
  assumes "in_order s" "selected_group s = Some g" "article_by_number n g = Some a" "n \<noteq> 0"
  shows "\<exists>s'. run_loop ((''ARTICLE '' @ u64_to_string n) @ [CR, LF]) s = (Closed, s', []) \<and>
    sv_out s' = sv_out s @ article_answer n a"
proof -
  have "LF \<notin> set (''ARTICLE '' @ u64_to_string n)"
    using graphic_not_control [of LF] u64_to_string_graphic [of n] by (auto simp: list_all_iff is_ascii_control_def)
  from run_loop_line [OF this, of "[]" s] handle_article [OF assms]
  show ?thesis
    using assms(1) reply_block_out [of "s\<lparr>sv_served := sv_served s + 1, sv_article := Some n\<rparr>"]
    by (simp add: run_loop_end article_answer_def del: append_assoc)
qed

lemma client_reads_article:
  assumes "memchr_ok L" "hears (conn c) (article_answer n a)" "selected c \<noteq> None" "n \<noteq> 0"
    and "list_all is_ascii_graphic (st_message_id a)" "length (st_message_id a) + 50 \<le> max_line_len (conn_limits (conn c))"
    and "fits (conn_limits (conn c)) (st_head a @ [[]] @ st_body a)"
  shows "\<exists>c'. fetch_article L (SpecNumber n) c =
      (Inr ((article_from_block L (from_lines (st_head a @ [[]] @ st_body a)))\<lparr>art_number := Some n\<rparr>), c') \<and>
    ahead (conn c') = [] \<and> \<not> desynchronised (conn c') \<and>
    sent (conn c') = sent (conn c) @ (''ARTICLE '' @ u64_to_string n) @ [CR, LF]"
proof -
  let ?txt = "u64_to_string n @ '' '' @ st_message_id a @ '' article follows''"
  let ?ls = "st_head a @ [[]] @ st_body a"
  obtain k1 where k1: "send L (Article (SpecNumber n)) (conn c) = (Inr (), k1)" "hears k1 (article_answer n a)"
    "conn_limits k1 = conn_limits (conn c)" "sent k1 = sent (conn c) @ (''ARTICLE '' @ u64_to_string n) @ [CR, LF]"
    using hears_send [OF assms(2) article_wire] by blast
  have g: "list_all is_ascii ?txt" "LF \<notin> set ?txt"
    using graphic_all_ascii [OF u64_to_string_graphic [of n]] graphic_all_ascii [OF assms(5)]
      u64_to_string_graphic [of n] assms(5)
    by (auto simp: is_ascii_def list_all_iff is_ascii_graphic_def)
  have "length ?txt + 5 \<le> max_line_len (conn_limits k1)"
    using assms(6) length_u64_to_string [of n] k1(3) by simp
  moreover have "strip_eol ([CHR ''2'', CHR ''2'', CHR ''0''] @ SP # ?txt) = [CHR ''2'', CHR ''2'', CHR ''0''] @ SP # ?txt"
    by (rule strip_eol_same) simp_all
  moreover have "hears k1 (([CHR ''2'', CHR ''2'', CHR ''0''] @ SP # ?txt) @ [CR, LF] @ wire ?ls)"
    using k1(2) by (simp add: article_answer_def)
  ultimately obtain k2 v where k2: "read_status L k1 = (Inr \<lparr>sl_code = ResponseCode v, sl_text = ?txt\<rparr>, k2)"
    "unat v = 220" "hears k2 (wire ?ls)" "conn_limits k2 = conn_limits k1" "sent k2 = sent k1"
    using hears_status [OF assms(1) _ _ _ _ g(2,1), where a = "CHR ''2''" and b = "CHR ''2''" and c = "CHR ''0''"]
    by (fastforce simp: is_ascii_digit_def)
  have v: "v = 220" using of_nat_unat_word [of v] k2(2) by simp
  have lim: "fits (conn_limits k2) ?ls" using assms(7) k1(3) k2(4) by simp
  have "2 \<le> max_line_len (conn_limits k2)" using assms(6) k1(3) k2(4) by simp
  from hears_block [OF assms(1), of k2 ?ls "[]"] k2(3) lim this
  obtain k3 where k3: "read_block L k2 = (Inr (from_lines ?ls), k3)" "ahead k3 = []" "\<not> desynchronised k3"
    by (auto simp: fits_def)
  have "sent k3 = sent k2" using read_block_sent [OF k3(1)] .
  moreover have "aid_number (article_id_parse \<lparr>sl_code = ResponseCode v, sl_text = ?txt\<rparr>) = Some n"
    using split_ws_single(2) [of "u64_to_string n" SP "st_message_id a @ '' article follows''"] assms(4)
    by (simp add: u64_to_string_graphic article_id_parse_def args_def get_opt_def is_ascii_whitespace_def)
  moreover have "command L (Article (SpecNumber n)) (conn c) = (Inr \<lparr>sl_code = ResponseCode v, sl_text = ?txt\<rparr>, k2)"
    using k1(1) k2(1) by (simp add: command_def)
  ultimately show ?thesis
    using assms(3) k3 k2(5) k1(4) v
    by (auto simp: fetch_article_def fetch_block_def on_conn_def and_then_def ARTICLE_FOLLOWS_def rc_new_def)
qed

text \<open>C9: What the server serves the client gets: asked for an article of the selected group by
  number, the server writes an answer from which the client, whatever segments it arrives in,
  reads exactly the article with its number, and neither of them is left with anything unread.\<close>
theorem article_reaches_client:
  assumes "memchr_ok L" "in_order s" "selected_group s = Some g" "article_by_number n g = Some a" "n \<noteq> 0"
    and "selected c \<noteq> None" "fetch_article L (SpecNumber n) c = (r, c')"
    and "run_loop (''ARTICLE '' @ u64_to_string n @ [CR, LF]) s = (oc, s', rest)"
    and "hears (conn c) out" "sv_out s' = sv_out s @ out"
    and "list_all is_ascii_graphic (st_message_id a)" "length (st_message_id a) + 50 \<le> max_line_len (conn_limits (conn c))"
    and "fits (conn_limits (conn c)) (st_head a @ [[]] @ st_body a)"
  shows "r = Inr ((article_from_block L (from_lines (st_head a @ [[]] @ st_body a)))\<lparr>art_number := Some n\<rparr>) \<and>
    ahead (conn c') = [] \<and> rest = [] \<and>
    sent (conn c') = sent (conn c) @ ''ARTICLE '' @ u64_to_string n @ [CR, LF]"
proof -
  from server_answers_article [OF assms(2-5)] assms(8,10) have "out = article_answer n a" "rest = []" by auto
  with client_reads_article [OF assms(1) _ assms(6,5,11-13)] assms(7,9) show ?thesis by auto
qed

section \<open>An article that is posted\<close>

lemma to_lower_colon: "to_lower c = CHR '':'' \<longleftrightarrow> c = CHR '':''"
proof -
  have x: "x = CHR '':'' \<longleftrightarrow> code x = 58" for x
    using of_char_eq_iff [of x "CHR '':''", where ?'a = nat] by simp
  show ?thesis unfolding x by (auto simp: to_lower_def is_ascii_upper_def)
qed

lemma colon_lowercase: "CHR '':'' \<notin> set s \<Longrightarrow> CHR '':'' \<notin> set (to_ascii_lowercase s)"
  unfolding to_ascii_lowercase_def using to_lower_colon by (induction s) (auto simp: eq_commute [of "CHR '':''"])

text \<open>A header line is found under its name, in any case.\<close>

lemma header_line_found:
  assumes "CHR '':'' \<notin> set n" "CHR '':'' \<notin> set name"
  shows "starts_with (to_ascii_lowercase name @ '':'') (to_ascii_lowercase (n @ '': '' @ v)) \<longleftrightarrow>
    eq_ignore_ascii_case n name"
proof -
  let ?a = "to_ascii_lowercase name" and ?b = "to_ascii_lowercase n"
  have c: "CHR '':'' \<notin> set ?a" "CHR '':'' \<notin> set ?b"
    using assms colon_lowercase by auto
  have l: "to_ascii_lowercase (n @ '': '' @ v) = ?b @ CHR '':'' # SP # to_ascii_lowercase v"
    by (simp add: to_ascii_lowercase_def to_lower_def is_ascii_upper_def)
  have "starts_with (?a @ '':'') (?b @ CHR '':'' # t) \<longleftrightarrow> ?b = ?a" for t
  proof
    assume "starts_with (?a @ '':'') (?b @ CHR '':'' # t)"
    then have "?b @ CHR '':'' # t = (?a @ '':'') @ drop (length (?a @ '':'')) (?b @ CHR '':'' # t)"
      unfolding starts_with_def by (metis append_take_drop_id)
    then have "?b @ CHR '':'' # t = ?a @ CHR '':'' # drop (length (?a @ '':'')) (?b @ CHR '':'' # t)"
      by simp
    from first_sep_eq [OF this c(2,1)] show "?b = ?a" by simp
  qed (simp add: starts_with_def)
  then show ?thesis unfolding l by (simp add: eq_ignore_ascii_case_def)
qed

definition shown :: "string \<times> bytes \<Rightarrow> bytes" where
  "shown = (\<lambda>(n, v). n @ '': '' @ v)"

definition plain_field :: "string \<times> bytes \<Rightarrow> bool" where
  "plain_field = (\<lambda>(n, v). n \<noteq> [] \<and> CHR '':'' \<notin> set n \<and> list_all is_ascii n \<and> list_all is_ascii v)"

lemma takeWhile_fields: "takeWhile (\<lambda>l. l \<noteq> []) (map shown fs @ [] # b) = map shown fs"
  "dropWhile (\<lambda>l. l \<noteq> []) (map shown fs @ [] # b) = [] # b"
  by (induction fs) (auto simp: shown_def split: prod.splits)

lemma pa_header_fields:
  assumes "list_all plain_field fs" "CHR '':'' \<notin> set name"
  shows "pa_header name \<lparr>pa_lines = map shown fs @ [] # b\<rparr> =
    map_option (trim \<circ> snd) (List.find (header_is name) fs)"
proof -
  have l: "lossy (shown f) = shown f" if "plain_field f" for f
    using that by (intro lossy_ascii) (auto simp: plain_field_def shown_def is_ascii_def)
  have m: "starts_with (to_ascii_lowercase name @ '':'') (to_ascii_lowercase (shown f)) = header_is name f"
    if "plain_field f" for f
    using that header_line_found [where n = "fst f" and v = "snd f" and name = name] assms(2)
    by (cases f) (simp add: plain_field_def shown_def header_is_def)
  have v: "(case split_once (CHR '':'') (shown f) of Some (_, value) \<Rightarrow> trim value | None \<Rightarrow> []) = trim (snd f)"
    if "plain_field f" for f
  proof -
    have "split_once (CHR '':'') (shown f) = Some (fst f, SP # snd f)"
      using that by (cases f) (simp add: split_once_Some_iff plain_field_def shown_def)
    then show ?thesis by simp
  qed
  have "List.find (\<lambda>line. starts_with (to_ascii_lowercase name @ '':'') (to_ascii_lowercase (lossy line))) (map shown fs) =
      map_option shown (List.find (header_is name) fs)"
    using assms(1) by (induction fs) (simp_all add: l m del: lossy.simps)
  moreover have "plain_field f" if "List.find (header_is name) fs = Some f" for f
    using that assms(1) find_Some_in [of "header_is name" fs f] by (simp add: list_all_iff)
  ultimately show ?thesis
    using takeWhile_fields(1) [of fs b] l v
    by (cases "List.find (header_is name) fs") (simp_all add: pa_header_def Let_def del: lossy.simps)
qed

text \<open>The fields of a draft as they are sent, when its values are ASCII.\<close>

definition ascii_draft :: "draft \<Rightarrow> bool" where
  "ascii_draft d \<longleftrightarrow> list_all (\<lambda>(_, v). list_all is_ascii v) (d_headers d)"

definition mime_fields :: "draft \<Rightarrow> (string \<times> bytes) list" where
  "mime_fields d =
     (if list_all is_ascii (d_body d) then []
      else filter (\<lambda>(name, _). header name d = None)
        [(''MIME-Version'', ''1.0''), (''Content-Type'', ''text/plain; charset=utf-8''),
         (''Content-Transfer-Encoding'', ''8bit'')])"

lemma sent_fields_ascii: "ascii_draft d \<Longrightarrow> sent_fields L d = d_headers d @ mime_fields d"
  by (auto simp: ascii_draft_def sent_fields_def mime_fields_def list_all_iff encode_header_value_def intro!: map_idI)

lemma sent_fields_plain:
  assumes "ascii_draft d" "problems d = []"
  shows "list_all plain_field (d_headers d @ mime_fields d)"
proof -
  have "plain_field (n, v)" if "(n, v) \<in> set (d_headers d)" for n v
  proof -
    have "valid_field_name (HeaderName n)"
      by (rule header_problems_none [of _ v]) (use assms(2) that in \<open>auto simp: problems_def\<close>)
    with that assms(1) show ?thesis
      by (auto simp: plain_field_def valid_field_name_def header_name_parse_Inr ascii_draft_def list_all_iff graphic_ascii)
  qed
  moreover have "list_all plain_field (mime_fields d)"
    by (auto simp: mime_fields_def plain_field_def is_ascii_def list_all_iff)
  ultimately show ?thesis by (auto simp: list_all_iff)
qed

lemma find_append: "List.find P (xs @ ys) = (case List.find P xs of Some x \<Rightarrow> Some x | None \<Rightarrow> List.find P ys)"
  by (induction xs) auto

lemma mime_names:
  "name \<in> {''From'', ''Newsgroups'', ''Subject'', ''Message-ID''} \<Longrightarrow> List.find (header_is name) (mime_fields d) = None"
  by (rule find_none)
    (auto simp: mime_fields_def header_is_def eq_ignore_ascii_case_def to_ascii_lowercase_def to_lower_def
      is_ascii_upper_def list_all_iff)

text \<open>What the server makes of the lines a draft is sent as.\<close>

lemma posted_draft:
  assumes "to_lines L d = Inr ls" "ascii_draft d"
  defines "p \<equiv> \<lparr>pa_lines = ls\<rparr>"
  shows "name \<in> {''From'', ''Newsgroups'', ''Subject'', ''Message-ID''} \<Longrightarrow> pa_header name p = map_option trim (header name d)"
    and "missing_header p = None"
    and "takeWhile (\<lambda>l. l \<noteq> []) ls @ [[]] @ drop 1 (dropWhile (\<lambda>l. l \<noteq> []) ls) = ls"
    and "map_option trim (header ''Newsgroups'' d) = header ''Newsgroups'' d \<Longrightarrow> newsgroups_of p = draft_newsgroups d"
proof -
  note pr = to_lines_Inr [OF assms(1)]
  have ls: "ls = map shown (d_headers d @ mime_fields d) @ [] # chop (body_lines (d_body d))"
    using pr(2) sent_fields_lines [of L d] sent_fields_ascii [OF assms(2), of L] by (simp add: shown_def)
  show h: "pa_header name p = map_option trim (header name d)"
    if "name \<in> {''From'', ''Newsgroups'', ''Subject'', ''Message-ID''}" for name
  proof -
    have "CHR '':'' \<notin> set name" using that by auto
    from pa_header_fields [OF sent_fields_plain [OF assms(2) pr(1)] this] mime_names [OF that, of d]
    show ?thesis
      unfolding p_def ls
      by (auto simp: header_def find_append split: option.split)
  qed
  have same: "header a d = header b d" if "eq_ignore_ascii_case a b" for a b
  proof -
    have "header_is a = header_is b" using that by (auto simp: header_is_def eq_ignore_ascii_case_def)
    then show ?thesis by (simp add: header_def)
  qed
  have req: "\<exists>v. header name d = Some v \<and> trim v \<noteq> []" if "(name, low) \<in> {(''From'', ''from''), (''Newsgroups'', ''newsgroups''), (''Subject'', ''subject'')}" for name low
  proof -
    have "missing d low = []" using pr(1) that by (auto simp: problems_def REQUIRED_def)
    then have "\<exists>v. header low d = Some v \<and> trim v \<noteq> []" by (auto simp: missing_def split: option.splits if_splits)
    moreover have "eq_ignore_ascii_case ''From'' ''from''" "eq_ignore_ascii_case ''Newsgroups'' ''newsgroups''"
      "eq_ignore_ascii_case ''Subject'' ''subject''" by code_simp+
    then have "eq_ignore_ascii_case name low" using that by auto
    ultimately show ?thesis using same by metis
  qed
  have "\<exists>v. pa_header name p = Some v \<and> trim v \<noteq> []"
    if "(name, low) \<in> {(''From'', ''from''), (''Newsgroups'', ''newsgroups''), (''Subject'', ''subject'')}" for name low
    using h [of name] req [OF that] that by (auto simp: trim_fixed(3))
  from this [of "''From''" "''from''"] this [of "''Newsgroups''" "''newsgroups''"] this [of "''Subject''" "''subject''"]
  show "missing_header p = None" by (auto simp: missing_header_def)
  show "takeWhile (\<lambda>l. l \<noteq> []) ls @ [[]] @ drop 1 (dropWhile (\<lambda>l. l \<noteq> []) ls) = ls"
    unfolding ls takeWhile_fields by simp
  assume n: "map_option trim (header ''Newsgroups'' d) = header ''Newsgroups'' d"
  from h [of "''Newsgroups''"] n show "newsgroups_of p = draft_newsgroups d"
    by (simp add: newsgroups_of_def draft_newsgroups_def)
qed

lemma handle_post: "in_order s \<Longrightarrow> handle ''POST'' s =
    (ReadArticle, status 340 ''send the article; end with a lone .'' (s\<lparr>sv_served := sv_served s + 1\<rparr>))"
proof (rule handle_words [where v = "''POST''" and words = "[]"])
  assume o: "in_order s"
  show "split_ascii_whitespace (lossy ''POST'') = [''POST'']" "to_ascii_uppercase ''POST'' = ''POST''" by code_simp+
  have "\<not> needs_auth (s\<lparr>sv_served := sv_served s + 1\<rparr>)" using o by (simp add: in_order_def needs_auth_def)
  then show "run_verb ''POST'' [] (s\<lparr>sv_served := sv_served s + 1\<rparr>) =
      (ReadArticle, status 340 ''send the article; end with a lone .'' (s\<lparr>sv_served := sv_served s + 1\<rparr>))"
    using o by (simp add: run_verb_def offer_def in_order_def)
  show "\<not> sv_close_requested (status 340 ''send the article; end with a lone .'' (s\<lparr>sv_served := sv_served s + 1\<rparr>))"
    using in_order_answers [of "s\<lparr>sv_served := sv_served s + 1\<rparr>"] o in_order_open by simp
qed

text \<open>What the server says while it takes an article, and the article it files.\<close>

definition post_answer :: "string \<Rightarrow> bytes" where
  "post_answer message_id =
     (''340 '' @ ''send the article; end with a lone .'') @ [CR, LF] @
     (''240 '' @ ''article received '' @ message_id) @ [CR, LF]"

lemma server_takes_article:
  assumes "in_order s" "to_lines L d = Inr ls" "ascii_draft d" "list_all (\<lambda>l. LF \<notin> set l) ls"
    and "map_option trim (header ''Newsgroups'' d) = header ''Newsgroups'' d"
    and "corpus_ok (sv_corpus s)" "spacious (length (draft_newsgroups d)) (sv_corpus s)"
    and "list_ex (\<lambda>name. find_group name (sv_corpus s) \<noteq> None) (draft_newsgroups d)"
  defines "i \<equiv> assigned_id \<lparr>pa_lines = ls\<rparr> (s\<lparr>sv_served := sv_served s + 1\<rparr>)"
  shows "\<exists>s' filed. run_loop (post_command @ wire ls) s = (Closed, s', []) \<and>
    sv_out s' = sv_out s @ post_answer i \<and> corpus_ok (sv_corpus s') \<and> extends (sv_corpus s) (sv_corpus s') \<and>
    map fst filed = filter (\<lambda>n. find_group n (sv_corpus s) \<noteq> None) (draft_newsgroups d) \<and>
    list_all (serves (sv_corpus s') (stored_of i \<lparr>pa_lines = ls\<rparr>)) filed \<and>
    adds (stored_of i \<lparr>pa_lines = ls\<rparr>) filed (sv_corpus s) (sv_corpus s')"
proof -
  let ?p = "\<lparr>pa_lines = ls\<rparr>" and ?a = "stored_of i \<lparr>pa_lines = ls\<rparr>"
  let ?s = "status 340 ''send the article; end with a lone .'' (s\<lparr>sv_served := sv_served s + 1\<rparr>)"
  note pd = posted_draft [OF assms(2,3)]
  have o: "in_order ?s" using assms(1) in_order_answers [of "s\<lparr>sv_served := sv_served s + 1\<rparr>"] by simp
  obtain k filed where inj: "inject (draft_newsgroups d) ?a (sv_corpus s) = (k, filed)" by fastforce
  note served = inject_adds [OF assms(6,7) inj]
  note names = served(4)
  obtain n where "n \<in> set (draft_newsgroups d)" "find_group n (sv_corpus s) \<noteq> None"
    using assms(8) by (auto simp: list_ex_iff)
  then have "n \<in> set (map fst filed)" unfolding names by simp
  then have "filed \<noteq> []" by auto
  have i: "assigned_id ?p ?s = i"
    by (simp add: i_def assigned_id_def status_def put_def split: option.split)
  let ?s2 = "?s\<lparr>sv_corpus := k, sv_postbox := map_option (\<lambda>ps. ps @ [?p]) (sv_postbox ?s)\<rparr>"
  have acc: "accept_article ls ?s = (Continue, status 240 (''article received '' @ i) ?s2)"
    using o pd(2) pd(4) [OF assms(5)] i inj \<open>filed \<noteq> []\<close>
    by (simp add: accept_article_def Let_def in_order_def)
  have "run_loop (post_command @ wire ls) s = (Closed, status 240 (''article received '' @ i) ?s2, [])"
    using run_loop_line [of "''POST''" "wire ls" s] handle_post [OF assms(1)] acc
      read_article_wire [OF assms(4), of "[]" "[]"]
    by (simp add: post_command_def run_loop_end)
  moreover have "sv_out (status 240 (''article received '' @ i) ?s2) = sv_out s @ post_answer i"
    using o assms(1) status_out [of ?s2 240 "''article received '' @ i"]
      status_out [of "s\<lparr>sv_served := sv_served s + 1\<rparr>" 340 "''send the article; end with a lone .''"]
    by (simp add: post_answer_def)
  ultimately show ?thesis using served by (intro exI conjI) auto
qed

lemma client_posts:
  assumes "memchr_ok L" "hears (conn c) (post_answer i)" "check_can_post c = Inr ()" "to_lines L d = Inr ls"
    and "list_all is_ascii_graphic i" "length i + 40 \<le> max_line_len (conn_limits (conn c))"
  shows "\<exists>c'. post L d c = (Inr (''article received '' @ i), c') \<and> hears (conn c') [] \<and>
    sent (conn c') = sent (conn c) @ post_command @ wire ls"
proof -
  let ?ask = "''send the article; end with a lone .''" and ?got = "''article received '' @ i"
  obtain k1 where k1: "send L Post (conn c) = (Inr (), k1)" "hears k1 (post_answer i)"
    "conn_limits k1 = conn_limits (conn c)" "sent k1 = sent (conn c) @ post_command"
    using hears_send [OF assms(2) post_wire] by blast
  have "strip_eol ([CHR ''3'', CHR ''4'', CHR ''0''] @ SP # ?ask) = [CHR ''3'', CHR ''4'', CHR ''0''] @ SP # ?ask"
    by (rule strip_eol_same) simp_all
  moreover have "hears k1 (([CHR ''3'', CHR ''4'', CHR ''0''] @ SP # ?ask) @ [CR, LF] @ (''240 '' @ ?got) @ [CR, LF])"
    using k1(2) by (simp add: post_answer_def)
  moreover have "length ?ask + 5 \<le> max_line_len (conn_limits k1)" using assms(6) k1(3) by simp
  ultimately obtain k2 v where k2: "read_status L k1 = (Inr \<lparr>sl_code = ResponseCode v, sl_text = ?ask\<rparr>, k2)"
    "unat v = 340" "hears k2 ((''240 '' @ ?got) @ [CR, LF])" "conn_limits k2 = conn_limits k1" "sent k2 = sent k1"
    using hears_status [OF assms(1), where a = "CHR ''3''" and b = "CHR ''4''" and c = "CHR ''0''" and tx = "?ask"]
    by (fastforce simp: is_ascii_digit_def is_ascii_def)
  have v: "v = 340" using of_nat_unat_word [of v] k2(2) by simp
  obtain k3 where k3: "send_block ls k2 = (Inr (), k3)" "hears k3 ((''240 '' @ ?got) @ [CR, LF])"
    "conn_limits k3 = conn_limits k2" "sent k3 = sent k2 @ wire ls"
    using hears_send_block [OF k2(3)] by blast
  have g: "list_all is_ascii ?got" "LF \<notin> set ?got"
    using graphic_all_ascii [OF assms(5)] assms(5) by (auto simp: is_ascii_def list_all_iff is_ascii_graphic_def)
  have "last (''240 '' @ ?got) \<notin> {CR, LF}"
    using assms(5) by (cases i rule: rev_cases) (auto simp: is_ascii_graphic_def)
  then have "strip_eol ([CHR ''2'', CHR ''4'', CHR ''0''] @ SP # ?got) = [CHR ''2'', CHR ''4'', CHR ''0''] @ SP # ?got"
    by (intro strip_eol_same) simp_all
  moreover have "hears k3 (([CHR ''2'', CHR ''4'', CHR ''0''] @ SP # ?got) @ [CR, LF] @ [])" using k3(2) by simp
  moreover have "length ?got + 5 \<le> max_line_len (conn_limits k3)" using assms(6) k1(3) k2(4) k3(3) by simp
  ultimately obtain k4 w where k4: "read_status L k3 = (Inr \<lparr>sl_code = ResponseCode w, sl_text = ?got\<rparr>, k4)"
    "unat w = 240" "hears k4 []" "sent k4 = sent k3"
    using hears_status [OF assms(1) _ _ _ _ g(2,1), where a = "CHR ''2''" and b = "CHR ''4''" and c = "CHR ''0''"]
    by (fastforce simp: is_ascii_digit_def)
  have w: "w = 240" using of_nat_unat_word [of w] k4(2) by simp
  have "command L Post (conn c) = (Inr \<lparr>sl_code = ResponseCode v, sl_text = ?ask\<rparr>, k2)"
    using k1(1) k2(1) by (simp add: command_def)
  then have "post L d c = (Inr ?got, c\<lparr>conn := k4\<rparr>)"
    using assms(3,4) k3(1) k4(1) v w
    by (simp add: post_cases post_exchange_def on_conn_def and_then_def SEND_ARTICLE_def ARTICLE_POSTED_def rc_new_def)
  with k4(3,4) k3(4) k2(5) k1(4) show ?thesis by auto
qed

text \<open>C8: What a user posts is there for everyone, for a draft in ASCII none of whose lines holds a
  line feed and whose \<open>Newsgroups\<close> value is trimmed (\<open>line_feed_injects_header\<close> below shows what a
  line feed does).  When the client posts it to a server that takes postings and carries one of its
  groups, the lines the draft is composed to are sent, the article the server files has exactly
  these lines, and the server files it in each of the draft's groups it carries under a number above
  all the group had.  Apart from this article under its new numbers every group is what it was, so
  every other article keeps its number, and the client is told of success.\<close>
theorem posted_article_is_served:
  assumes "memchr_ok L" "to_lines L d = Inr ls" "ascii_draft d" "list_all (\<lambda>l. LF \<notin> set l) ls"
    and "map_option trim (header ''Newsgroups'' d) = header ''Newsgroups'' d"
    and "in_order s" "corpus_ok (sv_corpus s)" "spacious (length (draft_newsgroups d)) (sv_corpus s)"
    and "list_ex (\<lambda>name. find_group name (sv_corpus s) \<noteq> None) (draft_newsgroups d)"
    and "run_loop (post_command @ wire ls) s = (oc, s', rest)"
    and "check_can_post c = Inr ()" "hears (conn c) out" "sv_out s' = sv_out s @ out" "post L d c = (r, c')"
    and "list_all is_ascii_graphic (assigned_id \<lparr>pa_lines = ls\<rparr> (s\<lparr>sv_served := sv_served s + 1\<rparr>))"
    and "length (assigned_id \<lparr>pa_lines = ls\<rparr> (s\<lparr>sv_served := sv_served s + 1\<rparr>)) + 40
      \<le> max_line_len (conn_limits (conn c))"
  shows "\<not> isl r \<and> rest = [] \<and> sent (conn c') = sent (conn c) @ post_command @ wire ls \<and>
    corpus_ok (sv_corpus s') \<and> extends (sv_corpus s) (sv_corpus s') \<and>
    (\<exists>a filed. st_head a @ [[]] @ st_body a = ls \<and>
       map fst filed = filter (\<lambda>n. find_group n (sv_corpus s) \<noteq> None) (draft_newsgroups d) \<and>
       list_all (serves (sv_corpus s') a) filed \<and>
       adds a filed (sv_corpus s) (sv_corpus s'))"
proof -
  let ?i = "assigned_id \<lparr>pa_lines = ls\<rparr> (s\<lparr>sv_served := sv_served s + 1\<rparr>)"
  from server_takes_article [OF assms(6,2,3,4,5,7,8,9)] assms(10,13) obtain filed where
    f: "out = post_answer ?i" "rest = []" "corpus_ok (sv_corpus s')" "extends (sv_corpus s) (sv_corpus s')"
    "map fst filed = filter (\<lambda>n. find_group n (sv_corpus s) \<noteq> None) (draft_newsgroups d)"
    "list_all (serves (sv_corpus s') (stored_of ?i \<lparr>pa_lines = ls\<rparr>)) filed"
    "adds (stored_of ?i \<lparr>pa_lines = ls\<rparr>) filed (sv_corpus s) (sv_corpus s')"
    by auto
  from client_posts [OF assms(1) _ assms(11,2,15,16)] assms(12,14) f(1)
  have c: "\<not> isl r" "sent (conn c') = sent (conn c) @ post_command @ wire ls" by auto
  have "st_head (stored_of ?i \<lparr>pa_lines = ls\<rparr>) @ [[]] @ st_body (stored_of ?i \<lparr>pa_lines = ls\<rparr>) = ls"
    using posted_draft(3) [OF assms(2,3)] by (simp add: stored_of_def)
  with c f show ?thesis by blast
qed

section \<open>The exchanges on a small server\<close>

definition small_article :: stored where
  "small_article = \<lparr>st_message_id = ''<i@x>'', st_head = [''Subject: s''], st_body = [''.t'']\<rparr>"

definition small_server :: server where
  "small_server = session_new 7 (with_group (with_article small_article (newsgroup_new ''b'')) corpus_new) config_default"

lemma small_server_ok:
  "in_order small_server" "corpus_ok (sv_corpus small_server)" "spacious 1 (sv_corpus small_server)"
  "in_order (select [''b''] small_server)" "sv_out small_server = []"
proof -
  show i: "in_order small_server"
    by (simp add: small_server_def session_new_def in_order_def config_default_def quirks_default_def needs_auth_def)
  show "sv_out small_server = []" by (simp add: small_server_def session_new_def)
  show "in_order (select [''b''] small_server)" by (simp add: in_order_def needs_auth_def) code_simp
  have "room 2 (newsgroup_new ''b'')" "group_ok (newsgroup_new ''b'')"
    by (simp_all add: room_def high_def newsgroup_new_def group_ok_def)
  then have "group_ok (with_article small_article (newsgroup_new ''b''))"
    "room 1 (with_article small_article (newsgroup_new ''b''))"
    using with_article_appends(2) room_mono [of 2 _ 1] room_with_article [of _ 1] by (auto simp: numeral_2_eq_2)
  then show "corpus_ok (sv_corpus small_server)" "spacious 1 (sv_corpus small_server)"
    by (simp_all add: small_server_def session_new_def corpus_ok_def spacious_def with_group_def corpus_new_def)
qed

lemma hears_sample: "hears (conn (sample_client enc [Data b])) b"
  by (simp add: hears_def sample_client_def from_parts_def with_limits_def sample_stream_def ahead_def quiet_def)

lemma posted_article_is_served_witness:
  "\<exists>ls s'. to_lines sample_libs sample_draft = Inr ls \<and> run_loop (post_command @ wire ls) small_server = (Closed, s', []) \<and>
     (\<exists>a filed. st_head a @ [[]] @ st_body a = ls \<and> map fst filed = [''b''] \<and> list_all (serves (sv_corpus s') a) filed \<and>
       adds a filed (sv_corpus small_server) (sv_corpus s'))"
proof -
  have "case to_lines sample_libs sample_draft of Inl _ \<Rightarrow> False | Inr ls \<Rightarrow>
      list_all (\<lambda>l. LF \<notin> set l) ls \<and>
      assigned_id \<lparr>pa_lines = ls\<rparr> (small_server\<lparr>sv_served := sv_served small_server + 1\<rparr>) = ''<1.7@test.invalid>'' \<and>
      fst (run_loop (post_command @ wire ls) small_server) = Closed"
    by code_simp
  then obtain ls where ls: "to_lines sample_libs sample_draft = Inr ls" "list_all (\<lambda>l. LF \<notin> set l) ls"
    "assigned_id \<lparr>pa_lines = ls\<rparr> (small_server\<lparr>sv_served := sv_served small_server + 1\<rparr>) = ''<1.7@test.invalid>''"
    "fst (run_loop (post_command @ wire ls) small_server) = Closed"
    by (auto split: sum.splits)
  obtain oc s' rest where r: "run_loop (post_command @ wire ls) small_server = (oc, s', rest)" by (metis prod_cases3)
  let ?c = "sample_client False [Data (sv_out s')]"
  obtain x c' where p: "post sample_libs sample_draft ?c = (x, c')" by fastforce
  have d: "ascii_draft sample_draft"
    "map_option trim (header ''Newsgroups'' sample_draft) = header ''Newsgroups'' sample_draft"
    "draft_newsgroups sample_draft = [''b'']"
    by code_simp+
  have g: "list_ex (\<lambda>name. find_group name (sv_corpus small_server) \<noteq> None) (draft_newsgroups sample_draft)"
    "filter (\<lambda>n. find_group n (sv_corpus small_server) \<noteq> None) (draft_newsgroups sample_draft) = [''b'']"
    "check_can_post ?c = Inr ()" "max_line_len (conn_limits (conn ?c)) = 60"
    by (simp_all add: d(3) small_server_def session_new_def with_group_def corpus_new_def find_group_def
        newsgroup_new_def check_can_post_def sample_client_def from_parts_def caps_is_empty_def caps_new_def
        with_limits_def roomy_def)
  have i: "list_all is_ascii_graphic (assigned_id \<lparr>pa_lines = ls\<rparr> (small_server\<lparr>sv_served := sv_served small_server + 1\<rparr>))"
    "length (assigned_id \<lparr>pa_lines = ls\<rparr> (small_server\<lparr>sv_served := sv_served small_server + 1\<rparr>)) + 40
      \<le> max_line_len (conn_limits (conn ?c))"
    unfolding ls(3) g(4) by (simp_all add: is_ascii_graphic_def)
  have sp: "spacious (length (draft_newsgroups sample_draft)) (sv_corpus small_server)"
    using small_server_ok(3) by (simp add: d(3))
  have out: "sv_out s' = sv_out small_server @ sv_out s'" by (simp add: small_server_ok(5))
  note t = posted_article_is_served [OF sample_libs_ok(1) ls(1) d(1) ls(2) d(2) small_server_ok(1,2) sp g(1) r g(3)
      hears_sample out p i, unfolded g(2)]
  then have e: "rest = []"
    "\<exists>a filed. st_head a @ [[]] @ st_body a = ls \<and> map fst filed = [''b''] \<and>
      list_all (serves (sv_corpus s') a) filed \<and> adds a filed (sv_corpus small_server) (sv_corpus s')"
    by - ((elim conjE, assumption)+)
  moreover have "oc = Closed" using ls(4) r by simp
  ultimately have "run_loop (post_command @ wire ls) small_server = (Closed, s', [])" using r by simp
  with e(2) show ?thesis using ls(1) by (intro exI [of _ ls] exI [of _ s'] conjI)
qed

definition small_reader :: client where
  "small_reader = sample_client True [Data (article_answer 1 small_article)]
     \<lparr>selected := Some \<lparr>gs_name = GroupName ''b'', estimated_count = 1, gs_low = 1, gs_high = 1\<rparr>\<rparr>"

lemma article_reaches_client_witness:
  "fst (fetch_article sample_libs (SpecNumber 1) small_reader) =
     Inr ((article_from_block sample_libs (from_lines [''Subject: s'', [], ''.t'']))\<lparr>art_number := Some 1\<rparr>)"
proof -
  let ?s = "select [''b''] small_server"
  let ?g = "with_article small_article (newsgroup_new ''b'')"
  have a: "selected_group ?s = Some ?g" "article_by_number 1 ?g = Some small_article"
    by (simp_all add: select_def get_opt_def selected_group_def small_server_def session_new_def with_group_def
        corpus_new_def find_group_def newsgroup_new_def with_article_def article_at_def article_by_number_def
        next_number_def high_def)
  obtain oc s' rest where r: "run_loop (''ARTICLE '' @ u64_to_string 1 @ [CR, LF]) ?s = (oc, s', rest)" by (metis prod_cases3)
  obtain x c' where f: "fetch_article sample_libs (SpecNumber 1) small_reader = (x, c')" by fastforce
  have h: "hears (conn small_reader) (article_answer 1 small_article)"
    using hears_sample by (simp add: small_reader_def)
  have out: "sv_out s' = sv_out ?s @ article_answer 1 small_article"
    using server_answers_article [OF small_server_ok(4) a] r by auto
  have c: "selected small_reader \<noteq> None" "conn_limits (conn small_reader) = roomy" "(1 :: u64) \<noteq> 0"
    by (simp_all add: small_reader_def sample_client_def from_parts_def with_limits_def)
  have l: "list_all is_ascii_graphic (st_message_id small_article)"
    "length (st_message_id small_article) + 50 \<le> max_line_len (conn_limits (conn small_reader))"
    "fits (conn_limits (conn small_reader)) (st_head small_article @ [[]] @ st_body small_article)"
    unfolding c(2) by (simp_all add: small_article_def roomy_def is_ascii_graphic_def fits_def stuff_def)
  from article_reaches_client [OF sample_libs_ok(1) small_server_ok(4) a c(3,1) f r h out l] f
  show ?thesis by (simp add: small_article_def)
qed

lemma next_walks_group_witness:
  "sv_article (select [''b''] small_server) = Some 1 \<and>
   move ''NEXT'' (select [''b''] small_server) = status 421 ''no next article'' (select [''b''] small_server)"
proof -
  let ?g = "with_article small_article (newsgroup_new ''b'')"
  have g: "find_group ''b'' (sv_corpus small_server) = Some ?g" "ng_articles ?g = [(1, small_article)]"
    by (simp_all add: small_server_def session_new_def with_group_def corpus_new_def find_group_def newsgroup_new_def
        with_article_def article_at_def next_number_def high_def)
  from next_walks_group [OF small_server_ok(2) g(1), of 0] g(2) show ?thesis by simp
qed

lemma session_any_segmentation_witness:
  "fst (snd (loop_duplex (source_new [Data ''DA'', Data (''TE'' @ [CR]), Data [LF]]) small_server)) =
   fst (snd (run_loop (''DATE'' @ [CR, LF]) small_server))"
proof -
  let ?d = "source_new [Data ''DA'', Data (''TE'' @ [CR]), Data [LF]]"
  have q: "quiet_src ?d" "to_come ?d = ''DATE'' @ [CR, LF]"
    by (simp_all add: quiet_src_def source_new_def to_come_def content_def)
  obtain oc s' rest where r: "run_loop (to_come ?d) small_server = (oc, s', rest)" by (metis prod_cases3)
  from session_any_segmentation [OF q(1) r] r q(2) show ?thesis by auto
qed

section \<open>A line feed in a header value\<close>

text \<open>Nothing checks the values of a draft for line breaks, so a value with one is sent as two header
  lines.  A subject may hold one: it is decoded from encoded words, and a follow-up takes it over.\<close>

lemma line_feed_injects_header:
  "(let d = \<lparr>d_headers = [(''From'', ''a''), (''Newsgroups'', ''b''), (''Subject'', ''Re: x'' @ [LF] @ ''Control: y'')],
             d_body = ''text''\<rparr> in
    problems d = [] \<and>
    (case to_lines sample_libs d of
       Inl _ \<Rightarrow> False
     | Inr ls \<Rightarrow> fst (read_article [] (wire ls)) =
         [''From: a'', ''Newsgroups: b'', ''Subject: Re: x'', ''Control: y'', [], ''text'']))"
  by code_simp

lemma decoded_subject_has_line_feed:
  "decode_header_value sample_libs ''=?UTF-8?Q?x=0AControl:_y?='' = ''x'' @ [LF] @ ''Control: y''"
  by code_simp

end
