(* ===== verification/Reader_Protocol.thy ===== *)
theory Reader_Protocol
  imports Read_Store Post_Draft Body Spec Command Thread
begin

text \<open>
  \<open>crates/nntp-tui/src/tui/protocol.rs\<close>: the messages between the interface and the network
  worker.
\<close>

section \<open>Scopes\<close>

text \<open>Which fetch of an overview a record belongs to.\<close>

datatype fetch_token = FetchToken (token_value: u64)

datatype group_scope = Subscribed "wildmat list" | Search wildmat

definition everything :: group_scope where
  "everything = Subscribed []"

fun scope_patterns :: "group_scope \<Rightarrow> wildmat list" where
  "scope_patterns (Subscribed ps) = ps"
| "scope_patterns (Search p) = [p]"

definition is_narrowed :: "group_scope \<Rightarrow> bool" where
  "is_narrowed s \<longleftrightarrow> scope_patterns s \<noteq> []"

fun scope_describe :: "group_scope \<Rightarrow> string" where
  "scope_describe (Subscribed ps) = (if ps = [] then ''the group list'' else ''the subscribed groups'')"
| "scope_describe (Search p) = ''groups matching '' @ wm_str p"

section \<open>Group rows\<close>

record group_row =
  row_name :: group_name
  row_low :: u64
  row_high :: u64
  row_status :: posting_status
  row_description :: "string option"

text \<open>The sum wraps for the row \<open>0..2\<^sup>6\<^sup>4-1\<close>, as it does in a release build.\<close>

definition article_bound :: "group_row \<Rightarrow> u64" where
  "article_bound r =
     (if row_low r \<le> row_high r \<and> 0 < row_high r then row_high r - row_low r + 1 else 0)"

definition row_is_empty :: "group_row \<Rightarrow> bool" where
  "row_is_empty r \<longleftrightarrow> article_bound r = 0"

section \<open>Messages\<close>

datatype ui_request =
    LoadGroups group_scope
  | OpenGroup group_name u64 fetch_token
  | LoadOverview group_name art_range fetch_token
  | LoadArticle "group_name option" article_spec
  | PostDraft draft
  | Shutdown

datatype ui_event =
    Connected string string bool
  | GroupsArrived "group_row list" group_scope bool
  | GroupOpened group_summary
  | OverviewChunk group_name fetch_token "overview_record list" nat
  | OverviewComplete group_name fetch_token
  | ArticleArrived article
  | Posted string
  | Progress string
  | RequestCancelled string
  | Failed string string
  | Disconnected string
  | Stopped

end
