(* ===== verification/Reader.thy ===== *)
theory Reader
  imports Reader_Protocol Follow_Up Thread_Build Client_Error
begin

text \<open>
  \<open>crates/nntp-tui/src/tui/app.rs\<close>: the state of the terminal reader and every operation on it.
  A key press and a worker event take the state to the next one and produce requests; removing
  the draft file of a posted article, the one other effect, is a result as well.  Counters in
  memory and cursors are natural numbers; \<open>spinner\<close>, \<open>overlay_scroll\<close> and tokens keep their width.
  Folding Unicode case, \<open>strftime\<close> and the debug format of a string are parameters.
\<close>

record ui_env =
  env_libs :: libs
  to_lowercase :: "string \<Rightarrow> string"
  strftime :: "string \<Rightarrow> offset_datetime \<Rightarrow> string"
  debug_str :: "string \<Rightarrow> string"

definition ellipsis :: string where
  "ellipsis = [CHR 0xE2, CHR 0x80, CHR 0xA6]"

definition at_most_sign :: string where
  "at_most_sign = [CHR 0xE2, CHR 0x89, CHR 0xA4]"

section \<open>State\<close>

definition LOG_CAPACITY :: nat where
  "LOG_CAPACITY = 200"

datatype pane = GroupsPane | ArticlesPane | BodyPane

fun pane_next :: "pane \<Rightarrow> pane" where
  "pane_next GroupsPane = ArticlesPane"
| "pane_next ArticlesPane = BodyPane"
| "pane_next BodyPane = GroupsPane"

fun pane_previous :: "pane \<Rightarrow> pane" where
  "pane_previous GroupsPane = BodyPane"
| "pane_previous ArticlesPane = GroupsPane"
| "pane_previous BodyPane = ArticlesPane"

fun pane_title :: "pane \<Rightarrow> string" where
  "pane_title GroupsPane = ''Groups''"
| "pane_title ArticlesPane = ''Articles''"
| "pane_title BodyPane = ''Article''"

datatype overlay = NoOverlay | HelpOverlay | MessagesOverlay

record article_view =
  v_number :: "u64 option"
  v_subject :: string
  v_author :: string
  v_date :: string
  v_headers :: "(string \<times> string) list"
  v_body :: "string list"
  v_attachments :: "string list"
  v_signed :: bool
  v_message_id :: "message_id option"
  v_references :: "message_id list"
  v_followup_groups :: "string list"
  v_followup_to_poster :: bool

record compose_request =
  cr_template :: string
  cr_what :: string

record article_row =
  row_index :: nat
  row_depth :: nat
  row_hidden :: nat
  row_has_replies :: bool
  row_collapsed :: bool

text \<open>The part of \<open>config::UiConfig\<close> that the state is made from, with the rest of it.\<close>

record ui_config =
  overview_chunk :: u64
  initial_articles :: u64
  date_format :: string
  mark_read_on_open :: bool
  cfg_unread_only :: bool
  cfg_threaded :: bool

definition ui_config_default :: ui_config where
  "ui_config_default = \<lparr>overview_chunk = 500, initial_articles = 300, date_format = ''%Y-%m-%d %H:%M'',
     mark_read_on_open = True, cfg_unread_only = False, cfg_threaded = True\<rparr>"

text \<open>The path of a draft is the text it is displayed as.\<close>

record app =
  a_focus :: pane
  a_overlay :: overlay
  a_overlay_scroll :: u64
  a_groups :: "group_row list"
  a_group_cursor :: nat
  a_filter :: string
  a_editing_filter :: bool
  a_subscriptions :: "wildmat list"
  a_group_scope :: group_scope
  a_group :: "group_summary option"
  a_articles :: "overview_record list"
  a_article_cursor :: nat
  a_unread_only :: bool
  a_threaded :: bool
  a_threads :: "thread_node list"
  a_collapsed :: "u64 set"
  a_overview_token :: "fetch_token option"
  a_next_token :: u64
  a_overview_chunks :: nat
  a_overview_skipped :: nat
  a_read :: read_store
  a_article :: "article_view option"
  a_body_scroll :: nat
  a_server :: string
  a_encrypted :: bool
  a_connected :: bool
  a_status :: string
  a_error :: "string option"
  a_messages :: "string list"
  a_compose :: "compose_request option"
  a_posting_groups :: "string list"
  a_posting :: "string option"
  a_from :: "string option"
  a_inflight :: nat
  a_cancel :: cancel
  a_spinner :: u64
  a_dirty :: bool
  a_should_quit :: bool
  a_initial_articles :: u64
  a_mark_read_on_open :: bool
  a_date_format :: string
  a_list_height :: nat
  a_body_height :: nat

definition app_new :: "ui_config \<Rightarrow> read_store \<Rightarrow> app" where
  "app_new config read = \<lparr>a_focus = GroupsPane, a_overlay = NoOverlay, a_overlay_scroll = 0,
     a_groups = [], a_group_cursor = 0, a_filter = [], a_editing_filter = False,
     a_subscriptions = [], a_group_scope = everything, a_group = None, a_articles = [],
     a_article_cursor = 0, a_unread_only = cfg_unread_only config, a_threaded = cfg_threaded config,
     a_threads = [], a_collapsed = {}, a_overview_token = None, a_next_token = 0,
     a_overview_chunks = 0, a_overview_skipped = 0, a_read = read, a_article = None,
     a_body_scroll = 0, a_server = [], a_encrypted = False, a_connected = False,
     a_status = ''connecting'' @ ellipsis, a_error = None, a_messages = [], a_compose = None,
     a_posting_groups = [], a_posting = None, a_from = None, a_inflight = 0, a_cancel = cancel_new,
     a_spinner = 0, a_dirty = True, a_should_quit = False,
     a_initial_articles = initial_articles config, a_mark_read_on_open = mark_read_on_open config,
     a_date_format = date_format config, a_list_height = 20, a_body_height = 20\<rparr>"

section \<open>An article to display\<close>

definition SHOWN :: "string list" where
  "SHOWN = [''From'', ''Newsgroups'', ''Subject'', ''Date'', ''Organization'', ''References'',
     ''Followup-To'']"

definition shown_header :: "libs \<Rightarrow> article \<Rightarrow> string \<Rightarrow> (string \<times> string) option" where
  "shown_header L a name =
     (case headers_get_decoded L (art_headers a) name of
        Some v \<Rightarrow> if v = [] then None else Some (name, v)
      | None \<Rightarrow> None)"

definition view_date :: "ui_env \<Rightarrow> string \<Rightarrow> article \<Rightarrow> string" where
  "view_date E fmt a =
     (case art_date (env_libs E) a of
        Some d \<Rightarrow> strftime E fmt d
      | None \<Rightarrow>
          (case headers_get_decoded (env_libs E) (art_headers a) ''Date'' of
             Some v \<Rightarrow> v | None \<Rightarrow> ''(no date)''))"

definition view_body :: "libs \<Rightarrow> article \<Rightarrow> string list" where
  "view_body L a =
     (let body = str_lines (display_text L a)
      in if body = [] \<and> attachments L a \<noteq> [] then [''(no text in this article)''] else body)"

definition asks_for_mail :: "libs \<Rightarrow> article \<Rightarrow> bool" where
  "asks_for_mail L a =
     (case headers_get_decoded L (art_headers a) ''Followup-To'' of
        Some v \<Rightarrow> eq_ignore_ascii_case (trim v) ''poster'' | None \<Rightarrow> False)"

definition groups_header :: "libs \<Rightarrow> article \<Rightarrow> string option" where
  "groups_header L a =
     (if asks_for_mail L a then None
      else case headers_get_decoded L (art_headers a) ''Followup-To'' of
             Some v \<Rightarrow> Some v
           | None \<Rightarrow> headers_get_decoded L (art_headers a) ''Newsgroups'')"

definition view_new :: "ui_env \<Rightarrow> article \<Rightarrow> string \<Rightarrow> article_view" where
  "view_new E a fmt =
     (let L = env_libs E in
      \<lparr>v_number = art_number a, v_subject = art_subject L a, v_author = art_author L a,
       v_date = view_date E fmt a, v_headers = List.map_filter (shown_header L a) SHOWN,
       v_body = view_body L a, v_attachments = attachments L a, v_signed = art_is_signed L a,
       v_message_id = art_message_id L a, v_references = art_references L a,
       v_followup_groups = filter (\<lambda>g. g \<noteq> []) (map trim
         (split_on (CHR '','') (or_empty (groups_header L a)))),
       v_followup_to_poster = asks_for_mail L a\<rparr>)"

section \<open>What is on screen\<close>

definition contains :: "string \<Rightarrow> string \<Rightarrow> bool" where
  "contains needle s \<longleftrightarrow> find_subsequence s needle \<noteq> None"

definition row_matches :: "ui_env \<Rightarrow> string \<Rightarrow> group_row \<Rightarrow> bool" where
  "row_matches E needle g \<longleftrightarrow>
     contains needle (to_lowercase E (gn_str (row_name g))) \<or>
     (case row_description g of Some text \<Rightarrow> contains needle (to_lowercase E text) | None \<Rightarrow> False)"

definition visible_groups :: "ui_env \<Rightarrow> app \<Rightarrow> nat list" where
  "visible_groups E a =
     (if a_filter a = [] then [0..<length (a_groups a)]
      else map fst (filter (\<lambda>(_, g). row_matches E (to_lowercase E (a_filter a)) g)
             (List.enumerate 0 (a_groups a))))"

definition selected_group :: "ui_env \<Rightarrow> app \<Rightarrow> group_row option" where
  "selected_group E a =
     Option.bind (get_opt (visible_groups E a) (a_group_cursor a)) (get_opt (a_groups a))"

definition is_unread :: "app \<Rightarrow> u64 \<Rightarrow> bool" where
  "is_unread a number =
     (case a_group a of
        Some s \<Rightarrow> \<not> rs_contains (store_read_set (a_read a) (gn_str (gs_name s))) number
      | None \<Rightarrow> True)"

text \<open>Whether the unread filter lets an article through.\<close>

definition passes :: "app \<Rightarrow> overview_record \<Rightarrow> bool" where
  "passes a r \<longleftrightarrow> \<not> a_unread_only a \<or> is_unread a (or_number r)"

definition flat_row :: "nat \<Rightarrow> article_row" where
  "flat_row i = \<lparr>row_index = i, row_depth = 0, row_hidden = 0, row_has_replies = False,
     row_collapsed = False\<rparr>"

text \<open>\<open>push_rows\<close> returns the rows it pushes.\<close>

definition drawn :: "app \<Rightarrow> nat option \<Rightarrow> (nat \<times> u64) option" where
  "drawn a art =
     (case art of
        None \<Rightarrow> None
      | Some i \<Rightarrow>
          (case get_opt (a_articles a) i of
             None \<Rightarrow> None
           | Some r \<Rightarrow> if passes a r then Some (i, or_number r) else None))"

fun push_rows :: "app \<Rightarrow> nat \<Rightarrow> thread_node \<Rightarrow> article_row list" where
  "push_rows a depth (ThreadNode art cs) =
     (case drawn a art of
        None \<Rightarrow> concat (map (push_rows a (depth + 1)) cs)
      | Some (i, number) \<Rightarrow>
          let folded = number \<in> a_collapsed a in
          \<lparr>row_index = i, row_depth = depth,
           row_hidden = (if folded then sum_list (map node_len cs) else 0),
           row_has_replies = cs \<noteq> [], row_collapsed = folded\<rparr> #
          (if folded then [] else concat (map (push_rows a (depth + 1)) cs)))"

definition article_rows :: "app \<Rightarrow> article_row list" where
  "article_rows a =
     (if a_threaded a then concat (map (push_rows a 0) (a_threads a))
      else map (\<lambda>(i, _). flat_row i) (filter (\<lambda>(_, r). passes a r) (List.enumerate 0 (a_articles a))))"

definition visible_articles :: "app \<Rightarrow> nat list" where
  "visible_articles a = map row_index (article_rows a)"

definition selected_article :: "app \<Rightarrow> overview_record option" where
  "selected_article a =
     Option.bind (get_opt (visible_articles a) (a_article_cursor a)) (get_opt (a_articles a))"

definition app_unread_in :: "app \<Rightarrow> group_row \<Rightarrow> u64" where
  "app_unread_in a g =
     (if row_is_empty g then 0
      else rs_unread_in (row_low g) (row_high g) (store_read_set (a_read a) (gn_str (row_name g))))"

definition spinner_frame :: "app \<Rightarrow> char" where
  "spinner_frame a =
     (if a_inflight a = 0 then SP
      else [CHR ''|'', CHR ''/'', CHR ''-'', CHR 0x5C] ! (unat (a_spinner a) mod 4))"

text \<open>\<^const>\<open>thread\<close> never runs out of the depth it is given (theory Thread_Build), so the empty
  list of the last branch stands for nothing.\<close>

definition rebuild_threads :: "app \<Rightarrow> app" where
  "rebuild_threads a =
     a\<lparr>a_threads := (if a_threaded a
        then (case thread (a_articles a) of Some ts \<Rightarrow> ts | None \<Rightarrow> []) else [])\<rparr>"

text \<open>Which row an article number is on, and which position of the visible list.\<close>

definition row_of :: "app \<Rightarrow> u64 \<Rightarrow> nat option" where
  "row_of a number =
     position (\<lambda>row. case get_opt (a_articles a) (row_index row) of
        Some r \<Rightarrow> or_number r = number | None \<Rightarrow> False) (article_rows a)"

definition visible_position :: "app \<Rightarrow> u64 \<Rightarrow> nat option" where
  "visible_position a number =
     position (\<lambda>i. case get_opt (a_articles a) i of
        Some r \<Rightarrow> or_number r = number | None \<Rightarrow> False) (visible_articles a)"

section \<open>Small steps\<close>

definition plural :: "nat \<Rightarrow> string \<Rightarrow> string \<Rightarrow> string" where
  "plural n one many = dec n @ '' '' @ (if n = 1 then one else many)"

definition shift :: "nat \<Rightarrow> int \<Rightarrow> nat \<Rightarrow> nat" where
  "shift current delta n =
     (if n = 0 then 0 else nat (max 0 (min (int current + delta) (int (n - 1)))))"

definition set_status :: "string \<Rightarrow> app \<Rightarrow> app" where
  "set_status s a = a\<lparr>a_status := s\<rparr>"

definition add_note :: "string \<Rightarrow> app \<Rightarrow> app" where
  "add_note message a = a\<lparr>a_messages := take LOG_CAPACITY (message # a_messages a), a_dirty := True\<rparr>"

definition tick :: "app \<Rightarrow> app" where
  "tick a = (if a_inflight a > 0 then a\<lparr>a_spinner := a_spinner a + 1, a_dirty := True\<rparr> else a)"

definition set_pane_heights :: "nat \<Rightarrow> nat \<Rightarrow> app \<Rightarrow> app" where
  "set_pane_heights lst body a = a\<lparr>a_list_height := max lst 1, a_body_height := max body 1\<rparr>"

definition set_overlay_scroll :: "u64 \<Rightarrow> app \<Rightarrow> app" where
  "set_overlay_scroll scroll a = a\<lparr>a_overlay_scroll := scroll\<rparr>"

definition page :: "app \<Rightarrow> nat" where
  "page a = (if a_focus a = BodyPane then max (a_body_height a - 1) 1 else max (a_list_height a - 1) 1)"

definition clamp_article_cursor :: "app \<Rightarrow> app" where
  "clamp_article_cursor a =
     a\<lparr>a_article_cursor := min (a_article_cursor a) (length (visible_articles a) - 1)\<rparr>"

definition expect_answer :: "app \<Rightarrow> app" where
  "expect_answer a = a\<lparr>a_inflight := a_inflight a + 1\<rparr>"

definition answered :: "app \<Rightarrow> app" where
  "answered a = a\<lparr>a_inflight := a_inflight a - 1\<rparr>"

text \<open>The token wraps after \<open>2\<^sup>6\<^sup>4\<close> fetches, as it does in a release build.\<close>

definition begin_overview_fetch :: "app \<Rightarrow> fetch_token \<times> app" where
  "begin_overview_fetch a =
     (let next = a_next_token a + 1; token = FetchToken next
      in (token, a\<lparr>a_next_token := next, a_overview_token := Some token, a_overview_chunks := 0,
            a_overview_skipped := 0\<rparr>))"

definition accepts_overview :: "group_name \<Rightarrow> fetch_token \<Rightarrow> app \<Rightarrow> bool" where
  "accepts_overview g token a \<longleftrightarrow>
     a_overview_token a = Some token \<and> map_option gs_name (a_group a) = Some g"

text \<open>\<open>Vec::dedup_by_key\<close> keeps the first of each run.\<close>

fun dedup_by_key :: "('a \<Rightarrow> 'b) \<Rightarrow> 'a list \<Rightarrow> 'a list" where
  "dedup_by_key k (x # y # zs) =
     (if k x = k y then dedup_by_key k (x # zs) else x # dedup_by_key k (y # zs))"
| "dedup_by_key k xs = xs"

definition merge_overview :: "overview_record list \<Rightarrow> overview_record list \<Rightarrow> overview_record list" where
  "merge_overview records held =
     (case held of
        [] \<Rightarrow> records
      | oldest # _ \<Rightarrow>
          if records \<noteq> [] \<and> or_number (last records) < or_number oldest then records @ held
          else dedup_by_key or_number (sort_key or_number (records @ held)))"

definition absorb_overview :: "overview_record list \<Rightarrow> app \<Rightarrow> app" where
  "absorb_overview records a =
     (if records = [] then a
      else
        let pinned = length (visible_articles a) \<le> a_article_cursor a + 1;
            anchor = map_option or_number (selected_article a);
            b = rebuild_threads (a\<lparr>a_articles := merge_overview records (a_articles a)\<rparr>);
            visible = length (visible_articles b)
        in b\<lparr>a_article_cursor :=
             (if pinned then visible - 1
              else case Option.bind anchor (visible_position b) of
                     Some i \<Rightarrow> i
                   | None \<Rightarrow> min (a_article_cursor b) (visible - 1))\<rparr>)"

end
