(* ===== verification/Reader_Steps.thy ===== *)
theory Reader_Steps
  imports Reader
begin

text \<open>
  \<open>crates/nntp-tui/src/tui/app.rs\<close>, continued: what a worker event, a key press and a return from
  the editor do to the state.
\<close>

type_synonym reaction = "app \<times> ui_request list"

section \<open>Requests\<close>

definition initial_requests :: "app \<Rightarrow> reaction" where
  "initial_requests a =
     (let b = (expect_answer a)\<lparr>a_group_scope := Subscribed (a_subscriptions a)\<rparr>
      in (b, [LoadGroups (a_group_scope b)]))"

definition search_groups :: "ui_env \<Rightarrow> app \<Rightarrow> reaction" where
  "search_groups E a =
     (let wanted = trim (a_filter a);
          ask = (\<lambda>scope. ((expect_answer (set_status
              (''asking the server for '' @ scope_describe scope @ ellipsis) a))\<lparr>a_group_scope := scope\<rparr>,
              [LoadGroups scope]))
      in if wanted = [] then ask everything
         else case wildmat_containing wanted of
                Inr p \<Rightarrow> ask (Search p)
              | Inl _ \<Rightarrow> (set_status (debug_str E wanted @
                  '' cannot be sent as a pattern: no spaces or accents'') a, []))"

definition load_selected_article :: "app \<Rightarrow> reaction" where
  "load_selected_article a =
     (case (selected_article a, a_group a) of
        (Some r, Some s) \<Rightarrow>
          (expect_answer (set_status
             (''fetching article '' @ u64_to_string (or_number r) @ ellipsis) a),
           [LoadArticle (Some (gs_name s)) (SpecNumber (or_number r))])
      | _ \<Rightarrow> (a, []))"

definition refresh_after_posting :: "string list \<Rightarrow> app \<Rightarrow> reaction option" where
  "refresh_after_posting names a =
     (case a_group a of
        None \<Rightarrow> None
      | Some s \<Rightarrow>
          let name = gn_str (gs_name s) in
          if name \<notin> set names then None
          else
            let (token, b) = begin_overview_fetch
                  (expect_answer (set_status (''posted; reloading '' @ name @ ellipsis) a))
            in Some (b, [OpenGroup (gs_name s) (a_initial_articles b) token]))"

definition refresh :: "app \<Rightarrow> reaction" where
  "refresh a =
     (if a_focus a = GroupsPane then
        (expect_answer (set_status
           (''reloading '' @ scope_describe (a_group_scope a) @ ellipsis) a),
         [LoadGroups (a_group_scope a)])
      else case Option.bind (a_group a) (\<lambda>s. map_option (Pair s) (group_range s)) of
             None \<Rightarrow> (a, [])
           | Some (s, low, high) \<Rightarrow>
               let first = max (sat_sub high (sat_sub (a_initial_articles a) 1)) low;
                   (token, b) = begin_overview_fetch
                     (expect_answer (set_status (''reloading '' @ gn_str (gs_name s) @ ellipsis) a))
               in (b, [LoadOverview (gs_name s) (between first high) token]))"

section \<open>Moving\<close>

definition move_group_cursor :: "ui_env \<Rightarrow> int \<Rightarrow> app \<Rightarrow> app" where
  "move_group_cursor E delta a =
     a\<lparr>a_group_cursor := shift (a_group_cursor a) delta (length (visible_groups E a))\<rparr>"

definition body_length :: "app \<Rightarrow> nat" where
  "body_length a = (case a_article a of None \<Rightarrow> 0 | Some v \<Rightarrow> length (v_body v))"

definition scroll_body :: "int \<Rightarrow> app \<Rightarrow> app" where
  "scroll_body delta a =
     a\<lparr>a_body_scroll := shift (a_body_scroll a) delta (body_length a - 1 + 1)\<rparr>"

definition move_cursor :: "ui_env \<Rightarrow> int \<Rightarrow> app \<Rightarrow> app" where
  "move_cursor E delta a =
     (case a_focus a of
        GroupsPane \<Rightarrow> move_group_cursor E delta a
      | ArticlesPane \<Rightarrow>
          a\<lparr>a_article_cursor := shift (a_article_cursor a) delta (length (visible_articles a))\<rparr>
      | BodyPane \<Rightarrow> scroll_body delta a)"

definition move_to_start :: "app \<Rightarrow> app" where
  "move_to_start a =
     (case a_focus a of
        GroupsPane \<Rightarrow> a\<lparr>a_group_cursor := 0\<rparr>
      | ArticlesPane \<Rightarrow> a\<lparr>a_article_cursor := 0\<rparr>
      | BodyPane \<Rightarrow> a\<lparr>a_body_scroll := 0\<rparr>)"

definition move_to_end :: "ui_env \<Rightarrow> app \<Rightarrow> app" where
  "move_to_end E a =
     (case a_focus a of
        GroupsPane \<Rightarrow> a\<lparr>a_group_cursor := length (visible_groups E a) - 1\<rparr>
      | ArticlesPane \<Rightarrow> a\<lparr>a_article_cursor := length (visible_articles a) - 1\<rparr>
      | BodyPane \<Rightarrow> a\<lparr>a_body_scroll := body_length a - max (a_body_height a) 1\<rparr>)"

definition step_article :: "int \<Rightarrow> app \<Rightarrow> reaction" where
  "step_article delta a =
     (let n = length (visible_articles a); next = int (a_article_cursor a) + delta in
      if n = 0 then (a, [])
      else if next < 0 \<or> int n \<le> next then
        (set_status (if delta > 0 then ''already at the newest article''
           else ''already at the oldest article'') a, [])
      else load_selected_article (a\<lparr>a_article_cursor := nat next\<rparr>))"

section \<open>Opening\<close>

definition clear_list :: "app \<Rightarrow> app" where
  "clear_list a = a\<lparr>a_articles := [], a_threads := [], a_collapsed := {}, a_article := None\<rparr>"

definition open_selected_group :: "ui_env \<Rightarrow> app \<Rightarrow> reaction" where
  "open_selected_group E a =
     (case selected_group E a of
        None \<Rightarrow> (a, [])
      | Some g \<Rightarrow>
          if row_is_empty g then
            (clear_list (set_status (gn_str (row_name g) @ '' is empty'') a), [])
          else
            let (token, b) = begin_overview_fetch (expect_answer
                  (set_status (''opening '' @ gn_str (row_name g) @ ellipsis)
                    ((clear_list a)\<lparr>a_article_cursor := 0\<rparr>)))
            in (b, [OpenGroup (row_name g) (a_initial_articles b) token]))"

definition activate :: "ui_env \<Rightarrow> app \<Rightarrow> reaction" where
  "activate E a =
     (case a_focus a of
        GroupsPane \<Rightarrow> open_selected_group E a
      | ArticlesPane \<Rightarrow> load_selected_article a
      | BodyPane \<Rightarrow> (scroll_body 1 a, []))"

section \<open>Views of the list\<close>

definition toggle_unread_only :: "app \<Rightarrow> app" where
  "toggle_unread_only a =
     (let anchor = map_option or_number (selected_article a);
          b = a\<lparr>a_unread_only := \<not> a_unread_only a\<rparr>;
          visible = length (visible_articles b);
          c = b\<lparr>a_article_cursor :=
                (case Option.bind anchor (visible_position b) of Some i \<Rightarrow> i | None \<Rightarrow> visible - 1)\<rparr>
      in set_status (if a_unread_only c
           then ''showing '' @ dec visible @ '' unread of '' @ dec (length (a_articles c))
           else ''showing all '' @ dec (length (a_articles c)) @ '' articles'') c)"

definition toggle_threading :: "app \<Rightarrow> app" where
  "toggle_threading a =
     (let anchor = map_option or_number (selected_article a);
          b = rebuild_threads (a\<lparr>a_threaded := \<not> a_threaded a\<rparr>);
          c = b\<lparr>a_article_cursor :=
                (case Option.bind anchor (row_of b) of
                   Some i \<Rightarrow> i | None \<Rightarrow> length (visible_articles b) - 1)\<rparr>
      in set_status (if a_threaded c then dec (length (a_threads c)) @ '' threads''
           else ''showing '' @ dec (length (a_articles c)) @ '' articles flat'') c)"

text \<open>The middle of \<open>toggle_fold_under_cursor\<close>: the set of folds changes and the status says so.\<close>

definition toggle_fold :: "nat \<Rightarrow> u64 \<Rightarrow> app \<Rightarrow> app" where
  "toggle_fold index number a =
     (if number \<in> a_collapsed a then
        set_status (''article '' @ u64_to_string number @ '': replies shown'')
          (a\<lparr>a_collapsed := a_collapsed a - {number}\<rparr>)
      else
        let b = a\<lparr>a_collapsed := insert number (a_collapsed a)\<rparr>;
            hidden = (case List.find (\<lambda>row. row_index row = index) (article_rows b) of
                        Some row \<Rightarrow> row_hidden row | None \<Rightarrow> 0)
        in set_status (''article '' @ u64_to_string number @ '': '' @
             plural hidden ''reply'' ''replies'' @ '' folded'') b)"

definition toggle_fold_under_cursor :: "app \<Rightarrow> app" where
  "toggle_fold_under_cursor a =
     (if \<not> a_threaded a then set_status ''threading is off (t)'' a
      else case get_opt (article_rows a) (a_article_cursor a) of
             None \<Rightarrow> a
           | Some row \<Rightarrow>
               (case get_opt (a_articles a) (row_index row) of
                  None \<Rightarrow> a
                | Some r \<Rightarrow>
                    let number = or_number r in
                    if \<not> row_has_replies row then
                      set_status (''article '' @ u64_to_string number @ '' has no replies'') a
                    else
                      let b = toggle_fold (row_index row) number a in
                      clamp_article_cursor (b\<lparr>a_article_cursor :=
                        (case row_of b number of Some i \<Rightarrow> i | None \<Rightarrow> a_article_cursor b)\<rparr>)))"

section \<open>What has been read\<close>

definition toggle_read_under_cursor :: "app \<Rightarrow> app" where
  "toggle_read_under_cursor a =
     (case (selected_article a, a_group a) of
        (Some r, Some s) \<Rightarrow>
          let number = or_number r; name = gn_str (gs_name s) in
          clamp_article_cursor (if is_unread a number
            then set_status (''article '' @ u64_to_string number @ '' marked read'')
              (a\<lparr>a_read := mark_read name number (a_read a)\<rparr>)
            else set_status (''article '' @ u64_to_string number @ '' marked unread'')
              (a\<lparr>a_read := mark_unread name number (a_read a)\<rparr>))
      | _ \<Rightarrow> a)"

definition catch_up :: "app \<Rightarrow> app" where
  "catch_up a =
     (case a_group a of
        None \<Rightarrow> set_status ''no group selected'' a
      | Some s \<Rightarrow>
          let name = gn_str (gs_name s) in
          (case group_range s of
             None \<Rightarrow> set_status (name @ '' is empty'') a
           | Some (low, high) \<Rightarrow>
               clamp_article_cursor
                 (set_status (name @ '': caught up to article '' @ u64_to_string high)
                   (a\<lparr>a_read := mark_range_read name low high (a_read a)\<rparr>))))"

section \<open>Writing\<close>

text \<open>Headers, an empty line, the body.\<close>

definition template_for :: "draft \<Rightarrow> string" where
  "template_for d = concat (map (\<lambda>(name, v). name @ '': '' @ v @ [LF]) (d_headers d)) @ LF # d_body d"

definition IDENTITY_STATUS :: string where
  "IDENTITY_STATUS = ''set `from` for this server to post''"

definition IDENTITY_NOTE :: string where
  "IDENTITY_NOTE = ''posting needs an identity: add `from = '' @ [CHR 0x22] @
     ''Your Name <you@example.org>'' @ [CHR 0x22] @ ''` under this server in the configuration file''"

definition posting_identity :: "app \<Rightarrow> string option \<times> app" where
  "posting_identity a =
     (case a_from a of
        Some sender \<Rightarrow>
          if trim sender \<noteq> [] then (Some sender, a) else (None, add_note IDENTITY_NOTE (set_status IDENTITY_STATUS a))
      | None \<Rightarrow> (None, add_note IDENTITY_NOTE (set_status IDENTITY_STATUS a)))"

definition start_article :: "app \<Rightarrow> app" where
  "start_article a =
     (case posting_identity a of
        (None, b) \<Rightarrow> b
      | (Some sender, b) \<Rightarrow>
          (case a_group b of
             None \<Rightarrow> set_status ''select a group first'' b
           | Some s \<Rightarrow>
               let name = gn_str (gs_name s);
                   d = set_header ''Subject'' [] (set_header ''Newsgroups'' name
                         (set_header ''From'' sender draft_empty))
               in set_status (''composing an article for '' @ name @ ellipsis)
                    (b\<lparr>a_compose := Some \<lparr>cr_template = template_for d, cr_what = ''a new article''\<rparr>\<rparr>)))"

definition follow_up_groups :: "app \<Rightarrow> article_view \<Rightarrow> string list" where
  "follow_up_groups a v =
     (if v_followup_groups v = []
      then (case a_group a of Some s \<Rightarrow> [gn_str (gs_name s)] | None \<Rightarrow> [])
      else v_followup_groups v)"

definition follow_up_draft :: "article_view \<Rightarrow> string list \<Rightarrow> string \<Rightarrow> draft" where
  "follow_up_draft v names sender =
     follow_up \<lparr>fu_message_id = v_message_id v, fu_references = v_references v,
       fu_subject = v_subject v, fu_author = v_author v, fu_newsgroups = names,
       fu_body = join [LF] (v_body v)\<rparr> sender"

definition start_follow_up :: "app \<Rightarrow> app" where
  "start_follow_up a =
     (case posting_identity a of
        (None, b) \<Rightarrow> b
      | (Some sender, b) \<Rightarrow>
          (case a_article b of
             None \<Rightarrow> set_status ''open an article to follow up to'' b
           | Some v \<Rightarrow>
               if v_followup_to_poster v then
                 add_note (''this article asks for replies by mail rather than to the group; '' @
                     ''nothing was composed'')
                   (set_status (''Followup-To: poster'' @ em_dash @
                     ''the author asked for a mail reply'') b)
               else
                 let names = follow_up_groups b v in
                 if names = [] then set_status ''no group to follow up in'' b
                 else set_status (''composing a follow-up to '' @ join '', '' names @ ellipsis)
                   (b\<lparr>a_compose := Some \<lparr>cr_template = template_for (follow_up_draft v names sender),
                      cr_what = ''a follow-up''\<rparr>\<rparr>)))"

definition take_compose :: "app \<Rightarrow> compose_request option \<times> app" where
  "take_compose a = (a_compose a, a\<lparr>a_compose := None\<rparr>)"

definition on_composed :: "(string \<times> string) option \<Rightarrow> app \<Rightarrow> reaction" where
  "on_composed composed a0 =
     (let a = a0\<lparr>a_dirty := True\<rparr> in
      case composed of
        None \<Rightarrow> (set_status ''nothing was posted'' a, [])
      | Some (text, path) \<Rightarrow>
          let d = draft_parse text; ps = problems d in
          if ps \<noteq> [] then
            let b = set_status (''the article was not sent: '' @ dec (length ps) @ '' problem(s)'') a;
                c = fold (\<lambda>p. add_note (''draft: '' @ Post_Draft.show_problem p)) ps b
            in (add_note (''the draft is at '' @ path) c, [])
          else
            (expect_answer (set_status
               (''posting to '' @ join '', '' (draft_newsgroups d) @ ellipsis)
               (a\<lparr>a_posting := Some path, a_posting_groups := draft_newsgroups d\<rparr>)),
             [PostDraft d]))"

text \<open>\<open>report_unsent_draft\<close>\<close>

definition report_unsent_draft :: "app \<Rightarrow> app" where
  "report_unsent_draft a =
     (case a_posting a of
        None \<Rightarrow> a
      | Some path \<Rightarrow>
          add_note (''the article was not posted; the draft is at '' @ path) (a\<lparr>a_posting := None\<rparr>))"

section \<open>Keys\<close>

text \<open>The keys of \<open>crossterm\<close> that the code tells apart.  A character is its UTF-8 octets.\<close>

datatype key_code =
    KChar string | KF nat | KTab | KBackTab | KLeft | KRight | KUp | KDown | KPageUp | KPageDown
  | KHome | KEnd | KEnter | KEsc | KBackspace | KOther

record key_event =
  key_code :: key_code
  key_control :: bool

definition app_quit :: "app \<Rightarrow> reaction" where
  "app_quit a = (a\<lparr>a_should_quit := True\<rparr>, [Shutdown])"

definition request_cancellation :: "app \<Rightarrow> app" where
  "request_cancellation a =
     (if a_inflight a = 0 then set_status ''nothing to cancel'' a
      else set_status (''cancelling'' @ ellipsis) (a\<lparr>a_cancel := cancel_raise (a_cancel a)\<rparr>))"

definition close_overlay :: "app \<Rightarrow> app" where
  "close_overlay a = a\<lparr>a_overlay := NoOverlay, a_overlay_scroll := 0\<rparr>"

definition toggle_overlay :: "overlay \<Rightarrow> app \<Rightarrow> app" where
  "toggle_overlay o' a =
     (if a_overlay a = o' then close_overlay a else a\<lparr>a_overlay := o', a_overlay_scroll := 0\<rparr>)"

definition overlay_page :: "app \<Rightarrow> int" where
  "overlay_page a = int (max (a_body_height a - 2) 1)"

definition scroll_overlay :: "int \<Rightarrow> app \<Rightarrow> app" where
  "scroll_overlay delta a =
     a\<lparr>a_overlay_scroll :=
       (if delta < 0 then sat_sub (a_overlay_scroll a) (word_of_int (- delta))
        else sat_add (a_overlay_scroll a) (word_of_int delta))\<rparr>"

definition overlay_key :: "key_code \<Rightarrow> app \<Rightarrow> app" where
  "overlay_key k a =
     (if k \<in> {KEsc, KChar ''q'', KEnter} then close_overlay a
      else if k \<in> {KChar ''?'', KF 1} then toggle_overlay HelpOverlay a
      else if k = KChar ''m'' then toggle_overlay MessagesOverlay a
      else if k \<in> {KDown, KChar ''j''} then scroll_overlay 1 a
      else if k \<in> {KUp, KChar ''k''} then scroll_overlay (- 1) a
      else if k = KPageDown then scroll_overlay (overlay_page a) a
      else if k = KPageUp then scroll_overlay (- overlay_page a) a
      else if k \<in> {KHome, KChar ''g''} then a\<lparr>a_overlay_scroll := 0\<rparr>
      else if k \<in> {KEnd, KChar ''G''} then a\<lparr>a_overlay_scroll := - 1\<rparr>
      else a\<lparr>a_dirty := False\<rparr>)"

definition set_filter :: "string \<Rightarrow> app \<Rightarrow> app" where
  "set_filter s a = a\<lparr>a_filter := s, a_group_cursor := 0\<rparr>"

definition filter_key :: "ui_env \<Rightarrow> key_code \<Rightarrow> app \<Rightarrow> app" where
  "filter_key E k a =
     (case k of
        KEsc \<Rightarrow> set_filter [] (a\<lparr>a_editing_filter := False\<rparr>)
      | KEnter \<Rightarrow> a\<lparr>a_editing_filter := False\<rparr>
      | KBackspace \<Rightarrow> set_filter (concat (butlast (chars (a_filter a)))) a
      | KDown \<Rightarrow> move_group_cursor E 1 a
      | KUp \<Rightarrow> move_group_cursor E (- 1) a
      | KPageDown \<Rightarrow> move_group_cursor E (int (page a)) a
      | KPageUp \<Rightarrow> move_group_cursor E (- int (page a)) a
      | KHome \<Rightarrow> a\<lparr>a_group_cursor := 0\<rparr>
      | KEnd \<Rightarrow> a\<lparr>a_group_cursor := length (visible_groups E a) - 1\<rparr>
      | KChar ch \<Rightarrow> set_filter (a_filter a @ ch) a
      | _ \<Rightarrow> a\<lparr>a_dirty := False\<rparr>)"

definition escape :: "app \<Rightarrow> app" where
  "escape a =
     (if a_inflight a > 0 then request_cancellation a
      else if a_filter a = [] then a\<lparr>a_focus := GroupsPane\<rparr>
      else set_filter [] a)"

text \<open>The keys that only change the state.\<close>

definition quiet_key :: "ui_env \<Rightarrow> key_code \<Rightarrow> bool \<Rightarrow> app \<Rightarrow> app" where
  "quiet_key E k control a =
     (if k \<in> {KChar ''?'', KF 1} then a\<lparr>a_overlay := HelpOverlay\<rparr>
      else if k = KChar ''m'' then a\<lparr>a_overlay := MessagesOverlay\<rparr>
      else if k \<in> {KTab, KRight, KChar ''l''} then a\<lparr>a_focus := pane_next (a_focus a)\<rparr>
      else if k \<in> {KBackTab, KLeft, KChar ''h''} then a\<lparr>a_focus := pane_previous (a_focus a)\<rparr>
      else if k = KChar ''/'' then a\<lparr>a_editing_filter := True, a_focus := GroupsPane\<rparr>
      else if k = KEsc then escape a
      else if k \<in> {KDown, KChar ''j''} then move_cursor E 1 a
      else if k \<in> {KUp, KChar ''k''} then move_cursor E (- 1) a
      else if k = KPageDown \<or> k = KChar ''d'' \<and> control then move_cursor E (int (page a)) a
      else if k = KPageUp \<or> k = KChar ''u'' \<and> control then move_cursor E (- int (page a)) a
      else if k \<in> {KHome, KChar ''g''} then move_to_start a
      else if k \<in> {KEnd, KChar ''G''} then move_to_end E a
      else if k = KChar ''u'' then toggle_unread_only a
      else if k = KChar ''M'' then toggle_read_under_cursor a
      else if k = KChar ''c'' then catch_up a
      else if k = KChar ''t'' then toggle_threading a
      else if k = KChar ''z'' then toggle_fold_under_cursor a
      else if k = KChar ''w'' then start_article a
      else if k = KChar ''f'' then start_follow_up a
      else a\<lparr>a_dirty := False\<rparr>)"

definition plain_key :: "ui_env \<Rightarrow> key_code \<Rightarrow> bool \<Rightarrow> app \<Rightarrow> reaction" where
  "plain_key E k control a =
     (if k = KChar ''q'' then app_quit a
      else if k = KChar ''r'' then refresh a
      else if k = KEnter then activate E a
      else if k = KChar ''n'' then step_article 1 a
      else if k = KChar ''p'' then step_article (- 1) a
      else if k = KChar ''S'' then search_groups E a
      else (quiet_key E k control a, []))"

definition on_key :: "ui_env \<Rightarrow> key_event \<Rightarrow> app \<Rightarrow> reaction" where
  "on_key E key a0 =
     (let a = a0\<lparr>a_dirty := True, a_error := None\<rparr>; k = key_code key in
      if a_editing_filter a then (filter_key E k a, [])
      else if key_control key \<and> k = KChar ''c'' then app_quit a
      else if a_overlay a \<noteq> NoOverlay then (overlay_key k a, [])
      else plain_key E k (key_control key) a)"

section \<open>Events\<close>

definition groups_status :: "group_scope \<Rightarrow> nat \<Rightarrow> string" where
  "groups_status scope n =
     (case scope of
        Subscribed ps \<Rightarrow>
          if ps \<noteq> [] \<and> n = 0 then ''no group matches your subscriptions; press S to search the server''
          else if ps \<noteq> [] then dec n @ '' subscribed groups''
          else dec n @ '' groups''
      | Search p \<Rightarrow>
          if n = 0 then ''no group matches '' @ wm_str p else dec n @ '' groups matching '' @ wm_str p)"

definition on_connected :: "string \<Rightarrow> string \<Rightarrow> bool \<Rightarrow> app \<Rightarrow> app" where
  "on_connected server greet encrypted a =
     add_note (''connected: '' @ greet)
       (a\<lparr>a_connected := True, a_server := server, a_encrypted := encrypted, a_status := greet\<rparr>)"

definition on_groups :: "group_row list \<Rightarrow> group_scope \<Rightarrow> bool \<Rightarrow> app \<Rightarrow> app" where
  "on_groups rows scope filtered_locally a =
     (let b = set_status (groups_status scope (length rows)) (answered a);
          c = (if filtered_locally then add_note (''this server will not narrow LIST itself, so '' @
                 ''the whole group list was fetched and filtered here'') b else b)
      in c\<lparr>a_groups := rows, a_group_scope := scope, a_group_cursor := 0\<rparr>)"

definition on_group_opened :: "group_summary \<Rightarrow> app \<Rightarrow> app" where
  "on_group_opened s a =
     (let name = gn_str (gs_name s);
          read = forget_expired name (gs_low s) (a_read a);
          unread = rs_unread_in (gs_low s) (gs_high s) (store_read_set read name)
      in set_status (name @ '': '' @ at_most_sign @ u64_to_string unread @ '' unread of '' @
           u64_to_string (estimated_count s) @ '', '' @ u64_to_string (gs_low s) @ ''..'' @
           u64_to_string (gs_high s)) (a\<lparr>a_read := read, a_group := Some s\<rparr>))"

definition on_overview_chunk ::
  "group_name \<Rightarrow> fetch_token \<Rightarrow> overview_record list \<Rightarrow> nat \<Rightarrow> app \<Rightarrow> app" where
  "on_overview_chunk g token records skipped a =
     (if \<not> accepts_overview g token a then a
      else
        let b = absorb_overview records (a\<lparr>a_overview_skipped := a_overview_skipped a + skipped\<rparr>);
            c = (if a_overview_chunks b = 0 then b\<lparr>a_focus := ArticlesPane\<rparr> else b)
        in set_status (gn_str g @ '': '' @ dec (length (a_articles c)) @ '' articles listed'' @ ellipsis)
             (c\<lparr>a_overview_chunks := a_overview_chunks c + 1\<rparr>))"

definition on_overview_complete :: "group_name \<Rightarrow> fetch_token \<Rightarrow> app \<Rightarrow> app" where
  "on_overview_complete g token a0 =
     (let a = answered a0 in
      if \<not> accepts_overview g token a then
        add_note (gn_str g @ (if map_option gs_name (a_group a) = Some g
          then '': a reload was overtaken by a newer one''
          else '': an overview reply arrived after you had moved on'')) a
      else
        let b = (if a_overview_skipped a > 0 then add_note (gn_str g @ '': '' @
                   dec (a_overview_skipped a) @ '' overview line(s) could not be parsed'') a else a);
            c = b\<lparr>a_focus := ArticlesPane, a_overview_token := None\<rparr>;
            unread = length (filter (\<lambda>r. is_unread c (or_number r)) (a_articles c))
        in set_status (gn_str g @ '': '' @ dec (length (a_articles c)) @ '' articles listed, '' @
             dec unread @ '' unread'') c)"

definition on_article :: "ui_env \<Rightarrow> article \<Rightarrow> app \<Rightarrow> app" where
  "on_article E art a0 =
     (let a = answered a0;
          view = view_new E art (a_date_format a);
          b = (case (a_mark_read_on_open a, v_number view, a_group a) of
                 (True, Some number, Some s) \<Rightarrow>
                   a\<lparr>a_read := mark_read (gn_str (gs_name s)) number (a_read a)\<rparr>
               | _ \<Rightarrow> a)
      in b\<lparr>a_status := v_date view @ em_dash @ v_subject view, a_article := Some view,
           a_body_scroll := 0, a_focus := BodyPane\<rparr>)"

text \<open>The third result is the draft file that is removed.\<close>

definition on_posted :: "string \<Rightarrow> app \<Rightarrow> app \<times> ui_request list \<times> string option" where
  "on_posted txt a0 =
     (let a = answered a0;
          names = a_posting_groups a;
          b = (add_note (''posted: '' @ txt) (set_status (''posted: '' @ txt)
                (a\<lparr>a_posting := None\<rparr>)))\<lparr>a_posting_groups := []\<rparr>
      in case refresh_after_posting names b of
           Some (c, requests) \<Rightarrow> (c, requests, a_posting a)
         | None \<Rightarrow> (b, [], a_posting a))"

definition on_cancelled :: "string \<Rightarrow> app \<Rightarrow> app" where
  "on_cancelled context a =
     add_note (context @ '' cancelled; the connection was dropped and will be remade '' @
         ''on the next request'')
       (report_unsent_draft (set_status (context @ '' cancelled'') (answered a)))"

definition on_failed :: "string \<Rightarrow> string \<Rightarrow> app \<Rightarrow> app" where
  "on_failed context message a =
     (let txt = context @ '': '' @ message
      in report_unsent_draft (add_note txt ((answered a)\<lparr>a_error := Some txt\<rparr>)))"

definition on_disconnected :: "string \<Rightarrow> app \<Rightarrow> app" where
  "on_disconnected reason a =
     report_unsent_draft (add_note (''disconnected: '' @ reason)
       (a\<lparr>a_connected := False, a_inflight := 0, a_error := Some (''disconnected: '' @ reason)\<rparr>))"

definition on_stopped :: "app \<Rightarrow> app" where
  "on_stopped a = add_note ''the worker stopped'' (a\<lparr>a_connected := False, a_inflight := 0\<rparr>)"

definition quietly :: "app \<Rightarrow> app \<times> ui_request list \<times> string option" where
  "quietly a = (a, [], None)"

definition on_event :: "ui_env \<Rightarrow> ui_event \<Rightarrow> app \<Rightarrow> app \<times> ui_request list \<times> string option" where
  "on_event E ev a0 =
     (let a = a0\<lparr>a_dirty := True\<rparr> in
      case ev of
        Connected server greet encrypted \<Rightarrow> quietly (on_connected server greet encrypted a)
      | GroupsArrived rows scope filtered_locally \<Rightarrow> quietly (on_groups rows scope filtered_locally a)
      | GroupOpened s \<Rightarrow> quietly (on_group_opened s a)
      | OverviewChunk g token records skipped \<Rightarrow> quietly (on_overview_chunk g token records skipped a)
      | OverviewComplete g token \<Rightarrow> quietly (on_overview_complete g token a)
      | ArticleArrived art \<Rightarrow> quietly (on_article E art a)
      | Posted txt \<Rightarrow> on_posted txt a
      | Progress message \<Rightarrow> quietly (set_status message a)
      | RequestCancelled context \<Rightarrow> quietly (on_cancelled context a)
      | Failed context message \<Rightarrow> quietly (on_failed context message a)
      | Disconnected reason \<Rightarrow> quietly (on_disconnected reason a)
      | Stopped \<Rightarrow> quietly (on_stopped a))"

section \<open>The loop\<close>

text \<open>What the run loop of \<open>tui/mod.rs\<close> gives the state, one input at a time; the files removed
  are the draft files that the loop no longer has.\<close>

datatype ui_input = Key key_event | Event ui_event | Composed "(string \<times> string) option" | Tick

fun feed :: "ui_env \<Rightarrow> ui_input \<Rightarrow> app \<Rightarrow> app \<times> ui_request list \<times> string option" where
  "feed E (Key k) a = (case on_key E k a of (b, rs) \<Rightarrow> (b, rs, None))"
| "feed E (Event e) a = on_event E e a"
| "feed E (Composed c) a = (case on_composed c a of (b, rs) \<Rightarrow> (b, rs, None))"
| "feed E Tick a = (tick a, [], None)"

end
