(* ===== verification/Reader_Run.thy ===== *)
theory Reader_Run
  imports Reader_Steps
begin

text \<open>
  Runs of the reader: any sequence of keys, events, returns from the editor and ticks.
\<close>

section \<open>What a step leaves alone\<close>

text \<open>The bookkeeping of fetches and postings.\<close>

type_synonym books =
  "fetch_token option \<times> u64 \<times> string option \<times> string list \<times> nat \<times> group_summary option \<times> overview_record list"

definition books :: "app \<Rightarrow> books" where
  "books a = (a_overview_token a, a_next_token a, a_posting a, a_posting_groups a, a_inflight a,
     a_group a, a_articles a)"

lemma books_small [simp]:
  "books (set_status s a) = books a" "books (add_note m a) = books a" "books (tick a) = books a"
  "books (clamp_article_cursor a) = books a" "books (rebuild_threads a) = books a"
  "books (close_overlay a) = books a" "books (scroll_overlay d a) = books a"
  "books (toggle_overlay o' a) = books a" "books (move_group_cursor E d a) = books a"
  "books (scroll_body d a) = books a" "books (set_filter s a) = books a"
  "books (request_cancellation a) = books a"
  by (simp_all add: books_def set_status_def add_note_def tick_def clamp_article_cursor_def
      rebuild_threads_def close_overlay_def scroll_overlay_def toggle_overlay_def move_group_cursor_def
      scroll_body_def set_filter_def request_cancellation_def)

lemma books_update [simp]:
  "books (a\<lparr>a_dirty := b1\<rparr>) = books a" "books (a\<lparr>a_article_cursor := n\<rparr>) = books a"
  "books (a\<lparr>a_group_cursor := n\<rparr>) = books a" "books (a\<lparr>a_body_scroll := n\<rparr>) = books a"
  "books (a\<lparr>a_focus := p\<rparr>) = books a" "books (a\<lparr>a_overlay := o'\<rparr>) = books a"
  "books (a\<lparr>a_overlay_scroll := w\<rparr>) = books a" "books (a\<lparr>a_editing_filter := b1\<rparr>) = books a"
  "books (a\<lparr>a_unread_only := b1\<rparr>) = books a" "books (a\<lparr>a_threaded := b1\<rparr>) = books a"
  "books (a\<lparr>a_collapsed := c\<rparr>) = books a" "books (a\<lparr>a_read := r\<rparr>) = books a"
  "books (a\<lparr>a_compose := cr\<rparr>) = books a" "books (a\<lparr>a_error := e\<rparr>) = books a"
  "books (a\<lparr>a_article := v\<rparr>) = books a" "books (a\<lparr>a_should_quit := b1\<rparr>) = books a"
  "books (a\<lparr>a_group_scope := gs\<rparr>) = books a" "books (a\<lparr>a_groups := gr\<rparr>) = books a"
  "books (a\<lparr>a_threads := ts\<rparr>) = books a"
  by (simp_all add: books_def)

lemma books_keys [simp]:
  "books (move_cursor E d a) = books a" "books (move_to_start a) = books a"
  "books (move_to_end E a) = books a" "books (toggle_unread_only a) = books a"
  "books (toggle_threading a) = books a" "books (toggle_fold i n a) = books a"
  "books (toggle_fold_under_cursor a) = books a" "books (toggle_read_under_cursor a) = books a"
  "books (catch_up a) = books a" "books (start_article a) = books a" "books (start_follow_up a) = books a"
  "books (escape a) = books a" "books (overlay_key k a) = books a" "books (filter_key E k a) = books a"
proof -
  show f: "books (toggle_fold i n a) = books a" for i n a
    by (simp add: toggle_fold_def Let_def)
  show "books (move_cursor E d a) = books a" "books (move_to_start a) = books a"
    "books (move_to_end E a) = books a"
    by (simp_all add: move_cursor_def move_to_start_def move_to_end_def split: pane.split)
  show "books (toggle_unread_only a) = books a" "books (toggle_threading a) = books a"
    by (simp_all add: toggle_unread_only_def toggle_threading_def Let_def)
  show "books (toggle_fold_under_cursor a) = books a"
    by (simp add: toggle_fold_under_cursor_def Let_def f split: option.split)
  show "books (toggle_read_under_cursor a) = books a" "books (catch_up a) = books a"
    by (simp_all add: toggle_read_under_cursor_def catch_up_def Let_def split: option.split prod.split)
  have p: "books (snd (posting_identity a)) = books a" for a
    by (simp add: posting_identity_def split: option.split)
  show "books (start_article a) = books a" "books (start_follow_up a) = books a"
    using p [of a] by (auto simp: start_article_def start_follow_up_def Let_def split: option.split prod.split)
  show "books (escape a) = books a" by (simp add: escape_def)
  show "books (overlay_key k a) = books a" by (simp add: overlay_key_def)
  show "books (filter_key E k a) = books a" by (simp add: filter_key_def split: key_code.split)
qed

lemma books_quiet_key [simp]: "books (quiet_key E k control a) = books a"
  by (simp add: quiet_key_def)

section \<open>Requests and fetches\<close>

fun tokens_of :: "ui_request \<Rightarrow> fetch_token list" where
  "tokens_of (OpenGroup g n t) = [t]"
| "tokens_of (LoadOverview g r t) = [t]"
| "tokens_of _ = []"

definition tokens :: "ui_request list \<Rightarrow> fetch_token list" where
  "tokens rs = concat (map tokens_of rs)"

definition awaited :: "ui_request list \<Rightarrow> nat" where
  "awaited rs = length (filter (\<lambda>r. r \<noteq> Shutdown) rs)"

lemma tokens_simps [simp]:
  "tokens [] = []" "tokens (r # rs) = tokens_of r @ tokens rs" "tokens (rs @ ss) = tokens rs @ tokens ss"
  by (simp_all add: tokens_def)

lemma awaited_simps [simp]:
  "awaited [] = 0" "awaited (r # rs) = (if r = Shutdown then 0 else 1) + awaited rs"
  "awaited (rs @ ss) = awaited rs + awaited ss"
  by (simp_all add: awaited_def)

text \<open>A step that makes no fetch, and one that makes one; both count what they ask for.\<close>

definition keeps_books :: "app \<Rightarrow> ui_request list \<Rightarrow> app \<Rightarrow> bool" where
  "keeps_books a rs b \<longleftrightarrow> a_inflight b = a_inflight a + awaited rs \<and>
     (tokens rs = [] \<and> a_next_token b = a_next_token a \<and> a_overview_token b = a_overview_token a \<or>
      tokens rs = [FetchToken (a_next_token a + 1)] \<and> a_next_token b = a_next_token a + 1 \<and>
        a_overview_token b = Some (FetchToken (a_next_token b)))"

lemma books_keep: "books b = books a \<Longrightarrow> keeps_books a [] b"
  by (simp add: books_def keeps_books_def)

lemma books_trans: "keeps_books a rs b \<Longrightarrow> books a' = books a \<Longrightarrow> keeps_books a' rs b"
  by (simp add: books_def keeps_books_def)

lemma request_steps:
  "load_selected_article a = (b, rs) \<Longrightarrow> keeps_books a rs b"
  "refresh a = (b, rs) \<Longrightarrow> keeps_books a rs b"
  "search_groups E a = (b, rs) \<Longrightarrow> keeps_books a rs b"
  "open_selected_group E a = (b, rs) \<Longrightarrow> keeps_books a rs b"
  "refresh_after_posting ns a = Some (b, rs) \<Longrightarrow> keeps_books a rs b"
  "app_quit a = (b, rs) \<Longrightarrow> keeps_books a rs b"
  "initial_requests a = (b, rs) \<Longrightarrow> keeps_books a rs b"
  by (auto simp: load_selected_article_def refresh_def search_groups_def open_selected_group_def
      refresh_after_posting_def app_quit_def initial_requests_def begin_overview_fetch_def expect_answer_def
      set_status_def clear_list_def keeps_books_def Let_def
      split: option.splits if_splits sum.splits prod.splits)

lemma step_article_keeps: "step_article d a = (b, rs) \<Longrightarrow> keeps_books a rs b"
  by (auto simp: step_article_def Let_def books_keep elim!: request_steps(1) [THEN books_trans]
      split: if_splits)

lemma activate_keeps: "activate E a = (b, rs) \<Longrightarrow> keeps_books a rs b"
  by (auto simp: activate_def books_keep dest: request_steps split: pane.splits)

lemma plain_key_keeps: "plain_key E k control a = (b, rs) \<Longrightarrow> keeps_books a rs b"
  by (auto simp: plain_key_def books_keep dest: request_steps step_article_keeps activate_keeps
      split: if_splits)

lemma on_key_keeps:
  assumes "on_key E k a = (b, rs)" shows "keeps_books a rs b"
proof -
  have "keeps_books (a\<lparr>a_dirty := True, a_error := None\<rparr>) rs b"
    using assms by (auto simp: on_key_def Let_def books_keep dest: plain_key_keeps request_steps(6) split: if_splits)
  then show ?thesis by (rule books_trans) simp
qed

lemma fold_notes [simp]: "books (fold (\<lambda>p. add_note (f p)) ps a) = books a"
  by (induction ps arbitrary: a) auto

lemma expect_answer_keeps:
  "keeps_books a [PostDraft d] (expect_answer (set_status s
     (a\<lparr>a_dirty := b1, a_posting := p, a_posting_groups := q\<rparr>)))"
  by (simp add: keeps_books_def expect_answer_def set_status_def)

lemma on_composed_keeps: "on_composed c a = (b, rs) \<Longrightarrow> keeps_books a rs b"
  by (auto simp: on_composed_def Let_def books_keep intro: expect_answer_keeps
      split: option.splits if_splits)

text \<open>Events settle a request, or lose the link and with it all that was asked for.\<close>

fun settles :: "ui_event \<Rightarrow> nat" where
  "settles (GroupsArrived rows scope l) = 1"
| "settles (OverviewComplete g t) = 1"
| "settles (ArticleArrived art) = 1"
| "settles (Posted txt) = 1"
| "settles (RequestCancelled c) = 1"
| "settles (Failed c m) = 1"
| "settles _ = 0"

fun loses_link :: "ui_event \<Rightarrow> bool" where
  "loses_link (Disconnected r) = True"
| "loses_link Stopped = True"
| "loses_link _ = False"

definition inflight_after :: "ui_event \<Rightarrow> nat \<Rightarrow> nat" where
  "inflight_after ev n = (if loses_link ev then 0 else n - settles ev)"

text \<open>The fetches a step starts: none, and then the token may be given up, or one.\<close>

definition fetch_step :: "app \<Rightarrow> ui_request list \<Rightarrow> app \<Rightarrow> bool" where
  "fetch_step a rs b \<longleftrightarrow>
     tokens rs = [] \<and> a_next_token b = a_next_token a \<and>
       (a_overview_token b = a_overview_token a \<or> a_overview_token b = None) \<or>
     tokens rs = [FetchToken (a_next_token a + 1)] \<and> a_next_token b = a_next_token a + 1 \<and>
       a_overview_token b = Some (FetchToken (a_next_token b))"

lemma keeps_books_fetch: "keeps_books a rs b \<Longrightarrow> fetch_step a rs b"
  by (auto simp: keeps_books_def fetch_step_def)

definition counts :: "app \<Rightarrow> nat \<times> u64 \<times> fetch_token option" where
  "counts a = (a_inflight a, a_next_token a, a_overview_token a)"

lemma counts_books: "books a = books b \<Longrightarrow> counts a = counts b"
  by (simp add: books_def counts_def)

lemma counts_small [simp]:
  "counts (set_status s a) = counts a" "counts (add_note m a) = counts a"
  "counts (a\<lparr>a_dirty := b1\<rparr>) = counts a" "counts (report_unsent_draft a) = counts a"
  "counts (a\<lparr>a_error := e\<rparr>) = counts a" "counts (absorb_overview records a) = counts a"
  "counts (on_connected x y z a) = counts a" "counts (on_group_opened s' a) = counts a"
  "counts (on_overview_chunk g t records n a) = counts a"
proof -
  have n: "counts (set_status s a) = counts a" "counts (add_note m a) = counts a" for s m a
    by (auto intro!: counts_books)
  then show "counts (set_status s a) = counts a" "counts (add_note m a) = counts a" by blast+
  show "counts (a\<lparr>a_dirty := b1\<rparr>) = counts a" "counts (a\<lparr>a_error := e\<rparr>) = counts a"
    by (simp_all add: counts_def)
  show "counts (report_unsent_draft a) = counts a"
    by (cases "a_posting a") (simp_all add: report_unsent_draft_def n counts_def [of "a\<lparr>a_posting := None\<rparr>"] counts_def [of a])
  have ab: "counts (absorb_overview records a) = counts a" for records a
    by (simp add: absorb_overview_def counts_def rebuild_threads_def Let_def)
  then show "counts (absorb_overview records a) = counts a" .
  show "counts (on_connected x y z a) = counts a" "counts (on_group_opened s' a) = counts a"
    by (simp_all add: on_connected_def on_group_opened_def Let_def n) (simp_all add: counts_def)
  have u: "counts (c\<lparr>a_overview_chunks := i\<rparr>) = counts c" "counts (c\<lparr>a_focus := p\<rparr>) = counts c"
    "counts (c\<lparr>a_overview_skipped := i\<rparr>) = counts c" for c i p
    by (simp_all add: counts_def)
  show "counts (on_overview_chunk g t records n a) = counts a"
    by (simp add: on_overview_chunk_def Let_def n u ab)
qed

lemma counts_settled:
  "counts (on_groups rows scope l a) = counts (answered a)"
  "counts (on_article E art a) = counts (answered a)"
  "counts (on_cancelled c a) = counts (answered a)"
  "counts (on_failed c m a) = counts (answered a)"
  "counts (on_disconnected r a) = counts (a\<lparr>a_inflight := 0\<rparr>)"
  "counts (on_stopped a) = counts (a\<lparr>a_inflight := 0\<rparr>)"
proof -
  have u: "counts (c\<lparr>a_groups := g\<rparr>) = counts c" "counts (c\<lparr>a_group_scope := sc\<rparr>) = counts c"
    "counts (c\<lparr>a_group_cursor := i\<rparr>) = counts c" "counts (c\<lparr>a_read := r'\<rparr>) = counts c"
    "counts (c\<lparr>a_status := st\<rparr>) = counts c" "counts (c\<lparr>a_article := v\<rparr>) = counts c"
    "counts (c\<lparr>a_body_scroll := i\<rparr>) = counts c" "counts (c\<lparr>a_focus := p\<rparr>) = counts c"
    "counts (c\<lparr>a_connected := b1\<rparr>) = counts c" for c g sc i r' st v p b1
    by (simp_all add: counts_def)
  show "counts (on_groups rows scope l a) = counts (answered a)"
    by (simp add: on_groups_def Let_def u)
  show "counts (on_article E art a) = counts (answered a)"
    by (auto simp: on_article_def Let_def u split: bool.split option.split prod.split)
  show "counts (on_cancelled c a) = counts (answered a)" by (simp add: on_cancelled_def)
  show "counts (on_failed c m a) = counts (answered a)" by (simp add: on_failed_def Let_def)
  show "counts (on_disconnected r a) = counts (a\<lparr>a_inflight := 0\<rparr>)"
    "counts (on_stopped a) = counts (a\<lparr>a_inflight := 0\<rparr>)"
    by (simp_all add: on_disconnected_def on_stopped_def) (simp_all add: counts_def)
qed

lemma counts_keep: "counts b = counts a \<Longrightarrow> fetch_step a [] b \<and> a_inflight b = a_inflight a"
  by (simp add: counts_def fetch_step_def)

lemma counts_answered:
  "counts (answered a) = (a_inflight a - 1, a_next_token a, a_overview_token a)"
  by (simp add: counts_def answered_def)

lemma on_overview_complete_counts:
  assumes "on_overview_complete g t a = b"
  shows "fetch_step a [] b" "a_inflight b = a_inflight a - 1"
proof -
  have u: "counts (c\<lparr>a_focus := p, a_overview_token := None\<rparr>) = (a_inflight c, a_next_token c, None)" for c p
    by (simp add: counts_def)
  have "counts b = (a_inflight a - 1, a_next_token a, a_overview_token a) \<or>
    counts b = (a_inflight a - 1, a_next_token a, None)"
    unfolding assms [symmetric] on_overview_complete_def Let_def
    by (simp add: counts_answered u) (simp add: answered_def add_note_def)
  then show "fetch_step a [] b" "a_inflight b = a_inflight a - 1"
    by (auto simp: counts_def fetch_step_def)
qed

lemma on_posted_counts:
  assumes "on_posted txt a = (b, rs, gone)"
  shows "fetch_step a rs b" "a_inflight b = a_inflight a - 1 + awaited rs" "gone = a_posting a"
proof -
  let ?c = "(add_note (''posted: '' @ txt) (set_status (''posted: '' @ txt)
    ((answered a)\<lparr>a_posting := None\<rparr>)))\<lparr>a_posting_groups := []\<rparr>"
  have c: "counts ?c = (a_inflight a - 1, a_next_token a, a_overview_token a)"
    by (simp add: counts_def add_note_def set_status_def answered_def)
  have p: "a_posting (answered a) = a_posting a" by (simp add: answered_def)
  show "gone = a_posting a"
    using assms by (auto simp: on_posted_def Let_def p split: option.splits)
  have "keeps_books ?c rs b"
    using assms request_steps(5) by (auto simp: on_posted_def Let_def books_keep split: option.splits)
  with c show "fetch_step a rs b" "a_inflight b = a_inflight a - 1 + awaited rs"
    by (auto simp: keeps_books_def fetch_step_def counts_def)
qed

lemma on_event_counts:
  assumes "on_event E ev a = (b, rs, gone)"
  shows "fetch_step a rs b \<and> a_inflight b = inflight_after ev (a_inflight a) + awaited rs"
proof -
  let ?a = "a\<lparr>a_dirty := True\<rparr>"
  have d: "fetch_step ?a = fetch_step a" "a_inflight ?a = a_inflight a" "counts ?a = counts a"
    by (simp_all add: fetch_step_def fun_eq_iff)
  have s: "fetch_step a [] c \<and> a_inflight c = n" if "counts c = (n, a_next_token a, a_overview_token a)" for c n
    using that by (simp add: counts_def fetch_step_def)
  have ans: "counts (answered ?a) = (a_inflight a - 1, a_next_token a, a_overview_token a)"
    "counts (?a\<lparr>a_inflight := 0\<rparr>) = (0, a_next_token a, a_overview_token a)"
    by (simp_all add: counts_def answered_def)
  show ?thesis
  proof (cases ev)
    case (Posted msg)
    with assms on_posted_counts [of msg ?a b rs gone] d show ?thesis
      by (simp add: on_event_def inflight_after_def)
  next
    case (OverviewComplete g t)
    with assms on_overview_complete_counts [of g t ?a b] d show ?thesis
      by (auto simp: on_event_def inflight_after_def quietly_def)
  qed (use assms ans d in \<open>auto simp: on_event_def quietly_def inflight_after_def counts_settled
      counts_def [of a] intro!: s\<close>)
qed

section \<open>Runs\<close>

lemma feed_counts:
  assumes "feed E i a = (b, rs, gone)"
  shows "fetch_step a rs b" "a_inflight b = (case i of Event ev \<Rightarrow> inflight_after ev (a_inflight a) | _ \<Rightarrow> a_inflight a) + awaited rs"
proof -
  have "fetch_step a rs b \<and>
    a_inflight b = (case i of Event ev \<Rightarrow> inflight_after ev (a_inflight a) | _ \<Rightarrow> a_inflight a) + awaited rs"
  proof (cases i)
    case (Key k)
    with assms on_key_keeps [of E k a b rs] show ?thesis
      by (auto simp: keeps_books_fetch keeps_books_def split: prod.splits)
  next
    case (Event ev)
    with assms on_event_counts [of E ev a b rs gone] show ?thesis by simp
  next
    case (Composed c)
    with assms on_composed_keeps [of c a b rs] show ?thesis
      by (auto simp: keeps_books_fetch keeps_books_def split: prod.splits)
  next
    case Tick
    with assms books_keep [of "tick a" a] show ?thesis
      by (auto simp: keeps_books_fetch keeps_books_def)
  qed
  then show "fetch_step a rs b" "a_inflight b = (case i of Event ev \<Rightarrow> inflight_after ev (a_inflight a) | _ \<Rightarrow> a_inflight a) + awaited rs"
    by blast+
qed

text \<open>All requests of a run, in order, and all draft files it removed.\<close>

fun run :: "ui_env \<Rightarrow> ui_input list \<Rightarrow> app \<Rightarrow> app \<times> ui_request list \<times> string list" where
  "run E [] a = (a, [], [])"
| "run E (i # is) a =
     (case feed E i a of (b, rs, gone) \<Rightarrow>
        (case run E is b of (c, ss, files) \<Rightarrow>
           (c, rs @ ss, (case gone of Some p \<Rightarrow> [p] | None \<Rightarrow> []) @ files)))"

text \<open>Tokens are numbered in the order they are given out, and the one held is the last.\<close>

lemma run_tokens:
  assumes "run E inputs a = (b, rs, files)"
  shows "tokens rs = map (\<lambda>k. FetchToken (a_next_token a + of_nat (Suc k))) [0..<length (tokens rs)]"
    and "a_next_token b = a_next_token a + of_nat (length (tokens rs))"
    and "length (tokens rs) \<le> length inputs"
    and "a_overview_token a \<in> {None, Some (FetchToken (a_next_token a))} \<Longrightarrow>
      a_overview_token b \<in> {None, Some (FetchToken (a_next_token b))}"
proof -
  have "tokens rs = map (\<lambda>k. FetchToken (a_next_token a + of_nat (Suc k))) [0..<length (tokens rs)] \<and>
      a_next_token b = a_next_token a + of_nat (length (tokens rs)) \<and> length (tokens rs) \<le> length inputs \<and>
      (a_overview_token a \<in> {None, Some (FetchToken (a_next_token a))} \<longrightarrow>
        a_overview_token b \<in> {None, Some (FetchToken (a_next_token b))})"
    using assms
  proof (induction inputs arbitrary: a rs files)
    case (Cons i inputs)
    obtain c ss gone where f: "feed E i a = (c, ss, gone)" by (metis prod_cases3)
    obtain us fs where r: "run E inputs c = (b, us, fs)" "rs = ss @ us"
      using Cons.prems f by (auto split: prod.splits)
    note ih = Cons.IH [OF r(1)]
    from feed_counts(1) [OF f] show ?case unfolding fetch_step_def
    proof (elim disjE conjE)
      assume t: "tokens ss = [FetchToken (a_next_token a + 1)]" "a_next_token c = a_next_token a + 1"
        "a_overview_token c = Some (FetchToken (a_next_token c))"
      let ?f = "\<lambda>k. FetchToken (a_next_token a + of_nat (Suc k))"
      have "tokens us = map (\<lambda>k. ?f (Suc k)) [0..<length (tokens us)]"
        using ih t(2) by (simp add: add.assoc)
      then have "tokens rs = ?f 0 # map (\<lambda>k. ?f (Suc k)) [0..<length (tokens us)]"
        using r(2) t(1) by simp
      also have "\<dots> = map ?f [0..<Suc (length (tokens us))]"
        by (simp add: upt_conv_Cons map_Suc_upt [symmetric] del: upt_Suc)
      finally have "tokens rs = map ?f [0..<length (tokens rs)]" using r(2) t(1) by simp
      then show ?thesis using ih t r(2) by (auto simp: add.assoc)
    qed (use ih r(2) in auto)
  qed simp
  then show "tokens rs = map (\<lambda>k. FetchToken (a_next_token a + of_nat (Suc k))) [0..<length (tokens rs)]"
    "a_next_token b = a_next_token a + of_nat (length (tokens rs))"
    "length (tokens rs) \<le> length inputs"
    "a_overview_token a \<in> {None, Some (FetchToken (a_next_token a))} \<Longrightarrow>
      a_overview_token b \<in> {None, Some (FetchToken (a_next_token b))}"
    by blast+
qed

lemma run_no_tokens:
  "run E inputs a = (b, rs, files) \<Longrightarrow> tokens rs = [] \<Longrightarrow> a_overview_token a = None \<Longrightarrow>
     a_overview_token b = None"
proof (induction inputs arbitrary: a rs files)
  case (Cons i inputs)
  obtain c ss gone where f: "feed E i a = (c, ss, gone)" by (metis prod_cases3)
  obtain us fs where r: "run E inputs c = (b, us, fs)" "rs = ss @ us"
    using Cons.prems f by (auto split: prod.splits)
  with feed_counts(1) [OF f] Cons.prems Cons.IH [OF r(1)] show ?case by (auto simp: fetch_step_def)
qed simp

lemma run_token_held:
  assumes "run E inputs a = (b, rs, files)" "a_overview_token a = None" "tokens rs \<noteq> []"
  shows "a_overview_token b \<in> {None, Some (last (tokens rs))}"
proof -
  let ?n = "length (tokens rs)"
  have "last (tokens rs) = FetchToken (a_next_token a + of_nat ?n)"
    by (subst run_tokens(1) [OF assms(1)]) (use assms(3) in \<open>cases ?n; simp add: last_map\<close>)
  then show ?thesis using run_tokens(2,4) [OF assms(1)] assms(2) by simp
qed

section \<open>Where the draft is\<close>

definition reported :: "string \<Rightarrow> app \<Rightarrow> bool" where
  "reported path a \<longleftrightarrow> ''the article was not posted; the draft is at '' @ path \<in> set (a_messages a)"

lemma posting_simps [simp]:
  "a_posting (set_status s a) = a_posting a" "a_posting (add_note m a) = a_posting a"
  "a_posting (answered a) = a_posting a" "a_posting (absorb_overview records a) = a_posting a"
  "a_posting (report_unsent_draft a) = None"
  by (simp_all add: set_status_def add_note_def answered_def absorb_overview_def rebuild_threads_def Let_def
      report_unsent_draft_def split: option.split)

lemma add_note_keeps_reported:
  "reported p a \<Longrightarrow> length (a_messages a) < LOG_CAPACITY \<Longrightarrow> reported p (add_note m a)"
  "hd (a_messages a) = ''the article was not posted; the draft is at '' @ p \<Longrightarrow> a_messages a \<noteq> [] \<Longrightarrow>
     reported p (add_note m a)"
  by (cases "a_messages a"; auto simp: reported_def add_note_def LOG_CAPACITY_def take_Cons')+

lemma report_unsent_head:
  "a_posting a = Some p \<Longrightarrow> a_messages (report_unsent_draft a) \<noteq> [] \<and>
     hd (a_messages (report_unsent_draft a)) = ''the article was not posted; the draft is at '' @ p \<and>
     reported p (report_unsent_draft a)"
  by (simp add: report_unsent_draft_def add_note_def LOG_CAPACITY_def reported_def)

lemma event_posting:
  "a_posting (on_connected x y z a) = a_posting a"
  "a_posting (on_groups rows scope l a) = a_posting a"
  "a_posting (on_group_opened s a) = a_posting a"
  "a_posting (on_overview_chunk g t records n a) = a_posting a"
  "a_posting (on_overview_complete g t a) = a_posting a"
  "a_posting (on_article E art a) = a_posting a"
  "a_posting (on_stopped a) = a_posting a"
  by (simp_all add: on_connected_def on_groups_def on_group_opened_def on_overview_chunk_def
      on_overview_complete_def on_article_def on_stopped_def Let_def
      split: bool.split option.split prod.split)

lemma event_reports:
  assumes "a_posting a = Some p"
  shows "reported p (on_cancelled c a)" "reported p (on_failed c m a)" "reported p (on_disconnected r a)"
proof -
  show "reported p (on_cancelled c a)"
    unfolding on_cancelled_def
    by (intro add_note_keeps_reported(2)) (use assms report_unsent_head in auto)
  show "reported p (on_failed c m a)" "reported p (on_disconnected r a)"
    unfolding on_failed_def on_disconnected_def Let_def using assms report_unsent_head by simp_all
qed

lemma on_event_posting:
  assumes "on_event E ev a = (b, rs, gone)"
  shows "gone = Some p \<Longrightarrow> (\<exists>msg. ev = Posted msg) \<and> a_posting a = Some p"
    and "a_posting a = Some p \<Longrightarrow> a_posting b \<noteq> Some p \<Longrightarrow> gone = Some p \<or> reported p b"
    and "a_posting b = Some q \<Longrightarrow> a_posting a = Some q"
proof -
  have posted: "a_posting c = None" if "on_posted msg d = (c, rs', gone')" for msg c d rs' gone'
    using that by (auto simp: on_posted_def refresh_after_posting_def begin_overview_fetch_def expect_answer_def Let_def
        split: option.splits if_splits prod.splits)
  have n: "a_posting (on_cancelled c d) = None" "a_posting (on_failed c m d) = None"
    "a_posting (on_disconnected m d) = None" for c m d
    by (simp_all add: on_cancelled_def on_failed_def on_disconnected_def Let_def)
  note cases = assms [unfolded on_event_def Let_def]
  show "gone = Some p \<Longrightarrow> (\<exists>msg. ev = Posted msg) \<and> a_posting a = Some p"
    using cases by (cases ev) (auto simp: quietly_def dest: on_posted_counts(3))
  show "a_posting a = Some p \<Longrightarrow> a_posting b \<noteq> Some p \<Longrightarrow> gone = Some p \<or> reported p b"
    using cases by (cases ev) (auto simp: quietly_def event_posting event_reports dest: on_posted_counts(3))
  show "a_posting b = Some q \<Longrightarrow> a_posting a = Some q"
    using cases by (cases ev) (auto simp: quietly_def event_posting n dest: posted)
qed

lemma on_key_posting: "on_key E k a = (b, rs) \<Longrightarrow> a_posting b = a_posting a"
proof -
  have q: "a_posting c = a_posting d" if "books c = books d" for c d using that by (simp add: books_def)
  have quiet: "a_posting (quiet_key E k' control d) = a_posting d" "a_posting (filter_key E k' d) = a_posting d"
    "a_posting (overlay_key k' d) = a_posting d" "a_posting (scroll_body i d) = a_posting d" for k' control d i
    by (rule q, simp)+
  have req: "load_selected_article c = (d, ss) \<Longrightarrow> a_posting d = a_posting c"
    "refresh c = (d, ss) \<Longrightarrow> a_posting d = a_posting c"
    "search_groups E c = (d, ss) \<Longrightarrow> a_posting d = a_posting c"
    "open_selected_group E c = (d, ss) \<Longrightarrow> a_posting d = a_posting c"
    "app_quit c = (d, ss) \<Longrightarrow> a_posting d = a_posting c" for c d ss
    by (auto simp: load_selected_article_def refresh_def search_groups_def open_selected_group_def
        app_quit_def begin_overview_fetch_def expect_answer_def clear_list_def Let_def
        split: option.splits if_splits sum.splits prod.splits)
  have more: "step_article i c = (d, ss) \<Longrightarrow> a_posting d = a_posting c"
    "activate E c = (d, ss) \<Longrightarrow> a_posting d = a_posting c" for i c d ss
    by (auto simp: step_article_def activate_def Let_def quiet dest: req split: if_splits pane.splits)
  assume "on_key E k a = (b, rs)"
  then show ?thesis
    by (auto simp: on_key_def plain_key_def Let_def quiet dest: req more split: if_splits)
qed

section \<open>A reader to evaluate\<close>

definition sample_env :: ui_env where
  "sample_env = \<lparr>env_libs = sample_libs, to_lowercase = to_ascii_lowercase,
     strftime = \<lambda>fmt d. fmt, debug_str = \<lambda>s. s\<rparr>"

text \<open>The state as \<open>tui::run\<close> starts it.\<close>

definition started :: "ui_config \<Rightarrow> read_store \<Rightarrow> wildmat list \<Rightarrow> string option \<Rightarrow> app" where
  "started config read subscriptions sender =
     fst (initial_requests ((app_new config read)\<lparr>a_subscriptions := subscriptions, a_from := sender\<rparr>))"

definition press :: "key_code \<Rightarrow> ui_input" where
  "press k = Key \<lparr>key_code = k, key_control = False\<rparr>"

definition sample_row :: group_row where
  "sample_row = \<lparr>row_name = GroupName ''a.b'', row_low = 1, row_high = 9, row_status = Permitted,
     row_description = None\<rparr>"

definition sample_summary :: group_summary where
  "sample_summary = \<lparr>gs_name = GroupName ''a.b'', estimated_count = 9, gs_low = 1, gs_high = 9\<rparr>"

definition sample_start :: app where
  "sample_start = started ui_config_default (store_empty []) [] (Some ''me'')"

text \<open>The group list arrives, the group is opened and the list is reloaded.\<close>

definition sample_inputs :: "ui_input list" where
  "sample_inputs = [Event (GroupsArrived [sample_row] everything False), press KEnter,
     Event (GroupOpened sample_summary), press KTab, press (KChar ''r'')]"

lemma started_token: "a_overview_token (started config read subscriptions sender) = None"
  by (simp add: started_def initial_requests_def app_new_def expect_answer_def Let_def)

section \<open>Properties\<close>

text \<open>C13: Only the latest fetch fills the article list.  However the reader was driven, the tokens
  of the fetches it asked for are all different, and records that carry any token but the last, or
  that belong to a group not on screen, change nothing; the completion of such a fetch is counted
  and noted and changes nothing else.\<close>
theorem superseded_overview_ignored:
  assumes "run E inputs (started config read subscriptions sender) = (a, rs, files)"
    and "length inputs < 2 ^ 64"
  shows "distinct (tokens rs) \<and>
    (tokens rs = [] \<or> token \<noteq> last (tokens rs) \<or> map_option gs_name (a_group a) \<noteq> Some g \<longrightarrow>
      on_event E (OverviewChunk g token records skipped) a = (a\<lparr>a_dirty := True\<rparr>, [], None) \<and>
      (\<exists>m. on_event E (OverviewComplete g token) a =
        (a\<lparr>a_inflight := a_inflight a - 1, a_messages := take LOG_CAPACITY (m # a_messages a),
           a_dirty := True\<rparr>, [], None)))"
proof (intro conjI impI)
  note t = run_tokens [OF assms(1)]
  have "inj_on (\<lambda>k. of_nat (Suc k) :: u64) {..<length (tokens rs)}"
  proof (rule inj_onI)
    fix k l assume "k \<in> {..<length (tokens rs)}" "l \<in> {..<length (tokens rs)}"
      and eq: "(of_nat (Suc k) :: u64) = of_nat (Suc l)"
    then have "Suc k < 2 ^ 64" "Suc l < 2 ^ 64" using t(3) assms(2) by simp_all
    with arg_cong [OF eq, of unat] show "k = l" by (simp add: unat_of_nat del: of_nat_Suc)
  qed
  then show "distinct (tokens rs)"
    by (subst t(1)) (auto simp: distinct_map inj_on_def atLeast0LessThan)
  assume other: "tokens rs = [] \<or> token \<noteq> last (tokens rs) \<or> map_option gs_name (a_group a) \<noteq> Some g"
  have "\<not> accepts_overview g token a"
  proof (cases "tokens rs = []")
    case True
    with run_no_tokens [OF assms(1)] have "a_overview_token a = None" by (simp add: started_token)
    then show ?thesis by (simp add: accepts_overview_def)
  next
    case False
    with run_token_held [OF assms(1) started_token] other show ?thesis by (auto simp: accepts_overview_def)
  qed
  then show "on_event E (OverviewChunk g token records skipped) a = (a\<lparr>a_dirty := True\<rparr>, [], None)"
    "\<exists>m. on_event E (OverviewComplete g token) a =
        (a\<lparr>a_inflight := a_inflight a - 1, a_messages := take LOG_CAPACITY (m # a_messages a),
           a_dirty := True\<rparr>, [], None)"
    by (auto simp: on_event_def on_overview_chunk_def on_overview_complete_def accepts_overview_def
        answered_def add_note_def quietly_def Let_def)
qed

lemma sample_run_tokens:
  "tokens (fst (snd (run sample_env sample_inputs sample_start))) = [FetchToken 1, FetchToken 2]"
  by code_simp

theorem superseded_overview_ignored_witness:
  "on_event sample_env (OverviewChunk (GroupName ''a.b'') (FetchToken 1) [] 0)
     (fst (run sample_env sample_inputs sample_start)) =
   ((fst (run sample_env sample_inputs sample_start))\<lparr>a_dirty := True\<rparr>, [], None)"
proof -
  obtain a rs files where r: "run sample_env sample_inputs sample_start = (a, rs, files)" by (metis prod_cases3)
  from superseded_overview_ignored [OF r [unfolded sample_start_def], where token = "FetchToken 1"]
    sample_run_tokens r show ?thesis by (simp add: sample_inputs_def)
qed

text \<open>C12: What becomes of a draft that is being posted.  The reader holds one draft at a time.
  A file is removed only when the server has answered that an article was posted, and it is the
  file of the draft held then.  The reader lets go of a draft in three ways only: its file is
  removed on that answer; where the file is has been reported; or the user sends another draft,
  which takes its place and is the one sent and held, without a word about the first
  (\<open>second_draft_removed_unposted\<close> below shows what that can lead to).  What comes back from
  the editor is either sent and held, or its file is named and nothing is sent.\<close>
theorem draft_held_until_settled:
  assumes "feed E i a = (b, rs, gone)"
  shows "(gone = Some p \<longrightarrow> (\<exists>msg. i = Event (Posted msg)) \<and> a_posting a = Some p) \<and>
    (a_posting a = Some p \<and> a_posting b \<noteq> Some p \<longrightarrow>
       gone = Some p \<or> reported p b \<or>
       (\<exists>edited q. i = Composed (Some (edited, q)) \<and> problems (draft_parse edited) = [] \<and>
          a_posting b = Some q \<and> rs = [PostDraft (draft_parse edited)])) \<and>
    (i = Composed (Some (edited, p)) \<longrightarrow>
       (if problems (draft_parse edited) = []
        then rs = [PostDraft (draft_parse edited)] \<and> a_posting b = Some p
        else rs = [] \<and> a_posting b = a_posting a \<and> ''the draft is at '' @ p \<in> set (a_messages b)))"
proof (cases i)
  case (Key k)
  with assms on_key_posting show ?thesis by (auto split: prod.splits)
next
  case (Event ev)
  with assms on_event_posting [of E ev a b rs gone] show ?thesis by auto
next
  case (Composed c)
  have "a_posting b = a_posting a" if "c = None \<or> (\<exists>edited q. c = Some (edited, q) \<and> problems (draft_parse edited) \<noteq> [])"
  proof -
    have "books b = books a"
      using that assms Composed by (auto simp: on_composed_def Let_def split: prod.splits if_splits)
    then show ?thesis by (simp add: books_def)
  qed
  with assms Composed show ?thesis
    by (cases c) (auto simp: on_composed_def Let_def expect_answer_def add_note_def LOG_CAPACITY_def
        split: prod.splits if_splits)
next
  case Tick
  with assms show ?thesis by (auto simp: tick_def)
qed

definition sample_text :: string where
  "sample_text = ''From: me'' @ [LF] @ ''Newsgroups: a.b'' @ [LF] @ ''Subject: s'' @ [LF, LF] @ ''hello''"

lemma sample_text_sound: "problems (draft_parse sample_text) = []"
  by code_simp

lemma sample_post:
  "on_composed (Some (sample_text, p)) a =
     (expect_answer (set_status (''posting to '' @ ''a.b'' @ ellipsis)
        (a\<lparr>a_dirty := True, a_posting := Some p, a_posting_groups := [''a.b'']\<rparr>)),
      [PostDraft (draft_parse sample_text)])"
proof -
  have "draft_newsgroups (draft_parse sample_text) = [''a.b'']" by code_simp
  then show ?thesis by (simp add: on_composed_def Let_def sample_text_sound)
qed

theorem draft_held_until_settled_witness:
  "a_posting (fst (feed sample_env (Composed (Some (sample_text, ''one''))) sample_start)) = Some ''one'' \<and>
   fst (snd (feed sample_env (Composed (Some (sample_text, ''one''))) sample_start)) \<noteq> []"
proof -
  obtain b rs gone where f: "feed sample_env (Composed (Some (sample_text, ''one''))) sample_start = (b, rs, gone)"
    by (metis prod_cases3)
  from draft_held_until_settled [OF f, of "''one''" sample_text] f sample_text_sound show ?thesis
    by (auto simp: sample_post)
qed

text \<open>Only one draft is held: when a second one is sent before the answer to the first, that
  answer removes the file of the second, which the server has not seen, and when the second is
  then refused nothing says that it is gone.\<close>

lemma second_draft_removed_unposted:
  assumes "a_posting a = Some p" "problems (draft_parse edited) = []"
    and "on_composed (Some (edited, q)) a = (b, rs)" "on_event E (Posted answer_to_p) b = (c, ss, gone)"
  shows "gone = Some q \<and> a_posting c = None \<and> a_messages b = a_messages a"
proof -
  have "a_posting b = Some q" "a_messages b = a_messages a"
    using assms(2,3) by (auto simp: on_composed_def Let_def expect_answer_def set_status_def)
  moreover have "a_posting c = None" using assms(4)
    by (auto simp: on_event_def on_posted_def refresh_after_posting_def begin_overview_fetch_def expect_answer_def Let_def
        split: option.splits if_splits prod.splits)
  ultimately show ?thesis
    using assms(4) on_posted_counts(3) [of answer_to_p "b\<lparr>a_dirty := True\<rparr>" c ss gone] by (simp add: on_event_def)
qed

end
