(* ===== verification/Reader_List.thy ===== *)
theory Reader_List
  imports Reader_Run
begin

text \<open>
  The article list: how chunks of an overview are merged, where the cursor is, and what folding
  and threading show.
\<close>

section \<open>Merging\<close>

definition record_of :: "u64 \<Rightarrow> overview_record list \<Rightarrow> overview_record option" where
  "record_of n rs = List.find (\<lambda>r. or_number r = n) rs"

lemma find_filter: "List.find P xs = (case filter P xs of [] \<Rightarrow> None | x # _ \<Rightarrow> Some x)"
  by (induction xs) auto

lemma find_in_append: "List.find P (xs @ ys) = (case List.find P xs of Some x \<Rightarrow> Some x | None \<Rightarrow> List.find P ys)"
  by (induction xs) auto

lemma find_sort_key: "List.find (\<lambda>x. f x = k) (sort_key f xs) = List.find (\<lambda>x. f x = k) xs"
  by (simp add: find_filter sort_key_stable)

lemma dedup_by_key_find: "List.find (\<lambda>x. k x = n) (dedup_by_key k xs) = List.find (\<lambda>x. k x = n) xs"
  by (induction k xs rule: dedup_by_key.induct) auto

lemma dedup_by_key_hd: "xs \<noteq> [] \<Longrightarrow> dedup_by_key k xs \<noteq> [] \<and> hd (dedup_by_key k xs) = hd xs"
  by (induction k xs rule: dedup_by_key.induct) auto

lemma dedup_by_key_subset: "set (dedup_by_key k xs) \<subseteq> set xs"
  by (induction k xs rule: dedup_by_key.induct) auto

lemma dedup_by_key_strict:
  fixes k :: "'a \<Rightarrow> 'b::linorder"
  shows "sorted (map k xs) \<Longrightarrow> sorted_wrt (<) (map k (dedup_by_key k xs))"
proof (induction k xs rule: dedup_by_key.induct)
  case (1 k x y zs)
  show ?case
  proof (cases "k x = k y")
    case False
    have "\<forall>z \<in> set (y # zs). k x < k z"
      using 1(3) False by (auto simp: less_le)
    with dedup_by_key_subset [of k "y # zs"] 1 False show ?thesis by auto
  qed (use 1 in auto)
qed auto

definition sorted_list :: "overview_record list \<Rightarrow> bool" where
  "sorted_list rs \<longleftrightarrow> sorted (map or_number rs)"

lemma sorted_last: "sorted (map f xs) \<Longrightarrow> x \<in> set xs \<Longrightarrow> f x \<le> f (last xs)"
  by (induction xs) (auto split: if_splits)

lemma merge_sorted:
  assumes "sorted_list records" "sorted_list held"
  shows "sorted_list (merge_overview records held)"
proof (cases held)
  case (Cons oldest rest)
  show ?thesis
  proof (cases "records \<noteq> [] \<and> or_number (last records) < or_number oldest")
    case True
    have "or_number x \<le> or_number y" if "x \<in> set records" "y \<in> set held" for x y
      using sorted_last [of or_number records x] that True assms Cons
      by (auto simp: sorted_list_def intro: order_trans less_imp_le)
    with True assms Cons show ?thesis
      by (auto simp: merge_overview_def sorted_list_def sorted_append)
  next
    case False
    have "sorted_wrt (<) (map or_number (dedup_by_key or_number (sort_key or_number (records @ held))))"
      by (rule dedup_by_key_strict) simp
    with False Cons show ?thesis
      by (auto simp: merge_overview_def sorted_list_def intro: strict_sorted_imp_sorted)
  qed
qed (use assms in \<open>simp add: merge_overview_def\<close>)

lemma merge_record_of:
  assumes "sorted_list records" "sorted_list held"
  shows "record_of n (merge_overview records held) =
    (case record_of n records of Some r \<Rightarrow> Some r | None \<Rightarrow> record_of n held)"
  by (cases held) (auto simp: merge_overview_def record_of_def find_in_append dedup_by_key_find find_sort_key
      split: option.split)

lemma merge_distinct:
  assumes "sorted_list records" "sorted_list held" "distinct (map or_number records)" "distinct (map or_number held)"
  shows "distinct (map or_number (merge_overview records held))"
proof (cases held)
  case (Cons oldest rest)
  show ?thesis
  proof (cases "records \<noteq> [] \<and> or_number (last records) < or_number oldest")
    case True
    have "or_number x < or_number y" if "x \<in> set records" "y \<in> set held" for x y
      using sorted_last [of or_number records x] that True assms Cons
      by (auto simp: sorted_list_def intro: le_less_trans less_le_trans)
    with True assms Cons show ?thesis
      by (fastforce simp: merge_overview_def)
  next
    case False
    have "sorted_wrt (<) (map or_number (dedup_by_key or_number (sort_key or_number (records @ held))))"
      by (rule dedup_by_key_strict) simp
    with False Cons show ?thesis
      by (auto simp: merge_overview_def strict_sorted_iff)
  qed
qed (use assms in \<open>simp add: merge_overview_def\<close>)

section \<open>What the list depends on\<close>

definition listing :: "app \<Rightarrow> bool \<times> thread_node list \<times> overview_record list \<times> bool \<times> group_summary option \<times> read_store \<times> u64 set" where
  "listing a = (a_threaded a, a_threads a, a_articles a, a_unread_only a, a_group a, a_read a, a_collapsed a)"

lemma passes_cong:
  assumes "listing a = listing b" shows "passes a = passes b"
proof
  fix r show "passes a r = passes b r"
    using assms by (auto simp: listing_def passes_def is_unread_def split: option.split)
qed

definition same_rows :: "app \<Rightarrow> app \<Rightarrow> bool" where
  "same_rows a b \<longleftrightarrow> passes a = passes b \<and> a_articles a = a_articles b \<and> a_collapsed a = a_collapsed b \<and>
     a_threaded a = a_threaded b \<and> a_threads a = a_threads b"

lemma push_rows_cong: "same_rows a b \<Longrightarrow> push_rows a d t = push_rows b d t"
proof (induction a d t rule: push_rows.induct)
  case (1 a d art cs)
  have "drawn a art = drawn b art" "a_collapsed a = a_collapsed b"
    using "1.prems" by (auto simp: same_rows_def drawn_def split: option.split)
  moreover have "concat (map (push_rows a (d + 1)) cs) = concat (map (push_rows b (d + 1)) cs)"
    if "drawn a art = None \<or> (\<exists>i n. drawn a art = Some (i, n) \<and> n \<notin> a_collapsed a)"
    using 1 that by (intro arg_cong [where f = concat] map_cong) auto
  ultimately show ?case by (auto simp: Let_def split: option.split)
qed

lemma same_rows_visible:
  assumes "same_rows a b" shows "article_rows a = article_rows b" "visible_articles a = visible_articles b"
proof -
  have "push_rows a 0 = push_rows b 0" using push_rows_cong [OF assms] by (rule ext)
  with assms show "article_rows a = article_rows b" by (simp add: article_rows_def same_rows_def)
  then show "visible_articles a = visible_articles b" by (simp add: visible_articles_def)
qed

lemma article_rows_cong: "listing a = listing b \<Longrightarrow> article_rows a = article_rows b"
  using passes_cong [of a b] by (intro same_rows_visible) (simp add: same_rows_def listing_def)

lemma visible_cong: "listing a = listing b \<Longrightarrow> visible_articles a = visible_articles b"
  unfolding visible_articles_def by (drule article_rows_cong) simp

lemma length_article_rows: "length (article_rows a) = length (visible_articles a)"
  by (simp add: visible_articles_def)

section \<open>The cursor\<close>

definition threads_ok :: "app \<Rightarrow> bool" where
  "threads_ok a \<longleftrightarrow> a_threads (rebuild_threads a) = a_threads a"

definition cursor_ok :: "app \<Rightarrow> bool" where
  "cursor_ok a \<longleftrightarrow> visible_articles a = [] \<or> a_article_cursor a < length (visible_articles a)"

text \<open>The threads are those of the records, and, when \<open>cu\<close> is asked for, the cursor is on the list.\<close>

definition list_ok :: "bool \<Rightarrow> app \<Rightarrow> bool" where
  "list_ok cu a \<longleftrightarrow> threads_ok a \<and> (cu \<longrightarrow> cursor_ok a)"

definition place :: "app \<Rightarrow> (bool \<times> thread_node list \<times> overview_record list \<times> bool \<times>
    group_summary option \<times> read_store \<times> u64 set) \<times> nat" where
  "place a = (listing a, a_article_cursor a)"

lemma place_list_ok: "place b = place a \<Longrightarrow> list_ok cu b \<longleftrightarrow> list_ok cu a"
  using visible_cong [of b a]
  by (auto simp: place_def list_ok_def threads_ok_def cursor_ok_def rebuild_threads_def listing_def)

lemma place_list_okI: "list_ok cu a \<Longrightarrow> place b = place a \<Longrightarrow> list_ok cu b"
  using place_list_ok by blast

lemma place_small [simp]:
  "place (set_status s a) = place a" "place (add_note m a) = place a" "place (tick a) = place a"
  "place (close_overlay a) = place a" "place (scroll_overlay d a) = place a"
  "place (toggle_overlay o' a) = place a" "place (move_group_cursor E d a) = place a"
  "place (scroll_body d a) = place a" "place (set_filter s a) = place a"
  "place (request_cancellation a) = place a" "place (answered a) = place a"
  "place (expect_answer a) = place a" "place (snd (begin_overview_fetch a)) = place a"
  by (simp_all add: place_def listing_def set_status_def add_note_def tick_def close_overlay_def
      scroll_overlay_def toggle_overlay_def move_group_cursor_def scroll_body_def set_filter_def
      request_cancellation_def answered_def expect_answer_def begin_overview_fetch_def Let_def)

lemma place_update [simp]:
  "place (a\<lparr>a_dirty := b1\<rparr>) = place a" "place (a\<lparr>a_group_cursor := n\<rparr>) = place a"
  "place (a\<lparr>a_body_scroll := n\<rparr>) = place a" "place (a\<lparr>a_focus := p\<rparr>) = place a"
  "place (a\<lparr>a_overlay := o'\<rparr>) = place a" "place (a\<lparr>a_overlay_scroll := w\<rparr>) = place a"
  "place (a\<lparr>a_editing_filter := b1\<rparr>) = place a" "place (a\<lparr>a_compose := cr\<rparr>) = place a"
  "place (a\<lparr>a_error := e\<rparr>) = place a" "place (a\<lparr>a_article := v\<rparr>) = place a"
  "place (a\<lparr>a_should_quit := b1\<rparr>) = place a" "place (a\<lparr>a_group_scope := gs\<rparr>) = place a"
  "place (a\<lparr>a_groups := gr\<rparr>) = place a" "place (a\<lparr>a_posting := pp\<rparr>) = place a"
  "place (a\<lparr>a_posting_groups := pg\<rparr>) = place a" "place (a\<lparr>a_inflight := n\<rparr>) = place a"
  "place (a\<lparr>a_connected := b1\<rparr>) = place a" "place (a\<lparr>a_overview_skipped := n\<rparr>) = place a"
  "place (a\<lparr>a_overview_chunks := n\<rparr>) = place a" "place (a\<lparr>a_overview_token := tk\<rparr>) = place a"
  "place (a\<lparr>a_status := st\<rparr>) = place a" "place (a\<lparr>a_server := st\<rparr>) = place a"
  "place (a\<lparr>a_encrypted := b1\<rparr>) = place a"
  by (simp_all add: place_def listing_def)

lemma place_keys [simp]:
  "place (start_article a) = place a" "place (start_follow_up a) = place a"
  "place (escape a) = place a" "place (overlay_key k a) = place a" "place (filter_key E k a) = place a"
  "place (report_unsent_draft a) = place a"
proof -
  have p: "place (snd (posting_identity a)) = place a" for a
    by (simp add: posting_identity_def split: option.split)
  show "place (start_article a) = place a" "place (start_follow_up a) = place a"
    using p [of a] by (auto simp: start_article_def start_follow_up_def Let_def split: option.split prod.split)
  show "place (escape a) = place a" by (simp add: escape_def)
  show "place (overlay_key k a) = place a" by (simp add: overlay_key_def)
  show "place (filter_key E k a) = place a" by (simp add: filter_key_def split: key_code.split)
  show "place (report_unsent_draft a) = place a" by (simp add: report_unsent_draft_def split: option.split)
qed

text \<open>A move: the same list, the cursor within its bounds.\<close>

lemma listing_cursor [simp]: "listing (a\<lparr>a_article_cursor := n\<rparr>) = listing a"
  by (simp add: listing_def)

lemma move_ok:
  assumes "threads_ok a" "n \<le> length (visible_articles a) - 1"
  shows "list_ok cu (a\<lparr>a_article_cursor := n\<rparr>)"
proof -
  have "visible_articles (a\<lparr>a_article_cursor := n\<rparr>) = visible_articles a"
    by (rule visible_cong) simp
  with assms show ?thesis
    by (cases "visible_articles a") (auto simp: list_ok_def threads_ok_def cursor_ok_def rebuild_threads_def)
qed

lemma shift_bound: "shift c d n \<le> n - 1"
  by (cases n) (auto simp: shift_def nat_le_iff)

lemma position_bound: "position P xs = Some i \<Longrightarrow> i \<le> length xs - 1"
  by (auto simp: position_def Let_def split: if_splits)

lemma visible_position_bound: "visible_position a n = Some i \<Longrightarrow> i \<le> length (visible_articles a) - 1"
  unfolding visible_position_def by (rule position_bound)

lemma row_of_bound: "row_of a n = Some i \<Longrightarrow> i \<le> length (visible_articles a) - 1"
  unfolding row_of_def length_article_rows [symmetric] by (rule position_bound)

lemma clamp_ok: "threads_ok a \<Longrightarrow> list_ok cu (clamp_article_cursor a)"
  unfolding clamp_article_cursor_def by (rule move_ok) simp_all

lemma threads_ok_rebuild [simp]: "threads_ok (rebuild_threads a)"
  by (simp add: threads_ok_def rebuild_threads_def)

lemma threads_ok_same:
  "a_threaded b = a_threaded a \<Longrightarrow> a_threads b = a_threads a \<Longrightarrow> a_articles b = a_articles a \<Longrightarrow>
     threads_ok b = threads_ok a"
  by (simp add: threads_ok_def rebuild_threads_def)

lemma status_ok [simp]: "list_ok cu (set_status s a) = list_ok cu a"
  by (rule place_list_ok) simp

lemma absorb_ok: "list_ok cu a \<Longrightarrow> list_ok cu (absorb_overview records a)"
  unfolding absorb_overview_def Let_def
  by (auto intro!: move_ok split: option.split dest!: visible_position_bound simp: bind_eq_Some_conv)

lemma moving_ok:
  assumes "list_ok cu a"
  shows "list_ok cu (move_cursor E d a)" "list_ok cu (move_to_start a)" "list_ok cu (move_to_end E a)"
proof -
  have t: "threads_ok a" using assms by (simp add: list_ok_def)
  have i: "list_ok cu (move_group_cursor E d a)" "list_ok cu (scroll_body d a)" "list_ok cu (a\<lparr>a_group_cursor := n\<rparr>)"
    "list_ok cu (a\<lparr>a_body_scroll := n\<rparr>)" for n
    by (rule place_list_okI [OF assms], simp)+
  show "list_ok cu (move_cursor E d a)" "list_ok cu (move_to_start a)" "list_ok cu (move_to_end E a)"
    by (auto simp: move_cursor_def move_to_start_def move_to_end_def
        intro!: move_ok t shift_bound i split: pane.split)
qed

lemma toggles_ok:
  assumes "list_ok cu a"
  shows "list_ok cu (toggle_unread_only a)" "list_ok cu (toggle_threading a)"
    "list_ok cu (toggle_fold_under_cursor a)" "list_ok cu (toggle_read_under_cursor a)" "list_ok cu (catch_up a)"
proof -
  have t: "threads_ok a" using assms by (simp add: list_ok_def)
  have tu: "threads_ok (a\<lparr>a_unread_only := u\<rparr>)" for u
    using t threads_ok_same [of "a\<lparr>a_unread_only := u\<rparr>" a] by simp
  show "list_ok cu (toggle_unread_only a)"
    unfolding toggle_unread_only_def Let_def
    by (auto intro!: move_ok tu split: option.split dest!: visible_position_bound simp: bind_eq_Some_conv)
  show "list_ok cu (toggle_threading a)"
    unfolding toggle_threading_def Let_def
    by (auto intro!: move_ok split: option.split dest!: row_of_bound simp: bind_eq_Some_conv)
  have tf: "threads_ok (toggle_fold i n a)" for i n
    using t threads_ok_same [of "toggle_fold i n a" a] by (simp add: toggle_fold_def Let_def set_status_def)
  have tfc: "threads_ok ((toggle_fold i n a)\<lparr>a_article_cursor := m\<rparr>)" for i n m
    by (rule threads_ok_same [THEN iffD2, OF _ _ _ tf]) simp_all
  show "list_ok cu (toggle_fold_under_cursor a)"
    unfolding toggle_fold_under_cursor_def Let_def
    using assms by (auto intro!: clamp_ok tfc tf split: option.split)
  have tr: "threads_ok (set_status s (a\<lparr>a_read := r\<rparr>))" for s r
    by (rule threads_ok_same [THEN iffD2, OF _ _ _ t]) (simp_all add: set_status_def)
  show "list_ok cu (toggle_read_under_cursor a)" "list_ok cu (catch_up a)"
    using assms unfolding toggle_read_under_cursor_def catch_up_def Let_def
    by (auto intro!: clamp_ok tr split: option.split prod.split)
qed

lemma thread_nil [simp]: "thread [] = Some []"
  by code_simp

lemma no_articles: "threads_ok a \<Longrightarrow> a_articles a = [] \<Longrightarrow> visible_articles a = []"
  by (auto simp: threads_ok_def rebuild_threads_def visible_articles_def article_rows_def split: if_splits)

lemma clear_list_ok: "list_ok cu (clear_list a)" "list_ok cu ((clear_list a)\<lparr>a_article_cursor := n\<rparr>)"
proof -
  have "threads_ok (clear_list a)" "threads_ok ((clear_list a)\<lparr>a_article_cursor := n\<rparr>)"
    by (simp_all add: clear_list_def threads_ok_def rebuild_threads_def)
  moreover from this have "visible_articles (clear_list a) = []" "visible_articles ((clear_list a)\<lparr>a_article_cursor := n\<rparr>) = []"
    by (auto intro!: no_articles simp: clear_list_def)
  ultimately show "list_ok cu (clear_list a)" "list_ok cu ((clear_list a)\<lparr>a_article_cursor := n\<rparr>)"
    by (simp_all add: list_ok_def cursor_ok_def)
qed

lemma begin_place: "begin_overview_fetch a = (t, b) \<Longrightarrow> place b = place a"
  by (metis place_small(13) snd_conv)

lemma requests_place:
  "load_selected_article a = (b, rs) \<Longrightarrow> place b = place a"
  "refresh a = (b, rs) \<Longrightarrow> place b = place a"
  "search_groups E a = (b, rs) \<Longrightarrow> place b = place a"
  "refresh_after_posting ns a = Some (b, rs) \<Longrightarrow> place b = place a"
  "app_quit a = (b, rs) \<Longrightarrow> place b = place a"
  "on_composed c a = (b, rs) \<Longrightarrow> place b = place a"
proof -
  show "load_selected_article a = (b, rs) \<Longrightarrow> place b = place a"
    "search_groups E a = (b, rs) \<Longrightarrow> place b = place a"
    "app_quit a = (b, rs) \<Longrightarrow> place b = place a"
    by (auto simp: load_selected_article_def search_groups_def app_quit_def Let_def
        split: option.splits if_splits sum.splits)
  show "refresh a = (b, rs) \<Longrightarrow> place b = place a"
    "refresh_after_posting ns a = Some (b, rs) \<Longrightarrow> place b = place a"
    by (auto simp: refresh_def refresh_after_posting_def Let_def dest!: begin_place
        split: option.splits if_splits prod.splits)
  have f: "place (fold (\<lambda>p. add_note (f p)) ps c) = place c" for f :: "Post_Draft.problem \<Rightarrow> string" and ps c
    by (induction ps arbitrary: c) auto
  have u: "place (c\<lparr>a_dirty := True, a_posting := p, a_posting_groups := q\<rparr>) = place c" for c p q
    by (simp add: place_def listing_def)
  show "on_composed c a = (b, rs) \<Longrightarrow> place b = place a"
    by (auto simp: on_composed_def Let_def f u split: option.splits if_splits)
qed

lemma step_article_ok: "list_ok cu a \<Longrightarrow> step_article d a = (b, rs) \<Longrightarrow> list_ok cu b"
proof -
  assume a: "list_ok cu a" "step_article d a = (b, rs)"
  let ?n = "int (a_article_cursor a) + d"
  show "list_ok cu b"
  proof (cases "0 \<le> ?n \<and> ?n < int (length (visible_articles a))")
    case True
    then have "load_selected_article (a\<lparr>a_article_cursor := nat ?n\<rparr>) = (b, rs)"
      using a(2) by (auto simp: step_article_def Let_def split: if_splits)
    moreover have "list_ok cu (a\<lparr>a_article_cursor := nat ?n\<rparr>)"
      using a(1) True by (intro move_ok) (auto simp: list_ok_def)
    ultimately show ?thesis using place_list_okI requests_place(1) by blast
  next
    case False
    then show ?thesis using a by (auto simp: step_article_def Let_def split: if_splits)
  qed
qed

lemma activate_ok: "list_ok cu a \<Longrightarrow> activate E a = (b, rs) \<Longrightarrow> list_ok cu b"
proof -
  assume a: "list_ok cu a" "activate E a = (b, rs)"
  have "open_selected_group E a = (b, rs) \<Longrightarrow> list_ok cu b"
    using a(1) clear_list_ok(2) [where cu = cu and a = a and n = 0]
    by (auto simp: open_selected_group_def Let_def clear_list_def set_status_def intro!: clear_list_ok(1) [unfolded clear_list_def]
        split: option.splits if_splits prod.splits dest!: begin_place intro: place_list_okI)
  then show ?thesis
    using a by (auto simp: activate_def split: pane.splits intro: place_list_okI requests_place)
qed

lemma quiet_key_ok: "list_ok cu a \<Longrightarrow> list_ok cu (quiet_key E k control a)"
  unfolding quiet_key_def
  by (simp add: moving_ok toggles_ok place_list_okI)

lemma on_key_ok:
  assumes "list_ok cu a" "on_key E k a = (b, rs)" shows "list_ok cu b"
proof -
  let ?a = "a\<lparr>a_dirty := True, a_error := None\<rparr>"
  have a: "list_ok cu ?a" by (rule place_list_okI [OF assms(1)]) simp
  show ?thesis
    using assms(2) a quiet_key_ok [OF a] step_article_ok [OF a] activate_ok [OF a]
    by (auto simp: on_key_def plain_key_def Let_def split: if_splits
        intro: place_list_okI [OF a] requests_place)
qed

text \<open>Without the unread filter, what has been read does not matter to the list.\<close>

lemma read_ok:
  assumes "list_ok cu a" "cu \<Longrightarrow> \<not> a_unread_only a \<or> a_articles a = []"
  shows "list_ok cu (a\<lparr>a_read := r, a_group := g\<rparr>)"
proof -
  let ?b = "a\<lparr>a_read := r, a_group := g\<rparr>"
  have t: "threads_ok ?b"
    by (rule threads_ok_same [THEN iffD2, of _ a]) (use assms(1) in \<open>simp_all add: list_ok_def\<close>)
  have "visible_articles ?b = visible_articles a" if cu
  proof (cases "a_unread_only a")
    case False
    then have "passes ?b = passes a" by (auto simp: passes_def)
    then show ?thesis by (intro same_rows_visible) (simp add: same_rows_def)
  next
    case True
    with assms t that show ?thesis by (simp add: no_articles list_ok_def)
  qed
  with t assms(1) show ?thesis by (auto simp: list_ok_def cursor_ok_def)
qed

text \<open>The two events that can take articles off a list that shows only the unread ones.\<close>

fun may_strand :: "ui_input \<Rightarrow> app \<Rightarrow> bool" where
  "may_strand (Event (ArticleArrived art)) a \<longleftrightarrow> a_unread_only a \<and> a_mark_read_on_open a"
| "may_strand (Event (GroupOpened s)) a \<longleftrightarrow> a_unread_only a \<and> a_articles a \<noteq> []"
| "may_strand _ a \<longleftrightarrow> False"

lemma events_place:
  "place (on_connected x y z a) = place a" "place (on_groups rows scope l a) = place a"
  "place (on_overview_complete g t a) = place a" "place (on_cancelled c a) = place a"
  "place (on_failed c m a) = place a" "place (on_disconnected m a) = place a" "place (on_stopped a) = place a"
proof -
  have u: "place (c\<lparr>a_connected := True, a_server := y', a_encrypted := z', a_status := s'\<rparr>) = place c"
    "place (c\<lparr>a_groups := r', a_group_scope := sc, a_group_cursor := 0\<rparr>) = place c"
    "place (c\<lparr>a_focus := p', a_overview_token := None\<rparr>) = place c"
    "place (c\<lparr>a_connected := False, a_inflight := 0, a_error := e'\<rparr>) = place c"
    "place (c\<lparr>a_connected := False, a_inflight := 0\<rparr>) = place c" for c y' z' s' r' sc p' e'
    by (simp_all add: place_def listing_def)
  show "place (on_connected x y z a) = place a" "place (on_groups rows scope l a) = place a"
    "place (on_overview_complete g t a) = place a" "place (on_cancelled c a) = place a"
    "place (on_failed c m a) = place a" "place (on_disconnected m a) = place a" "place (on_stopped a) = place a"
    by (simp_all add: on_connected_def on_groups_def on_overview_complete_def on_cancelled_def on_failed_def
        on_disconnected_def on_stopped_def Let_def u)
qed

lemma on_posted_place: "on_posted m a = (b, rs, gone) \<Longrightarrow> place b = place a"
  by (auto simp: on_posted_def Let_def split: option.splits dest!: requests_place(4))

lemma on_event_ok:
  assumes "list_ok cu a" "on_event E ev a = (b, rs, gone)" "cu \<Longrightarrow> \<not> may_strand (Event ev) a"
  shows "list_ok cu b"
proof -
  let ?a = "a\<lparr>a_dirty := True\<rparr>"
  have a: "list_ok cu ?a" by (rule place_list_okI [OF assms(1)]) simp
  note e = assms(2) [unfolded on_event_def Let_def quietly_def]
  show ?thesis
  proof (cases ev)
    case (GroupOpened s)
    have "list_ok cu (?a\<lparr>a_read := r, a_group := Some s\<rparr>)" for r
      using a assms(3) GroupOpened by (intro read_ok) auto
    with e GroupOpened show ?thesis by (auto simp: on_group_opened_def Let_def)
  next
    case (ArticleArrived art)
    have u: "place (c\<lparr>a_status := s', a_article := v', a_body_scroll := 0, a_focus := BodyPane\<rparr>) = place c" for c s' v'
      by (simp add: place_def listing_def)
    have an: "list_ok cu (answered ?a)" by (rule place_list_okI [OF a]) simp
    have "list_ok cu ((answered ?a)\<lparr>a_read := r, a_group := a_group (answered ?a)\<rparr>)" if "a_mark_read_on_open a" for r
      using an assms(3) ArticleArrived that by (intro read_ok) (auto simp: answered_def)
    then have "list_ok cu ((answered ?a)\<lparr>a_read := r\<rparr>)" if "a_mark_read_on_open a" for r
      using that by simp
    moreover have "a_mark_read_on_open (answered ?a) = a_mark_read_on_open a" by (simp add: answered_def)
    ultimately show ?thesis using e ArticleArrived an
      by (auto simp: on_article_def Let_def split: bool.splits option.splits intro!: place_list_okI [OF _ u])
  next
    case (OverviewChunk g t records skipped)
    let ?b = "absorb_overview records (?a\<lparr>a_overview_skipped := a_overview_skipped ?a + skipped\<rparr>)"
    have b: "list_ok cu ?b" by (rule absorb_ok) (rule place_list_okI [OF a], simp)
    show ?thesis using e OverviewChunk a
      by (auto simp: on_overview_chunk_def Let_def intro!: place_list_okI [OF b] split: if_splits)
  next
    case (Posted m)
    with e a on_posted_place show ?thesis by (auto intro: place_list_okI)
  qed (use e in \<open>auto intro!: place_list_okI [OF a] simp: events_place\<close>)
qed

lemma feed_ok:
  assumes "list_ok cu a" "feed E i a = (b, rs, gone)" "cu \<Longrightarrow> \<not> may_strand i a"
  shows "list_ok cu b"
proof (cases i)
  case (Key k)
  with assms on_key_ok [of cu a E k b rs] show ?thesis by (auto split: prod.splits)
next
  case (Event ev)
  with assms on_event_ok [of cu a E ev b rs gone] show ?thesis by simp
next
  case (Composed c)
  with assms requests_place(6) [of c a b rs] show ?thesis by (auto split: prod.splits intro: place_list_okI)
next
  case Tick
  with assms place_list_okI [of cu a "tick a"] show ?thesis by auto
qed

lemma started_ok: "list_ok cu (started config read subscriptions sender)"
proof -
  let ?a = "app_new config read"
  have "threads_ok ?a" by (simp add: threads_ok_def rebuild_threads_def app_new_def)
  moreover from this have "visible_articles ?a = []" by (rule no_articles) (simp add: app_new_def)
  ultimately have "list_ok cu ?a" by (simp add: list_ok_def cursor_ok_def)
  then show ?thesis
    by (rule place_list_okI) (simp add: started_def initial_requests_def expect_answer_def Let_def place_def listing_def)
qed

section \<open>Folds\<close>

text \<open>\<open>shows a i\<close>: the record with this index is there and passes the unread filter.\<close>

definition shows_at :: "app \<Rightarrow> nat \<Rightarrow> bool" where
  "shows_at a i \<longleftrightarrow> i < length (a_articles a) \<and> passes a (a_articles a ! i)"

lemma drawn_iff: "drawn a art = Some (i, n) \<longleftrightarrow> art = Some i \<and> shows_at a i \<and> n = or_number (a_articles a ! i)"
  by (auto simp: drawn_def shows_at_def get_opt_def split: option.splits if_splits)

lemma drawn_None: "drawn a art = None \<longleftrightarrow> (\<forall>i. art = Some i \<longrightarrow> \<not> shows_at a i)"
  by (auto simp: drawn_def shows_at_def get_opt_def split: option.splits if_splits)

lemma node_len_articles: "node_len t = length (tree_articles t)"
  by (induction t) (auto simp: length_concat comp_def intro!: arg_cong [where f = sum_list] split: option.split)

lemma sum_node_len: "sum_list (map node_len cs) = length (concat (map tree_articles cs))"
  by (induction cs) (simp_all add: node_len_articles)

text \<open>The rows of a thread are articles of it that pass the filter, in thread order, and every
  article that passes is on a row or folded away under one.\<close>

lemma push_rows_skip:
  assumes "drawn a art = None"
  shows "push_rows a d (ThreadNode art cs) = concat (map (push_rows a (d + 1)) cs)"
    "filter (shows_at a) (tree_articles (ThreadNode art cs)) = filter (shows_at a) (concat (map tree_articles cs))"
  using assms by (simp, auto simp: drawn_None split: option.split)

lemma push_rows_draw:
  assumes "drawn a art = Some (i, n)"
  shows "push_rows a d (ThreadNode art cs) =
      \<lparr>row_index = i, row_depth = d, row_hidden = (if n \<in> a_collapsed a then sum_list (map node_len cs) else 0),
       row_has_replies = cs \<noteq> [], row_collapsed = n \<in> a_collapsed a\<rparr> #
      (if n \<in> a_collapsed a then [] else concat (map (push_rows a (d + 1)) cs))"
    "filter (shows_at a) (tree_articles (ThreadNode art cs)) = i # filter (shows_at a) (concat (map tree_articles cs))"
    "art = Some i"
  using assms by (simp add: Let_def, auto simp: drawn_iff)

lemma push_rows_induct [case_names skip fold unfold]:
  assumes "\<And>d art cs. drawn a art = None \<Longrightarrow> (\<And>x. x \<in> set cs \<Longrightarrow> P (d + 1) x) \<Longrightarrow> P d (ThreadNode art cs)"
    and "\<And>d art cs i n. drawn a art = Some (i, n) \<Longrightarrow> n \<in> a_collapsed a \<Longrightarrow> P d (ThreadNode art cs)"
    and "\<And>d art cs i n. drawn a art = Some (i, n) \<Longrightarrow> n \<notin> a_collapsed a \<Longrightarrow>
      (\<And>x. x \<in> set cs \<Longrightarrow> P (d + 1) x) \<Longrightarrow> P d (ThreadNode art cs)"
  shows "P d t"
proof (induction t arbitrary: d)
  case (ThreadNode art cs)
  show ?case
  proof (cases "drawn a art")
    case None
    then show ?thesis using ThreadNode by (intro assms(1))
  next
    case (Some p)
    obtain i n where "p = (i, n)" by fastforce
    with Some ThreadNode show ?thesis by (cases "n \<in> a_collapsed a") (auto intro: assms(2,3))
  qed
qed

lemma push_rows_shown: "mset (map row_index (push_rows a d t)) \<subseteq># mset (filter (shows_at a) (tree_articles t))"
proof (induction d t rule: push_rows_induct [of a])
  have cs: "mset (map row_index (concat (map (push_rows a (d + 1)) cs))) \<subseteq>#
      mset (filter (shows_at a) (concat (map tree_articles cs)))"
    if "\<And>x. x \<in> set cs \<Longrightarrow> mset (map row_index (push_rows a (d + 1) x)) \<subseteq># mset (filter (shows_at a) (tree_articles x))" for d cs
    using that by (induction cs) (auto intro!: subset_mset.add_mono)
  {
    case (skip d art cs)
    then show ?case unfolding push_rows_skip [OF skip(1)] by (intro cs)
  next
    case (fold d art cs i n)
    then show ?case unfolding push_rows_draw(1,2) [OF fold(1)] by simp
  next
    case (unfold d art cs i n)
    then show ?case unfolding push_rows_draw(1,2) [OF unfold(1)] using cs [of cs d] by simp
  }
qed

lemma push_rows_unfolded:
  assumes "a_collapsed a = {}"
  shows "map row_index (push_rows a d t) = filter (shows_at a) (tree_articles t)"
proof (induction d t rule: push_rows_induct [of a])
  have cs: "map row_index (concat (map (push_rows a (d + 1)) cs)) = filter (shows_at a) (concat (map tree_articles cs))"
    if "\<And>x. x \<in> set cs \<Longrightarrow> map row_index (push_rows a (d + 1) x) = filter (shows_at a) (tree_articles x)" for d cs
    using that by (induction cs) auto
  {
    case (skip d art cs)
    then show ?case unfolding push_rows_skip [OF skip(1)] by (intro cs)
  next
    case (fold d art cs i n)
    then show ?case using assms by simp
  next
    case (unfold d art cs i n)
    then show ?case unfolding push_rows_draw(1,2) [OF unfold(1)] using cs [of cs d] by simp
  }
qed

lemma push_rows_hidden:
  "i \<in> set (filter (shows_at a) (tree_articles t)) \<Longrightarrow> i \<notin> row_index ` set (push_rows a d t) \<Longrightarrow>
     \<exists>row \<in> set (push_rows a d t). row_collapsed row \<and> 0 < row_hidden row"
proof (induction d t rule: push_rows_induct [of a])
  case (skip d art cs)
  from skip(3,4) obtain x where x: "x \<in> set cs" "i \<in> set (filter (shows_at a) (tree_articles x))"
    "i \<notin> row_index ` set (push_rows a (d + 1) x)"
    unfolding push_rows_skip [OF skip(1)] by fastforce
  from skip(2) [OF this] x(1) show ?case unfolding push_rows_skip(1) [OF skip(1)] by auto
next
  case (fold d art cs j n)
  from fold(3,4) have "i \<in> set (concat (map tree_articles cs))"
    unfolding push_rows_draw(1,2) [OF fold(1)] by auto
  then have "0 < sum_list (map node_len cs)" unfolding sum_node_len by (metis length_pos_if_in_set)
  then show ?case unfolding push_rows_draw(1) [OF fold(1)] using fold(2) by simp
next
  case (unfold d art cs j n)
  from unfold(2,4,5) obtain x where x: "x \<in> set cs" "i \<in> set (filter (shows_at a) (tree_articles x))"
    "i \<notin> row_index ` set (push_rows a (d + 1) x)"
    unfolding push_rows_draw(1,2) [OF unfold(1)] by fastforce
  from unfold(3) [OF this] x(1) unfold(2) show ?case unfolding push_rows_draw(1) [OF unfold(1)] by auto
qed

lemma push_rows_count:
  assumes "\<not> a_unread_only a"
  shows "(\<forall>i \<in> set (tree_articles t). i < length (a_articles a)) \<Longrightarrow>
    length (push_rows a d t) + sum_list (map row_hidden (push_rows a d t)) = node_len t"
proof (induction d t rule: push_rows_induct [of a])
  let ?c = "\<lambda>rows. length rows + sum_list (map row_hidden rows)"
  have cs: "?c (concat (map (push_rows a (d + 1)) cs)) = sum_list (map node_len cs)"
    if "\<And>x. x \<in> set cs \<Longrightarrow> ?c (push_rows a (d + 1) x) = node_len x" for d cs
    using that
  proof (induction cs)
    case (Cons x cs)
    have "?c (push_rows a (d + 1) x) = node_len x" using Cons.prems by simp
    moreover have "?c (concat (map (push_rows a (d + 1)) cs)) = sum_list (map node_len cs)"
      using Cons.prems by (intro Cons.IH) simp
    ultimately show ?case by (simp del: One_nat_def add_Suc_right add_0_right)
  qed simp
  {
    case (skip d art cs)
    then have "art = None" using assms by (auto simp: drawn_None shows_at_def passes_def)
    with skip cs [of cs d] show ?case unfolding push_rows_skip(1) [OF skip(1)] by simp
  next
    case (fold d art cs i n)
    then show ?case using push_rows_draw(3) [OF fold(1)] unfolding push_rows_draw(1) [OF fold(1)] by simp
  next
    case (unfold d art cs i n)
    then show ?case using push_rows_draw(3) [OF unfold(1)] cs [of cs d]
      unfolding push_rows_draw(1) [OF unfold(1)] by simp
  }
qed

section \<open>Properties\<close>

lemma visible_shows:
  assumes "threads_ok a" "i \<in> set (visible_articles a)" shows "shows_at a i"
proof (cases "a_threaded a")
  case True
  then obtain t where "t \<in> set (a_threads a)" "i \<in> set (map row_index (push_rows a 0 t))"
    using assms(2) by (auto simp: visible_articles_def article_rows_def)
  then have "i \<in> set (filter (shows_at a) (tree_articles t))"
    using push_rows_shown [of a 0 t] by (meson mset_subset_eqD set_mset_mset in_multiset_in_set)
  then show ?thesis by simp
next
  case False
  with assms(2) show ?thesis
    by (auto simp: visible_articles_def article_rows_def flat_row_def shows_at_def in_set_enumerate_eq)
qed

lemma submset_distinct:
  assumes "mset xs \<subseteq># mset ys" "distinct ys" shows "distinct xs"
  unfolding distinct_count_atmost_1
proof
  fix z
  have "count (mset xs) z \<le> count (mset ys) z" using assms(1) by (rule mset_subset_eq_count)
  also have "\<dots> \<le> 1" using assms(2) by (simp add: distinct_count_atmost_1)
  finally have le: "count (mset xs) z \<le> 1" .
  show "count (mset xs) z = (if z \<in> set xs then 1 else 0)"
  proof (cases "z \<in> set xs")
    case True
    then have "0 < count (mset xs) z" by (simp only: count_greater_zero_iff set_mset_mset)
    with le have "count (mset xs) z = 1" by linarith
    with True show ?thesis by (simp only: if_True)
  qed (simp add: count_mset_0_iff)
qed

text \<open>The inputs of a run that never takes a read article off a filtered list by itself.\<close>

fun calm :: "ui_env \<Rightarrow> ui_input list \<Rightarrow> app \<Rightarrow> bool" where
  "calm E [] a \<longleftrightarrow> True"
| "calm E (i # is) a \<longleftrightarrow> \<not> may_strand i a \<and> calm E is (fst (feed E i a))"

lemma run_ok: "run E inputs a = (b, rs, files) \<Longrightarrow> list_ok cu a \<Longrightarrow> (cu \<Longrightarrow> calm E inputs a) \<Longrightarrow> list_ok cu b"
proof (induction inputs arbitrary: a rs files)
  case (Cons i inputs)
  obtain c ss gone where f: "feed E i a = (c, ss, gone)" by (metis prod_cases3)
  obtain us fs where r: "run E inputs c = (b, us, fs)"
    using Cons.prems(1) f by (auto split: prod.splits)
  have "list_ok cu c" by (rule feed_ok [OF Cons.prems(2) f]) (use Cons.prems(3) in simp)
  with Cons.IH [OF r] Cons.prems(3) f show ?case by simp
qed simp

text \<open>C15: What is listed and where the cursor is.  However the reader was driven, the threads it
  shows are those of the articles it has now, and it keeps none in the flat view; and as long as
  no article was opened, and no group with articles on screen reopened, under the unread filter,
  the cursor stands on a row whenever the list shows one: the article under it is the one of that
  row, and it passes the filter.\<close>
theorem cursor_on_article:
  assumes "run E inputs (started config read subscriptions sender) = (a, rs, files)"
  shows "(if a_threaded a then thread (a_articles a) = Some (a_threads a) else a_threads a = []) \<and>
    (calm E inputs (started config read subscriptions sender) \<and> visible_articles a \<noteq> [] \<longrightarrow>
      a_article_cursor a < length (visible_articles a) \<and>
      (let i = visible_articles a ! a_article_cursor a
       in i < length (a_articles a) \<and> selected_article a = Some (a_articles a ! i) \<and>
         passes a (a_articles a ! i)))"
proof (rule conjI [OF _ impI])
  have "list_ok False a" by (rule run_ok [OF assms started_ok]) simp
  then show "if a_threaded a then thread (a_articles a) = Some (a_threads a) else a_threads a = []"
    using thread_total [of "a_articles a"] by (auto simp: list_ok_def threads_ok_def rebuild_threads_def)
  assume c: "calm E inputs (started config read subscriptions sender) \<and> visible_articles a \<noteq> []"
  have l: "list_ok True a" by (rule run_ok [OF assms started_ok]) (use c in simp)
  with c have cur: "a_article_cursor a < length (visible_articles a)"
    by (simp add: list_ok_def cursor_ok_def)
  then have "shows_at a (visible_articles a ! a_article_cursor a)"
    using l by (intro visible_shows) (auto simp: list_ok_def)
  with cur show "a_article_cursor a < length (visible_articles a) \<and>
      (let i = visible_articles a ! a_article_cursor a
       in i < length (a_articles a) \<and> selected_article a = Some (a_articles a ! i) \<and>
         passes a (a_articles a ! i))"
    by (auto simp: selected_article_def get_opt_def shows_at_def split: if_splits)
qed

text \<open>C16: Threading and folding hide nothing silently.  In any state the reader can be in, the
  threaded view without folds shows the articles of the flat view, each once; an article that the
  flat view shows and the threaded view does not is under a drawn row that is folded and counts
  what it hides; and without the unread filter the rows and the counts add up to all articles.\<close>
theorem folds_are_counted:
  assumes "run E inputs (started config read subscriptions sender) = (a, rs, files)" "a_threaded a"
  shows "distinct (visible_articles a) \<and>
    (a_collapsed a = {} \<longrightarrow> mset (visible_articles a) = mset (visible_articles (a\<lparr>a_threaded := False\<rparr>))) \<and>
    (\<forall>i \<in> set (visible_articles (a\<lparr>a_threaded := False\<rparr>)). i \<in> set (visible_articles a) \<or>
       (\<exists>row \<in> set (article_rows a). row_collapsed row \<and> 0 < row_hidden row)) \<and>
    (\<not> a_unread_only a \<longrightarrow>
       length (article_rows a) + sum_list (map row_hidden (article_rows a)) = length (a_articles a))"
proof -
  let ?f = "a\<lparr>a_threaded := False\<rparr>" and ?n = "length (a_articles a)"
  have "list_ok False a" by (rule run_ok [OF assms(1) started_ok]) simp
  then have "a_threads a = (case thread (a_articles a) of Some ts \<Rightarrow> ts | None \<Rightarrow> [])"
    using assms(2) by (simp add: list_ok_def threads_ok_def rebuild_threads_def)
  then obtain m: "mset (concat (map tree_articles (a_threads a))) = mset [0..<?n]"
    using thread_total [of "a_articles a"] by auto
  let ?ts = "a_threads a"
  have rows: "article_rows a = concat (map (push_rows a 0) ?ts)" using assms(2) by (simp add: article_rows_def)
  have flat: "visible_articles ?f = filter (shows_at a) [0..<?n]"
  proof -
    have "passes ?f = passes a" by (intro ext) (simp add: passes_def is_unread_def split: option.split)
    moreover have "map fst (filter (\<lambda>(i, r). passes a r) (List.enumerate 0 xs)) = filter (\<lambda>i. passes a (xs ! i)) [0..<length xs]" for xs
      by (induction xs rule: rev_induct) (auto simp: enumerate_append_eq nth_append intro!: filter_cong)
    ultimately show ?thesis
      by (auto simp: visible_articles_def article_rows_def shows_at_def flat_row_def comp_def case_prod_beta intro!: filter_cong)
  qed
  have mf: "mset (filter (shows_at a) (concat (map tree_articles ?ts))) = mset (visible_articles ?f)"
    unfolding flat mset_filter m ..
  have sub: "mset (map row_index (concat (map (push_rows a 0) ts))) \<subseteq># mset (filter (shows_at a) (concat (map tree_articles ts)))" for ts
    using push_rows_shown [of a 0] by (induction ts) (auto intro!: subset_mset.add_mono)
  have s: "mset (visible_articles a) \<subseteq># mset (visible_articles ?f)"
    using sub [of ?ts] unfolding visible_articles_def rows by (simp only: mf visible_articles_def)
  have "distinct (visible_articles ?f)" unfolding flat by simp
  then have "distinct (visible_articles a)"
    by (rule submset_distinct [OF s])
  moreover have "mset (visible_articles a) = mset (visible_articles ?f)" if "a_collapsed a = {}"
  proof -
    have "map row_index (concat (map (push_rows a 0) ts)) = filter (shows_at a) (concat (map tree_articles ts))" for ts
      using push_rows_unfolded [OF that, of 0] by (induction ts) auto
    then show ?thesis unfolding mf [symmetric] unfolding visible_articles_def rows by simp
  qed
  moreover have "i \<in> set (visible_articles a) \<or> (\<exists>row \<in> set (article_rows a). row_collapsed row \<and> 0 < row_hidden row)"
    if "i \<in> set (visible_articles ?f)" for i
  proof -
    have "i \<in> set (filter (shows_at a) (concat (map tree_articles ?ts)))" using that mf by (metis set_mset_mset)
    then obtain t where t: "t \<in> set ?ts" "i \<in> set (filter (shows_at a) (tree_articles t))" by auto
    with push_rows_hidden [OF t(2), of 0] show ?thesis
      unfolding visible_articles_def rows by (force simp: image_iff)
  qed
  moreover have "length (article_rows a) + sum_list (map row_hidden (article_rows a)) = ?n" if u: "\<not> a_unread_only a"
  proof -
    have lt: "\<forall>i \<in> set (concat (map tree_articles ?ts)). i < ?n" using m by (metis atLeastLessThan_iff atLeastLessThan_upt set_mset_mset)
    have "length (concat (map (push_rows a 0) ts)) + sum_list (map row_hidden (concat (map (push_rows a 0) ts)))
        = length (concat (map tree_articles ts))" if "set ts \<subseteq> set ?ts" for ts
      using that
    proof (induction ts)
      case (Cons t ts)
      have "length (push_rows a 0 t) + sum_list (map row_hidden (push_rows a 0 t)) = node_len t"
        by (rule push_rows_count [OF u]) (use lt Cons.prems in auto)
      with Cons show ?case by (simp add: node_len_articles)
    qed simp
    from this [of ?ts] show ?thesis unfolding rows using m by (metis mset_eq_length length_upt minus_nat.diff_0 order_refl)
  qed
  ultimately show ?thesis by blast
qed

lemma place_views:
  assumes "place b = place a"
  shows "a_articles b = a_articles a" "visible_articles b = visible_articles a"
    "selected_article b = selected_article a" "visible_position b = visible_position a"
proof -
  show a: "a_articles b = a_articles a" using assms by (simp add: place_def listing_def)
  show v: "visible_articles b = visible_articles a" using assms by (intro visible_cong) (simp add: place_def)
  have c: "a_article_cursor b = a_article_cursor a" using assms by (simp add: place_def)
  show "selected_article b = selected_article a" by (simp add: selected_article_def a v c)
  show "visible_position b = visible_position a" by (rule ext) (simp add: visible_position_def a v)
qed

lemma visible_position_SomeD:
  assumes "visible_position a n = Some i"
  shows "\<exists>r. Option.bind (get_opt (visible_articles a) i) (get_opt (a_articles a)) = Some r \<and> or_number r = n"
proof -
  from assms obtain p y s where y: "visible_articles a = p @ y # s" "length p = i"
    "case get_opt (a_articles a) y of Some r \<Rightarrow> or_number r = n | None \<Rightarrow> False"
    unfolding visible_position_def by (elim position_Some) blast
  then show ?thesis by (auto split: option.splits)
qed

lemma absorb_articles: "a_articles (absorb_overview records a) = (if records = [] then a_articles a else merge_overview records (a_articles a))"
  by (simp add: absorb_overview_def rebuild_threads_def Let_def)

lemma absorb_anchor:
  assumes "a_article_cursor a + 1 < length (visible_articles a)" "selected_article a = Some r"
    and "visible_position (absorb_overview records a) (or_number r) \<noteq> None"
  shows "map_option or_number (selected_article (absorb_overview records a)) = Some (or_number r)"
proof (cases "records = []")
  case True
  with assms show ?thesis by (simp add: absorb_overview_def)
next
  case False
  let ?b = "rebuild_threads (a\<lparr>a_articles := merge_overview records (a_articles a)\<rparr>)"
  have v: "visible_articles (?b\<lparr>a_article_cursor := n\<rparr>) = visible_articles ?b" for n
    by (rule visible_cong) simp
  then have p: "visible_position (?b\<lparr>a_article_cursor := n\<rparr>) = visible_position ?b" for n
    by (simp add: visible_position_def fun_eq_iff)
  obtain n where n: "absorb_overview records a = ?b\<lparr>a_article_cursor := n\<rparr>"
    "\<And>i. visible_position ?b (or_number r) = Some i \<Longrightarrow> n = i"
    using assms(1,2) False by (simp add: absorb_overview_def Let_def)
  with assms(3) p obtain i where i: "visible_position ?b (or_number r) = Some i" by auto
  from visible_position_SomeD [OF i] n(1) n(2) [OF i] show ?thesis
    by (auto simp: selected_article_def v)
qed

text \<open>A chunk is merged into the list and does not move the reader's place.  The list stays in
  the order of the numbers, holds for every number the arriving record if there is one and the
  record held before otherwise, and an article under the cursor other than the newest stays under
  it as long as it is on a row.\<close>
theorem overview_merges:
  assumes "on_event E (OverviewChunk g token records skipped) a = (b, rs, gone)"
    and "accepts_overview g token a" "sorted_list records" "sorted_list (a_articles a)"
  shows "sorted_list (a_articles b) \<and>
    (\<forall>n. record_of n (a_articles b) =
       (case record_of n records of Some r \<Rightarrow> Some r | None \<Rightarrow> record_of n (a_articles a))) \<and>
    (\<forall>r. a_article_cursor a + 1 < length (visible_articles a) \<and> selected_article a = Some r \<and>
       visible_position b (or_number r) \<noteq> None \<longrightarrow>
       map_option or_number (selected_article b) = Some (or_number r))"
proof -
  let ?a = "a\<lparr>a_dirty := True, a_overview_skipped := a_overview_skipped a + skipped\<rparr>"
  have "accepts_overview g token (a\<lparr>a_dirty := True\<rparr>)" using assms(2) by (simp add: accepts_overview_def)
  then have "place b = place (absorb_overview records ?a)"
    using assms(1) by (auto simp: on_event_def quietly_def on_overview_chunk_def Let_def)
  note b = place_views [OF this]
  have "place ?a = place a" by (simp add: place_def listing_def)
  note a = place_views [OF this]
  have c: "a_article_cursor ?a = a_article_cursor a" by simp
  have "sorted_list (a_articles b)"
    using merge_sorted [OF assms(3,4)] assms(4) by (simp add: b absorb_articles)
  moreover have "record_of n (a_articles b) =
       (case record_of n records of Some r \<Rightarrow> Some r | None \<Rightarrow> record_of n (a_articles a))" for n
    using merge_record_of [OF assms(3,4)] by (simp add: b absorb_articles record_of_def)
  moreover have "map_option or_number (selected_article b) = Some (or_number r)"
    if "a_article_cursor a + 1 < length (visible_articles a)" "selected_article a = Some r"
      "visible_position b (or_number r) \<noteq> None" for r
    using absorb_anchor [of ?a r records] that unfolding b a c by blast
  ultimately show ?thesis by blast
qed

definition sample_records :: "u64 list \<Rightarrow> overview_record list" where
  "sample_records ns = map overview_empty ns"

definition sample_group :: app where
  "sample_group = sample_start\<lparr>a_group := Some sample_summary, a_threaded := False,
     a_articles := sample_records [4, 6, 9], a_article_cursor := 1,
     a_overview_token := Some (FetchToken 1), a_next_token := 1\<rparr>"

lemma sample_merge: "map or_number (a_articles (fst (on_event sample_env
     (OverviewChunk (GroupName ''a.b'') (FetchToken 1) (sample_records [5, 6]) 0) sample_group))) = [4, 5, 6, 9]"
  by code_simp

theorem overview_merges_witness:
  "map or_number (a_articles (fst (on_event sample_env
     (OverviewChunk (GroupName ''a.b'') (FetchToken 1) (sample_records [5, 6]) 0) sample_group))) = [4, 5, 6, 9] \<and>
   sorted_list (a_articles (fst (on_event sample_env
     (OverviewChunk (GroupName ''a.b'') (FetchToken 1) (sample_records [5, 6]) 0) sample_group)))"
proof -
  obtain b rs gone where e: "on_event sample_env
     (OverviewChunk (GroupName ''a.b'') (FetchToken 1) (sample_records [5, 6]) 0) sample_group = (b, rs, gone)"
    by (metis prod_cases3)
  have "accepts_overview (GroupName ''a.b'') (FetchToken 1) sample_group"
    "sorted_list (sample_records [5, 6])" "sorted_list (a_articles sample_group)"
    by code_simp+
  from overview_merges [OF e this] e show ?thesis using sample_merge by simp
qed
text \<open>Opening the last unread article of a filtered list marks it read and takes it off the
  list; the cursor stays behind the end, where no article is.\<close>

lemma on_article_place:
  assumes "a_mark_read_on_open a" "art_number art = Some n" "a_group a = Some g"
  shows "place (on_article E art a) = place (a\<lparr>a_read := mark_read (gn_str (gs_name g)) n (a_read a)\<rparr>)"
  using assms by (simp add: on_article_def view_new_def answered_def Let_def place_def listing_def)

lemma reading_the_last_unread_strands:
  assumes "art_number art = Some 9"
  shows "visible_articles (sample_group\<lparr>a_unread_only := True, a_article_cursor := 2\<rparr>) = [0, 1, 2] \<and>
    visible_articles (on_article E art (sample_group\<lparr>a_unread_only := True, a_article_cursor := 2\<rparr>)) = [0, 1] \<and>
    selected_article (on_article E art (sample_group\<lparr>a_unread_only := True, a_article_cursor := 2\<rparr>)) = None"
proof -
  let ?a = "sample_group\<lparr>a_unread_only := True, a_article_cursor := 2\<rparr>"
  let ?b = "?a\<lparr>a_read := mark_read ''a.b'' 9 (a_read ?a)\<rparr>"
  have a: "a_mark_read_on_open ?a" "a_group ?a = Some sample_summary" "visible_articles ?a = [0, 1, 2]"
    "gn_str (gs_name sample_summary) = ''a.b''" "a_read ?a = store_empty []"
    by code_simp+
  have c: "a_threaded ?b = False" "a_unread_only ?b" "a_articles ?b = sample_records [4, 6, 9]"
    "a_group ?b = Some sample_summary" "a_article_cursor ?b = 2"
    by (simp_all add: sample_group_def)
  have "is_unread ?b n \<longleftrightarrow> n \<noteq> 9" for n
  proof -
    have e: "store_read_set (store_empty []) g = rs_new" for g
      by (simp add: store_read_set_def store_empty_def)
    have "rs_contains (rs_insert 9 rs_new) n \<longleftrightarrow> n = 9"
      by (simp add: rs.has_mem rs.inv_ins rs.inv_empty rs.mem_ins)
    then show ?thesis
      unfolding is_unread_def c(4) option.case a(4) by (simp add: a(5) mark_read_def update_entry_read e)
  qed
  then have b: "visible_articles ?b = [0, 1]"
    using c(1-3) by (simp add: visible_articles_def article_rows_def passes_def sample_records_def overview_empty_def flat_row_def)
  then have "selected_article ?b = None" using c(5) by (simp add: selected_article_def get_opt_def)
  with b a(1-4) place_views [OF on_article_place [of ?a art 9 sample_summary E]] assms show ?thesis by simp
qed

text \<open>The group list arrives, the group is opened and three articles are listed.\<close>

definition listed_inputs :: "ui_input list" where
  "listed_inputs = [Event (GroupsArrived [sample_row] everything False), press KEnter,
     Event (GroupOpened sample_summary),
     Event (OverviewChunk (GroupName ''a.b'') (FetchToken 1) (sample_records [4, 6, 9]) 0)]"

lemma listed_state:
  "case run sample_env listed_inputs sample_start of (a, rs, files) \<Rightarrow>
     a_threaded a \<and> \<not> a_unread_only a \<and> length (a_articles a) = 3 \<and> visible_articles a \<noteq> [] \<and>
     calm sample_env listed_inputs sample_start"
  by code_simp

theorem cursor_on_article_witness:
  "let a = fst (run sample_env listed_inputs sample_start)
   in thread (a_articles a) = Some (a_threads a) \<and> selected_article a \<noteq> None"
proof -
  obtain a rs files where r: "run sample_env listed_inputs sample_start = (a, rs, files)" by (metis prod_cases3)
  from cursor_on_article [OF r [unfolded sample_start_def]] listed_state r show ?thesis
    by (auto simp: sample_start_def Let_def)
qed

theorem folds_are_counted_witness:
  "let a = fst (run sample_env listed_inputs sample_start)
   in length (article_rows a) + sum_list (map row_hidden (article_rows a)) = 3"
proof -
  obtain a rs files where r: "run sample_env listed_inputs sample_start = (a, rs, files)" by (metis prod_cases3)
  from folds_are_counted [OF r [unfolded sample_start_def]] listed_state r show ?thesis
    by simp
qed

end
