(* ===== verification/Reader_Marks.thy ===== *)
theory Reader_Marks
  imports Reader_List Posting
begin

text \<open>
  What the reader records as read, and the templates it opens an editor on.
\<close>

section \<open>Read articles\<close>

lemma read_place: "place b = place a \<Longrightarrow> a_read b = a_read a"
  by (simp add: place_def listing_def)

lemma read_moves [simp]:
  "a_read (move_cursor E d a) = a_read a" "a_read (move_to_start a) = a_read a"
  "a_read (move_to_end E a) = a_read a" "a_read (toggle_unread_only a) = a_read a"
  "a_read (toggle_threading a) = a_read a" "a_read (toggle_fold_under_cursor a) = a_read a"
  "a_read (clamp_article_cursor a) = a_read a" "a_read (set_status s a) = a_read a"
  "a_read (absorb_overview records a) = a_read a" "a_read (answered a) = a_read a"
  by (simp_all add: move_cursor_def move_to_start_def move_to_end_def toggle_unread_only_def
      toggle_threading_def toggle_fold_under_cursor_def toggle_fold_def clamp_article_cursor_def
      set_status_def absorb_overview_def answered_def rebuild_threads_def move_group_cursor_def scroll_body_def Let_def
      split: pane.split option.split)

lemma read_requests:
  "step_article d a = (b, rs) \<Longrightarrow> a_read b = a_read a" "activate E a = (b, rs) \<Longrightarrow> a_read b = a_read a"
proof -
  show "step_article d a = (b, rs) \<Longrightarrow> a_read b = a_read a"
    by (auto simp: step_article_def Let_def split: if_splits dest!: requests_place(1) read_place)
  have o: "open_selected_group E a = (b, rs) \<Longrightarrow> a_read b = a_read a"
    by (auto simp: open_selected_group_def clear_list_def Let_def dest!: begin_place read_place
        simp: expect_answer_def split: option.splits if_splits prod.splits)
  show "activate E a = (b, rs) \<Longrightarrow> a_read b = a_read a"
    by (auto simp: activate_def scroll_body_def dest: o requests_place(1) [THEN read_place] split: pane.splits)
qed

definition M_key :: "key_event \<Rightarrow> app \<Rightarrow> bool" where
  "M_key k a \<longleftrightarrow> \<not> a_editing_filter a \<and> a_overlay a = NoOverlay \<and> key_code k = KChar ''M''"

definition c_key :: "key_event \<Rightarrow> app \<Rightarrow> bool" where
  "c_key k a \<longleftrightarrow> \<not> a_editing_filter a \<and> a_overlay a = NoOverlay \<and> key_code k = KChar ''c'' \<and> \<not> key_control k"

text \<open>The numbers of group \<open>g\<close> that are read after an input, from those that were before.\<close>

fun read_effect :: "ui_input \<Rightarrow> app \<Rightarrow> string \<Rightarrow> u64 set \<Rightarrow> u64 set" where
  "read_effect (Event (ArticleArrived art)) a g N =
     (case (a_group a, art_number art) of
        (Some s, Some n) \<Rightarrow> if a_mark_read_on_open a \<and> g = gn_str (gs_name s) then N \<union> ({n} - {0}) else N
      | _ \<Rightarrow> N)"
| "read_effect (Event (GroupOpened s)) a g N = (if g = gn_str (gs_name s) then N - {1..<gs_low s} else N)"
| "read_effect (Key k) a g N =
     (case a_group a of
        Some s \<Rightarrow>
          if g \<noteq> gn_str (gs_name s) then N
          else if M_key k a then
            (case selected_article a of
               Some r \<Rightarrow> if or_number r \<in> N then N - {or_number r} else N \<union> ({or_number r} - {0})
             | None \<Rightarrow> N)
          else if c_key k a then
            (case group_range s of Some (low, high) \<Rightarrow> N \<union> {max (min low high) 1 .. max low high} | None \<Rightarrow> N)
          else N
      | None \<Rightarrow> N)"
| "read_effect _ a g N = N"

lemma read_marks:
  assumes "store_inv s"
  shows "store_inv (mark_read g n s)" "store_members (mark_read g n s) g' = store_members s g' \<union> (if g' = g then {n} - {0} else {})"
    "store_inv (mark_unread g n s)" "store_members (mark_unread g n s) g' = store_members s g' - (if g' = g then {n} else {})"
    "store_inv (mark_range_read g l h s)"
    "store_members (mark_range_read g l h s) g' = store_members s g' \<union> (if g' = g then {max (min l h) 1 .. max l h} else {})"
  using store_read_set_inv [OF assms]
  by (simp_all add: mark_read_def mark_unread_def mark_range_read_def store_members_def update_entry_read
      update_entry_inv [OF assms] rs.inv_ins rs.mem_ins rs.inv_del rs.mem_del rs.inv_ins_range rs.mem_ins_range)

lemma forget_members:
  assumes "store_inv s"
  shows "store_members (forget_expired g low s) g' = store_members s g' - (if g' = g then {1..<low} else {})"
proof (cases "1 < low")
  case True
  with forget_expired_read [OF assms True, of g g'] show ?thesis
    by (simp add: store_members_def remove_range_below [OF store_read_set_inv [OF assms]])
next
  case False
  then have "{1..<low} = {}" by auto
  with False show ?thesis by (simp add: forget_expired_def not_less)
qed

lemma unread_iff: "store_inv (a_read a) \<Longrightarrow> a_group a = Some s \<Longrightarrow>
    is_unread a n \<longleftrightarrow> n \<notin> store_members (a_read a) (gn_str (gs_name s))"
  by (simp add: is_unread_def store_members_def rs.has_mem store_read_set_inv)

lemma toggle_read_effect:
  assumes "store_inv (a_read a)"
  shows "store_inv (a_read (toggle_read_under_cursor a))"
    "store_members (a_read (toggle_read_under_cursor a)) g =
      (case a_group a of
        Some s \<Rightarrow>
          if g \<noteq> gn_str (gs_name s) then store_members (a_read a) g
          else (case selected_article a of
               Some r \<Rightarrow> if or_number r \<in> store_members (a_read a) g then store_members (a_read a) g - {or_number r}
                 else store_members (a_read a) g \<union> ({or_number r} - {0})
             | None \<Rightarrow> store_members (a_read a) g)
      | None \<Rightarrow> store_members (a_read a) g)"
  using assms read_marks [OF assms] unread_iff [OF assms]
  by (auto simp: toggle_read_under_cursor_def Let_def split: option.split)

lemma catch_up_effect:
  assumes "store_inv (a_read a)"
  shows "store_inv (a_read (catch_up a))"
    "store_members (a_read (catch_up a)) g =
      (case a_group a of
        Some s \<Rightarrow>
          if g \<noteq> gn_str (gs_name s) then store_members (a_read a) g
          else (case group_range s of
              Some (low, high) \<Rightarrow> store_members (a_read a) g \<union> {max (min low high) 1 .. max low high}
            | None \<Rightarrow> store_members (a_read a) g)
      | None \<Rightarrow> store_members (a_read a) g)"
  using assms read_marks [OF assms]
  by (auto simp: catch_up_def Let_def split: option.split prod.split)

lemma quiet_key_effect:
  assumes "store_inv (a_read a)" "\<not> a_editing_filter a" "a_overlay a = NoOverlay" "k = key_code key"
    "key_code key = KChar ''c'' \<longrightarrow> \<not> key_control key"
  shows "store_inv (a_read (quiet_key E k (key_control key) a)) \<and>
    store_members (a_read (quiet_key E k (key_control key) a)) g = read_effect (Key key) a g (store_members (a_read a) g)"
proof -
  consider (M) "k = KChar ''M''" | (c) "k = KChar ''c''" | (other) "k \<noteq> KChar ''M''" "k \<noteq> KChar ''c''" by blast
  then show ?thesis
  proof cases
    case M
    then have "quiet_key E k (key_control key) a = toggle_read_under_cursor a" by (simp add: quiet_key_def)
    moreover have "M_key key a" using M assms by (simp add: M_key_def)
    ultimately show ?thesis using toggle_read_effect(1) [OF assms(1)] toggle_read_effect(2) [OF assms(1), of g] by (cases "a_group a") simp_all
  next
    case c
    then have "quiet_key E k (key_control key) a = catch_up a" by (simp add: quiet_key_def)
    moreover have "\<not> M_key key a" "c_key key a" using c assms by (simp_all add: M_key_def c_key_def)
    ultimately show ?thesis using catch_up_effect(1) [OF assms(1)] catch_up_effect(2) [OF assms(1), of g] by (cases "a_group a") simp_all
  next
    case other
    have same: "a_read (start_article a) = a_read a" "a_read (start_follow_up a) = a_read a" "a_read (escape a) = a_read a"
      by (rule read_place, simp)+
    have "a_read (quiet_key E k (key_control key) a) = a_read a"
      using other by (simp add: quiet_key_def same)
    with other assms show ?thesis by (simp add: M_key_def c_key_def split: option.split)
  qed
qed

lemma read_effect_key_cong:
  assumes "listing b = listing a" "a_article_cursor b = a_article_cursor a"
    "a_editing_filter b = a_editing_filter a" "a_overlay b = a_overlay a"
  shows "read_effect (Key k) b g N = read_effect (Key k) a g N"
proof -
  have "selected_article b = selected_article a" "a_group b = a_group a" "M_key k b = M_key k a" "c_key k b = c_key k a"
    using assms by (auto simp: place_def listing_def M_key_def c_key_def intro: place_views(3))
  then show ?thesis by (simp only: read_effect.simps)
qed

lemma on_key_effect:
  assumes "store_inv (a_read a)" "on_key E k a = (b, rs)"
  shows "store_inv (a_read b) \<and> store_members (a_read b) g = read_effect (Key k) a g (store_members (a_read a) g)"
proof -
  let ?a = "a\<lparr>a_dirty := True, a_error := None\<rparr>"
  have a: "a_read ?a = a_read a" by simp
  have e: "read_effect (Key k) ?a g N = read_effect (Key k) a g N" for N
    by (rule read_effect_key_cong) (simp_all add: listing_def)
  have keep: "store_inv (a_read b) \<and> store_members (a_read b) g = read_effect (Key k) a g (store_members (a_read a) g)"
    if "a_read b = a_read a" "\<not> M_key k a" "\<not> c_key k a"
    using that assms(1) by (simp split: option.split)
  consider (filter) "a_editing_filter a" "b = filter_key E (key_code k) ?a"
    | (overlay) "a_overlay a \<noteq> NoOverlay" "b = overlay_key (key_code k) ?a"
    | (quit) "key_control k" "key_code k = KChar ''c''" "(b, rs) = app_quit ?a"
    | (request) "key_code k \<in> {KChar ''q'', KChar ''r'', KEnter, KChar ''n'', KChar ''p'', KChar ''S''}" "plain_key E (key_code k) (key_control k) ?a = (b, rs)"
    | (quiet) "\<not> a_editing_filter a" "a_overlay a = NoOverlay" "key_code k = KChar ''c'' \<longrightarrow> \<not> key_control k"
        "b = quiet_key E (key_code k) (key_control k) ?a"
    using assms(2) by (auto simp: on_key_def plain_key_def Let_def split: if_splits)
  then show ?thesis
  proof cases
    case filter
    then show ?thesis using read_place [of "filter_key E (key_code k) ?a" ?a] by (intro keep) (simp_all add: M_key_def c_key_def)
  next
    case overlay
    then show ?thesis using read_place [of "overlay_key (key_code k) ?a" ?a] by (intro keep) (simp_all add: M_key_def c_key_def)
  next
    case quit
    then show ?thesis by (intro keep) (auto simp: app_quit_def M_key_def c_key_def)
  next
    case request
    then have "a_read b = a_read ?a"
      by (auto simp: plain_key_def dest: read_requests requests_place [THEN read_place] split: if_splits)
    with request(1) show ?thesis by (intro keep) (auto simp: M_key_def c_key_def)
  next
    case quiet
    with quiet_key_effect [of ?a "key_code k" k E g] assms(1) show ?thesis by (simp only: a e) simp
  qed
qed

lemma on_event_effect:
  assumes "store_inv (a_read a)" "on_event E ev a = (b, rs, gone)"
  shows "store_inv (a_read b) \<and> store_members (a_read b) g = read_effect (Event ev) a g (store_members (a_read a) g)"
proof -
  let ?a = "a\<lparr>a_dirty := True\<rparr>"
  note e = assms(2) [unfolded on_event_def Let_def quietly_def]
  have r: "a_read ?a = a_read a" "a_group ?a = a_group a" by simp_all
  show ?thesis
  proof (cases ev)
    case (GroupOpened s)
    then have "a_read b = forget_expired (gn_str (gs_name s)) (gs_low s) (a_read a)"
      using e by (auto simp: on_group_opened_def Let_def)
    with GroupOpened assms(1) show ?thesis by (simp add: forget_members forget_expired_inv)
  next
    case (ArticleArrived art)
    have "a_read b = (case (a_mark_read_on_open a, art_number art, a_group a) of
        (True, Some n, Some s) \<Rightarrow> mark_read (gn_str (gs_name s)) n (a_read a) | _ \<Rightarrow> a_read a)"
      using e ArticleArrived by (auto simp: on_article_def view_new_def answered_def Let_def split: bool.split option.split)
    with ArticleArrived assms(1) read_marks [OF assms(1)] show ?thesis
      by (auto split: bool.split option.split)
  next
    case (OverviewChunk g' t records skipped)
    have "a_read (on_overview_chunk g' t records skipped ?a) = a_read a"
      by (simp add: on_overview_chunk_def Let_def)
    with e OverviewChunk assms(1) show ?thesis by simp
  next
    case (Posted m)
    with e have "a_read b = a_read ?a" by (auto dest!: on_posted_place read_place)
    with Posted assms(1) show ?thesis by simp
  qed (use e assms(1) read_place [OF events_place(1)] read_place [OF events_place(2)] read_place [OF events_place(3)]
      read_place [OF events_place(4)] read_place [OF events_place(5)] read_place [OF events_place(6)]
      read_place [OF events_place(7)] in \<open>auto\<close>)
qed

text \<open>C14: The record of what has been read follows the reader's actions and nothing else.  Opening
  an article marks that article, when the reader is set to; opening a group forgets the numbers
  below its low mark; \<open>M\<close> flips the article under the cursor and \<open>c\<close> marks the whole group; every
  other key, event and edit leaves every group's record alone; and the record stays well formed.\<close>
theorem reading_is_recorded:
  assumes "store_inv (a_read a)" "feed E i a = (b, rs, gone)"
  shows "store_inv (a_read b) \<and>
    store_members (a_read b) g = read_effect i a g (store_members (a_read a) g)"
proof (cases i)
  case (Key k)
  with assms on_key_effect [of a E k b rs g] show ?thesis by (auto split: prod.splits)
next
  case (Event ev)
  with assms on_event_effect [of a E ev b rs gone g] show ?thesis by simp
next
  case (Composed c)
  with assms have "a_read b = a_read a" by (auto split: prod.splits dest: requests_place(6) [THEN read_place])
  with Composed assms(1) show ?thesis by simp
next
  case Tick
  with assms have "b = tick a" by simp
  with Tick assms(1) read_place [of "tick a" a] show ?thesis by simp
qed

text \<open>A reader with an article of the group under the cursor that is not read yet.\<close>

theorem reading_is_recorded_witness:
  "store_members (a_read (fst (feed sample_env (press (KChar ''c'')) sample_group))) ''a.b'' =
     store_members (a_read sample_group) ''a.b'' \<union> {1..9}"
proof -
  let ?i = "press (KChar ''c'')"
  obtain b rs gone where f: "feed sample_env ?i sample_group = (b, rs, gone)" by (metis prod_cases3)
  have r: "a_read sample_group = store_empty []" by code_simp
  have "store_inv (a_read sample_group)" unfolding r by simp
  note m = reading_is_recorded [OF this f, of "''a.b''"]
  have "read_effect ?i sample_group ''a.b'' N = N \<union> {1..9}" for N
  proof -
    have "a_group sample_group = Some sample_summary" "group_range sample_summary = Some (1, 9)"
      "gn_str (gs_name sample_summary) = ''a.b''"
      "\<not> a_editing_filter sample_group" "a_overlay sample_group = NoOverlay"
      by code_simp+
    then show ?thesis by (simp add: press_def M_key_def c_key_def)
  qed
  with m f show ?thesis by simp
qed

section \<open>Templates\<close>

lemma template_join:
  "hs \<noteq> [] \<Longrightarrow> concat (map (\<lambda>(n, v). n @ '': '' @ v @ [LF]) hs) = join [LF] (map header_line hs) @ [LF]"
proof (induction hs rule: induct_list012)
  case (3 x y zs)
  then show ?case by (cases x; cases y) (simp add: header_line_def)
qed (auto simp: header_line_def)

lemma template_parse:
  assumes "d_headers d \<noteq> []" "list_all plain_header (d_headers d)" "CR \<notin> set (d_body d)"
  shows "draft_parse (template_for d) = d"
  using draft_parse_written [OF assms] template_join [OF assms(1)] by (simp add: template_for_def)

text \<open>The editor opens on what the reader prepared.  The text of a draft reads back as that
  draft; and the draft of a new article, saved as it is, is not sent: its subject is missing.\<close>
theorem template_reads_back:
  assumes "d_headers d \<noteq> []" "list_all plain_header (d_headers d)" "CR \<notin> set (d_body d)"
  shows "draft_parse (template_for d) = d \<and>
    (header ''Subject'' d = Some [] \<longrightarrow> snd (on_composed (Some (template_for d, path)) a) = [])"
proof -
  have p: "draft_parse (template_for d) = d" by (rule template_parse [OF assms])
  have "problems d \<noteq> []" if "header ''Subject'' d = Some []"
  proof -
    have "header ''subject'' d = header ''Subject'' d"
    proof -
      have "to_ascii_lowercase ''subject'' = to_ascii_lowercase ''Subject''" by code_simp
      then have "header_is ''subject'' = header_is ''Subject''"
        by (simp add: header_is_def eq_ignore_ascii_case_def)
      then show ?thesis by (simp add: header_def)
    qed
    with that show ?thesis by (simp add: problems_def REQUIRED_def missing_def)
  qed
  with p show ?thesis by (simp add: on_composed_def Let_def)
qed

theorem template_reads_back_witness:
  "draft_parse (template_for \<lparr>d_headers = [(''From'', ''me''), (''Subject'', [])], d_body = []\<rparr>) =
     \<lparr>d_headers = [(''From'', ''me''), (''Subject'', [])], d_body = []\<rparr>"
proof -
  have "list_all plain_header [(''From'', ''me''), (''Subject'', [])]" by code_simp
  then show ?thesis
    using template_reads_back [of "\<lparr>d_headers = [(''From'', ''me''), (''Subject'', [])], d_body = []\<rparr>"] by simp
qed

section \<open>Corner cases\<close>

text \<open>Opening an empty group clears the list and keeps the group that was selected, so catching up
  marks the articles of that one.\<close>

lemma empty_group_keeps_the_old_one:
  assumes "a_focus a = GroupsPane" "selected_group E a = Some row" "row_is_empty row"
    and "a_group a = Some s" "group_range s = Some (low, high)"
  shows "a_read (catch_up (fst (activate E a))) = mark_range_read (gn_str (gs_name s)) low high (a_read a)"
  using assms by (simp add: activate_def open_selected_group_def clear_list_def set_status_def catch_up_def
      clamp_article_cursor_def Let_def)

text \<open>While the filter is edited, Control-C types a letter.\<close>

lemma control_c_types_while_filtering:
  assumes "a_editing_filter a" "\<not> a_should_quit a"
    and "on_key E \<lparr>key_code = KChar ''c'', key_control = True\<rparr> a = (b, rs)"
  shows "a_filter b = a_filter a @ ''c'' \<and> rs = [] \<and> \<not> a_should_quit b"
  using assms by (auto simp: on_key_def filter_key_def set_filter_def Let_def)

text \<open>A failure of another request is taken for the failure of the posting.\<close>

lemma unrelated_failure_disowns_draft:
  assumes "a_posting a = Some p"
    and "on_event E (Failed context message) a = (b, rs, gone)"
    and "on_event E (Posted answer) b = (c, rs', gone')"
  shows "''the article was not posted; the draft is at '' @ p \<in> set (a_messages b) \<and> gone' = None"
  using assms by (auto simp: on_event_def quietly_def on_failed_def report_unsent_draft_def add_note_def answered_def
      on_posted_def LOG_CAPACITY_def take_Suc_conv_app_nth Let_def split: option.splits)

end
