(* ===== verification/Worker.thy ===== *)
theory Worker
  imports Client Reader
begin

text \<open>
  \<open>crates/nntp-tui/src/tui/worker.rs\<close>: the network worker, which owns the client and answers
  requests with events.  \<open>session::connect\<close> is a parameter: what each attempt to connect gives, the
  client with what its coming looks at the cancellation flag see, or the text of the error.  The
  text of a client error and of the server's address are parameters too.  The worker keeps the
  events it has sent.
\<close>

record dial =
  dial_libs :: libs
  authority :: string
  dial_connect :: "nat \<Rightarrow> string + client \<times> cancel list"
  show_error :: "client_error \<Rightarrow> string"

record worker =
  overview_size :: u64
  w_client :: "client option"
  w_events :: "ui_event list"
  w_cancel :: cancel
  w_attempts :: nat

definition worker_new :: "u64 \<Rightarrow> worker" where
  "worker_new chunk = \<lparr>overview_size = max chunk 1, w_client = None, w_events = [],
     w_cancel = cancel_new, w_attempts = 0\<rparr>"

definition send_event :: "ui_event \<Rightarrow> (worker, unit) action" where
  "send_event e w = (Inr (), w\<lparr>w_events := w_events w @ [e]\<rparr>)"

definition dots :: string where
  "dots = [CHR 0xE2, CHR 0x80, CHR 0xA6]"

section \<open>The client\<close>

definition ensure_client :: "dial \<Rightarrow> (worker, unit) action" where
  "ensure_client D w =
     (if w_client w \<noteq> None then (Inr (), w)
      else
        and_then (send_event (Progress (''connecting to '' @ authority D @ dots))) (\<lambda>_ w.
          case dial_connect D (w_attempts w) of
            Inl e \<Rightarrow> (Inl (Tls e), w\<lparr>w_attempts := w_attempts w + 1\<rparr>)
          | Inr (c, seen) \<Rightarrow>
              and_then (send_event (Connected (authority D) (g_text (client_greeting c)) (encrypted c)))
                (\<lambda>_. modify (\<lambda>w. w\<lparr>w_attempts := w_attempts w + 1,
                  w_client := Some (c\<lparr>conn := set_cancel seen (conn c)\<rparr>)\<rparr>)) w) w)"

text \<open>\<open>self.client()?\<close> and a method of the client.\<close>

definition on_client :: "dial \<Rightarrow> (client, 'a) action \<Rightarrow> (worker, 'a) action" where
  "on_client D m =
     and_then (ensure_client D) (\<lambda>_ w.
       case w_client w of
         None \<Rightarrow> (Inl (ConnectionClosed (Some ''a connection that vanished'')), w)
       | Some c \<Rightarrow> (case m c of (r, c') \<Rightarrow> (r, w\<lparr>w_client := Some c'\<rparr>)))"

text \<open>A streaming method whose outcome is looked at rather than passed on.\<close>

definition outcome ::
  "(client \<Rightarrow> (client_error + unit) \<times> 'a \<times> client) \<Rightarrow> (client, (client_error + unit) \<times> 'a) action" where
  "outcome m c = (case m c of (r, acc, c') \<Rightarrow> (Inr (r, acc), c'))"

definition keep_entry :: "'e + string \<Rightarrow> 'e list \<Rightarrow> 'e list" where
  "keep_entry x acc = (case x of Inl entry \<Rightarrow> acc @ [entry] | Inr _ \<Rightarrow> acc)"

section \<open>Groups\<close>

text \<open>The loop of \<open>batch_patterns\<close>: the batches made, the current one and its length.\<close>

definition joined :: "wildmat list \<Rightarrow> wildmat option" where
  "joined ps = (case wildmat_join ps of Inr w \<Rightarrow> w | Inl _ \<Rightarrow> None)"

fun batch_loop :: "wildmat list \<Rightarrow> wildmat list \<Rightarrow> nat \<Rightarrow> wildmat option list" where
  "batch_loop [] current n = (if current \<noteq> [] then [joined current] else [])"
| "batch_loop (p # ps) current n =
     (let addition = length (wm_str p) + (if current \<noteq> [] then 1 else 0) in
      if current \<noteq> [] \<and> n + addition > WILDMAT_MAX_LEN
      then joined current # batch_loop ps [p] (length (wm_str p))
      else batch_loop ps (current @ [p]) (n + addition))"

definition batch_patterns :: "wildmat list \<Rightarrow> wildmat option list" where
  "batch_patterns ps =
     (if ps = [] then [None]
      else let batches = filter (\<lambda>b. b \<noteq> None) (batch_loop ps [] 0)
           in if batches = [] then [None] else batches)"

text \<open>Whether the worker itself keeps a group, when the server did not narrow the list.\<close>

definition kept_here :: "wildmat list \<Rightarrow> active_entry \<Rightarrow> bool" where
  "kept_here ps e \<longleftrightarrow> ps = [] \<or> list_ex (\<lambda>p. wildmat_matches p (gn_str (ae_name e))) ps"

definition list_all_and_filter :: "dial \<Rightarrow> wildmat list \<Rightarrow> (worker, active_entry list) action" where
  "list_all_and_filter D ps =
     and_then (send_event (Progress
       (''the server will not narrow the list; fetching all of it'' @ dots))) (\<lambda>_.
     and_then (on_client D (outcome (list_groups_streaming (dial_libs D) None keep_entry []))) (\<lambda>(r, entries) w.
       (map_res (\<lambda>_. filter (kept_here ps) entries) r, w)))"

text \<open>The first loop of \<open>load_groups\<close>: the groups so far, and whether they were filtered here.\<close>

fun active_loop ::
  "dial \<Rightarrow> wildmat list \<Rightarrow> wildmat option list \<Rightarrow> active_entry list \<Rightarrow> (worker, active_entry list \<times> bool) action" where
  "active_loop D ps [] active = ret (active, False)"
| "active_loop D ps (batch # batches) active =
     and_then (on_client D (outcome (list_groups_streaming (dial_libs D) batch keep_entry [])))
       (\<lambda>(r, entries).
          case r of
            Inr _ \<Rightarrow> active_loop D ps batches (active @ entries)
          | Inl e \<Rightarrow>
              if batch \<noteq> None \<and> \<not> is_connection_fatal e \<and> \<not> is_cancelled_error e
              then and_then (list_all_and_filter D ps) (\<lambda>found. ret (found, True))
              else raise e)"

text \<open>The second loop: the descriptions, the last one of a group.\<close>

definition describe_step :: "newsgroup_entry \<Rightarrow> (group_name \<rightharpoonup> string) \<Rightarrow> (group_name \<rightharpoonup> string)" where
  "describe_step e d = d(ne_name e \<mapsto> ne_description e)"

fun description_loop ::
  "dial \<Rightarrow> wildmat option list \<Rightarrow> (group_name \<rightharpoonup> string) \<Rightarrow> (worker, group_name \<rightharpoonup> string) action" where
  "description_loop D [] found = ret found"
| "description_loop D (batch # batches) found =
     and_then (on_client D (\<lambda>c. case list_group_descriptions (dial_libs D) batch c of (r, c') \<Rightarrow> (Inr r, c')))
       (\<lambda>r. case r of
              Inr listed \<Rightarrow> description_loop D batches (fold describe_step (lr_entries listed) found)
            | Inl e \<Rightarrow> if is_connection_fatal e then raise e else description_loop D batches found)"

definition group_row_of :: "(group_name \<rightharpoonup> string) \<Rightarrow> active_entry \<Rightarrow> group_row" where
  "group_row_of descriptions e = \<lparr>row_name = ae_name e, row_low = ae_low e, row_high = ae_high e,
     row_status = ae_status e, row_description = descriptions (ae_name e)\<rparr>"

definition load_groups :: "dial \<Rightarrow> group_scope \<Rightarrow> (worker, unit) action" where
  "load_groups D scope =
     (let ps = scope_patterns scope; batches = batch_patterns ps in
      and_then (send_event (Progress (''fetching '' @ scope_describe scope @ dots))) (\<lambda>_.
      and_then (active_loop D ps batches []) (\<lambda>(active, filtered_locally).
      and_then (description_loop D (if filtered_locally then [None] else batches) Map.empty) (\<lambda>descriptions.
        send_event (GroupsArrived
          (map (group_row_of descriptions) (dedup_by_key ae_name (sort_key ae_name active)))
          scope filtered_locally)))))"

section \<open>Articles\<close>

text \<open>The callback of a chunk collects its records and counts the lines that are none.\<close>

definition collect_record ::
  "overview_record + string \<Rightarrow> overview_record list \<times> nat \<Rightarrow> overview_record list \<times> nat" where
  "collect_record x = (\<lambda>(records, skipped).
     case x of Inl r \<Rightarrow> (records @ [r], skipped) | Inr _ \<Rightarrow> (records, skipped + 1))"

fun chunk_loop ::
  "dial \<Rightarrow> group_name \<Rightarrow> fetch_token \<Rightarrow> overview_fmt \<Rightarrow> nat \<Rightarrow> nat \<Rightarrow> art_range list \<Rightarrow> (worker, unit) action" where
  "chunk_loop D g token fmt n index [] = ret ()"
| "chunk_loop D g token fmt n index (chunk # chunks) =
     and_then (if n > 1
        then send_event (Progress (gn_str g @ '': fetching '' @ dec (index + 1) @ '' of '' @ dec n @ dots))
        else ret ()) (\<lambda>_.
     and_then (on_client D (outcome (overview_streaming (dial_libs D) chunk fmt collect_record ([], 0))))
       (\<lambda>(r, records, skipped).
          case r of
            Inl e \<Rightarrow> raise e
          | Inr _ \<Rightarrow>
              and_then (send_event (OverviewChunk g token (sort_key or_number records) skipped)) (\<lambda>_.
                chunk_loop D g token fmt n (index + 1) chunks)))"

definition fetch_overview :: "dial \<Rightarrow> group_name \<Rightarrow> art_range \<Rightarrow> fetch_token \<Rightarrow> (worker, unit) action" where
  "fetch_overview D g rng token w =
     (let chunks = range_chunks (overview_size w) rng in
      and_then (on_client D (overview_format (dial_libs D))) (\<lambda>fmt.
      and_then (chunk_loop D g token fmt (length chunks) 0 (rev chunks)) (\<lambda>_.
        send_event (OverviewComplete g token))) w)"

definition open_group :: "dial \<Rightarrow> group_name \<Rightarrow> u64 \<Rightarrow> fetch_token \<Rightarrow> (worker, unit) action" where
  "open_group D g n token =
     and_then (send_event (Progress (''selecting '' @ gn_str g @ dots))) (\<lambda>_.
     and_then (on_client D (select_group (dial_libs D) g)) (\<lambda>summary.
     and_then (send_event (GroupOpened summary)) (\<lambda>_.
       case group_range summary of
         None \<Rightarrow> send_event (OverviewComplete g token)
       | Some (low, high) \<Rightarrow>
           fetch_overview D g (between (max (sat_sub high (sat_sub n 1)) low) high) token)))"

text \<open>Selects the group unless it is the selected one.\<close>

definition reselect :: "dial \<Rightarrow> group_name \<Rightarrow> (worker, unit) action" where
  "reselect D g =
     and_then (on_client D (\<lambda>c. (Inr (map_option gs_name (selected c)), c))) (\<lambda>current.
       if current \<noteq> Some g then and_then (on_client D (select_group (dial_libs D) g)) (\<lambda>_. ret ())
       else ret ())"

definition load_overview :: "dial \<Rightarrow> group_name \<Rightarrow> art_range \<Rightarrow> fetch_token \<Rightarrow> (worker, unit) action" where
  "load_overview D g rng token = and_then (reselect D g) (\<lambda>_. fetch_overview D g rng token)"

definition load_article :: "dial \<Rightarrow> group_name option \<Rightarrow> article_spec \<Rightarrow> (worker, unit) action" where
  "load_article D grp spec =
     and_then (case grp of Some g \<Rightarrow> reselect D g | None \<Rightarrow> ret ()) (\<lambda>_.
     and_then (send_event (Progress (''fetching the article'' @ dots))) (\<lambda>_.
     and_then (on_client D (fetch_article (dial_libs D) spec)) (\<lambda>art.
       send_event (ArticleArrived art))))"

definition post_draft :: "dial \<Rightarrow> draft \<Rightarrow> (worker, unit) action" where
  "post_draft D d =
     and_then (send_event (Progress (''offering the article'' @ dots))) (\<lambda>_.
     and_then (on_client D (post (dial_libs D) d)) (\<lambda>answer.
       send_event (Posted answer)))"

section \<open>Requests\<close>

fun describe_request :: "ui_request \<Rightarrow> string" where
  "describe_request (LoadGroups scope) = ''fetching '' @ scope_describe scope"
| "describe_request (OpenGroup g n t) = ''opening '' @ gn_str g"
| "describe_request (LoadOverview g rng t) = ''listing '' @ gn_str g @ '' '' @ range_to_argument rng"
| "describe_request (LoadArticle g (SpecNumber n)) = ''fetching article '' @ u64_to_string n"
| "describe_request (LoadArticle g (SpecMessageId m)) = ''fetching '' @ mid_str m"
| "describe_request (LoadArticle g SpecCurrent) = ''fetching the current article''"
| "describe_request (PostDraft d) = ''posting to '' @ join '', '' (draft_newsgroups d)"
| "describe_request Shutdown = ''shutting down''"

fun attempt :: "dial \<Rightarrow> ui_request \<Rightarrow> (worker, unit) action" where
  "attempt D (LoadGroups scope) = load_groups D scope"
| "attempt D (OpenGroup g n t) = open_group D g n t"
| "attempt D (LoadOverview g rng t) = load_overview D g rng t"
| "attempt D (LoadArticle g spec) = load_article D g spec"
| "attempt D (PostDraft d) = post_draft D d"
| "attempt D Shutdown = ret ()"

definition drop_client :: "worker \<Rightarrow> worker" where
  "drop_client w = w\<lparr>w_client := None\<rparr>"

definition send_all :: "ui_event list \<Rightarrow> worker \<Rightarrow> worker" where
  "send_all es w = w\<lparr>w_events := w_events w @ es\<rparr>"

definition dispatch :: "dial \<Rightarrow> ui_request \<Rightarrow> worker \<Rightarrow> worker" where
  "dispatch D request w =
     (case attempt D request w of
        (Inr _, w') \<Rightarrow> w'
      | (Inl e, w') \<Rightarrow>
          let context = describe_request request in
          if is_cancelled_error e then send_all [RequestCancelled context] (drop_client w')
          else if is_connection_fatal e
          then send_all [Disconnected (show_error D e)]
            (drop_client (send_all [Failed context (show_error D e)] w'))
          else send_all [Failed context (show_error D e)] w')"

definition handle :: "dial \<Rightarrow> ui_request \<Rightarrow> worker \<Rightarrow> worker" where
  "handle D request w = (dispatch D request w)\<lparr>w_cancel := cancel_reset (w_cancel w)\<rparr>"

definition stop :: "dial \<Rightarrow> worker \<Rightarrow> worker" where
  "stop D w =
     send_all [Stopped]
       (case w_client w of
          None \<Rightarrow> w
        | Some c \<Rightarrow> (case quit (dial_libs D) c of (_, c') \<Rightarrow> w\<lparr>w_client := None\<rparr>))"

text \<open>The requests of the channel, until it closes.\<close>

fun worker_run :: "dial \<Rightarrow> ui_request list \<Rightarrow> worker \<Rightarrow> worker" where
  "worker_run D [] w = stop D w"
| "worker_run D (r # rs) w = (if r = Shutdown then stop D w else worker_run D rs (handle D r w))"

end
