(* ===== verification/Worker_Run.thy ===== *)
theory Worker_Run
  imports Worker Reader_List Sample_Libs
begin

text \<open>
  What the worker promises to the interface, and the two together: the interface asks, the worker
  answers every request once, and events reach the interface in the order they were sent.
\<close>

section \<open>Answers\<close>

definition settled :: "ui_event list \<Rightarrow> nat" where
  "settled es = sum_list (map settles es)"

lemma settled_simps [simp]:
  "settled [] = 0" "settled (e # es) = settles e + settled es" "settled (es @ fs) = settled es + settled fs"
  by (simp_all add: settled_def)

text \<open>The events that answer a request that does not fail: they carry the group, the token and
  the scope of the request, and the records of a chunk are in order.\<close>

fun echoes :: "ui_request \<Rightarrow> ui_event \<Rightarrow> bool" where
  "echoes r (Progress m) \<longleftrightarrow> True"
| "echoes r (Connected server greet enc) \<longleftrightarrow> True"
| "echoes r (GroupsArrived rows scope l) \<longleftrightarrow> r = LoadGroups scope"
| "echoes r (GroupOpened s) \<longleftrightarrow> (\<exists>g n t. r = OpenGroup g n t)"
| "echoes r (OverviewChunk g t records n) \<longleftrightarrow>
     ((\<exists>m. r = OpenGroup g m t) \<or> (\<exists>rng. r = LoadOverview g rng t)) \<and> sorted_list records"
| "echoes r (OverviewComplete g t) \<longleftrightarrow> (\<exists>m. r = OpenGroup g m t) \<or> (\<exists>rng. r = LoadOverview g rng t)"
| "echoes r (ArticleArrived a) \<longleftrightarrow> (\<exists>g spec. r = LoadArticle g spec)"
| "echoes r (Posted m) \<longleftrightarrow> (\<exists>d. r = PostDraft d)"
| "echoes r _ \<longleftrightarrow> False"

definition answers :: "ui_request \<Rightarrow> nat \<Rightarrow> (worker, 'a) action \<Rightarrow> bool" where
  "answers q n m \<longleftrightarrow> (\<forall>w r w'. m w = (r, w') \<longrightarrow>
     (\<exists>es. w_events w' = w_events w @ es \<and> list_all (echoes q) es \<and>
        settled es = (case r of Inl _ \<Rightarrow> 0 | Inr _ \<Rightarrow> n)))"

lemma answersI:
  "(\<And>w r w'. m w = (r, w') \<Longrightarrow> \<exists>es. w_events w' = w_events w @ es \<and> list_all (echoes q) es \<and>
     settled es = (case r of Inl _ \<Rightarrow> 0 | Inr _ \<Rightarrow> n)) \<Longrightarrow> answers q n m"
  by (simp add: answers_def)

lemma answersD:
  "answers q n m \<Longrightarrow> m w = (r, w') \<Longrightarrow> \<exists>es. w_events w' = w_events w @ es \<and> list_all (echoes q) es \<and>
     settled es = (case r of Inl _ \<Rightarrow> 0 | Inr _ \<Rightarrow> n)"
  by (simp add: answers_def)

named_theorems answering \<open>how many requests an action of the worker settles\<close>

lemma answers_then [answering]:
  assumes "answers q 0 m" "\<And>x. answers q n (f x)"
  shows "answers q n (and_then m f)"
proof (rule answersI)
  fix w r w' assume "and_then m f w = (r, w')"
  then show "\<exists>es. w_events w' = w_events w @ es \<and> list_all (echoes q) es \<and>
     settled es = (case r of Inl _ \<Rightarrow> 0 | Inr _ \<Rightarrow> n)"
  proof (cases rule: and_then_cases)
    case (failed e)
    with answersD [OF assms(1) failed(1)] show ?thesis by simp
  next
    case (continued x w1)
    obtain es where es: "w_events w1 = w_events w @ es" "list_all (echoes q) es" "settled es = 0"
      using answersD [OF assms(1) continued(1)] by auto
    obtain fs where "w_events w' = w_events w1 @ fs" "list_all (echoes q) fs"
        "settled fs = (case r of Inl _ \<Rightarrow> 0 | Inr _ \<Rightarrow> n)"
      using answersD [OF assms(2) continued(2)] by blast
    with es show ?thesis by (intro exI [of _ "es @ fs"]) simp
  qed
qed

lemma answers_basic [answering]:
  "answers q 0 (ret x)" "answers q n (raise e)"
  "(\<And>w. w_events (f w) = w_events w) \<Longrightarrow> answers q 0 (modify f)"
  by (auto simp: answers_def modify_def)

lemma answers_send [answering]: "echoes q e \<Longrightarrow> n = settles e \<Longrightarrow> answers q n (send_event e)"
  by (auto simp: answers_def send_event_def)

lemma answers_ensure [answering]: "answers q 0 (ensure_client D)"
proof (rule answersI)
  fix w r w' assume e: "ensure_client D w = (r, w')"
  show "\<exists>es. w_events w' = w_events w @ es \<and> list_all (echoes q) es \<and>
     settled es = (case r of Inl _ \<Rightarrow> 0 | Inr _ \<Rightarrow> 0)"
    using e by (auto simp: ensure_client_def send_event_def modify_def and_then_def
        split: if_splits sum.splits prod.splits)
qed

lemma answers_client [answering]: "answers q 0 (on_client D m)"
  unfolding on_client_def
  by (intro answers_then answers_ensure) (auto simp: answers_def split: option.splits prod.splits)

lemma answers_pure [answering]: "answers q 0 (\<lambda>w. (g w, w))"
  by (auto simp: answers_def split: sum.split)

lemma answers_list_all [answering]: "answers q 0 (list_all_and_filter D ps)"
  unfolding list_all_and_filter_def
  by (intro answering) (auto simp: answers_def case_prod_beta split: sum.split)

lemma answers_active [answering]: "answers q 0 (active_loop D ps batches active)"
proof (induction batches arbitrary: active)
  case (Cons batch batches)
  then show ?case by (auto intro!: answering split: sum.split prod.split)
qed (simp add: answering)

lemma answers_descriptions [answering]: "answers q 0 (description_loop D batches found)"
proof (induction batches arbitrary: found)
  case (Cons batch batches)
  then show ?case by (auto intro!: answering split: sum.split)
qed (simp add: answering)

lemma answers_groups: "answers (LoadGroups scope) 1 (load_groups D scope)"
  unfolding load_groups_def Let_def
  by (auto intro!: answering split: prod.split)

text \<open>A request for an overview of group \<open>g\<close> under token \<open>t\<close>.\<close>

definition asks_overview :: "group_name \<Rightarrow> fetch_token \<Rightarrow> ui_request \<Rightarrow> bool" where
  "asks_overview g t r \<longleftrightarrow> (\<exists>m. r = OpenGroup g m t) \<or> (\<exists>rng. r = LoadOverview g rng t)"

lemma answers_chunks:
  "asks_overview g t q \<Longrightarrow> answers q 0 (chunk_loop D g t fmt n i chunks)"
proof (induction chunks arbitrary: i)
  case (Cons chunk chunks)
  then show ?case
    by (auto intro!: answering simp: asks_overview_def sorted_list_def split: sum.split prod.split)
qed (simp add: answering)

lemma answers_fetch: "asks_overview g t q \<Longrightarrow> answers q 1 (fetch_overview D g rng t)"
proof -
  assume a: "asks_overview g t q"
  have "answers q 1 (and_then (on_client D (overview_format (dial_libs D))) (\<lambda>fmt.
      and_then (chunk_loop D g t fmt (length cs) 0 (rev cs)) (\<lambda>_. send_event (OverviewComplete g t))))" for cs
    using a by (intro answering answers_chunks) (auto simp: asks_overview_def)
  then show ?thesis by (simp add: answers_def fetch_overview_def Let_def)
qed

lemma answers_reselect [answering]: "answers q 0 (reselect D g)"
  unfolding reselect_def by (auto intro!: answering)

lemma attempt_answers: "r \<noteq> Shutdown \<Longrightarrow> answers r 1 (attempt D r)"
proof (cases r)
  case (LoadGroups scope)
  then show ?thesis using answers_groups by simp
next
  case (OpenGroup g n t)
  then have "asks_overview g t r" by (simp add: asks_overview_def)
  with OpenGroup show ?thesis
    by (auto simp: open_group_def simp del: One_nat_def intro!: answering answers_fetch split: option.split)
next
  case (LoadOverview g rng t)
  then have "asks_overview g t r" by (simp add: asks_overview_def)
  with LoadOverview show ?thesis by (auto simp: load_overview_def simp del: One_nat_def intro!: answering answers_fetch)
next
  case (LoadArticle g spec)
  then show ?thesis by (auto simp: load_article_def intro!: answering split: option.split)
next
  case (PostDraft d)
  then show ?thesis by (auto simp: post_draft_def intro!: answering)
qed simp

text \<open>How a request can fail: cancelled, refused, or with the connection lost.\<close>

definition failures :: "ui_request \<Rightarrow> ui_event list \<Rightarrow> bool" where
  "failures r es \<longleftrightarrow> es = [RequestCancelled (describe_request r)] \<or>
     (\<exists>m. es = [Failed (describe_request r) m] \<or> es = [Failed (describe_request r) m, Disconnected m])"

lemma echoes_no_loss: "echoes r e \<Longrightarrow> \<not> loses_link e"
  by (cases e) auto

lemma failures_settled: "failures r es \<Longrightarrow> settled es = 1"
  by (auto simp: failures_def)

lemma handle_answers:
  assumes "r \<noteq> Shutdown"
  shows "\<exists>es fs. w_events (handle D r w) = w_events w @ es @ fs \<and> list_all (echoes r) es \<and>
    (fs = [] \<and> settled es = 1 \<or> failures r fs \<and> settled es = 0) \<and>
    (list_ex loses_link fs \<longrightarrow> w_client (handle D r w) = None)"
proof -
  obtain res w1 where a: "attempt D r w = (res, w1)" by fastforce
  obtain es where es: "w_events w1 = w_events w @ es" "list_all (echoes r) es"
    "settled es = (case res of Inl _ \<Rightarrow> 0 | Inr _ \<Rightarrow> 1)"
    using answersD [OF attempt_answers [OF assms] a] by blast
  show ?thesis
  proof (cases res)
    case (Inr u)
    with a es show ?thesis
      by (intro exI [of _ es] exI [of _ "[]"]) (simp add: handle_def dispatch_def)
  next
    case (Inl e)
    have "\<exists>fs. w_events (handle D r w) = w_events w @ es @ fs \<and> failures r fs \<and>
        (list_ex loses_link fs \<longrightarrow> w_client (handle D r w) = None)"
      using a es(1) Inl
      by (auto simp: handle_def dispatch_def Let_def send_all_def drop_client_def failures_def)
    then obtain fs where "w_events (handle D r w) = w_events w @ es @ fs" "failures r fs"
      "list_ex loses_link fs \<longrightarrow> w_client (handle D r w) = None" by blast
    with es(2,3) Inl show ?thesis by (intro exI [of _ es] exI [of _ fs]) simp
  qed
qed

section \<open>The interface and the worker\<close>

text \<open>The channels hold what was sent and not yet taken.  A request is handled in one step: its
  events wait in the channel, so whatever the user does between two of them is a run here too.\<close>

record reader_system =
  sy_app :: app
  sy_requests :: "ui_request list"
  sy_worker :: worker
  sy_events :: "ui_event list"
  sy_lost :: bool

definition system_start :: "app \<Rightarrow> u64 \<Rightarrow> reader_system" where
  "system_start a chunk =
     (case initial_requests a of (b, rs) \<Rightarrow>
        \<lparr>sy_app = b, sy_requests = rs, sy_worker = worker_new chunk, sy_events = [], sy_lost = False\<rparr>)"

definition after_worker :: "dial \<Rightarrow> ui_request \<Rightarrow> ui_request list \<Rightarrow> reader_system \<Rightarrow> reader_system" where
  "after_worker D r rest s =
     (let w = handle D r (sy_worker s)
      in s\<lparr>sy_requests := rest, sy_worker := w,
           sy_events := sy_events s @ drop (length (w_events (sy_worker s))) (w_events w)\<rparr>)"

text \<open>One step: the user or the editor or the clock, the worker, or an event arriving.  \<open>sy_lost\<close>
  remembers whether the link was ever reported lost.\<close>

inductive system_step :: "ui_env \<Rightarrow> dial \<Rightarrow> reader_system \<Rightarrow> reader_system \<Rightarrow> bool" for E D where
  user: "feed E i (sy_app s) = (b, rs, gone) \<Longrightarrow> (\<nexists>ev. i = Event ev) \<Longrightarrow>
    system_step E D s (s\<lparr>sy_app := b, sy_requests := sy_requests s @ rs\<rparr>)"
| work: "sy_requests s = r # rest \<Longrightarrow> r \<noteq> Shutdown \<Longrightarrow> system_step E D s (after_worker D r rest s)"
| arrive: "sy_events s = ev # evs \<Longrightarrow> feed E (Event ev) (sy_app s) = (b, rs, gone) \<Longrightarrow>
    system_step E D s (s\<lparr>sy_app := b, sy_requests := sy_requests s @ rs, sy_events := evs,
      sy_lost := (sy_lost s \<or> loses_link ev)\<rparr>)"

inductive_cases system_stepE: "system_step E D s t"

inductive reachable :: "ui_env \<Rightarrow> dial \<Rightarrow> reader_system \<Rightarrow> reader_system \<Rightarrow> bool" for E D s0 where
  start: "reachable E D s0 s0"
| step: "reachable E D s0 s \<Longrightarrow> system_step E D s t \<Longrightarrow> reachable E D s0 t"

text \<open>What is not answered yet.\<close>

definition outstanding :: "reader_system \<Rightarrow> nat" where
  "outstanding s = awaited (sy_requests s) + settled (sy_events s)"

definition chunks_sorted :: "ui_event \<Rightarrow> bool" where
  "chunks_sorted e \<longleftrightarrow> (\<forall>g t records n. e = OverviewChunk g t records n \<longrightarrow> sorted_list records)"

definition system_ok :: "reader_system \<Rightarrow> bool" where
  "system_ok s \<longleftrightarrow> a_inflight (sy_app s) \<le> outstanding s \<and>
     (\<not> sy_lost s \<and> \<not> list_ex loses_link (sy_events s) \<longrightarrow> a_inflight (sy_app s) = outstanding s) \<and>
     sorted_list (a_articles (sy_app s)) \<and> list_all chunks_sorted (sy_events s)"

lemma echoes_chunks_sorted: "echoes r e \<Longrightarrow> chunks_sorted e"
  by (cases e) (auto simp: chunks_sorted_def)

lemma failures_chunks_sorted: "failures r es \<Longrightarrow> list_all chunks_sorted es"
  by (auto simp: failures_def chunks_sorted_def)

text \<open>The list changes only by a chunk that is accepted, or is cleared.\<close>

lemma articles_place: "place b = place a \<Longrightarrow> a_articles b = a_articles a"
  by (simp add: place_def listing_def)

lemma articles_books: "books b = books a \<Longrightarrow> a_articles b = a_articles a"
  by (simp add: books_def)

lemma articles_status [simp]: "a_articles (set_status m a) = a_articles a"
  by (rule articles_place) simp

lemmas requests_articles = requests_place [THEN articles_place]

lemmas events_articles = events_place [THEN articles_place]

lemma keys_articles [simp]:
  "a_articles (quiet_key E c ctl a) = a_articles a" "a_articles (filter_key E c a) = a_articles a"
  "a_articles (overlay_key c a) = a_articles a"
  by (rule articles_books, simp)+

lemma step_articles: "step_article d a = (b, rs) \<Longrightarrow> a_articles b = a_articles a"
  by (auto simp: step_article_def Let_def split: if_splits dest!: requests_articles(1))

lemma activate_articles: "activate E a = (b, rs) \<Longrightarrow> a_articles b = a_articles a \<or> a_articles b = []"
  by (auto simp: activate_def open_selected_group_def clear_list_def scroll_body_def expect_answer_def Let_def
      dest!: requests_articles(1) begin_place [THEN articles_place]
      split: pane.splits option.splits if_splits prod.splits)

lemma plain_key_articles:
  "plain_key E k ctl a = (b, rs) \<Longrightarrow> a_articles b = a_articles a \<or> a_articles b = []"
  by (auto simp: plain_key_def dest: requests_articles step_articles activate_articles split: if_splits)

lemma on_key_articles:
  assumes "on_key E k a = (b, rs)" shows "a_articles b = a_articles a \<or> a_articles b = []"
proof -
  have "a_articles b = a_articles (a\<lparr>a_dirty := True, a_error := None\<rparr>) \<or> a_articles b = []"
    using assms by (auto simp: on_key_def Let_def dest: plain_key_articles requests_articles(5) split: if_splits)
  then show ?thesis by simp
qed

lemma article_articles: "a_articles (on_article E art a) = a_articles a"
  by (auto simp: on_article_def answered_def Let_def split: bool.split option.split)

lemma chunk_articles:
  "a_articles (on_overview_chunk g t records n a) = a_articles a \<or>
   a_articles (on_overview_chunk g t records n a) = merge_overview records (a_articles a)"
  by (auto simp: on_overview_chunk_def Let_def absorb_articles)

lemma on_event_articles:
  assumes "on_event E ev a = (b, rs, gone)"
  shows "a_articles b = a_articles a \<or>
    (\<exists>g t records n. ev = OverviewChunk g t records n \<and> a_articles b = merge_overview records (a_articles a))"
proof -
  let ?a = "a\<lparr>a_dirty := True\<rparr>"
  note e = assms [unfolded on_event_def Let_def quietly_def]
  show ?thesis
  proof (cases ev)
    case (OverviewChunk g t records n)
    with e chunk_articles [of g t records n ?a] show ?thesis by auto
  next
    case (Posted m)
    with e have "place b = place ?a" by (auto dest: on_posted_place)
    from articles_place [OF this] show ?thesis by simp
  qed (use e in \<open>auto simp: events_articles article_articles on_group_opened_def Let_def\<close>)
qed

lemma feed_articles:
  assumes "feed E i a = (b, rs, gone)" "sorted_list (a_articles a)" "\<And>ev. i = Event ev \<Longrightarrow> chunks_sorted ev"
  shows "sorted_list (a_articles b)"
proof -
  have keep: ?thesis if "a_articles b = a_articles a \<or> a_articles b = []"
    using that assms(2) by (auto simp: sorted_list_def)
  show ?thesis
  proof (cases i)
    case (Key k)
    with assms(1) on_key_articles [of E k a b rs] keep show ?thesis by (auto split: prod.splits)
  next
    case (Composed c)
    with assms(1) have "place b = place a" by (auto split: prod.splits dest: requests_place(6))
    with keep articles_place show ?thesis by blast
  next
    case Tick
    with assms(1) keep articles_place [of "tick a" a] show ?thesis by auto
  next
    case (Event ev)
    with assms(1) have "on_event E ev a = (b, rs, gone)" by simp
    from on_event_articles [OF this] keep merge_sorted [OF _ assms(2)] assms(3) Event show ?thesis
      by (auto simp: chunks_sorted_def)
  qed
qed

lemma feed_outstanding:
  assumes "feed E i a = (b, rs, gone)" "a_inflight a \<le> n + (case i of Event ev \<Rightarrow> settles ev | _ \<Rightarrow> 0)"
  shows "a_inflight b \<le> n + awaited rs"
    and "a_inflight a = n + (case i of Event ev \<Rightarrow> settles ev | _ \<Rightarrow> 0) \<Longrightarrow>
      (\<And>ev. i = Event ev \<Longrightarrow> \<not> loses_link ev) \<Longrightarrow> a_inflight b = n + awaited rs"
  using feed_counts(2) [OF assms(1)] assms(2) by (auto simp: inflight_after_def split: ui_input.splits)

lemma system_step_ok: "system_step E D s t \<Longrightarrow> system_ok s \<Longrightarrow> system_ok t"
proof (induction rule: system_step.induct)
  case (user i s b rs gone)
  have i: "(case i of Event ev \<Rightarrow> settles ev | _ \<Rightarrow> 0) = 0" using user(2) by (cases i) auto
  have "\<And>ev. i = Event ev \<Longrightarrow> chunks_sorted ev" "\<And>ev. i = Event ev \<Longrightarrow> \<not> loses_link ev" using user(2) by blast+
  with user feed_outstanding [OF user(1), of "outstanding s"] feed_articles [OF user(1)] i show ?case
    by (auto simp: system_ok_def outstanding_def)
next
  case (work s r rest)
  obtain es fs where h: "w_events (handle D r (sy_worker s)) = w_events (sy_worker s) @ es @ fs"
    "list_all (echoes r) es" "fs = [] \<and> settled es = 1 \<or> failures r fs \<and> settled es = 0"
    using handle_answers [OF work(2), of D "sy_worker s"] by blast
  have one: "settled (es @ fs) = 1" using h(3) failures_settled [of r fs] by auto
  have "list_all chunks_sorted (es @ fs)"
    using h(2,3) by (auto simp: list_all_iff intro: echoes_chunks_sorted dest!: failures_chunks_sorted)
  with one h(1) work show ?case
    by (auto simp: system_ok_def outstanding_def after_worker_def Let_def)
next
  case (arrive s ev evs b rs gone)
  let ?n = "awaited (sy_requests s) + settled evs"
  have n: "outstanding s = ?n + settles ev" using arrive(1) by (simp add: outstanding_def)
  have "chunks_sorted ev" using arrive by (simp add: system_ok_def)
  with feed_outstanding [OF arrive(2), of ?n] feed_articles [OF arrive(2)] n arrive(1,3) show ?case
    by (auto simp: system_ok_def outstanding_def)
qed

lemma system_start_ok: "a_articles a = [] \<Longrightarrow> a_inflight a = 0 \<Longrightarrow> system_ok (system_start a chunk)"
  by (simp add: system_start_def initial_requests_def expect_answer_def system_ok_def outstanding_def
      sorted_list_def Let_def)

lemma reachable_ok: "reachable E D s0 s \<Longrightarrow> system_ok s0 \<Longrightarrow> system_ok s"
  by (induction rule: reachable.induct) (auto intro: system_step_ok)

section \<open>Properties\<close>

text \<open>C11: Every request is answered once.  Whatever the server does, handling a request sends
  events of that request (with its group, token and scope, and the records of a chunk in order),
  of which exactly one says that it is settled: the last success, or a failure that names the
  request; and when the link is reported lost the client has been dropped.\<close>
theorem worker_answers_once:
  assumes "r \<noteq> Shutdown"
  shows "\<exists>es fs. w_events (handle D r w) = w_events w @ es @ fs \<and> list_all (echoes r) es \<and>
    settled (es @ fs) = 1 \<and> (fs = [] \<or> failures r fs) \<and>
    (list_ex loses_link (es @ fs) \<longrightarrow> w_client (handle D r w) = None)"
proof -
  obtain es fs where h: "w_events (handle D r w) = w_events w @ es @ fs" "list_all (echoes r) es"
    "fs = [] \<and> settled es = 1 \<or> failures r fs \<and> settled es = 0"
    "list_ex loses_link fs \<longrightarrow> w_client (handle D r w) = None"
    using handle_answers [OF assms, of D w] by blast
  have "\<not> list_ex loses_link es" using h(2) by (auto simp: list_ex_iff list_all_iff dest: echoes_no_loss)
  with h failures_settled [of r fs] show ?thesis by (intro exI [of _ es] exI [of _ fs]) auto
qed

text \<open>C10: The reader knows what it is waiting for.  However the user, the worker and the channels
  take turns, the count of outstanding requests is never more than what is still to be answered,
  and is exactly that as long as the link was not lost, so the spinner stops when, and only when,
  everything has been answered; and the article list is in the order of its numbers.\<close>
theorem inflight_is_outstanding:
  assumes "reachable E D
    (system_start ((app_new config read)\<lparr>a_subscriptions := subscriptions, a_from := sender\<rparr>) chunk) s"
  shows "a_inflight (sy_app s) \<le> outstanding s \<and>
    (\<not> sy_lost s \<and> \<not> list_ex loses_link (sy_events s) \<longrightarrow> a_inflight (sy_app s) = outstanding s) \<and>
    sorted_list (a_articles (sy_app s))"
  using reachable_ok [OF assms system_start_ok] by (simp add: system_ok_def app_new_def)

definition deaf_dial :: dial where
  "deaf_dial = \<lparr>dial_libs = sample_libs, authority = ''news'', dial_connect = (\<lambda>_. Inl ''refused''),
     show_error = (\<lambda>_. ''refused'')\<rparr>"

definition deaf_answer :: "ui_event list" where
  "deaf_answer = [Progress (''fetching the group list'' @ dots), Progress (''connecting to news'' @ dots),
     Failed ''fetching the group list'' ''refused'', Disconnected ''refused'']"

lemma deaf_events: "w_events (handle deaf_dial (LoadGroups everything) (worker_new 500)) = deaf_answer"
proof -
  have "attempt deaf_dial (LoadGroups everything) (worker_new 500) =
      (Inl (Tls ''refused''), (worker_new 500)\<lparr>w_events := take 2 deaf_answer, w_attempts := 1\<rparr>)"
    by (simp add: load_groups_def everything_def batch_patterns_def and_then_def send_event_def deaf_answer_def
      on_client_def ensure_client_def worker_new_def deaf_dial_def Let_def)
  then show ?thesis
    by (simp add: handle_def dispatch_def deaf_answer_def send_all_def drop_client_def deaf_dial_def everything_def)
qed

theorem worker_answers_once_witness:
  "\<exists>es fs. deaf_answer = es @ fs \<and> settled (es @ fs) = 1 \<and> failures (LoadGroups everything) fs"
proof -
  have w: "w_events (worker_new 500) = []" by (simp add: worker_new_def)
  obtain es fs where h: "deaf_answer = es @ fs" "settled (es @ fs) = 1"
    "fs = [] \<or> failures (LoadGroups everything) fs" "list_all (echoes (LoadGroups everything)) es"
    using worker_answers_once [of "LoadGroups everything" deaf_dial "worker_new 500"]
    unfolding deaf_events w append_Nil by blast
  have "Disconnected ''refused'' \<in> set deaf_answer" by (simp add: deaf_answer_def)
  moreover have "\<not> echoes (LoadGroups everything) (Disconnected ''refused'')" by simp
  ultimately have "fs \<noteq> []" using h(1,4) by (auto simp: list_all_iff simp del: echoes.simps)
  with h show ?thesis by blast
qed

definition deaf_start :: reader_system where
  "deaf_start = system_start
     ((app_new ui_config_default (store_empty []))\<lparr>a_subscriptions := [], a_from := None\<rparr>) 500"

theorem inflight_is_outstanding_witness:
  "\<exists>s. reachable sample_env deaf_dial deaf_start s \<and> sy_requests s = [] \<and> sy_events s = deaf_answer \<and>
     a_inflight (sy_app s) \<le> 1"
proof -
  let ?s = "after_worker deaf_dial (LoadGroups everything) [] deaf_start"
  have r: "sy_requests deaf_start = [LoadGroups everything]" "sy_worker deaf_start = worker_new 500"
    "sy_events deaf_start = []"
    by (simp_all add: deaf_start_def system_start_def initial_requests_def app_new_def expect_answer_def
        everything_def Let_def)
  have "system_step sample_env deaf_dial deaf_start ?s" by (rule system_step.work [OF r(1)]) simp
  then have reach: "reachable sample_env deaf_dial deaf_start ?s" by (rule reachable.step [OF reachable.start])
  have s: "sy_requests ?s = []" "sy_events ?s = deaf_answer"
    using r deaf_events by (simp_all add: after_worker_def worker_new_def Let_def)
  then have "outstanding ?s = 1" by (simp add: outstanding_def deaf_answer_def)
  with inflight_is_outstanding [OF reach [unfolded deaf_start_def]] have "a_inflight (sy_app ?s) \<le> 1"
    by (simp add: deaf_start_def)
  with reach s show ?thesis by blast
qed

end
