(* ===== verification/Worker_Groups.thy ===== *)
theory Worker_Groups
  imports Worker Sample_Libs
begin

text \<open>
  The group list that the worker fetches: how the patterns of a scope are packed into commands,
  and what the filter of the worker keeps when the server will not take a pattern.
\<close>

section \<open>Batches\<close>

definition pattern_line :: "wildmat list \<Rightarrow> string" where
  "pattern_line ps = join '','' (map wm_str ps)"

lemma join_snoc: "xs \<noteq> [] \<Longrightarrow> join sep (xs @ [x]) = join sep xs @ sep @ x"
  by (induction sep xs rule: join.induct) auto

lemma pattern_line_simps [simp]:
  "pattern_line [] = []" "pattern_line [p] = wm_str p"
  "pattern_line (p # q # r) = wm_str p @ '','' @ pattern_line (q # r)"
  by (simp_all add: pattern_line_def)

lemma pattern_line_length:
  "length (pattern_line (ps @ [p])) =
     length (pattern_line ps) + (length (wm_str p) + (if ps \<noteq> [] then 1 else 0))"
  by (cases "ps = []") (simp_all add: pattern_line_def join_snoc)

text \<open>How the loop cuts the patterns up.  A cut is tight when nothing that follows a batch would
  have fitted into it.\<close>

definition within_line :: "wildmat list \<Rightarrow> bool" where
  "within_line g \<longleftrightarrow> g \<noteq> [] \<and> length (pattern_line g) \<le> WILDMAT_MAX_LEN"

definition tight :: "wildmat list \<Rightarrow> wildmat list \<Rightarrow> bool" where
  "tight g h \<longleftrightarrow> length (pattern_line (g @ [hd h])) > WILDMAT_MAX_LEN"

lemma batch_loop_cuts:
  assumes "list_all wildmat_valid ps" "current \<noteq> [] \<longrightarrow> within_line current"
  shows "\<exists>gs. batch_loop ps current (length (pattern_line current)) = map joined gs \<and>
    concat gs = current @ ps \<and> list_all within_line gs \<and> successively tight gs \<and>
    (current \<noteq> [] \<longrightarrow> gs \<noteq> [] \<and> hd gs \<noteq> [] \<and> hd (hd gs) = hd current)"
  using assms
proof (induction ps arbitrary: current)
  case Nil
  show ?case
    by (rule exI [of _ "if current \<noteq> [] then [current] else []"]) (use Nil in auto)
next
  case (Cons p ps)
  let ?add = "length (wm_str p) + (if current \<noteq> [] then 1 else 0)"
  have p: "length (wm_str p) \<le> WILDMAT_MAX_LEN" using Cons.prems by (simp add: wildmat_valid_iff)
  show ?case
  proof (cases "current \<noteq> [] \<and> length (pattern_line current) + ?add > WILDMAT_MAX_LEN")
    case True
    have "within_line [p]" using p by (simp add: within_line_def)
    then obtain gs where gs: "batch_loop ps [p] (length (pattern_line [p])) = map joined gs"
      "concat gs = [p] @ ps" "list_all within_line gs" "successively tight gs" "gs \<noteq> []" "hd (hd gs) = p"
      using Cons.IH [of "[p]"] Cons.prems by auto
    have "tight current (hd gs)"
      using True gs(6) by (auto simp: tight_def pattern_line_length)
    with gs(4,5) have "successively tight (current # gs)" by (cases gs) auto
    with gs True Cons.prems show ?thesis
      by (intro exI [of _ "current # gs"]) auto
  next
    case False
    have "within_line (current @ [p])"
      using False p by (auto simp: within_line_def pattern_line_length)
    then obtain gs where "batch_loop ps (current @ [p]) (length (pattern_line (current @ [p]))) = map joined gs"
      "concat gs = (current @ [p]) @ ps" "list_all within_line gs" "successively tight gs"
      "gs \<noteq> []" "hd gs \<noteq> []" "hd (hd gs) = hd (current @ [p])"
      using Cons.IH [of "current @ [p]"] Cons.prems by auto
    moreover have "batch_loop (p # ps) current (length (pattern_line current)) =
        batch_loop ps (current @ [p]) (length (pattern_line (current @ [p])))"
      using False by (auto simp: pattern_line_length Let_def)
    ultimately show ?thesis by (intro exI [of _ gs]) auto
  qed
qed

lemma graphic_line: "list_all wildmat_valid g \<Longrightarrow> list_all is_ascii_graphic (pattern_line g)"
  by (induction g rule: induct_list012) (auto simp: wildmat_valid_iff is_ascii_graphic_def)

lemma pattern_line_ne: "g \<noteq> [] \<Longrightarrow> list_all wildmat_valid g \<Longrightarrow> pattern_line g \<noteq> []"
  by (cases g; cases "tl g") (auto simp: pattern_line_def wildmat_valid_iff)

lemma joined_line:
  assumes "within_line g" "list_all wildmat_valid g"
  shows "joined g = Some (Wildmat (pattern_line g))" "wildmat_valid (Wildmat (pattern_line g))"
  using assms graphic_line [of g] pattern_line_ne [of g]
  by (auto simp: joined_def wildmat_join_def wildmat_parse_def within_line_def wildmat_valid_iff
      pattern_line_def [symmetric])

lemma batches_cut:
  assumes "list_all wildmat_valid ps" "ps \<noteq> []"
  obtains gs where "batch_patterns ps = map (\<lambda>g. Some (Wildmat (pattern_line g))) gs" "concat gs = ps"
    "list_all within_line gs" "successively tight gs" "list_all (list_all wildmat_valid) gs"
proof -
  obtain gs where gs: "batch_loop ps [] 0 = map joined gs" "concat gs = ps" "list_all within_line gs"
    "successively tight gs"
    using batch_loop_cuts [of ps "[]"] assms(1) by (auto simp: pattern_line_def)
  have v: "list_all (list_all wildmat_valid) gs"
    using assms(1) gs(2) by (auto simp: list_all_iff)
  have "map joined gs = map (\<lambda>g. Some (Wildmat (pattern_line g))) gs"
    using gs(3) v by (auto simp: list_all_iff intro!: joined_line)
  moreover have "gs \<noteq> []" using gs(2) assms(2) by auto
  ultimately have "batch_patterns ps = map (\<lambda>g. Some (Wildmat (pattern_line g))) gs"
    using gs(1) assms(2) by (auto simp: batch_patterns_def Let_def filter_map comp_def)
  with gs v that show ?thesis by blast
qed

section \<open>The filter of the worker\<close>

text \<open>A pattern none of whose alternatives is negated.\<close>

definition positive :: "wildmat \<Rightarrow> bool" where
  "positive w \<longleftrightarrow> list_all (\<lambda>item. strip_prefix ''!'' item = None) (split_on (CHR '','') (wm_str w))"

lemma split_by_join: "P d \<Longrightarrow> split_by P (a @ d # s) = split_by P a @ split_by P s"
  by (induction a) (auto split: list.split)

lemma split_line:
  "g \<noteq> [] \<Longrightarrow> split_on (CHR '','') (pattern_line g) = concat (map (split_on (CHR '','') \<circ> wm_str) g)"
  by (induction g rule: induct_list012) (simp_all add: split_by_join)

lemma fold_positive:
  "list_all (\<lambda>item. strip_prefix ''!'' item = None) items \<Longrightarrow>
   fold (match_item n) items acc \<longleftrightarrow> acc \<or> list_ex (\<lambda>item. matches_one (chars item) n) items"
  by (induction items arbitrary: acc) (auto simp: match_item_def)

lemma matches_positive:
  "list_all (\<lambda>item. strip_prefix ''!'' item = None) (split_on (CHR '','') (wm_str w)) \<Longrightarrow>
   wildmat_matches w n \<longleftrightarrow> list_ex (\<lambda>item. matches_one (chars item) (chars n)) (split_on (CHR '','') (wm_str w))"
  by (simp add: wildmat_matches_def fold_positive)

lemma line_matches:
  assumes "g \<noteq> []" "list_all positive g"
  shows "wildmat_matches (Wildmat (pattern_line g)) n \<longleftrightarrow> list_ex (\<lambda>p. wildmat_matches p n) g"
proof -
  have "list_all (\<lambda>item. strip_prefix ''!'' item = None) (split_on (CHR '','') (pattern_line g))"
    using assms by (auto simp: split_line list_all_iff positive_def)
  then have "wildmat_matches (Wildmat (pattern_line g)) n \<longleftrightarrow>
      list_ex (\<lambda>item. matches_one (chars item) (chars n)) (split_on (CHR '','') (pattern_line g))"
    by (simp add: matches_positive)
  also have "\<dots> \<longleftrightarrow> list_ex (\<lambda>p. wildmat_matches p n) g"
    using assms by (auto simp: split_line list_ex_iff list_all_iff positive_def matches_positive)
  finally show ?thesis .
qed

section \<open>Properties\<close>

text \<open>C19: Every pattern is asked for, in commands that fit.  Cut up into batches, the patterns of a
  scope are sent once each and in their order; every batch is a valid pattern within the length a
  command line leaves for one; and no batch could have taken the first pattern of the next, so
  there are no more commands than the limit asks for.\<close>
theorem batches_send_every_pattern:
  assumes "list_all wildmat_valid ps" "ps \<noteq> []"
  shows "\<exists>gs. batch_patterns ps = map (\<lambda>g. Some (Wildmat (pattern_line g))) gs \<and> concat gs = ps \<and>
    list_all within_line gs \<and> successively tight gs \<and>
    list_all (\<lambda>g. wildmat_valid (Wildmat (pattern_line g))) gs"
proof -
  obtain gs where gs: "batch_patterns ps = map (\<lambda>g. Some (Wildmat (pattern_line g))) gs" "concat gs = ps"
    "list_all within_line gs" "successively tight gs" "list_all (list_all wildmat_valid) gs"
    by (rule batches_cut [OF assms])
  have "list_all (\<lambda>g. wildmat_valid (Wildmat (pattern_line g))) gs"
    using gs(3,5) by (auto simp: list_all_iff intro: joined_line(2))
  with gs show ?thesis by blast
qed

definition sample_patterns :: "wildmat list" where
  "sample_patterns = [Wildmat (replicate 200 (CHR ''a'')), Wildmat (replicate 200 (CHR ''b'')), Wildmat ''misc.*'']"

theorem batches_send_every_pattern_witness:
  "list_all wildmat_valid sample_patterns \<and> length (batch_patterns sample_patterns) = 2 \<and>
   (\<exists>gs. concat gs = sample_patterns \<and> list_all within_line gs)"
proof -
  have v: "list_all wildmat_valid sample_patterns" "sample_patterns \<noteq> []"
    by (simp_all add: sample_patterns_def wildmat_valid_iff WILDMAT_MAX_LEN_def is_ascii_graphic_def list_all_iff
       )
  have "length (batch_patterns sample_patterns) = 2"
    by (simp add: sample_patterns_def batch_patterns_def Let_def WILDMAT_MAX_LEN_def joined_def wildmat_join_def
        wildmat_parse_def is_ascii_graphic_def list_all_iff)
  with v batches_send_every_pattern [OF v] show ?thesis by blast
qed

text \<open>Asking for everything and filtering gives the same groups.  When no pattern is negated, a
  group passes the worker's own filter exactly when one of the batches that were refused would
  have listed it.\<close>
theorem filter_agrees_with_batches:
  assumes "list_all wildmat_valid ps" "list_all positive ps"
  shows "kept_here ps e \<longleftrightarrow>
    list_ex (\<lambda>b. case b of None \<Rightarrow> True | Some w \<Rightarrow> wildmat_matches w (gn_str (ae_name e))) (batch_patterns ps)"
proof (cases "ps = []")
  case True
  then show ?thesis by (simp add: batch_patterns_def kept_here_def)
next
  case False
  obtain gs where gs: "batch_patterns ps = map (\<lambda>g. Some (Wildmat (pattern_line g))) gs" "concat gs = ps"
    "list_all within_line gs"
    by (rule batches_cut [OF assms(1) False])
  have g: "wildmat_matches (Wildmat (pattern_line g)) n \<longleftrightarrow> list_ex (\<lambda>p. wildmat_matches p n) g" if "g \<in> set gs" for g n
    using that gs(2,3) assms(2) by (intro line_matches) (auto simp: list_all_iff within_line_def)
  have "list_ex (\<lambda>b. case b of None \<Rightarrow> True | Some w \<Rightarrow> wildmat_matches w n) (batch_patterns ps) \<longleftrightarrow>
      list_ex (\<lambda>p. wildmat_matches p n) ps" for n
    using g gs(1,2) by (auto simp: list_ex_iff) blast+
  with False show ?thesis by (simp add: kept_here_def)
qed

definition sample_entry :: "string \<Rightarrow> active_entry" where
  "sample_entry name = \<lparr>ae_name = GroupName name, ae_high = 9, ae_low = 1, ae_status = Permitted\<rparr>"

theorem filter_agrees_with_batches_witness:
  "kept_here [Wildmat ''c.*'', Wildmat ''m.t''] (sample_entry ''m.t'') \<and>
   batch_patterns [Wildmat ''c.*'', Wildmat ''m.t''] = [Some (Wildmat ''c.*,m.t'')]"
proof -
  let ?ps = "[Wildmat ''c.*'', Wildmat ''m.t'']"
  have v: "list_all wildmat_valid ?ps" "list_all positive ?ps"
    by (simp_all add: wildmat_valid_iff WILDMAT_MAX_LEN_def is_ascii_graphic_def positive_def strip_prefix_def)
  have b: "batch_patterns ?ps = [Some (Wildmat ''c.*,m.t'')]"
    by (simp add: batch_patterns_def WILDMAT_MAX_LEN_def joined_def wildmat_join_def
      wildmat_parse_def is_ascii_graphic_def)
  have m: "wildmat_matches (Wildmat ''c.*,m.t'') ''m.t''" by code_simp
  show ?thesis using filter_agrees_with_batches [OF v, of "sample_entry ''m.t''"] b m
    by (simp add: sample_entry_def)
qed

text \<open>With a negated pattern they differ: the server takes the last pattern that matches, the
  worker any.\<close>

lemma negation_is_lost:
  defines "ps \<equiv> [Wildmat ''*'', Wildmat ''!alt.*'']"
  shows "list_all wildmat_valid ps" "batch_patterns ps = [Some (Wildmat ''*,!alt.*'')]"
    "\<not> wildmat_matches (Wildmat ''*,!alt.*'') ''alt.test''" "kept_here ps (sample_entry ''alt.test'')"
proof -
  show "list_all wildmat_valid ps"
    by (simp add: ps_def wildmat_valid_iff WILDMAT_MAX_LEN_def is_ascii_graphic_def)
  show "batch_patterns ps = [Some (Wildmat ''*,!alt.*'')]"
    by (simp add: ps_def batch_patterns_def WILDMAT_MAX_LEN_def joined_def wildmat_join_def
        wildmat_parse_def is_ascii_graphic_def)
  show "\<not> wildmat_matches (Wildmat ''*,!alt.*'') ''alt.test''" by code_simp
  have "wildmat_matches (Wildmat ''*'') ''alt.test''" by code_simp
  then show "kept_here ps (sample_entry ''alt.test'')" by (simp add: ps_def kept_here_def sample_entry_def)
qed

end
