(* ===== verification/Connector.thy ===== *)
theory Connector
  imports Client Sending
begin

text \<open>
  \<open>crates/nntp-client/src/connector.rs\<close> and \<open>tls.rs\<close>: opening a socket, TLS from the first byte or
  by \<open>STARTTLS\<close>, and the greeting.  The operating system and the crates \<open>rustls\<close>, \<open>webpki_roots\<close>
  and \<open>rustls_pemfile\<close> are the parameters of a \<open>platform\<close>: what a name resolves to, what dialling
  an address gives, what a file holds, which certificates are in it and accepted, and what each
  round of a TLS handshake over a socket gives.  A TLS stream is a transport of its own, its reads
  and writes being those above TLS; the octets written in the clear stay in the socket's.
\<close>

section \<open>Options\<close>

definition DEFAULT_PORT :: u16 where
  "DEFAULT_PORT = 119"

definition DEFAULT_TLS_PORT :: u16 where
  "DEFAULT_TLS_PORT = 563"

datatype security = PlainSecurity | ImplicitTls | UpgradeTls

fun default_port :: "security \<Rightarrow> u16" where
  "default_port PlainSecurity = DEFAULT_PORT"
| "default_port UpgradeTls = DEFAULT_PORT"
| "default_port ImplicitTls = DEFAULT_TLS_PORT"

definition security_is_encrypted :: "security \<Rightarrow> bool" where
  "security_is_encrypted s \<longleftrightarrow> s = ImplicitTls \<or> s = UpgradeTls"

record tls_options =
  extra_ca_file :: "string option"
  server_name :: "string option"

definition tls_options_new :: tls_options where
  "tls_options_new = \<lparr>extra_ca_file = None, server_name = None\<rparr>"

text \<open>Durations are numbers of seconds.\<close>

record connect_options =
  co_host :: string
  co_port :: u16
  co_connect_timeout :: u64
  co_read_timeout :: u64
  co_write_timeout :: u64
  co_limits :: limits
  co_security :: security
  co_tls :: tls_options
  co_no_delay :: bool

definition options_new :: "string \<Rightarrow> connect_options" where
  "options_new host = \<lparr>co_host = host, co_port = DEFAULT_PORT, co_connect_timeout = 20,
     co_read_timeout = 60, co_write_timeout = 30, co_limits = DEFAULT, co_security = PlainSecurity,
     co_tls = tls_options_new, co_no_delay = True\<rparr>"

definition with_security :: "security \<Rightarrow> connect_options \<Rightarrow> connect_options" where
  "with_security s p = p\<lparr>co_security := s, co_port := default_port s\<rparr>"

definition host_and_port :: "string \<Rightarrow> u16 \<Rightarrow> string" where
  "host_and_port host port = host @ '':'' @ dec (unat port)"

definition options_authority :: "connect_options \<Rightarrow> string" where
  "options_authority p = host_and_port (co_host p) (co_port p)"

section \<open>The platform\<close>

text \<open>An error of a TLS round: the detail of the error it wraps, if it wraps one, and its kind.  A
  session is what the rounds give until the handshake is over, and the stream above it.\<close>

datatype tls_round = RoundDone | RoundFailed "string option" net_error

record tls_session =
  rounds :: "tls_round list"
  tls_stream :: transport

record platform =
  resolve_host :: "string \<Rightarrow> net_error + string list"
  dial_address :: "string \<Rightarrow> u64 \<Rightarrow> net_error + transport"
  zero_timeout :: net_error
  public_roots :: "string list"
  open_file :: "string \<Rightarrow> net_error + bytes"
  pem_certs :: "bytes \<Rightarrow> (net_error + bytes) list"
  trust_anchor :: "bytes \<Rightarrow> string + string"
  parse_server_name :: "string \<Rightarrow> string + string"
  start_tls_session :: "string list \<Rightarrow> string \<Rightarrow> string + (transport \<Rightarrow> tls_session)"
  debug_quote :: "string \<Rightarrow> string"

section \<open>TLS\<close>

fun add_certs ::
  "platform \<Rightarrow> string \<Rightarrow> (net_error + bytes) list \<Rightarrow> string list \<Rightarrow> nat \<Rightarrow> client_error + string list \<times> nat" where
  "add_certs P path [] anchors added = Inr (anchors, added)"
| "add_certs P path (Inl e # _) anchors added = Inl (Tls (''bad certificate in '' @ path @ '': '' @ net_text e))"
| "add_certs P path (Inr cert # certs) anchors added =
     (case trust_anchor P cert of
        Inl text \<Rightarrow> Inl (Tls (''rejected certificate in '' @ path @ '': '' @ text))
      | Inr anchor \<Rightarrow> add_certs P path certs (anchors @ [anchor]) (added + 1))"

definition add_pem_anchors :: "platform \<Rightarrow> string \<Rightarrow> string list \<Rightarrow> client_error + string list \<times> nat" where
  "add_pem_anchors P path anchors =
     (case open_file P path of
        Inl e \<Rightarrow> Inl (Tls (''cannot read '' @ path @ '': '' @ net_text e))
      | Inr content \<Rightarrow> add_certs P path (pem_certs P content) anchors 0)"

text \<open>The configuration is the trust anchors.\<close>

definition client_config :: "platform \<Rightarrow> tls_options \<Rightarrow> client_error + string list" where
  "client_config P opts =
     (case extra_ca_file opts of
        None \<Rightarrow> Inr (public_roots P)
      | Some path \<Rightarrow>
          (case add_pem_anchors P path (public_roots P) of
             Inl e \<Rightarrow> Inl e
           | Inr (anchors, added) \<Rightarrow>
               if added = 0 then Inl (Tls (path @ '' contains no certificates'')) else Inr anchors))"

definition handshake_error :: "string option \<Rightarrow> net_error \<Rightarrow> client_error" where
  "handshake_error detail e =
     (case detail of
        Some text \<Rightarrow> Tls text
      | None \<Rightarrow>
          (case net_kind e of
             TimedOut \<Rightarrow> Timeout
           | WouldBlock \<Rightarrow> Timeout
           | UnexpectedEof \<Rightarrow> Tls (''the server closed the connection during the TLS handshake; '' @
               ''is this port really using TLS?'')
           | OtherKind \<Rightarrow> Io e))"

fun handshake_loop :: "tls_round list \<Rightarrow> client_error + unit" where
  "handshake_loop [] = Inr ()"
| "handshake_loop (RoundDone # rs) = handshake_loop rs"
| "handshake_loop (RoundFailed detail e # _) = Inl (handshake_error detail e)"

definition tls_handshake ::
  "platform \<Rightarrow> transport \<Rightarrow> string \<Rightarrow> string list \<Rightarrow> tls_options \<Rightarrow> client_error + transport" where
  "tls_handshake P socket host config opts =
     (let name = (case server_name opts of Some n \<Rightarrow> n | None \<Rightarrow> host) in
      case parse_server_name P name of
        Inl text \<Rightarrow> Inl (Tls (''invalid server name '' @ debug_quote P name @ '': '' @ text))
      | Inr sni \<Rightarrow>
          (case start_tls_session P config sni of
             Inl text \<Rightarrow> Inl (Tls text)
           | Inr session \<Rightarrow>
               (case handshake_loop (rounds (session socket)) of
                  Inl e \<Rightarrow> Inl e
                | Inr _ \<Rightarrow>
                    (case flush (tls_stream (session socket)) of
                       (Inl e, _) \<Rightarrow> Inl e
                     | (Inr _, stream) \<Rightarrow> Inr stream))))"

section \<open>Connecting\<close>

text \<open>\<open>set_read_timeout\<close> and \<open>set_write_timeout\<close> refuse a duration of zero.\<close>

definition set_timeout :: "platform \<Rightarrow> u64 \<Rightarrow> client_error + unit" where
  "set_timeout P secs = (if secs = 0 then Inl (from_io (zero_timeout P)) else Inr ())"

fun try_addresses ::
  "platform \<Rightarrow> connect_options \<Rightarrow> string list \<Rightarrow> net_error option \<Rightarrow> client_error + transport" where
  "try_addresses P opts [] last_error =
     Inl (from_io (case last_error of Some e \<Rightarrow> e | None \<Rightarrow> Net_Error OtherKind ''no addresses to try''))"
| "try_addresses P opts (a # as) last_error =
     (case dial_address P a (co_connect_timeout opts) of
        Inl e \<Rightarrow> try_addresses P opts as (Some e)
      | Inr socket \<Rightarrow>
          (case set_timeout P (co_read_timeout opts) of
             Inl e \<Rightarrow> Inl e
           | Inr _ \<Rightarrow>
               (case set_timeout P (co_write_timeout opts) of
                  Inl e \<Rightarrow> Inl e | Inr _ \<Rightarrow> Inr socket)))"

definition connect_tcp :: "platform \<Rightarrow> connect_options \<Rightarrow> client_error + transport" where
  "connect_tcp P opts =
     (case resolve_host P (options_authority opts) of
        Inl e \<Rightarrow> Inl (from_io e)
      | Inr addresses \<Rightarrow>
          if addresses = []
          then Inl (Io (Net_Error OtherKind (options_authority opts @ '' resolved to no addresses'')))
          else try_addresses P opts addresses None)"

definition build :: "libs \<Rightarrow> transport \<Rightarrow> connect_options \<Rightarrow> bool \<Rightarrow> client_error + client" where
  "build L t opts enc = with_options L t \<lparr>opt_limits = co_limits opts, opt_encrypted = enc\<rparr>"

definition NO_STARTTLS :: string where
  "NO_STARTTLS = ''the server does not offer STARTTLS; use implicit TLS on port 563,'' @
     replicate 14 SP @ ''or connect in the clear if that is really what you want''"

definition EARLY_DATA :: string where
  "EARLY_DATA = ''the server sent data after its STARTTLS response, which RFC 4642 forbids;'' @
     replicate 14 SP @ ''refusing to continue''"

text \<open>The exchange in the clear: the socket to hand over to TLS, with nothing read ahead.\<close>

definition request_upgrade :: "libs \<Rightarrow> (client, transport) action" where
  "request_upgrade L =
     and_then (refresh_capabilities L) (\<lambda>cs.
       if \<not> caps_is_empty cs \<and> \<not> has_starttls cs then raise (Tls NO_STARTTLS)
       else
         and_then (on_conn (command L command.StartTls)) (\<lambda>line c.
           if sl_code line \<noteq> TLS_CONTINUE
           then (Inl (Tls (''the server refused STARTTLS: '' @ show_code (sl_code line) @ '' '' @ sl_text line)), c)
           else if has_buffered_data (conn c) then (Inl (Tls EARLY_DATA), c)
           else (Inr (into_inner (conn c)), c)))"

text \<open>\<open>over_tls\<close> is the variant of \<open>Transport\<close> that the client runs over.\<close>

definition upgrade_with_starttls ::
  "libs \<Rightarrow> platform \<Rightarrow> bool \<Rightarrow> client \<Rightarrow> connect_options \<Rightarrow> client_error + client" where
  "upgrade_with_starttls L P over_tls c opts =
     (case request_upgrade L c of
        (Inl e, _) \<Rightarrow> Inl e
      | (Inr socket, _) \<Rightarrow>
          if over_tls then Inl (Tls ''this connection is already using TLS'')
          else
            (case client_config P (co_tls opts) of
               Inl e \<Rightarrow> Inl e
             | Inr config \<Rightarrow>
                 (case tls_handshake P socket (co_host opts) config (co_tls opts) of
                    Inl e \<Rightarrow> Inl e
                  | Inr stream \<Rightarrow>
                      (case refresh_capabilities L
                         (from_parts (with_limits stream (co_limits opts)) (client_greeting c) True) of
                         (Inl e, _) \<Rightarrow> Inl e
                       | (Inr _, fresh) \<Rightarrow> Inr fresh))))"

definition connect :: "libs \<Rightarrow> platform \<Rightarrow> connect_options \<Rightarrow> client_error + client" where
  "connect L P opts =
     (case connect_tcp P opts of
        Inl e \<Rightarrow> Inl e
      | Inr socket \<Rightarrow>
          (case co_security opts of
             PlainSecurity \<Rightarrow> build L socket opts False
           | ImplicitTls \<Rightarrow>
               (case client_config P (co_tls opts) of
                  Inl e \<Rightarrow> Inl e
                | Inr config \<Rightarrow>
                    (case tls_handshake P socket (co_host opts) config (co_tls opts) of
                       Inl e \<Rightarrow> Inl e
                     | Inr stream \<Rightarrow> build L stream opts True))
           | UpgradeTls \<Rightarrow>
               (case build L socket opts False of
                  Inl e \<Rightarrow> Inl e
                | Inr c \<Rightarrow> upgrade_with_starttls L P False c opts)))"

end
