(* ===== verification/Settings.thy ===== *)
theory Settings
  imports Connector Ordered_Map Reader
begin

text \<open>
  \<open>crates/nntp-tui/src/config.rs\<close>, with the TOML reader a parameter, and the flags of \<open>cli.rs\<close>:
  server definitions, their validation and lookup, and where a password comes from.  The
  environment and the shell are arguments, as they are in the code.
\<close>

section \<open>Configuration\<close>

datatype security_config = ConfigPlain | ConfigImplicitTls | ConfigStartTls

text \<open>The spellings of the configuration file.\<close>

definition security_spelling :: "string \<Rightarrow> security_config option" where
  "security_spelling s =
     (if s \<in> {''plain'', ''none'', ''cleartext''} then Some ConfigPlain
      else if s \<in> {''implicit-tls'', ''tls'', ''implicit_tls''} then Some ConfigImplicitTls
      else if s \<in> {''starttls'', ''start-tls'', ''start_tls''} then Some ConfigStartTls else None)"

fun security_of :: "security_config \<Rightarrow> security" where
  "security_of ConfigPlain = PlainSecurity"
| "security_of ConfigImplicitTls = ImplicitTls"
| "security_of ConfigStartTls = UpgradeTls"

record server_settings =
  ss_host :: string
  ss_port :: "u16 option"
  ss_security :: security_config
  ss_from :: "string option"
  ss_subscriptions :: "string list"
  ss_username :: "string option"
  ss_password :: "string option"
  ss_password_command :: "string option"
  ss_password_env :: "string option"
  ss_allow_plaintext_auth :: bool
  ss_extra_ca_file :: "string option"
  ss_tls_server_name :: "string option"
  ss_connect_timeout_secs :: u64
  ss_read_timeout_secs :: u64
  ss_write_timeout_secs :: u64

definition settings_default :: server_settings where
  "settings_default = \<lparr>ss_host = [], ss_port = None, ss_security = ConfigImplicitTls, ss_from = None,
     ss_subscriptions = [], ss_username = None, ss_password = None, ss_password_command = None,
     ss_password_env = None, ss_allow_plaintext_auth = False, ss_extra_ca_file = None,
     ss_tls_server_name = None, ss_connect_timeout_secs = 20, ss_read_timeout_secs = 60,
     ss_write_timeout_secs = 30\<rparr>"

record limits_config =
  max_line_bytes :: nat
  cfg_block_bytes :: nat
  cfg_block_lines :: nat

definition limits_config_default :: limits_config where
  "limits_config_default = \<lparr>max_line_bytes = max_line_len DEFAULT,
     cfg_block_bytes = max_block_bytes DEFAULT, cfg_block_lines = max_block_lines DEFAULT\<rparr>"

definition limits_of :: "limits_config \<Rightarrow> limits" where
  "limits_of c = \<lparr>max_line_len = max_line_bytes c, max_block_bytes = cfg_block_bytes c,
     max_block_lines = cfg_block_lines c\<rparr>"

record config =
  default_server :: "string option"
  servers :: "(string, server_settings) btree_map"
  cfg_limits :: limits_config
  cfg_ui :: ui_config

definition config_default :: config where
  "config_default = \<lparr>default_server = None, servers = [], cfg_limits = limits_config_default,
     cfg_ui = ui_config_default\<rparr>"

text \<open>What can be wrong, with what the message names.\<close>

datatype settings_error =
    UnknownDefault string
  | ServerWithoutHost string
  | SeveralPasswords string "string list"
  | UnusableSubscription string string proto_error
  | NoServerNamed string string
  | DefaultNotDefined
  | NoServersConfigured
  | SeveralServers string
  | NoHostConfigured
  | VariableNotSet string
  | VariableEmpty string
  | CommandFailed string string
  | CommandSilent string

definition password_sources :: "server_settings \<Rightarrow> string list" where
  "password_sources s =
     (if ss_password s \<noteq> None then [''password''] else []) @
     (if ss_password_env s \<noteq> None then [''password_env''] else []) @
     (if ss_password_command s \<noteq> None then [''password_command''] else [])"

fun check_subscriptions :: "string \<Rightarrow> string list \<Rightarrow> settings_error + unit" where
  "check_subscriptions name [] = Inr ()"
| "check_subscriptions name (p # ps) =
     (case wildmat_parse p of
        Inl e \<Rightarrow> Inl (UnusableSubscription name p e)
      | Inr _ \<Rightarrow> check_subscriptions name ps)"

fun check_servers :: "(string \<times> server_settings) list \<Rightarrow> settings_error + unit" where
  "check_servers [] = Inr ()"
| "check_servers ((name, s) # rest) =
     (if trim (ss_host s) = [] then Inl (ServerWithoutHost name)
      else if length (password_sources s) > 1 then Inl (SeveralPasswords name (password_sources s))
      else
        (case check_subscriptions name (ss_subscriptions s) of
           Inl e \<Rightarrow> Inl e | Inr _ \<Rightarrow> check_servers rest))"

definition validate :: "config \<Rightarrow> settings_error + unit" where
  "validate c =
     (case default_server c of
        Some name \<Rightarrow>
          if bt_get name (servers c) = None then Inl (UnknownDefault name) else check_servers (servers c)
      | None \<Rightarrow> check_servers (servers c))"

definition server_names :: "config \<Rightarrow> string" where
  "server_names c = (if servers c = [] then ''(none)'' else join '', '' (map fst (servers c)))"

definition find_server :: "config \<Rightarrow> string option \<Rightarrow> settings_error + string \<times> server_settings" where
  "find_server c name =
     (case name of
        Some n \<Rightarrow>
          (case bt_get n (servers c) of
             Some s \<Rightarrow> Inr (n, s) | None \<Rightarrow> Inl (NoServerNamed n (server_names c)))
      | None \<Rightarrow>
          (case default_server c of
             Some d \<Rightarrow>
               (case bt_get d (servers c) of Some s \<Rightarrow> Inr (d, s) | None \<Rightarrow> Inl DefaultNotDefined)
           | None \<Rightarrow>
               (case servers c of
                  [(n, s)] \<Rightarrow> Inr (n, s)
                | [] \<Rightarrow> Inl NoServersConfigured
                | _ \<Rightarrow> Inl (SeveralServers (server_names c)))))"

definition connect_options_of :: "server_settings \<Rightarrow> limits \<Rightarrow> settings_error + connect_options" where
  "connect_options_of s lim =
     (if trim (ss_host s) = [] then Inl NoHostConfigured
      else
        let p = (with_security (security_of (ss_security s)) (options_new (trim (ss_host s))))
              \<lparr>co_connect_timeout := ss_connect_timeout_secs s, co_read_timeout := ss_read_timeout_secs s,
               co_write_timeout := ss_write_timeout_secs s, co_limits := lim,
               co_tls := \<lparr>extra_ca_file = ss_extra_ca_file s, server_name = ss_tls_server_name s\<rparr>\<rparr>
        in Inr (case ss_port s of Some port \<Rightarrow> p\<lparr>co_port := port\<rparr> | None \<Rightarrow> p))"

definition trim_line_end :: "string \<Rightarrow> string" where
  "trim_line_end s = rev (dropWhile (\<lambda>c. c = CR \<or> c = LF) (rev s))"

definition resolve_password_with ::
  "(string \<Rightarrow> string option) \<Rightarrow> (string \<Rightarrow> string + string) \<Rightarrow> server_settings \<Rightarrow>
     settings_error + string option" where
  "resolve_password_with lookup_env run s =
     (case ss_password s of
        Some p \<Rightarrow> Inr (Some p)
      | None \<Rightarrow>
          (case ss_password_env s of
             Some variable \<Rightarrow>
               (case lookup_env variable of
                  None \<Rightarrow> Inl (VariableNotSet variable)
                | Some v \<Rightarrow>
                    if trim_line_end v = [] then Inl (VariableEmpty variable)
                    else Inr (Some (trim_line_end v)))
           | None \<Rightarrow>
               (case ss_password_command s of
                  None \<Rightarrow> Inr None
                | Some cmd \<Rightarrow>
                    (case run cmd of
                       Inl text \<Rightarrow> Inl (CommandFailed cmd text)
                     | Inr output \<Rightarrow>
                         (case str_lines output of
                            [] \<Rightarrow> Inl (CommandSilent cmd)
                          | line # _ \<Rightarrow>
                              if trim line = [] then Inl (CommandSilent cmd)
                              else Inr (Some (trim line)))))))"

text \<open>\<open>run_shell\<close>, over what starting the shell gives: whether the command succeeded, how it ended, and
  its two streams.\<close>

record shell_output =
  shell_ok :: bool
  shell_status :: string
  shell_out :: bytes
  shell_err :: bytes

definition run_shell :: "(string \<Rightarrow> string + shell_output) \<Rightarrow> string \<Rightarrow> string + string" where
  "run_shell start cmd =
     (case start cmd of
        Inl e \<Rightarrow> Inl (''could not start the shell: '' @ e)
      | Inr output \<Rightarrow>
          if \<not> shell_ok output
          then Inl (''command failed with '' @ shell_status output @ '': '' @ trim (lossy (shell_err output)))
          else Inr (lossy (shell_out output)))"

section \<open>The configuration file\<close>

text \<open>The platform's configuration directory, the files in it and the TOML reader are parameters.\<close>

record config_files =
  config_dir :: "string option"
  file_exists :: "string \<Rightarrow> bool"
  file_text :: "string \<Rightarrow> string + string"
  parse_toml :: "string \<Rightarrow> string + config"

datatype load_error =
    CannotRead string string
  | CannotParse string string
  | Contradictory string settings_error

definition config_default_path :: "config_files \<Rightarrow> string + string" where
  "config_default_path F =
     (case config_dir F of
        None \<Rightarrow> Inl ''this platform has no configuration directory''
      | Some d \<Rightarrow> Inr (d @ ''/config.toml''))"

definition read_config :: "config_files \<Rightarrow> string \<Rightarrow> load_error + config" where
  "read_config F path =
     (if \<not> file_exists F path then Inr config_default
      else
        (case file_text F path of
           Inl e \<Rightarrow> Inl (CannotRead path e)
         | Inr txt \<Rightarrow>
             (case parse_toml F txt of
                Inl e \<Rightarrow> Inl (CannotParse path e)
              | Inr c \<Rightarrow> (case validate c of Inl e \<Rightarrow> Inl (Contradictory path e) | Inr _ \<Rightarrow> Inr c))))"

definition config_load :: "config_files \<Rightarrow> string option \<Rightarrow> load_error + config" where
  "config_load F path =
     (case path of
        Some p \<Rightarrow> read_config F p
      | None \<Rightarrow> (case config_default_path F of Inl _ \<Rightarrow> Inr config_default | Inr p \<Rightarrow> read_config F p))"

section \<open>Flags\<close>

record server_args =
  arg_server :: "string option"
  arg_host :: "string option"
  arg_port :: "u16 option"
  arg_tls :: bool
  arg_starttls :: bool
  arg_no_tls :: bool
  arg_from :: "string option"
  arg_username :: "string option"
  arg_password_command :: "string option"
  arg_password_env :: "string option"
  arg_allow_plaintext_auth :: bool
  arg_ca_file :: "string option"
  arg_tls_server_name :: "string option"

definition args_default :: server_args where
  "args_default = \<lparr>arg_server = None, arg_host = None, arg_port = None, arg_tls = False,
     arg_starttls = False, arg_no_tls = False, arg_from = None, arg_username = None,
     arg_password_command = None, arg_password_env = None, arg_allow_plaintext_auth = False,
     arg_ca_file = None, arg_tls_server_name = None\<rparr>"

definition security_override :: "server_args \<Rightarrow> security_config option" where
  "security_override a =
     (if arg_tls a then Some ConfigImplicitTls
      else if arg_starttls a then Some ConfigStartTls
      else if arg_no_tls a then Some ConfigPlain else None)"

section \<open>The command line\<close>

datatype article_part = WholeArticle | HeadersOnly | BodyOnly

datatype config_action = ShowPath | ShowConfig | InitConfig bool

datatype cli_command =
    TuiCommand server_args
  | DoctorCommand server_args "string option"
  | GroupsCommand server_args "string option" bool "nat option"
  | OverviewCommand server_args string u64
  | ArticleCommand server_args string "string option" article_part bool
  | ConfigCommand config_action

record cli =
  cli_config :: "string option"
  cli_log :: "string option"
  cli_log_file :: "string option"
  cli_server :: server_args
  cli_command :: "cli_command option"

text \<open>\<open>check\<close> refuses connection flags before a subcommand, which would do nothing.\<close>

definition cli_check :: "cli \<Rightarrow> bool" where
  "cli_check c \<longleftrightarrow> \<not> (cli_command c \<noteq> None \<and> cli_server c \<noteq> args_default)"

definition opens_the_reader :: "cli \<Rightarrow> bool" where
  "opens_the_reader c \<longleftrightarrow> (case cli_command c of
     None \<Rightarrow> True | Some (TuiCommand a) \<Rightarrow> True | Some other \<Rightarrow> False)"

end
