(* ===== verification/Target.thy ===== *)
theory Target
  imports Settings Worker
begin

text \<open>
  \<open>crates/nntp-tui/src/session.rs\<close>: from the configuration and the flags to a connected client,
  which is what the worker dials.  An error of connecting keeps what its message names; the text
  made of it is a parameter of the worker's dial.
\<close>

record target =
  t_label :: string
  t_server :: server_settings
  t_limits :: limits

definition target_authority :: "target \<Rightarrow> string" where
  "target_authority t =
     host_and_port (ss_host (t_server t))
       (case ss_port (t_server t) of
          Some port \<Rightarrow> port
        | None \<Rightarrow> default_port (security_of (ss_security (t_server t))))"

section \<open>Merging\<close>

text \<open>Whose settings to start from.\<close>

definition base_settings :: "config \<Rightarrow> server_args \<Rightarrow> settings_error + string \<times> server_settings" where
  "base_settings c a =
     (case find_server c (arg_server a) of
        Inr (name, s) \<Rightarrow>
          (case arg_host a of
             Some host \<Rightarrow>
               if arg_server a = None \<and> host \<noteq> ss_host s
               then Inr (''command line'', settings_default) else Inr (name, s)
           | None \<Rightarrow> Inr (name, s))
      | Inl e \<Rightarrow>
          if arg_host a = None then Inl e else Inr (''command line'', settings_default))"

text \<open>\<open>if let Some(x) = flag\<close> and an update.\<close>

definition given :: "'a option \<Rightarrow> ('a \<Rightarrow> 's \<Rightarrow> 's) \<Rightarrow> 's \<Rightarrow> 's" where
  "given x f s = (case x of Some v \<Rightarrow> f v s | None \<Rightarrow> s)"

definition apply_flags :: "server_args \<Rightarrow> server_settings \<Rightarrow> server_settings" where
  "apply_flags a s0 =
     (let s1 = given (arg_host a) (\<lambda>h s. s\<lparr>ss_host := h, ss_port := None\<rparr>) s0;
          s2 = given (arg_port a) (\<lambda>p s. s\<lparr>ss_port := Some p\<rparr>) s1;
          s3 = given (security_override a) (\<lambda>x s. s\<lparr>ss_security := x\<rparr>) s2;
          s4 = given (arg_from a) (\<lambda>f s. s\<lparr>ss_from := Some f\<rparr>) s3;
          s5 = given (arg_username a) (\<lambda>u s. s\<lparr>ss_username := Some u\<rparr>) s4;
          s6 = given (arg_password_command a)
                 (\<lambda>c s. s\<lparr>ss_password_command := Some c, ss_password := None, ss_password_env := None\<rparr>) s5;
          s7 = given (arg_password_env a)
                 (\<lambda>v s. s\<lparr>ss_password_env := Some v, ss_password := None, ss_password_command := None\<rparr>) s6;
          s8 = (if arg_allow_plaintext_auth a then s7\<lparr>ss_allow_plaintext_auth := True\<rparr> else s7);
          s9 = given (arg_ca_file a) (\<lambda>p s. s\<lparr>ss_extra_ca_file := Some p\<rparr>) s8
      in given (arg_tls_server_name a) (\<lambda>n s. s\<lparr>ss_tls_server_name := Some n\<rparr>) s9)"

definition resolve :: "config \<Rightarrow> server_args \<Rightarrow> settings_error + target" where
  "resolve c a =
     map_res (\<lambda>(label, s). \<lparr>t_label = label, t_server = apply_flags a s, t_limits = limits_of (cfg_limits c)\<rparr>) (base_settings c a)"

section \<open>Connecting\<close>

datatype session_error =
    UnusableServer string settings_error
  | NotConnected string client_error
  | NotNegotiated string client_error
  | NoPassword string settings_error
  | PlaintextRefused string
  | NotLoggedIn string string client_error

text \<open>Where a password can come from.\<close>

record surroundings =
  lookup_env :: "string \<Rightarrow> string option"
  start_shell :: "string \<Rightarrow> string + shell_output"

text \<open>\<open>authenticate\<close>, with the client as it leaves it.\<close>

definition log_in :: "libs \<Rightarrow> surroundings \<Rightarrow> target \<Rightarrow> client \<Rightarrow> (session_error + unit) \<times> client" where
  "log_in L V t c =
     (case ss_username (t_server t) of
        None \<Rightarrow> (Inr (), c)
      | Some username \<Rightarrow>
          (case resolve_password_with (lookup_env V) (run_shell (start_shell V)) (t_server t) of
             Inl e \<Rightarrow> (Inl (NoPassword (t_label t) e), c)
           | Inr password \<Rightarrow>
               (case authenticate L username password (ss_allow_plaintext_auth (t_server t)) c of
                  (Inr _, c') \<Rightarrow> (Inr (), c')
                | (Inl PlaintextAuthenticationRefused, c') \<Rightarrow> (Inl (PlaintextRefused (t_label t)), c')
                | (Inl e, c') \<Rightarrow> (Inl (NotLoggedIn username (target_authority t) e), c'))))"

definition session_connect :: "libs \<Rightarrow> platform \<Rightarrow> surroundings \<Rightarrow> target \<Rightarrow> session_error + client" where
  "session_connect L P V t =
     (case connect_options_of (t_server t) (t_limits t) of
        Inl e \<Rightarrow> Inl (UnusableServer (t_label t) e)
      | Inr opts \<Rightarrow>
          (case connect L P opts of
             Inl e \<Rightarrow> Inl (NotConnected (target_authority t) e)
           | Inr c \<Rightarrow>
               (case handshake L c of
                  (Inl e, _) \<Rightarrow> Inl (NotNegotiated (target_authority t) e)
                | (Inr _, c1) \<Rightarrow>
                    (case log_in L V t c1 of
                       (Inl e, _) \<Rightarrow> Inl e | (Inr _, c2) \<Rightarrow> Inr c2))))"

text \<open>The worker's dial: each attempt meets a platform of its own.\<close>

definition dial_of ::
  "libs \<Rightarrow> (nat \<Rightarrow> platform \<times> surroundings \<times> cancel list) \<Rightarrow> (session_error \<Rightarrow> string) \<Rightarrow>
     (client_error \<Rightarrow> string) \<Rightarrow> target \<Rightarrow> dial" where
  "dial_of L attempts show_session show_client t =
     \<lparr>dial_libs = L, authority = target_authority t,
      dial_connect = (\<lambda>n. case attempts n of (P, V, seen) \<Rightarrow>
        (case session_connect L P V t of
           Inl e \<Rightarrow> Inl (show_session e) | Inr c \<Rightarrow> Inr (c, seen))),
      show_error = show_client\<rparr>"

end
