(* ===== verification/Connecting.thy ===== *)
theory Connecting
  imports Target Sample_Libs
begin

text \<open>
  What connecting promises: a connection that is encrypted owes nothing to what was said in the
  clear, and credentials go to the server they were given for, over a connection they may cross.
\<close>

section \<open>The upgrade\<close>

lemma plain_commands:
  "to_wire L (command.Capabilities None) = Inr (''CAPABILITIES'' @ [CR, LF])"
  "to_wire L command.StartTls = Inr (''STARTTLS'' @ [CR, LF])"
  by (simp_all add: to_wire_def, code_simp+)

definition upgrade_talk :: bytes where
  "upgrade_talk = ''CAPABILITIES'' @ [CR, LF] @ ''STARTTLS'' @ [CR, LF]"

lemma refresh_sent:
  assumes "refresh_capabilities L c = (Inr cs, c')"
  shows "sent (conn c') = sent (conn c) @ ''CAPABILITIES'' @ [CR, LF]"
  using assms plain_commands(1) [of L] unfolding refresh_capabilities_def
  by (auto elim!: and_then_cases simp: on_conn_def modify_def dest!: command_sent read_block_sent split: prod.splits if_splits)

lemma request_upgrade_sent:
  assumes "request_upgrade L c = (Inr socket, c')"
  shows "written socket = written (transport (conn c)) @ upgrade_talk"
    "\<not> has_buffered_data (conn c')"
proof -
  obtain cs c1 where r: "refresh_capabilities L c = (Inr cs, c1)"
    and s: "(if \<not> caps_is_empty cs \<and> \<not> has_starttls cs then raise (Tls NO_STARTTLS)
       else and_then (on_conn (command L command.StartTls)) (\<lambda>line c.
           if sl_code line \<noteq> TLS_CONTINUE
           then (Inl (Tls (''the server refused STARTTLS: '' @ show_code (sl_code line) @ '' '' @ sl_text line)), c)
           else if has_buffered_data (conn c) then (Inl (Tls EARLY_DATA), c)
           else (Inr (into_inner (conn c)), c))) c1 = (Inr socket, c')"
    using assms unfolding request_upgrade_def by (auto elim!: and_then_cases)
  obtain line where line: "on_conn (command L command.StartTls) c1 = (Inr line, c')"
    and b: "\<not> has_buffered_data (conn c')" "socket = into_inner (conn c')"
    using s by (auto elim!: and_then_cases split: if_splits)
  have "sent (conn c') = sent (conn c1) @ ''STARTTLS'' @ [CR, LF]"
    using line plain_commands(2) [of L] by (auto simp: on_conn_def dest!: command_sent split: prod.splits)
  with refresh_sent [OF r] b(2) show "written socket = written (transport (conn c)) @ upgrade_talk"
    by (simp add: sent_def into_inner_def upgrade_talk_def)
  show "\<not> has_buffered_data (conn c')" by (rule b(1))
qed

lemma build_start:
  assumes "build L t opts enc = Inr c"
  shows "written (transport (conn c)) = written t" "encrypted c = enc"
  using assms read_status_sent [of L "with_limits t (co_limits opts)"]
  by (auto simp: build_def with_options_def from_parts_def sent_def with_limits_def split: prod.splits sum.splits if_splits)

lemma refresh_encrypted: "refresh_capabilities L c = (r, c') \<Longrightarrow> encrypted c' = encrypted c"
  using does_refresh [of L "\<lambda>_. True" False] by (auto simp: permits_def does_def kept_def)

text \<open>The stream that an encrypted connection runs over, and the socket under it.\<close>

definition secured :: "platform \<Rightarrow> connect_options \<Rightarrow> transport \<Rightarrow> transport \<Rightarrow> bool" where
  "secured P opts socket stream \<longleftrightarrow>
     (\<exists>config. client_config P (co_tls opts) = Inr config \<and>
        tls_handshake P socket (co_host opts) config (co_tls opts) = Inr stream)"

text \<open>C20: An upgraded connection owes nothing to what was said in the clear.  When connecting with
  TLS succeeds, the client is encrypted and runs over a stream that passed the handshake; in the
  clear the socket carried nothing, or with \<open>STARTTLS\<close> a greeting and the two commands of the
  upgrade, with nothing read past the answer; and everything the client knows but that greeting was
  read through TLS.\<close>
theorem upgrade_owes_nothing:
  assumes "connect L P opts = Inr c" "co_security opts \<noteq> PlainSecurity"
  shows "encrypted c \<and> (\<exists>t socket stream. connect_tcp P opts = Inr t \<and> secured P opts socket stream \<and>
    (if co_security opts = ImplicitTls then socket = t \<and> build L stream opts True = Inr c
     else written socket = written t @ upgrade_talk \<and>
       (\<exists>c0 c1. build L t opts False = Inr c0 \<and> request_upgrade L c0 = (Inr socket, c1) \<and>
          \<not> has_buffered_data (conn c1) \<and> client_greeting c = client_greeting c0) \<and>
       (\<exists>cs. refresh_capabilities L (from_parts (with_limits stream (co_limits opts)) (client_greeting c) True) =
          (Inr cs, c))))"
proof -
  obtain t where t: "connect_tcp P opts = Inr t" using assms(1) by (auto simp: connect_def split: sum.splits)
  show ?thesis
  proof (cases "co_security opts")
    case ImplicitTls
    obtain config stream where s: "client_config P (co_tls opts) = Inr config"
      "tls_handshake P t (co_host opts) config (co_tls opts) = Inr stream" "build L stream opts True = Inr c"
      using assms(1) t ImplicitTls by (auto simp: connect_def split: sum.splits)
    with t ImplicitTls build_start(2) [OF s(3)] show ?thesis
      by (intro conjI exI [of _ t] exI [of _ stream]) (auto simp: secured_def)
  next
    case UpgradeTls
    obtain c0 where b: "build L t opts False = Inr c0" and u: "upgrade_with_starttls L P False c0 opts = Inr c"
      using assms(1) t UpgradeTls by (auto simp: connect_def split: sum.splits)
    obtain socket c1 config stream cs where s: "request_upgrade L c0 = (Inr socket, c1)"
      "client_config P (co_tls opts) = Inr config"
      "tls_handshake P socket (co_host opts) config (co_tls opts) = Inr stream"
      "refresh_capabilities L (from_parts (with_limits stream (co_limits opts)) (client_greeting c0) True) = (Inr cs, c)"
      using u by (auto simp: upgrade_with_starttls_def split: sum.splits prod.splits)
    have "client_greeting c = client_greeting c0"
      using s(4) unfolding refresh_capabilities_def
      by (auto elim!: and_then_cases simp: on_conn_def modify_def from_parts_def split: prod.splits if_splits)
    moreover have "encrypted c" using refresh_encrypted [OF s(4)] by (simp add: from_parts_def)
    moreover have "written socket = written t @ upgrade_talk"
      using request_upgrade_sent(1) [OF s(1)] build_start(1) [OF b] by simp
    moreover have "\<not> has_buffered_data (conn c1)" by (rule request_upgrade_sent(2) [OF s(1)])
    ultimately show ?thesis
      using t s b UpgradeTls by (intro conjI exI [of _ t] exI [of _ socket] exI [of _ stream]) (auto simp: secured_def)
  qed (use assms(2) in simp)
qed

section \<open>Where a password comes from\<close>

text \<open>A password that is found is one.  Unless it is written in the configuration itself it is
  not empty and no line end follows it; no source means no password; and a source that fails is an
  error, never an empty password.\<close>
theorem password_is_found_or_refused:
  "(case resolve_password_with env run s of
      Inr (Some p) \<Rightarrow> ss_password s = Some p \<or>
        ss_password s = None \<and> p \<noteq> [] \<and> last p \<noteq> CR \<and> last p \<noteq> LF
    | Inr None \<Rightarrow> password_sources s = []
    | Inl _ \<Rightarrow> ss_password s = None \<and> password_sources s \<noteq> [])"
proof -
  have t: "trim_line_end v \<noteq> [] \<Longrightarrow> last (trim_line_end v) \<noteq> CR \<and> last (trim_line_end v) \<noteq> LF" for v
    using hd_dropWhile [of "\<lambda>c. c = CR \<or> c = LF" "rev v"] by (auto simp: trim_line_end_def last_rev)
  have w: "last (trim v) \<noteq> CR \<and> last (trim v) \<noteq> LF" if ne: "trim v \<noteq> []" for v
  proof -
    obtain ys x where ys: "trim v = ys @ [x]" using ne by (cases "trim v" rule: rev_cases) auto
    define xs where "xs = rev ys"
    have x: "rev (trim v) = x # xs" by (simp add: ys xs_def)
    obtain y where "xs = y @ trim_rev xs" using trim_rev_suffix by blast
    then have "length (trim_rev xs) \<le> length xs" by (metis le_add2 length_append)
    moreover have "trim_rev (x # xs) = x # xs" using trim_fixed(2) [of v] x by simp
    moreover have "uws1 x \<Longrightarrow> trim_rev (x # xs) = trim_rev xs" by (cases xs; cases "tl xs") auto
    ultimately have "\<not> uws1 x" using impossible_Cons [of "trim_rev xs" xs x] by auto
    moreover have "last (trim v) = x" by (simp add: ys)
    ultimately show ?thesis by (auto simp: uws1_def)
  qed
  show ?thesis
    using t w by (auto simp: resolve_password_with_def password_sources_def split: option.split sum.split list.split)
qed

section \<open>Whose settings\<close>

text \<open>A configured server lends its settings when it was named, or when they stay with its host.\<close>

definition lends :: "config \<Rightarrow> server_args \<Rightarrow> target \<Rightarrow> server_settings \<Rightarrow> bool" where
  "lends c a t s \<longleftrightarrow> (\<exists>n. (n, s) \<in> set (servers c) \<and> (arg_server a = Some n \<or> ss_host (t_server t) = ss_host s))"

lemma find_server_defined: "find_server c name = Inr (n, s) \<Longrightarrow> (n, s) \<in> set (servers c) \<and> (\<forall>m. name = Some m \<longrightarrow> n = m)"
  by (auto simp: find_server_def dest: bt_get_in_set split: option.splits list.splits)

lemma flags_simps:
  "ss_host (apply_flags a s) = (case arg_host a of Some h \<Rightarrow> h | None \<Rightarrow> ss_host s)"
  "ss_username (apply_flags a s) = (case arg_username a of Some u \<Rightarrow> Some u | None \<Rightarrow> ss_username s)"
  "ss_subscriptions (apply_flags a s) = ss_subscriptions s"
  "ss_from (apply_flags a s) = (case arg_from a of Some f \<Rightarrow> Some f | None \<Rightarrow> ss_from s)"
  "ss_allow_plaintext_auth (apply_flags a s) \<longleftrightarrow> arg_allow_plaintext_auth a \<or> ss_allow_plaintext_auth s"
  "ss_password (apply_flags a s) =
     (if arg_password_env a \<noteq> None \<or> arg_password_command a \<noteq> None then None else ss_password s)"
  "ss_password_command (apply_flags a s) =
     (if arg_password_env a \<noteq> None then None
      else if arg_password_command a \<noteq> None then arg_password_command a else ss_password_command s)"
  "ss_password_env (apply_flags a s) =
     (if arg_password_env a \<noteq> None then arg_password_env a
      else if arg_password_command a \<noteq> None then None else ss_password_env s)"
  by (auto simp: apply_flags_def given_def Let_def split: option.split)

lemma resolve_base:
  assumes "resolve c a = Inr t"
  obtains s where "t_server t = apply_flags a s" "s = settings_default \<or> lends c a t s"
proof -
  obtain label s where b: "base_settings c a = Inr (label, s)" and t: "t_server t = apply_flags a s"
    using assms by (cases "base_settings c a") (auto simp: resolve_def)
  have "s = settings_default \<or> lends c a t s"
  proof (cases "find_server c (arg_server a)")
    case (Inl e)
    with b show ?thesis by (auto simp: base_settings_def split: if_splits)
  next
    case (Inr ns)
    obtain n s' where ns: "ns = (n, s')" by (cases ns)
    note d = find_server_defined [OF Inr [unfolded ns]]
    show ?thesis
      using b Inr ns d t by (cases "arg_server a")
        (auto simp: base_settings_def lends_def flags_simps split: option.splits if_splits)
  qed
  with t that show ?thesis by blast
qed

lemma one_source:
  "length (password_sources s) \<le> 1 \<longleftrightarrow>
     (ss_password s = None \<or> ss_password_env s = None) \<and>
     (ss_password s = None \<or> ss_password_command s = None) \<and>
     (ss_password_env s = None \<or> ss_password_command s = None)"
  by (auto simp: password_sources_def)

lemma validated_sources:
  assumes "validate c = Inr ()" "(n, s) \<in> set (servers c)"
  shows "length (password_sources s) \<le> 1"
proof -
  have "check_servers xs = Inr () \<Longrightarrow> (n, s) \<in> set xs \<Longrightarrow> length (password_sources s) \<le> 1" for xs
    by (induction xs rule: check_servers.induct) (auto split: if_splits sum.splits)
  with assms show ?thesis by (auto simp: validate_def split: option.splits if_splits)
qed

text \<open>C22: Credentials stay with the server they were given for.  What the merged settings hold that
  no flag gave - a user, a password or the way to one, an identity, subscriptions, the leave to log
  in over plaintext - is taken from a configured server that the flags name or whose host is the
  one connected to; and from a valid configuration at most one source of a password remains.\<close>
theorem credentials_stay_with_their_server:
  assumes "resolve c a = Inr t" "validate c = Inr ()"
  shows "(\<exists>s. (s = settings_default \<or> lends c a t s) \<and>
      (arg_username a = None \<longrightarrow> ss_username (t_server t) = ss_username s) \<and>
      (ss_password (t_server t) \<noteq> None \<longrightarrow> ss_password (t_server t) = ss_password s) \<and>
      (ss_password_command (t_server t) \<notin> {None, arg_password_command a} \<longrightarrow>
         ss_password_command (t_server t) = ss_password_command s) \<and>
      (ss_password_env (t_server t) \<notin> {None, arg_password_env a} \<longrightarrow>
         ss_password_env (t_server t) = ss_password_env s) \<and>
      (arg_from a = None \<longrightarrow> ss_from (t_server t) = ss_from s) \<and>
      ss_subscriptions (t_server t) = ss_subscriptions s \<and>
      (ss_allow_plaintext_auth (t_server t) \<longrightarrow> arg_allow_plaintext_auth a \<or> ss_allow_plaintext_auth s)) \<and>
    length (password_sources (t_server t)) \<le> 1"
proof -
  obtain s where s: "t_server t = apply_flags a s" "s = settings_default \<or> lends c a t s"
    by (rule resolve_base [OF assms(1)])
  have "length (password_sources s) \<le> 1"
    using s(2)
  proof
    assume "s = settings_default"
    then show ?thesis by (simp add: password_sources_def settings_default_def)
  qed (auto simp: lends_def simp del: One_nat_def intro: validated_sources [OF assms(2)])
  then have "length (password_sources (t_server t)) \<le> 1"
    unfolding one_source by (auto simp: s(1) flags_simps)
  moreover have "ss_username (apply_flags a s) = ss_username s" if "arg_username a = None"
    using that by (simp add: flags_simps)
  ultimately show ?thesis using s by (intro conjI exI [of _ s]) (auto simp: flags_simps)
qed

text \<open>A name that is not defined goes unnoticed when a host is given.\<close>

lemma unknown_server_ignored:
  "find_server c (Some typo) = Inl e \<Longrightarrow> arg_server a = Some typo \<Longrightarrow> arg_host a = Some h \<Longrightarrow>
     map_res t_label (resolve c a) = Inr ''command line''"
  by (simp add: resolve_def base_settings_def)

end
