(* ===== verification/Secure_Link.thy ===== *)
theory Secure_Link
  imports Connecting Conversation
begin

text \<open>
  The link that the worker talks over: what connecting gives is encrypted exactly when the target
  asks for it, no password goes out over plaintext without leave, and whatever the worker then does
  and however often it reconnects, this stays so.
\<close>

section \<open>Connecting\<close>

lemma does_kept: "does n (\<lambda>_. True) (kept False) m \<Longrightarrow> m c = (r, c') \<Longrightarrow> encrypted c' = encrypted c"
  by (auto simp: does_def kept_def)

lemma permits_all [simp]: "permits L (\<lambda>_. True) cmd"
  by (simp add: permits_def)

lemma handshake_encrypted: "handshake L c = (r, c') \<Longrightarrow> encrypted c' = encrypted c"
  using does_kept [OF does_handshake] by simp

lemma authenticate_encrypted: "authenticate L u p allow c = (r, c') \<Longrightarrow> encrypted c' = encrypted c"
  using does_authenticate [of c allow L "\<lambda>_. True" u p r c' False] by (simp add: kept_def)

lemma plaintext_login_refused:
  "\<not> encrypted c \<Longrightarrow> authenticate L u p False c = (Inl PlaintextAuthenticationRefused, c)"
  by (simp add: authenticate_def)

lemma log_in_encrypted: "log_in L V t c = (r, c') \<Longrightarrow> encrypted c' = encrypted c"
  by (auto simp: log_in_def split: option.splits sum.splits prod.splits client_error.splits dest: authenticate_encrypted)

lemma log_in_plaintext:
  assumes "\<not> encrypted c" "\<not> ss_allow_plaintext_auth (t_server t)"
  shows "snd (log_in L V t c) = c"
    "ss_username (t_server t) \<noteq> None \<Longrightarrow> isl (fst (log_in L V t c))"
  using assms by (auto simp: log_in_def plaintext_login_refused split: option.split sum.split)

lemma connect_encrypted:
  assumes "connect L P opts = Inr c"
  shows "encrypted c = security_is_encrypted (co_security opts)"
proof (cases "co_security opts")
  case PlainSecurity
  with assms build_start(2) show ?thesis
    by (auto simp: connect_def security_is_encrypted_def split: sum.splits)
next
  case ImplicitTls
  with assms build_start(2) show ?thesis
    by (auto simp: connect_def security_is_encrypted_def split: sum.splits)
next
  case UpgradeTls
  with assms show ?thesis
    by (auto simp: connect_def security_is_encrypted_def upgrade_with_starttls_def from_parts_def
        dest!: refresh_encrypted split: sum.splits prod.splits)
qed

lemma options_security:
  "connect_options_of s lim = Inr opts \<Longrightarrow> co_security opts = security_of (ss_security s)"
  by (auto simp: connect_options_of_def with_security_def Let_def split: if_splits option.splits)

definition wants_tls :: "target \<Rightarrow> bool" where
  "wants_tls t \<longleftrightarrow> security_is_encrypted (security_of (ss_security (t_server t)))"

text \<open>Whether a client may be talked over, for this target.\<close>

definition fit_for :: "target \<Rightarrow> client \<Rightarrow> bool" where
  "fit_for t c \<longleftrightarrow> encrypted c = wants_tls t \<and>
     (ss_username (t_server t) = None \<or> encrypted c \<or> ss_allow_plaintext_auth (t_server t))"

lemma fit_for_conn [simp]: "fit_for t (c\<lparr>conn := k\<rparr>) = fit_for t c"
  by (simp add: fit_for_def)

lemma session_fit:
  assumes "session_connect L P V t = Inr c" shows "fit_for t c"
proof -
  obtain opts c0 r1 c1 where s: "connect_options_of (t_server t) (t_limits t) = Inr opts"
    "connect L P opts = Inr c0" "handshake L c0 = (r1, c1)" "log_in L V t c1 = (Inr (), c)"
    using assms by (auto simp: session_connect_def split: sum.splits prod.splits)
  have "encrypted c = encrypted c1" "encrypted c1 = encrypted c0"
    using s log_in_encrypted handshake_encrypted by auto
  moreover have "encrypted c0 = wants_tls t"
    using connect_encrypted [OF s(2)] options_security [OF s(1)] by (simp add: wants_tls_def)
  moreover have "ss_username (t_server t) = None \<or> encrypted c1 \<or> ss_allow_plaintext_auth (t_server t)"
    using log_in_plaintext(2) [of c1 t L V] s(4) by auto
  ultimately show ?thesis by (simp add: fit_for_def)
qed

section \<open>The worker\<close>

definition sound :: "target \<Rightarrow> worker \<Rightarrow> bool" where
  "sound t w \<longleftrightarrow> (\<forall>c. w_client w = Some c \<longrightarrow> fit_for t c)"

definition secures :: "target \<Rightarrow> (worker, 'a) action \<Rightarrow> bool" where
  "secures t m \<longleftrightarrow> (\<forall>w r w'. sound t w \<longrightarrow> m w = (r, w') \<longrightarrow> sound t w')"

named_theorems securing \<open>actions of the worker that keep its link sound\<close>

lemma secures_then [securing]: "secures t m \<Longrightarrow> (\<And>x. secures t (f x)) \<Longrightarrow> secures t (and_then m f)"
  unfolding secures_def by (blast elim: and_then_cases)

lemma secures_basic [securing]:
  "secures t (ret x)" "secures t (raise e)" "secures t (send_event ev)" "secures t (\<lambda>w. (g w, w))"
  by (auto simp: secures_def send_event_def sound_def)

text \<open>What \<open>session_connect\<close> gives is fit, for this dial.\<close>

definition dials :: "target \<Rightarrow> dial \<Rightarrow> bool" where
  "dials t D \<longleftrightarrow> (\<forall>n c seen. dial_connect D n = Inr (c, seen) \<longrightarrow> fit_for t c)"

lemma dial_of_dials: "dials t (dial_of L attempts f g t)"
  by (auto simp: dials_def dial_of_def session_fit split: prod.splits sum.splits)

lemma secures_ensure [securing]: "dials t D \<Longrightarrow> secures t (ensure_client D)"
  by (auto simp: secures_def ensure_client_def and_then_def send_event_def modify_def sound_def dials_def
      split: sum.splits prod.splits if_splits)

definition steady :: "(client, 'a) action \<Rightarrow> bool" where
  "steady m \<longleftrightarrow> (\<forall>c r c'. m c = (r, c') \<longrightarrow> encrypted c' = encrypted c)"

lemma secures_client [securing]:
  assumes "dials t D" "steady m" shows "secures t (on_client D m)"
proof -
  have "secures t (\<lambda>w. case w_client w of
         None \<Rightarrow> (Inl (ConnectionClosed (Some ''a connection that vanished'')), w)
       | Some c \<Rightarrow> (case m c of (r, c') \<Rightarrow> (r, w\<lparr>w_client := Some c'\<rparr>)))"
    using assms(2) by (auto simp: secures_def sound_def steady_def fit_for_def split: option.splits prod.splits)
  then show ?thesis
    unfolding on_client_def by (intro secures_then secures_ensure assms(1))
qed

lemma steady_does: "does n (\<lambda>_. True) (kept False) m \<Longrightarrow> steady m"
  by (auto simp: steady_def dest: does_kept)

lemma steady_result: "steady m \<Longrightarrow> steady (\<lambda>c. case m c of (r, c') \<Rightarrow> (g r, c'))"
  by (auto simp: steady_def split: prod.splits)

lemma stream_steady: "stream_block L f acc c = (r, acc', c') \<Longrightarrow> encrypted c' = encrypted c"
  using stream_block_does [of L f acc c r acc' c' 0 "\<lambda>_. True" False] by (simp add: kept_def)

lemma steady_methods [securing]:
  "steady (outcome (list_groups_streaming L batch f acc))"
  "steady (outcome (overview_streaming L rng fmt g acc'))"
  "steady (\<lambda>c. case list_group_descriptions L batch c of (r, c') \<Rightarrow> (Inr r, c'))"
  "steady (overview_format L)" "steady (select_group L grp)" "steady (fetch_article L spec)" "steady (post L d)"
  "steady (\<lambda>c. (Inr (h c), c))"
proof -
  show "steady (outcome (list_groups_streaming L batch f acc))"
  proof -
    let ?ask = "and_then (on_conn (command L (ListCmd (Active batch))))
      (\<lambda>line. require_block ''LIST ACTIVE'' line INFORMATION_FOLLOWS)"
    have "does (Suc 0) (\<lambda>_. True) (kept False) ?ask"
      by (rule does_cmd) (auto intro!: does_rules simp: require_block_def)
    from does_kept [OF this] have "encrypted c' = encrypted c" if "?ask c = (r, c')" for c r c' using that .
    then show ?thesis
      by (auto simp: steady_def outcome_def list_groups_streaming_def split: prod.splits sum.splits dest!: stream_steady)
  qed
  show "steady (outcome (overview_streaming L rng fmt g acc'))"
    using overview_does [OF permits_all permits_all, of L rng fmt g acc', where s = False]
    by (auto simp: steady_def outcome_def kept_def split: prod.splits)
  show "steady (\<lambda>c. case list_group_descriptions L batch c of (r, c') \<Rightarrow> (Inr r, c'))"
    by (rule steady_result, rule steady_does, rule does_descriptions) simp
  show "steady (overview_format L)" by (rule steady_does, rule does_overview_format) simp
  show "steady (select_group L grp)" by (rule steady_does, rule does_select) simp
  show "steady (fetch_article L spec)" by (rule steady_does, rule does_articles(1)) simp
  show "steady (post L d)" by (rule steady_does, rule does_post) simp_all
  show "steady (\<lambda>c. (Inr (h c), c))" by (simp add: steady_def)
qed

lemma secures_reselect [securing]: "dials t D \<Longrightarrow> secures t (reselect D g)"
  unfolding reselect_def by (auto intro!: securing)

lemma secures_list_all [securing]: "dials t D \<Longrightarrow> secures t (list_all_and_filter D ps)"
  unfolding list_all_and_filter_def by (auto intro!: securing)

lemma secures_active [securing]: "dials t D \<Longrightarrow> secures t (active_loop D ps batches active)"
proof (induction batches arbitrary: active)
  case (Cons batch batches)
  then show ?case by (auto intro!: securing split: sum.split prod.split)
qed (simp add: securing)

lemma secures_descriptions [securing]: "dials t D \<Longrightarrow> secures t (description_loop D batches found)"
proof (induction batches arbitrary: found)
  case (Cons batch batches)
  then show ?case by (auto intro!: securing split: sum.split)
qed (simp add: securing)

lemma secures_chunks [securing]: "dials t D \<Longrightarrow> secures t (chunk_loop D g tok fmt n i chunks)"
proof (induction chunks arbitrary: i)
  case (Cons chunk chunks)
  then show ?case by (auto intro!: securing split: sum.split prod.split)
qed (simp add: securing)

lemma secures_fetch [securing]: "dials t D \<Longrightarrow> secures t (fetch_overview D g rng tok)"
proof -
  assume d: "dials t D"
  have "secures t (and_then (on_client D (overview_format (dial_libs D))) (\<lambda>fmt.
      and_then (chunk_loop D g tok fmt (length cs) 0 (rev cs)) (\<lambda>_. send_event (OverviewComplete g tok))))" for cs
    using d by (intro securing)
  then show ?thesis by (simp add: secures_def fetch_overview_def Let_def)
qed

lemma secures_attempt: "dials t D \<Longrightarrow> secures t (attempt D r)"
proof -
  assume d: "dials t D"
  have "secures t (load_article D g spec)" for g spec
    using d by (cases g) (auto simp: load_article_def intro!: securing)
  with d show ?thesis
    by (cases r) (auto simp: load_groups_def open_group_def load_overview_def post_draft_def Let_def
      intro!: securing split: option.split prod.split)
qed

lemma handle_sound:
  assumes "dials t D" "sound t w" shows "sound t (handle D r w)"
proof -
  obtain res w1 where a: "attempt D r w = (res, w1)" by fastforce
  then have "sound t w1" using secures_attempt [OF assms(1), of r] assms(2) by (auto simp: secures_def)
  with a show ?thesis
    by (cases res) (auto simp: handle_def dispatch_def sound_def send_all_def drop_client_def Let_def)
qed

text \<open>C21: The worker keeps to the link that was asked for.  Whatever requests it is given and however
  often it has to connect again, a client it holds is encrypted exactly when the target asks for
  TLS, and not encrypted only when there is no user to log in or the target allows logging in over
  plaintext; and over plaintext without that leave a login sends nothing and fails.\<close>
theorem worker_keeps_to_the_link:
  "(\<forall>c. w_client (fold (handle (dial_of L attempts show_session show_client t)) rs (worker_new chunk)) = Some c \<longrightarrow>
      encrypted c = security_is_encrypted (security_of (ss_security (t_server t))) \<and>
      (ss_username (t_server t) = None \<or> encrypted c \<or> ss_allow_plaintext_auth (t_server t))) \<and>
    (\<not> encrypted c0 \<and> ss_username (t_server t) \<noteq> None \<and> \<not> ss_allow_plaintext_auth (t_server t) \<longrightarrow>
      isl (fst (log_in L V t c0)) \<and> snd (log_in L V t c0) = c0)"
proof -
  let ?D = "dial_of L attempts show_session show_client t"
  have keep: "sound t (fold (handle ?D) rs w)" if "sound t w" for w
    using that by (induction rs arbitrary: w) (auto intro: handle_sound [OF dial_of_dials])
  have "sound t (worker_new chunk)" by (simp add: sound_def worker_new_def)
  from keep [OF this] show ?thesis
    using log_in_plaintext [of c0 t L V] by (auto simp: sound_def fit_for_def wants_tls_def)
qed

text \<open>A user and a plain target, and no leave.\<close>

definition plain_target :: target where
  "plain_target = \<lparr>t_label = ''a'', t_server = settings_default\<lparr>ss_host := ''a.example'',
     ss_security := ConfigPlain, ss_username := Some ''bob'', ss_password := Some ''secret''\<rparr>, t_limits = roomy\<rparr>"

section \<open>Samples\<close>

text \<open>A server that greets, offers \<open>STARTTLS\<close> and speaks TLS.\<close>

definition said :: "string list \<Rightarrow> read_result" where
  "said ls = Data (concat (map (\<lambda>l. l @ [CR, LF]) ls))"

definition sample_platform :: platform where
  "sample_platform = \<lparr>resolve_host = (\<lambda>_. Inr [''192.0.2.1'']),
     dial_address = (\<lambda>_ _. Inr (sample_stream [said [''200 hi''],
       said [''101 caps'', ''VERSION 2'', ''STARTTLS'', ''.''], said [''382 go'']])),
     zero_timeout = Net_Error OtherKind ''zero'', public_roots = [''root''],
     open_file = (\<lambda>_. Inl (Net_Error OtherKind ''no such file'')), pem_certs = (\<lambda>_. []), trust_anchor = Inr,
     parse_server_name = Inr,
     start_tls_session = (\<lambda>_ _. Inr (\<lambda>_. \<lparr>rounds = [RoundDone],
       tls_stream = sample_stream [said [''101 caps'', ''VERSION 2'', ''READER'', ''.'']]\<rparr>)),
     debug_quote = (\<lambda>s. s)\<rparr>"

definition sample_surroundings :: surroundings where
  "sample_surroundings = \<lparr>lookup_env = (\<lambda>_. Some ''secret''), start_shell = Inl\<rparr>"

theorem worker_keeps_to_the_link_witness:
  "isl (fst (log_in sample_libs sample_surroundings plain_target (sample_client False []))) \<and>
   snd (log_in sample_libs sample_surroundings plain_target (sample_client False [])) = sample_client False []"
  using worker_keeps_to_the_link [of sample_libs "\<lambda>_. (sample_platform, sample_surroundings, [])" "\<lambda>_. []" "\<lambda>_. []"
    plain_target "[LoadGroups (Subscribed [])]" 500 "sample_client False []" sample_surroundings]
  by (simp add: plain_target_def settings_default_def sample_client_def from_parts_def)

definition sample_options :: connect_options where
  "sample_options = \<lparr>co_host = ''a'', co_port = 119, co_connect_timeout = 20, co_read_timeout = 60,
     co_write_timeout = 30, co_limits = roomy, co_security = UpgradeTls, co_tls = tls_options_new, co_no_delay = True\<rparr>"

theorem upgrade_owes_nothing_witness:
  "\<exists>c socket stream. connect sample_libs sample_platform sample_options = Inr c \<and> encrypted c \<and>
     secured sample_platform sample_options socket stream \<and> written socket = upgrade_talk"
proof -
  have "\<not> isl (connect sample_libs sample_platform sample_options)" by code_simp
  then obtain c where c: "connect sample_libs sample_platform sample_options = Inr c"
    by (cases "connect sample_libs sample_platform sample_options") auto
  have t: "connect_tcp sample_platform sample_options = Inr t \<Longrightarrow> written t = []" for t
    by (auto simp: connect_tcp_def sample_platform_def sample_options_def set_timeout_def sample_stream_def)
  show ?thesis
    using upgrade_owes_nothing [OF c] c t by (fastforce simp: sample_options_def)
qed

definition sample_config :: config where
  "sample_config = config_default\<lparr>servers := [(''es'', settings_default\<lparr>ss_host := ''news.example'',
     ss_username := Some ''bob'', ss_password_command := Some ''pass show news'', ss_subscriptions := [''comp.*'']\<rparr>)]\<rparr>"

definition other_host :: server_args where
  "other_host = args_default\<lparr>arg_host := Some ''127.0.0.1'', arg_no_tls := True\<rparr>"

text \<open>Pointed at another host, the configured user and password stay behind.\<close>

theorem credentials_stay_with_their_server_witness:
  "\<exists>t. resolve sample_config other_host = Inr t \<and> ss_username (t_server t) = None \<and>
     password_sources (t_server t) = [] \<and> ss_subscriptions (t_server t) = [] \<and> length (password_sources (t_server t)) \<le> 1"
proof -
  have v: "validate sample_config = Inr ()"
    by (simp add: validate_def sample_config_def config_default_def settings_default_def password_sources_def
        wildmat_parse_def WILDMAT_MAX_LEN_def is_ascii_graphic_def) code_simp
  obtain t where t: "resolve sample_config other_host = Inr t" "ss_host (t_server t) = ''127.0.0.1''"
    by (simp add: resolve_def base_settings_def find_server_def sample_config_def other_host_def config_default_def
        args_default_def settings_default_def flags_simps)
  have "\<not> lends sample_config other_host t s" for s
    using t(2) by (auto simp: lends_def sample_config_def other_host_def config_default_def settings_default_def args_default_def)
  with credentials_stay_with_their_server [OF t(1) v] have
    "ss_username (t_server t) = None" "ss_subscriptions (t_server t) = []" "length (password_sources (t_server t)) \<le> 1"
    "password_sources (t_server t) = []"
    by (auto simp: settings_default_def other_host_def args_default_def password_sources_def)
  with t(1) show ?thesis by blast
qed

theorem password_is_found_or_refused_witness:
  "resolve_password_with (\<lambda>_. Some ''secret'') Inr (settings_default\<lparr>ss_password_env := Some ''NNTP_PASSWORD''\<rparr>) =
     Inr (Some ''secret'') \<and> last ''secret'' \<noteq> LF"
proof -
  have "resolve_password_with (\<lambda>_. Some ''secret'') Inr (settings_default\<lparr>ss_password_env := Some ''NNTP_PASSWORD''\<rparr>) =
      Inr (Some ''secret'')"
    by (simp add: resolve_password_with_def settings_default_def trim_line_end_def)
  with password_is_found_or_refused [where env = "\<lambda>_. Some ''secret''" and run = Inr and s = "settings_default\<lparr>ss_password_env := Some ''NNTP_PASSWORD''\<rparr>"]
  show ?thesis by (simp add: settings_default_def)
qed

text \<open>The greeting that came in the clear is kept: what it says of posting is what a posting is
  checked against.\<close>

lemma upgrade_keeps_the_greeting:
  assumes "upgrade_with_starttls L P False c opts = Inr c'"
  shows "client_greeting c' = client_greeting c"
  using assms by (auto simp: upgrade_with_starttls_def from_parts_def refresh_capabilities_def on_conn_def modify_def
      elim!: and_then_cases split: sum.splits prod.splits if_splits)

end
