(* ===== verification/Editor.thy ===== *)
theory Editor
  imports Reader_Steps
begin

text \<open>
  \<open>crates/nntp-tui/src/compose.rs\<close>: the editor that is run and what becomes of the draft file.  The
  operating system is a parameter: the directory for drafts, the clock and the process number, how
  writing the file, running the editor and reading the file back end.  The result says also whether
  the file was removed.
\<close>

definition split_whitespace :: "string \<Rightarrow> string list" where
  "split_whitespace s = map concat (filter (\<lambda>p. p \<noteq> []) (split_by (\<lambda>ch. trim_start ch = []) (chars s)))"

text \<open>The values of \<open>VISUAL\<close> and \<open>EDITOR\<close>.\<close>

definition choose_editor :: "bool \<Rightarrow> bytes option \<Rightarrow> bytes option \<Rightarrow> string \<times> string list" where
  "choose_editor windows visual editor =
     (let usable = (\<lambda>v. case v of Some s \<Rightarrow> if s = [] then None else Some s | None \<Rightarrow> None) in
      case (case usable visual of Some v \<Rightarrow> Some v | None \<Rightarrow> usable editor) of
        None \<Rightarrow> (if windows then ''notepad'' else ''vi'', [])
      | Some configured \<Rightarrow>
          (case split_whitespace (lossy configured) of
             [] \<Rightarrow> (''vi'', [])
           | program # arguments \<Rightarrow> (program, arguments)))"

datatype editor_exit = Succeeded | Exited string

record desk =
  drafts_dir :: "string + string"
  clock_secs :: u64
  process_id :: nat
  on_windows :: bool
  env_visual :: "bytes option"
  env_editor :: "bytes option"
  write_draft :: "string \<Rightarrow> bytes \<Rightarrow> string option"
  run_editor :: "string \<Rightarrow> string list \<Rightarrow> string \<Rightarrow> string + editor_exit"
  read_draft :: "string \<Rightarrow> string + string"

definition draft_path :: "desk \<Rightarrow> string + string" where
  "draft_path K =
     map_res (\<lambda>dir. dir @ ''/draft-'' @ u64_to_string (clock_secs K) @ ''-'' @ dec (process_id K) @ ''.article'')
       (drafts_dir K)"

datatype composed = Edited string string | Abandoned

definition compose :: "desk \<Rightarrow> string \<Rightarrow> (string + composed) \<times> bool" where
  "compose K template =
     (case draft_path K of
        Inl e \<Rightarrow> (Inl e, False)
      | Inr path \<Rightarrow>
          (case write_draft K path template of
             Some e \<Rightarrow> (Inl (''writing the draft to '' @ path @ '': '' @ e), False)
           | None \<Rightarrow>
               (let (program, arguments) = choose_editor (on_windows K) (env_visual K) (env_editor K) in
                case run_editor K program arguments path of
                  Inl e \<Rightarrow>
                    (Inl (''running '' @ program @ em_dash @ ''set $EDITOR to something that exists: '' @ e), False)
                | Inr (Exited status) \<Rightarrow>
                    (Inl (program @ '' exited with '' @ status @ ''; the draft is at '' @ path), False)
                | Inr Succeeded \<Rightarrow>
                    (case read_draft K path of
                       Inl e \<Rightarrow> (Inl (''reading the draft back from '' @ path @ '': '' @ e), False)
                     | Inr text \<Rightarrow>
                         if trim text = trim template then (Inr Abandoned, True)
                         else (Inr (Edited text path), False)))))"

text \<open>What the loop of \<open>tui/mod.rs\<close> makes of it.\<close>

definition after_compose :: "string + composed \<Rightarrow> string \<Rightarrow> app \<Rightarrow> reaction" where
  "after_compose outcome what a0 =
     (let a = a0\<lparr>a_dirty := True\<rparr> in
      case outcome of
        Inr (Edited text path) \<Rightarrow> on_composed (Some (text, path)) a
      | Inr Abandoned \<Rightarrow> (add_note (what @ '' was abandoned'') (fst (on_composed None a)), [])
      | Inl e \<Rightarrow> (add_note (''could not compose: '' @ e) (fst (on_composed None a)), []))"

definition logged :: "string \<Rightarrow> app \<Rightarrow> bool" where
  "logged path a \<longleftrightarrow> (\<exists>m \<in> set (a_messages a). \<exists>pre suf. m = pre @ path @ suf)"

lemma logged_note: "m = pre @ path @ suf \<Longrightarrow> logged path (add_note m a)"
  by (auto simp: logged_def add_note_def LOG_CAPACITY_def)

lemma composed_kept:
  assumes "on_composed (Some (text, path)) a = (b, rs)"
  shows "rs = [PostDraft (draft_parse text)] \<and> a_posting b = Some path \<or> rs = [] \<and> logged path b"
  using assms logged_note [of "''the draft is at '' @ path" "''the draft is at ''" path "[]"]
  by (auto simp: on_composed_def Let_def expect_answer_def set_status_def split: if_splits)

text \<open>C25: What was written in the editor is kept.  A draft file is removed only when it reads like the
  template, and then nothing is sent.  Once the editor has run, a text that was changed is sent and
  its file held, or the log names the file; and when the editor fails, or the file cannot be read,
  the file stays, nothing is sent and the log names it.\<close>
theorem editor_text_is_kept:
  assumes "compose K template = (r, removed)" "after_compose r what a = (b, rs)"
  shows "(removed \<longrightarrow> rs = [] \<and> (\<exists>path text. draft_path K = Inr path \<and> read_draft K path = Inr text \<and>
      trim text = trim template)) \<and>
    (\<forall>path program arguments how. draft_path K = Inr path \<and> write_draft K path template = None \<and>
      choose_editor (on_windows K) (env_visual K) (env_editor K) = (program, arguments) \<and>
      run_editor K program arguments path = Inr how \<longrightarrow>
        (case (how, read_draft K path) of
           (Succeeded, Inr text) \<Rightarrow>
             if trim text = trim template then removed
             else \<not> removed \<and> (rs = [PostDraft (draft_parse text)] \<and> a_posting b = Some path \<or> rs = [] \<and> logged path b)
         | _ \<Rightarrow> \<not> removed \<and> rs = [] \<and> logged path b))"
proof -
  have r: "removed \<Longrightarrow> r = Inr Abandoned \<and> (\<exists>path text. draft_path K = Inr path \<and>
      read_draft K path = Inr text \<and> trim text = trim template)"
    using assms(1) by (auto simp: compose_def split: sum.splits option.splits prod.splits editor_exit.splits if_splits)
  have "(case (how, read_draft K path) of
           (Succeeded, Inr text) \<Rightarrow>
             if trim text = trim template then removed
             else \<not> removed \<and> (rs = [PostDraft (draft_parse text)] \<and> a_posting b = Some path \<or> rs = [] \<and> logged path b)
         | _ \<Rightarrow> \<not> removed \<and> rs = [] \<and> logged path b)"
    if c: "draft_path K = Inr path" "write_draft K path template = None"
      "choose_editor (on_windows K) (env_visual K) (env_editor K) = (program, arguments)"
      "run_editor K program arguments path = Inr how" for path program arguments how
  proof (cases how)
    case Succeeded
    show ?thesis
    proof (cases "read_draft K path")
      case (Inl e)
      then have "r = Inl (''reading the draft back from '' @ path @ '': '' @ e)" "\<not> removed"
        using assms(1) c Succeeded by (auto simp: compose_def)
      with Inl Succeeded assms(2) logged_note [of "''could not compose: '' @ ''reading the draft back from '' @ path @ '': '' @ e"
          "''could not compose: '' @ ''reading the draft back from ''" path "'': '' @ e"]
      show ?thesis by (auto simp: after_compose_def Let_def)
    next
      case (Inr edited)
      then show ?thesis
        using assms c Succeeded composed_kept [of edited path "a\<lparr>a_dirty := True\<rparr>" b rs]
        by (auto simp: compose_def after_compose_def Let_def split: if_splits)
    qed
  next
    case (Exited st)
    then have "r = Inl (program @ '' exited with '' @ st @ ''; the draft is at '' @ path)" "\<not> removed"
      using assms(1) c by (auto simp: compose_def)
    with Exited assms(2) logged_note [of "''could not compose: '' @ program @ '' exited with '' @ st @ ''; the draft is at '' @ path"
        "''could not compose: '' @ program @ '' exited with '' @ st @ ''; the draft is at ''" path "[]"]
    show ?thesis by (auto simp: after_compose_def Let_def)
  qed
  with r assms(2) show ?thesis by (auto simp: after_compose_def Let_def)
qed

definition sample_desk :: desk where
  "sample_desk = \<lparr>drafts_dir = Inr ''/d'', clock_secs = 7, process_id = 1, on_windows = False,
     env_visual = None, env_editor = Some ''ed -s'', write_draft = (\<lambda>_ _. None),
     run_editor = (\<lambda>_ _ _. Inr (Exited ''1'')), read_draft = (\<lambda>_. Inr [])\<rparr>"

theorem editor_text_is_kept_witness:
  "\<exists>r. compose sample_desk ''x'' = (r, False) \<and>
     (\<forall>a. \<exists>b. after_compose r ''a reply'' a = (b, []) \<and> logged ''/d/draft-7-1.article'' b)"
proof -
  obtain r removed where r: "compose sample_desk ''x'' = (r, removed)" by fastforce
  have p: "draft_path sample_desk = Inr ''/d/draft-7-1.article''"
    by code_simp
  obtain program arguments where e: "choose_editor False None (Some ''ed -s'') = (program, arguments)" by fastforce
  have "\<not> removed \<and> (\<exists>b. after_compose r ''a reply'' a = (b, []) \<and> logged ''/d/draft-7-1.article'' b)" for a
  proof -
    obtain b rs where b: "after_compose r ''a reply'' a = (b, rs)" by fastforce
    from editor_text_is_kept [OF r b] p e have "\<not> removed \<and> rs = [] \<and> logged ''/d/draft-7-1.article'' b"
      by (simp add: sample_desk_def)
    with b show ?thesis by auto
  qed
  with r show ?thesis by auto
qed

text \<open>Two drafts of one process within one second have one file.\<close>

lemma drafts_collide:
  "drafts_dir K = drafts_dir K' \<Longrightarrow> clock_secs K = clock_secs K' \<Longrightarrow> process_id K = process_id K' \<Longrightarrow>
     draft_path K = draft_path K'"
  by (simp add: draft_path_def)

end
