(* ===== verification/One_Shot.thy ===== *)
theory One_Shot
  imports Target
begin

text \<open>
  \<open>crates/nntp-tui/src/commands.rs\<close>, and from \<open>lib.rs\<close> which of them a command line runs: the commands
  that connect, ask, print and leave.  What they print is accumulated; writing to standard output
  is taken not to fail.  Clocks, \<open>chrono\<close>'s formats, debug escapes and the text of an error are
  parameters.
\<close>

section \<open>Printing\<close>

record printer =
  pr_libs :: libs
  pr_strftime :: "string \<Rightarrow> offset_datetime \<Rightarrow> string"
  pr_rfc3339 :: "offset_datetime \<Rightarrow> string"
  pr_rfc3339_utc :: "datetime \<Rightarrow> string"
  pr_now :: datetime
  pr_elapsed :: string
  pr_quote :: "string \<Rightarrow> string"
  pr_client_error :: "client_error \<Rightarrow> string"
  pr_session_error :: "session_error \<Rightarrow> string"

definition yes_no :: "bool \<Rightarrow> string" where
  "yes_no b = (if b then ''yes'' else ''no'')"

definition shorten :: "string \<Rightarrow> nat \<Rightarrow> string" where
  "shorten s width =
     (let cs = chars s; kept = concat (take width cs)
      in if width < length cs then kept @ ellipsis else kept)"

text \<open>The widths of a format string; characters are counted.\<close>

definition pad_left :: "nat \<Rightarrow> string \<Rightarrow> string" where
  "pad_left n s = replicate (n - length (chars s)) SP @ s"

definition pad_right :: "nat \<Rightarrow> string \<Rightarrow> string" where
  "pad_right n s = s @ replicate (n - length (chars s)) SP"

definition int_text :: "int \<Rightarrow> string" where
  "int_text n = (if n < 0 then ''-'' @ dec (nat (- n)) else dec (nat n))"

fun security_text :: "security \<Rightarrow> string" where
  "security_text PlainSecurity = ''Plain''"
| "security_text ImplicitTls = ''ImplicitTls''"
| "security_text UpgradeTls = ''StartTls''"

fun encoding_text :: "transfer_encoding \<Rightarrow> string" where
  "encoding_text TeNone = ''None''"
| "encoding_text QuotedPrintable = ''QuotedPrintable''"
| "encoding_text Base64 = ''Base64''"
| "encoding_text TeUnknown = ''Unknown''"

section \<open>A command\<close>

datatype command_error =
    SettingsFailed settings_error
  | SessionFailed session_error
  | ClientFailed client_error
  | NotAGroup string proto_error
  | NotAMessageId string proto_error
  | NotANumber string
  | NumberNeedsGroup
  | NotAPattern proto_error
  | UnusableSubscriptions proto_error
  | SubscriptionsTooLong proto_error
  | Panicked panic

record console =
  cn_client :: client
  cn_out :: bytes
  cn_err :: bytes

type_synonym 'a job = "console \<Rightarrow> (command_error + 'a) \<times> console"

definition done_with :: "'a \<Rightarrow> 'a job" where
  "done_with x s = (Inr x, s)"

definition give_up :: "command_error \<Rightarrow> 'a job" where
  "give_up e s = (Inl e, s)"

definition and_do :: "'a job \<Rightarrow> ('a \<Rightarrow> 'b job) \<Rightarrow> 'b job" where
  "and_do m f s = (case m s of (Inl e, s') \<Rightarrow> (Inl e, s') | (Inr x, s') \<Rightarrow> f x s')"

text \<open>A method of the client whose failure ends the command, and one whose outcome is looked at.\<close>

definition attempted :: "(client, 'a) action \<Rightarrow> (client_error + 'a) job" where
  "attempted m s = (case m (cn_client s) of (r, c) \<Rightarrow> (Inr r, s\<lparr>cn_client := c\<rparr>))"

definition asked :: "(client, 'a) action \<Rightarrow> 'a job" where
  "asked m s =
     (case m (cn_client s) of
        (Inl e, c) \<Rightarrow> (Inl (ClientFailed e), s\<lparr>cn_client := c\<rparr>)
      | (Inr x, c) \<Rightarrow> (Inr x, s\<lparr>cn_client := c\<rparr>))"

definition put :: "bytes \<Rightarrow> unit job" where
  "put b s = (Inr (), s\<lparr>cn_out := cn_out s @ b\<rparr>)"

definition print :: "string \<Rightarrow> unit job" where
  "print line = put (line @ [LF])"

definition printed :: "string list \<Rightarrow> unit job" where
  "printed ls = put (concat (map (\<lambda>l. l @ [LF]) ls))"

text \<open>\<open>let _ = client.quit()\<close>\<close>

definition leave :: "libs \<Rightarrow> unit job" where
  "leave L = and_do (attempted (quit L)) (\<lambda>_. done_with ())"

definition parse_group :: "string \<Rightarrow> group_name job" where
  "parse_group name =
     (case group_name_parse name of Inl e \<Rightarrow> give_up (NotAGroup name e) | Inr g \<Rightarrow> done_with g)"

text \<open>Connecting, and what is left of it: the outcome and what was printed.\<close>

definition with_session ::
  "libs \<Rightarrow> platform \<Rightarrow> surroundings \<Rightarrow> config \<Rightarrow> server_args \<Rightarrow> (target \<Rightarrow> unit job) \<Rightarrow>
     (command_error + unit) \<times> bytes" where
  "with_session L P V c a job =
     (case resolve c a of
        Inl e \<Rightarrow> (Inl (SettingsFailed e), [])
      | Inr t \<Rightarrow>
          (case session_connect L P V t of
             Inl e \<Rightarrow> (Inl (SessionFailed e), [])
           | Inr cl \<Rightarrow>
               (case job t \<lparr>cn_client = cl, cn_out = [], cn_err = []\<rparr> of (r, s) \<Rightarrow> (r, cn_out s))))"

section \<open>\<open>article\<close>\<close>

definition parse_spec :: "string \<Rightarrow> bool \<Rightarrow> command_error + article_spec" where
  "parse_spec argument has_group =
     (if starts_with ''<'' argument then
        (case message_id_parse argument of
           Inl e \<Rightarrow> Inl (NotAMessageId argument e) | Inr i \<Rightarrow> Inr (SpecMessageId i))
      else
        (case parse_u64 argument of
           None \<Rightarrow> Inl (NotANumber argument)
         | Some n \<Rightarrow> if has_group then Inr (SpecNumber n) else Inl NumberNeedsGroup))"

definition header_print :: "libs \<Rightarrow> bool \<Rightarrow> header_name \<times> header_value \<Rightarrow> bytes" where
  "header_print L raw = (\<lambda>(name, value).
     hn_str name @ '': '' @ (if raw then hv_bytes value else decoded L value))"

definition print_headers :: "libs \<Rightarrow> article \<Rightarrow> bool \<Rightarrow> unit job" where
  "print_headers L a raw =
     and_do (printed (map (header_print L raw) (entries (art_headers a)))) (\<lambda>_.
       if malformed (art_headers a) = [] then done_with ()
       else printed [[], ''('' @ dec (length (malformed (art_headers a))) @ '' header line(s) could not be parsed)''])"

text \<open>What follows the headers when the article is shown rather than copied.\<close>

definition shown_body :: "libs \<Rightarrow> article \<Rightarrow> string list" where
  "shown_body L a =
     (let signed = art_is_signed L a; others = attachments L a; text = display_text L a in
      (if signed then [''[signed] signature present, not checked''] else []) @
      map (\<lambda>s. ''[other part] '' @ s) others @
      (if signed \<or> others \<noteq> [] then [[]] else []) @
      [if text = [] \<and> others \<noteq> [] then ''(no text in this article)'' else text])"

definition print_part :: "libs \<Rightarrow> article_part \<Rightarrow> bool \<Rightarrow> article_spec \<Rightarrow> unit job" where
  "print_part L part raw spec =
     (case part of
        BodyOnly \<Rightarrow>
          and_do (asked (fetch_body L spec)) (\<lambda>body.
            if raw then put (to_bytes body) else print (block_to_text L body))
      | HeadersOnly \<Rightarrow> and_do (asked (fetch_head L spec)) (\<lambda>a. print_headers L a raw)
      | WholeArticle \<Rightarrow>
          and_do (asked (fetch_article L spec)) (\<lambda>a.
          and_do (print_headers L a raw) (\<lambda>_.
          and_do (print []) (\<lambda>_.
            if raw then and_do (put (body_bytes a)) (\<lambda>_. print []) else printed (shown_body L a)))))"

definition article_job ::
  "libs \<Rightarrow> string \<Rightarrow> string option \<Rightarrow> article_part \<Rightarrow> bool \<Rightarrow> unit job" where
  "article_job L argument grp part raw =
     (case parse_spec argument (grp \<noteq> None) of
        Inl e \<Rightarrow> give_up e
      | Inr spec \<Rightarrow>
          and_do (case grp of
                    None \<Rightarrow> done_with ()
                  | Some g \<Rightarrow>
                      and_do (parse_group g) (\<lambda>name.
                      and_do (asked (select_group L name)) (\<lambda>_. done_with ()))) (\<lambda>_.
          and_do (print_part L part raw spec) (\<lambda>_. leave L)))"

section \<open>\<open>overview\<close>\<close>

text \<open>The newest \<open>wanted\<close> numbers of a group.\<close>

definition newest :: "u64 \<Rightarrow> u64 \<Rightarrow> u64 \<Rightarrow> art_range" where
  "newest wanted low high = between (max (sat_sub high (sat_sub wanted 1)) low) high"

definition overview_row :: "printer \<Rightarrow> string \<Rightarrow> overview_record \<Rightarrow> string" where
  "overview_row R fmt r =
     pad_left 10 (u64_to_string (or_number r)) @ ''  '' @
     pad_right 16 (case or_date r of None \<Rightarrow> ''?'' | Some d \<Rightarrow> pr_strftime R fmt d) @ ''  '' @
     pad_right 28 (shorten (or_from r) 28) @ ''  '' @ shorten (or_subject r) 72"

definition overview_job :: "printer \<Rightarrow> string \<Rightarrow> string \<Rightarrow> u64 \<Rightarrow> unit job" where
  "overview_job R fmt grp wanted =
     (let L = pr_libs R in
      and_do (parse_group grp) (\<lambda>name.
      and_do (asked (select_group L name)) (\<lambda>summary.
        case group_range summary of
          None \<Rightarrow> and_do (print (grp @ '' is empty'')) (\<lambda>_. leave L)
        | Some (low, high) \<Rightarrow>
            and_do (asked (overview L (newest wanted low high))) (\<lambda>result.
            and_do (printed (map (overview_row R fmt) (lr_entries result))) (\<lambda>_.
            and_do (printed [[], dec (lr_len result) @ '' of '' @ u64_to_string (estimated_count summary) @
              '' articles in '' @ grp @ '' (numbers '' @ u64_to_string low @ ''..'' @ u64_to_string high @ '')'']) (\<lambda>_.
            and_do (if lr_skipped result = [] then done_with ()
                    else print (dec (length (lr_skipped result)) @ '' line(s) could not be parsed'')) (\<lambda>_.
              leave L)))))))"

section \<open>\<open>groups\<close>\<close>

text \<open>A closure that prints groups: how many were shown, how many lines were skipped, what was
  printed, and whether the count of articles overflowed.\<close>

record listing =
  ls_shown :: nat
  ls_skipped :: nat
  ls_text :: bytes
  ls_panic :: "panic option"

definition active_row :: "printer \<Rightarrow> active_entry \<Rightarrow> u64 \<Rightarrow> string" where
  "active_row R e n =
     pad_right 40 (gn_str (ae_name e)) @ '' '' @ pad_left 9 (at_most_sign @ u64_to_string n) @ ''  ['' @
     u64_to_string (ae_low e) @ ''..'' @ u64_to_string (ae_high e) @ '']  '' @ describe (pr_quote R) (ae_status e)"

definition list_entry :: "printer \<Rightarrow> nat option \<Rightarrow> active_entry + string \<Rightarrow> listing \<Rightarrow> listing" where
  "list_entry R limit x s =
     (if ls_panic s \<noteq> None then s
      else
        (case x of
           Inr _ \<Rightarrow> s\<lparr>ls_skipped := ls_skipped s + 1\<rparr>
         | Inl e \<Rightarrow>
             if (case limit of None \<Rightarrow> True | Some n \<Rightarrow> ls_shown s < n) then
               (case estimated_articles e of
                  Inl p \<Rightarrow> s\<lparr>ls_panic := Some p\<rparr>
                | Inr n \<Rightarrow> s\<lparr>ls_text := ls_text s @ active_row R e n @ [LF], ls_shown := ls_shown s + 1\<rparr>)
             else s))"

fun parse_patterns :: "string list \<Rightarrow> proto_error + wildmat list" where
  "parse_patterns [] = Inr []"
| "parse_patterns (p # ps) =
     (case wildmat_parse p of
        Inl e \<Rightarrow> Inl e
      | Inr w \<Rightarrow> map_res (\<lambda>ws. w # ws) (parse_patterns ps))"

definition choose_pattern :: "string option \<Rightarrow> target \<Rightarrow> wildmat option job" where
  "choose_pattern pattern t =
     (case pattern of
        Some p \<Rightarrow> (case wildmat_parse p of Inl e \<Rightarrow> give_up (NotAPattern e) | Inr w \<Rightarrow> done_with (Some w))
      | None \<Rightarrow>
          (case parse_patterns (ss_subscriptions (t_server t)) of
             Inl e \<Rightarrow> give_up (UnusableSubscriptions e)
           | Inr ws \<Rightarrow>
               (case wildmat_join ws of
                  Inl e \<Rightarrow> give_up (SubscriptionsTooLong e)
                | Inr None \<Rightarrow> done_with None
                | Inr (Some w) \<Rightarrow> (\<lambda>s. (Inr (Some w), s\<lparr>cn_err := cn_err s @ ''listing the '' @ dec (length ws) @
                    '' subscribed pattern(s) for '' @ t_label t @ ''; --pattern '' @ [CHR 0x27] @ ''*'' @ [CHR 0x27] @
                    '' shows everything'' @ [LF]\<rparr>)))))"

definition description_row :: "newsgroup_entry \<Rightarrow> string" where
  "description_row e = pad_right 40 (gn_str (ne_name e)) @ '' '' @ ne_description e"

definition up_to :: "nat option \<Rightarrow> 'a list \<Rightarrow> 'a list" where
  "up_to limit xs = (case limit of None \<Rightarrow> xs | Some n \<Rightarrow> take n xs)"

definition list_active :: "printer \<Rightarrow> nat option \<Rightarrow> wildmat option \<Rightarrow> nat job" where
  "list_active R limit pattern s =
     (case list_groups_streaming (pr_libs R) pattern (list_entry R limit)
             \<lparr>ls_shown = 0, ls_skipped = 0, ls_text = [], ls_panic = None\<rparr> (cn_client s) of
        (r, acc, c) \<Rightarrow>
          let s' = s\<lparr>cn_client := c, cn_out := cn_out s @ ls_text acc\<rparr> in
          (case ls_panic acc of
             Some p \<Rightarrow> (Inl (Panicked p), s')
           | None \<Rightarrow> (case r of Inl e \<Rightarrow> (Inl (ClientFailed e), s') | Inr _ \<Rightarrow> (Inr (ls_skipped acc), s'))))"

definition groups_job ::
  "printer \<Rightarrow> string option \<Rightarrow> bool \<Rightarrow> nat option \<Rightarrow> target \<Rightarrow> unit job" where
  "groups_job R pattern descriptions limit t =
     (let L = pr_libs R in
      and_do (choose_pattern pattern t) (\<lambda>w.
      and_do (if descriptions then
                and_do (asked (list_group_descriptions L w)) (\<lambda>result.
                and_do (printed (map description_row (up_to limit (lr_entries result)))) (\<lambda>_.
                  done_with (length (lr_skipped result))))
              else list_active R limit w) (\<lambda>skipped.
      and_do (if skipped > 0 then printed [[], dec skipped @ '' line(s) could not be parsed''] else done_with ()) (\<lambda>_.
        leave L))))"

section \<open>\<open>doctor\<close>\<close>

definition capability_lines :: "capabilities \<Rightarrow> string list" where
  "capability_lines cs =
     (if caps_is_empty cs
      then [''capabilities: none'' @ em_dash @ ''this server predates RFC 3977, so the reader will use the RFC 2980 '' @
        ''command set (XOVER, XHDR)'']
      else
        [''implementation: '' @ (case implementation cs of Some i \<Rightarrow> i | None \<Rightarrow> ''(not reported)''), ''capabilities:''] @
        map (\<lambda>e. if cap_args e = [] then ''  '' @ cap_label e
                 else ''  '' @ cap_label e @ '' '' @ join '' '' (cap_args e)) (cap_entries cs)) @
     [''reader mode: '' @ yes_no (has_reader cs),
      ''overview:    '' @ (if has_over cs then
          (if over_accepts_message_id cs then ''OVER, including by message-id'' else ''OVER, by range only'')
        else ''not advertised'' @ em_dash @ ''the reader will try OVER and fall back to XOVER''),
      ''HDR:         '' @ yes_no (has_hdr cs),
      ''NEWNEWS:     '' @ yes_no (has_newnews cs),
      ''STARTTLS:    '' @ yes_no (has_starttls cs),
      ''AUTHINFO:    '' @ (if has_authinfo_user cs then ''USER/PASS''
        else if sasl_mechanisms cs = [] then ''not advertised''
        else ''SASL only'' @ em_dash @ ''not supported by this reader yet'')] @
     (if sasl_mechanisms cs = [] then [] else [''  SASL mechanisms: '' @ join '', '' (sasl_mechanisms cs)]) @
     [''COMPRESS:    '' @ yes_no (has_compress_deflate cs)]"

definition auth_line :: "printer \<Rightarrow> session_error + unit \<Rightarrow> bool \<Rightarrow> string" where
  "auth_line R r now_authenticated =
     ''auth:        '' @
     (case r of
        Inr _ \<Rightarrow> if now_authenticated then ''accepted'' else ''not attempted (no username configured)''
      | Inl e \<Rightarrow> ''FAILED'' @ em_dash @ pr_session_error R e)"

definition date_line :: "printer \<Rightarrow> client_error + datetime \<Rightarrow> string" where
  "date_line R r =
     ''server date: '' @
     (case r of
        Inr d \<Rightarrow> pr_rfc3339_utc R d @ '' (clock differs from ours by '' @ int_text (pr_now R - d) @ ''s)''
      | Inl e \<Rightarrow> ''unavailable'' @ em_dash @ pr_client_error R e)"

definition format_lines :: "printer \<Rightarrow> client_error + overview_fmt \<Rightarrow> string list" where
  "format_lines R r =
     (case r of
        Inr fmt \<Rightarrow>
          (''overview fmt: '' @ join '', '' (map of_name (fmt_fields fmt))) #
          (if is_standard_prefix fmt then []
           else [''  warning: this layout does not start with the seven RFC 3977 fields; the reader will map fields by name''])
      | Inl e \<Rightarrow> [''overview fmt: unavailable'' @ em_dash @ pr_client_error R e])"

definition fields_line :: "printer \<Rightarrow> client_error + string list \<Rightarrow> string" where
  "fields_line R r =
     ''hdr fields:  '' @
     (case r of
        Inr fs \<Rightarrow> if fs = ['':''] then ''any header in the article'' else if fs = [] then ''none reported'' else join '', '' fs
      | Inl e \<Rightarrow> ''unavailable'' @ em_dash @ pr_client_error R e)"

definition probe_row :: "printer \<Rightarrow> overview_record \<Rightarrow> string" where
  "probe_row R r =
     ''    '' @ pad_left 10 (u64_to_string (or_number r)) @ ''  '' @
     (case or_date r of
        None \<Rightarrow> ''unparseable date '' @ pr_quote R (or_date_raw r) | Some d \<Rightarrow> pr_rfc3339 R d) @ ''  '' @
     shorten (or_subject r) 60"

definition probe_overview :: "printer \<Rightarrow> art_range \<Rightarrow> client_error + overview_record list_result \<Rightarrow> string list" where
  "probe_overview R rng r =
     (case r of
        Inr result \<Rightarrow>
          (''  OVER '' @ range_to_argument rng @ '': '' @ dec (lr_len result) @ '' record(s), '' @
             dec (length (lr_skipped result)) @ '' unparseable line(s)'') #
          map (probe_row R) (take 3 (lr_entries result)) @
          map (\<lambda>l. ''    could not parse: '' @ shorten l 70) (take 3 (lr_skipped result))
      | Inl e \<Rightarrow> [''  OVER failed'' @ em_dash @ pr_client_error R e])"

definition probe_article :: "printer \<Rightarrow> u64 \<Rightarrow> client_error + article \<Rightarrow> string" where
  "probe_article R high r =
     ''  ARTICLE '' @ u64_to_string high @
     (case r of
        Inr a \<Rightarrow> '': '' @ dec (headers_len (art_headers a)) @ '' header(s), '' @ dec (line_count a) @
          '' body line(s), transfer encoding '' @ encoding_text (art_transfer_encoding (pr_libs R) a)
      | Inl e \<Rightarrow> '' failed'' @ em_dash @ pr_client_error R e)"

definition probe_group :: "printer \<Rightarrow> string \<Rightarrow> unit job" where
  "probe_group R name =
     (let L = pr_libs R in
      and_do (printed [[], ''probing group '' @ name @ '':'']) (\<lambda>_.
      and_do (parse_group name) (\<lambda>g.
      and_do (attempted (select_group L g)) (\<lambda>r.
        case r of
          Inl e \<Rightarrow> print (''  GROUP failed'' @ em_dash @ pr_client_error R e)
        | Inr summary \<Rightarrow>
            and_do (print (''  selected: '' @ u64_to_string (estimated_count summary) @ '' articles, numbers '' @
              u64_to_string (gs_low summary) @ ''..'' @ u64_to_string (gs_high summary))) (\<lambda>_.
            case group_range summary of
              None \<Rightarrow> print ''  the group is empty; nothing more to probe''
            | Some (low, high) \<Rightarrow>
                and_do (attempted (overview L (newest 5 low high))) (\<lambda>o1.
                and_do (printed (probe_overview R (newest 5 low high) o1)) (\<lambda>_.
                and_do (attempted (fetch_article L (SpecNumber high))) (\<lambda>o2.
                  print (probe_article R high o2)))))))))"

text \<open>\<open>doctor\<close> once it is connected.\<close>

definition doctor_job :: "printer \<Rightarrow> surroundings \<Rightarrow> target \<Rightarrow> string option \<Rightarrow> unit job" where
  "doctor_job R V t grp =
     (let L = pr_libs R in
      and_do (\<lambda>s. printed [''connected:   in '' @ pr_elapsed R,
        ''encrypted:   '' @ yes_no (encrypted (cn_client s)),
        ''greeting:    '' @ show_code (g_code (client_greeting (cn_client s))) @ '' '' @ g_text (client_greeting (cn_client s)),
        ''posting:     '' @ yes_no (posting_allowed (client_greeting (cn_client s)))] s) (\<lambda>_.
      and_do (asked (handshake L)) (\<lambda>_.
      and_do (\<lambda>s. printed (capability_lines (caps (cn_client s))) s) (\<lambda>_.
      and_do (\<lambda>s. case log_in L V t (cn_client s) of
               (r, c) \<Rightarrow> print (auth_line R r (authenticated c)) (s\<lparr>cn_client := c\<rparr>)) (\<lambda>_.
      and_do (attempted (server_date L)) (\<lambda>d.
      and_do (print (date_line R d)) (\<lambda>_.
      and_do (attempted (overview_format L)) (\<lambda>fmt.
      and_do (printed (format_lines R fmt)) (\<lambda>_.
      and_do (attempted (available_header_fields L)) (\<lambda>fs.
      and_do (print (fields_line R fs)) (\<lambda>_.
      and_do (case grp of None \<Rightarrow> done_with () | Some name \<Rightarrow> probe_group R name) (\<lambda>_.
      and_do (leave L) (\<lambda>_. printed [[], ''all probes finished''])))))))))))))"

definition doctor ::
  "printer \<Rightarrow> platform \<Rightarrow> surroundings \<Rightarrow> config \<Rightarrow> server_args \<Rightarrow> string option \<Rightarrow>
     (command_error + unit) \<times> bytes" where
  "doctor R P V c a grp =
     (case resolve c a of
        Inl e \<Rightarrow> (Inl (SettingsFailed e), [])
      | Inr t \<Rightarrow>
          let first = ''server:      '' @ target_authority t @ '' ('' @ t_label t @ '')'' @ [LF] in
          (case connect_options_of (t_server t) (t_limits t) of
             Inl e \<Rightarrow> (Inl (SettingsFailed e), first)
           | Inr opts \<Rightarrow>
               let two_lines = first @ ''transport:   '' @ security_text (co_security opts) @ [LF] in
               (case connect (pr_libs R) P opts of
                  Inl e \<Rightarrow> (Inl (SessionFailed (NotConnected (target_authority t) e)), two_lines)
                | Inr cl \<Rightarrow>
                    (case doctor_job R V t grp \<lparr>cn_client = cl, cn_out = two_lines, cn_err = []\<rparr> of
                       (r, s) \<Rightarrow> (r, cn_out s)))))"

section \<open>\<open>config\<close>\<close>

text \<open>Where the other files are, and how writing the example ends.\<close>

record config_desk =
  desk_files :: config_files
  log_path :: "string + string"
  newsrc_path :: "string \<Rightarrow> string + string"
  newsrc_parent :: "string \<Rightarrow> string"
  to_toml :: "config \<Rightarrow> string + string"
  example_toml :: string
  create_parent :: "string \<Rightarrow> string option"
  write_config :: "string \<Rightarrow> bytes \<Rightarrow> string option"

datatype config_error =
    NoConfigPath string
  | LoadFailed load_error
  | NotSerialised string
  | AlreadyExists string
  | NotCreated string string
  | NotWritten string string

definition load_or_default :: "config_files \<Rightarrow> string \<Rightarrow> config" where
  "load_or_default F path = (case config_load F (Some path) of Inl _ \<Rightarrow> config_default | Inr c \<Rightarrow> c)"

text \<open>The outcome, what is printed and what was written where.\<close>

definition config_command ::
  "config_desk \<Rightarrow> config_action \<Rightarrow> string option \<Rightarrow> (config_error + unit) \<times> bytes \<times> (string \<times> bytes) option" where
  "config_command K action explicit_path =
     (let F = desk_files K; line = (\<lambda>s. s @ [LF]) in
      case (case explicit_path of Some p \<Rightarrow> Inr p | None \<Rightarrow> config_default_path F) of
        Inl e \<Rightarrow> (Inl (NoConfigPath e), [], None)
      | Inr path \<Rightarrow>
          (case action of
             ShowPath \<Rightarrow>
               (let server = (case find_server (load_or_default F path) None of Inr (_, s) \<Rightarrow> ss_host s | Inl _ \<Rightarrow> []) in
                (Inr (),
                 line (''configuration: '' @ path) @
                 (if file_exists F path then []
                  else line (replicate 15 SP @ ''(does not exist yet; `nntp-tui config init` writes an example there)'')) @
                 line (''log file:      '' @ (case log_path K of Inr p \<Rightarrow> p | Inl e \<Rightarrow> ''unavailable'' @ em_dash @ e)) @
                 line (''read state:    '' @
                   (case newsrc_path K server of
                      Inr p \<Rightarrow>
                        if server = []
                        then newsrc_parent K p @ '' (no server configured; the name comes from the server in use)''
                        else p
                    | Inl e \<Rightarrow> ''unavailable'' @ em_dash @ e)),
                 None))
           | ShowConfig \<Rightarrow>
               (case config_load F (Some path) of
                  Inl e \<Rightarrow> (Inl (LoadFailed e), [], None)
                | Inr c \<Rightarrow>
                    (case to_toml K c of
                       Inl e \<Rightarrow> (Inl (NotSerialised e), [], None) | Inr txt \<Rightarrow> (Inr (), txt, None)))
           | InitConfig force \<Rightarrow>
               if file_exists F path \<and> \<not> force then (Inl (AlreadyExists path), [], None)
               else
                 (case create_parent K path of
                    Some e \<Rightarrow> (Inl (NotCreated path e), [], None)
                  | None \<Rightarrow>
                      (case write_config K path (example_toml K) of
                         Some e \<Rightarrow> (Inl (NotWritten path e), [], None)
                       | None \<Rightarrow>
                           (Inr (), line (''wrote an example configuration to '' @ path) @
                              line ''edit it, then run `nntp-tui doctor` to check the server'',
                            Some (path, example_toml K))))))"

section \<open>\<open>run\<close>\<close>

text \<open>What a command line asks for, once the configuration it needs is loaded.\<close>

datatype errand =
    ConfigErrand config_action "string option"
  | ReaderErrand config server_args
  | DoctorErrand config server_args "string option"
  | GroupsErrand config server_args "string option" bool "nat option"
  | OverviewErrand config server_args string u64
  | ArticleErrand config server_args string "string option" article_part bool

datatype run_error = MisplacedFlags | CannotLoad load_error

definition errand_of :: "config_files \<Rightarrow> cli \<Rightarrow> run_error + errand" where
  "errand_of F c =
     (if \<not> cli_check c then Inl MisplacedFlags
      else
        (case cli_command c of
           Some (ConfigCommand action) \<Rightarrow> Inr (ConfigErrand action (cli_config c))
         | cmd \<Rightarrow>
             (case config_load F (cli_config c) of
                Inl e \<Rightarrow> Inl (CannotLoad e)
              | Inr cfg \<Rightarrow>
                  Inr (case cmd of
                         None \<Rightarrow> ReaderErrand cfg (cli_server c)
                       | Some (TuiCommand a) \<Rightarrow> ReaderErrand cfg a
                       | Some (DoctorCommand a grp) \<Rightarrow> DoctorErrand cfg a grp
                       | Some (GroupsCommand a pattern descriptions limit) \<Rightarrow> GroupsErrand cfg a pattern descriptions limit
                       | Some (OverviewCommand a grp wanted) \<Rightarrow> OverviewErrand cfg a grp wanted
                       | Some (ArticleCommand a argument grp part raw) \<Rightarrow> ArticleErrand cfg a argument grp part raw
                       | Some (ConfigCommand action) \<Rightarrow> ConfigErrand action (cli_config c)))))"

text \<open>The errands that connect and print.\<close>

definition print_errand ::
  "printer \<Rightarrow> platform \<Rightarrow> surroundings \<Rightarrow> errand \<Rightarrow> ((command_error + unit) \<times> bytes) option" where
  "print_errand R P V e =
     (let L = pr_libs R in
      case e of
        DoctorErrand cfg a grp \<Rightarrow> Some (doctor R P V cfg a grp)
      | GroupsErrand cfg a pattern descriptions limit \<Rightarrow>
          Some (with_session L P V cfg a (groups_job R pattern descriptions limit))
      | OverviewErrand cfg a grp wanted \<Rightarrow>
          Some (with_session L P V cfg a (\<lambda>_. overview_job R (date_format (cfg_ui cfg)) grp wanted))
      | ArticleErrand cfg a argument grp part raw \<Rightarrow>
          Some (with_session L P V cfg a (\<lambda>_. article_job L argument grp part raw))
      | _ \<Rightarrow> None)"

section \<open>Opening the reader\<close>

text \<open>\<open>main\<close>: where the log goes.\<close>

datatype destination = ToStderr | ToFile string

definition log_destination :: "config_desk \<Rightarrow> cli \<Rightarrow> destination" where
  "log_destination K c =
     (case (cli_log_file c, opens_the_reader c) of
        (Some path, _) \<Rightarrow> ToFile path
      | (None, True) \<Rightarrow> (case log_path K of Inr path \<Rightarrow> ToFile path | Inl _ \<Rightarrow> ToStderr)
      | (None, False) \<Rightarrow> ToStderr)"

text \<open>\<open>tui::run\<close>: the state and the worker it starts with; what was wrong with the read store is
  noted.\<close>

definition subscriptions_of :: "server_settings \<Rightarrow> wildmat list" where
  "subscriptions_of s = List.map_filter (\<lambda>p. res_ok (wildmat_parse p)) (ss_subscriptions s)"

definition open_reader :: "config \<Rightarrow> target \<Rightarrow> read_store \<Rightarrow> string list \<Rightarrow> app \<times> worker" where
  "open_reader c t store complaints =
     (fold add_note complaints
        ((app_new (cfg_ui c) store)\<lparr>a_from := ss_from (t_server t), a_subscriptions := subscriptions_of (t_server t)\<rparr>),
      worker_new (overview_chunk (cfg_ui c)))"

end
