(* ===== verification/One_Shot_Props.thy ===== *)
theory One_Shot_Props
  imports One_Shot Connecting Conversation
begin

text \<open>
  What the one-shot commands promise: a configuration that loads can be used, and an article that
  is printed raw reads back as the article that was fetched.
\<close>

section \<open>The configuration\<close>

lemma validated_server:
  assumes "validate c = Inr ()" "(n, s) \<in> set (servers c)"
  shows "trim (ss_host s) \<noteq> [] \<and> check_subscriptions n (ss_subscriptions s) = Inr ()"
proof -
  have "check_servers xs = Inr () \<Longrightarrow> (n, s) \<in> set xs \<Longrightarrow>
      trim (ss_host s) \<noteq> [] \<and> check_subscriptions n (ss_subscriptions s) = Inr ()" for xs
    by (induction xs rule: check_servers.induct) (auto split: if_splits sum.splits)
  with assms show ?thesis by (auto simp: validate_def split: option.splits if_splits)
qed

lemma checked_subscriptions: "check_subscriptions n ps = Inr () \<Longrightarrow> p \<in> set ps \<Longrightarrow> wildmat_parse p = Inr (Wildmat p)"
  by (induction n ps rule: check_subscriptions.induct)
    (auto simp: wildmat_parse_def split: sum.splits if_splits)

lemma parsed_all:
  "(\<And>p. p \<in> set ps \<Longrightarrow> wildmat_parse p = Inr (Wildmat p)) \<Longrightarrow>
     List.map_filter (\<lambda>p. res_ok (wildmat_parse p)) ps = map Wildmat ps"
  by (induction ps) (auto simp: res_ok_def)

text \<open>C23: A configuration that loads can be used, and one that is there is not ignored.  What
  \<open>load\<close> returns is the content of the file, or the defaults and then there is no file; every
  server of it has a host, gives connection options, names at most one source of a password and
  has only subscriptions that parse, so that the reader asks for each; and the server it names as the default is defined.\<close>
theorem loaded_configuration_is_usable:
  assumes "config_load F path = Inr c"
  shows "(c = config_default \<and> (\<forall>p. path = Some p \<or> path = None \<and> config_default_path F = Inr p \<longrightarrow> \<not> file_exists F p) \<or>
      (\<exists>p txt. (path = Some p \<or> path = None \<and> config_default_path F = Inr p) \<and> file_exists F p \<and>
         file_text F p = Inr txt \<and> parse_toml F txt = Inr c)) \<and>
    (\<forall>(n, s) \<in> set (servers c). \<not> isl (connect_options_of s lim) \<and> length (password_sources s) \<le> 1 \<and>
       subscriptions_of s = map Wildmat (ss_subscriptions s)) \<and>
    find_server c None \<noteq> Inl DefaultNotDefined"
proof -
  have r: "read_config F p = Inr c \<Longrightarrow> validate c = Inr () \<and>
      (c = config_default \<and> \<not> file_exists F p \<or>
       (\<exists>txt. file_exists F p \<and> file_text F p = Inr txt \<and> parse_toml F txt = Inr c))" for p
    by (auto simp: read_config_def validate_def config_default_def split: if_splits sum.splits)
  have "validate config_default = Inr ()" by (simp add: validate_def config_default_def)
  with r assms have v: "validate c = Inr ()"
    by (auto simp: config_load_def split: option.splits sum.splits)
  moreover have "\<not> isl (connect_options_of s lim)" if "(n, s) \<in> set (servers c)" for n s
    using validated_server [OF v that] by (simp add: connect_options_of_def Let_def)
  moreover have "find_server c None \<noteq> Inl DefaultNotDefined"
    using v by (auto simp: find_server_def validate_def split: option.splits if_splits list.splits)
  moreover have "subscriptions_of s = map Wildmat (ss_subscriptions s)" if "(n, s) \<in> set (servers c)" for n s
    using validated_server [OF v that] checked_subscriptions parsed_all by (metis subscriptions_of_def)
  moreover have "length (password_sources s) \<le> 1" if "(n, s) \<in> set (servers c)" for n s
    by (rule validated_sources [OF v that])
  moreover have "c = config_default \<and> (\<forall>p. path = Some p \<or> path = None \<and> config_default_path F = Inr p \<longrightarrow> \<not> file_exists F p) \<or>
      (\<exists>p txt. (path = Some p \<or> path = None \<and> config_default_path F = Inr p) \<and> file_exists F p \<and>
         file_text F p = Inr txt \<and> parse_toml F txt = Inr c)"
    using assms r by (auto simp: config_load_def split: option.splits sum.splits)
  ultimately show ?thesis by blast
qed

section \<open>What is asked for\<close>

text \<open>The newest numbers of a group: those less than \<open>wanted\<close> below its top, and at least the top.\<close>

lemma newest_contains:
  assumes "low \<le> high"
  shows "range_contains (newest wanted low high) n \<longleftrightarrow> low \<le> n \<and> n \<le> high \<and> unat high - unat n < max (unat wanted) 1"
  using assms unfolding newest_def between_def
  by (auto simp: word_le_nat_alt unat_max unat_sat_sub max_def)

section \<open>Raw printing\<close>

text \<open>A field as it is printed, read back.\<close>

lemma split_field_raw:
  assumes L: "memchr_ok L" and n: "valid_field_name n"
  shows "split_field L (hn_str n @ '': '' @ v) = Some (n, trim_ascii_start v)"
proof -
  obtain name where name: "n = HeaderName name" by (cases n)
  have s: "name \<noteq> []" "list_all is_ascii_graphic name" "CHR '':'' \<notin> set name"
    using n by (auto simp: name valid_field_name_def header_name_parse_Inr list_all_iff)
  have mc: "memchr L CHR '':'' (name @ '': '' @ v) = Some (length name)"
    using L s(3) by (simp add: memchr_ok_def first_index_append)
  have "utf8_valid name"
    by (rule utf8_valid_ascii) (use s(2) in \<open>auto simp: list_all_iff graphic_ascii\<close>)
  moreover have "header_name_parse (trim name) = Inr n"
    using n s(2) by (simp add: name trim_graphic valid_field_name_def)
  moreover have "slice_or_empty (length name + 1) (length (name @ '': '' @ v)) (name @ '': '' @ v) = SP # v"
    by (simp add: slice_or_empty_def)
  ultimately show ?thesis
    unfolding name header_name.sel split_field_def mc by simp
qed

definition settled :: "header_name \<times> header_value \<Rightarrow> bool" where
  "settled = (\<lambda>(n, v). valid_field_name n \<and> (hv_bytes v \<noteq> [] \<longrightarrow> last (hv_bytes v) \<notin> {SP, TAB}))"

definition without_lead :: "header_name \<times> header_value \<Rightarrow> header_name \<times> header_value" where
  "without_lead = (\<lambda>(n, v). (n, HeaderValue (trim_ascii_start (hv_bytes v))))"

lemma raw_line_head:
  assumes "settled (n, v)"
  shows "header_print L True (n, v) \<noteq> []" "hd (header_print L True (n, v)) \<noteq> SP" "hd (header_print L True (n, v)) \<noteq> TAB"
proof -
  obtain name where name: "n = HeaderName name" by (cases n)
  with assms have "name \<noteq> []" "list_all is_ascii_graphic name"
    by (auto simp: settled_def valid_field_name_def header_name_parse_Inr list_all_iff)
  then show "header_print L True (n, v) \<noteq> []" "hd (header_print L True (n, v)) \<noteq> SP" "hd (header_print L True (n, v)) \<noteq> TAB"
    by (cases name; auto simp: name header_print_def is_ascii_graphic_def)+
qed

lemma parse_raw_loop:
  assumes "memchr_ok L" "\<forall>f \<in> set fs. settled f"
  shows "parse_lines_loop L (map (header_print L True) fs) h = h\<lparr>entries := entries h @ map without_lead fs\<rparr>"
  using assms(2)
proof (induction fs arbitrary: h)
  case (Cons f fs)
  obtain n v where f: "f = (n, v)" by (cases f)
  have "split_field L (header_print L True f) = Some (n, trim_ascii_start (hv_bytes v))"
    using split_field_raw [OF assms(1)] Cons.prems by (simp add: f header_print_def settled_def)
  with Cons raw_line_head [of n v L] show ?case
    by (simp add: f without_lead_def)
qed simp

lemma trim_start_last: "trim_ascii_start v \<noteq> [] \<Longrightarrow> last (trim_ascii_start v) = last v"
  by (induction v rule: trim_ascii_start.induct) (auto split: if_splits)

lemma trim_settled: "hv_bytes v \<noteq> [] \<longrightarrow> last (hv_bytes v) \<notin> {SP, TAB} \<Longrightarrow> trim_value v = v"
  by (cases v; cases "hv_bytes v" rule: rev_cases) (auto simp: trim_value_def)

lemma parse_raw:
  assumes "memchr_ok L" "\<forall>f \<in> set fs. settled f"
  shows "parse_lines L (map (header_print L True) fs) = \<lparr>entries = map without_lead fs, malformed = []\<rparr>"
proof -
  have "(\<lambda>(n, v). (n, trim_value v)) f = f" if "f \<in> set (map without_lead fs)" for f
    using that assms(2) trim_start_last
    by (fastforce simp: without_lead_def settled_def intro!: trim_settled)
  then have "map (\<lambda>(n, v). (n, trim_value v)) (map without_lead fs) = map without_lead fs"
    by (rule map_idI)
  then show ?thesis
    by (simp add: parse_lines_def parse_raw_loop [OF assms] headers_new_def Let_def)
qed

lemma lines_of_lf:
  "(\<And>l. l \<in> set ls \<Longrightarrow> LF \<notin> set l \<and> (l = [] \<or> last l \<noteq> CR)) \<Longrightarrow>
   lines_of (concat (map (\<lambda>l. l @ [LF]) ls) @ s) = ls @ lines_of s"
proof (induction ls)
  case (Cons l ls)
  have l: "LF \<notin> set l \<and> (l = [] \<or> last l \<noteq> CR)" and ls: "\<And>k. k \<in> set ls \<Longrightarrow> LF \<notin> set k \<and> (k = [] \<or> last k \<noteq> CR)"
    using Cons.prems by auto
  have "strip_cr_suffix l = l" using l by (cases l rule: rev_cases) (auto simp: strip_cr_suffix_def strip_suffix_def strip_prefix_def)
  then have "lines_of (l @ LF # concat (map (\<lambda>l. l @ [LF]) ls) @ s) = l # lines_of (concat (map (\<lambda>l. l @ [LF]) ls) @ s)"
    using l by (simp add: lines_of_step)
  with Cons.IH [OF ls] show ?case by simp
qed simp

lemma lines_of_joined:
  assumes "\<And>l. l \<in> set ls \<Longrightarrow> LF \<notin> set l" "ls \<noteq> [] \<Longrightarrow> last ls = [] \<or> last (last ls) \<noteq> CR"
  shows "lines_of (join [CR, LF] ls @ [LF]) = (if ls = [] then [[]] else ls)"
proof (cases ls rule: rev_cases)
  case Nil
  then show ?thesis using lines_of_lf [of "[[]]" "[]"] by (simp add: lines_of_last)
next
  case (snoc ks k)
  have j: "join [CR, LF] (ks @ [k]) = concat (map (\<lambda>l. l @ [CR, LF]) ks) @ k" for ks
    by (induction ks rule: induct_list012) auto
  have "lines_of (concat (map (\<lambda>l. l @ [CR, LF]) ks) @ k @ [LF]) = ks @ lines_of (k @ [LF])"
    using assms(1) by (intro lines_of_wire) (auto simp: snoc)
  also have "lines_of (k @ [LF]) = [k]"
    using lines_of_lf [of "[k]" "[]"] assms by (auto simp: snoc lines_of_last)
  finally show ?thesis by (simp add: snoc j)
qed

lemma split_at_blank:
  assumes "\<And>l. l \<in> set hs \<Longrightarrow> l \<noteq> []"
  shows "split_head_body (from_lines (hs @ [] # rest)) = (hs, rest)"
proof -
  have "position (\<lambda>l. l = []) (hs @ [] # rest) = Some (length hs)"
    using assms by (intro position_append) auto
  then show ?thesis by (simp add: split_head_body_def from_lines_def slice_or_empty_def Let_def)
qed

text \<open>An article whose lines can be told apart: no line feed inside a value or a line, and no
  carriage return at the end of a value or of the last line.\<close>

definition separable :: "article \<Rightarrow> bool" where
  "separable a \<longleftrightarrow>
     (\<forall>(n, v) \<in> set (entries (art_headers a)). LF \<notin> set (hv_bytes v) \<and> (hv_bytes v = [] \<or> last (hv_bytes v) \<noteq> CR)) \<and>
     (\<forall>l \<in> set (art_body a). LF \<notin> set l) \<and>
     (art_body a = [] \<or> last (art_body a) = [] \<or> last (last (art_body a)) \<noteq> CR)"

definition parse_note :: "article \<Rightarrow> string list" where
  "parse_note a =
     (if malformed (art_headers a) = [] then []
      else [''('' @ dec (length (malformed (art_headers a))) @ '' header line(s) could not be parsed)'', []])"

lemma fetched_settled:
  assumes "fetch_article L spec c = (Inr a, c')" shows "\<forall>f \<in> set (entries (art_headers a)). settled f"
proof -
  obtain ls where "art_headers a = parse_lines L ls"
    using assms unfolding fetch_article_def
    by (auto elim!: and_then_cases simp: article_from_block_def split: prod.splits)
  then show ?thesis using parse_lines_ok [of L ls] by (auto simp: settled_def)
qed
text \<open>C24: An article printed raw reads back.  The fields come in order with their names and, apart
  from blanks in front, their values; the body follows line for line, an empty one as one empty
  line; and when lines of the header were unreadable a note about them stands between the two, where
  it reads as the beginning of the body.\<close>
theorem raw_print_reads_back:
  assumes "memchr_ok L" "fetch_article L spec (cn_client s) = (Inr a, c)" "separable a"
    and "print_part L WholeArticle True spec s = (r, s')"
  shows "r = Inr () \<and> cn_client s' = c \<and>
    (\<exists>out. cn_out s' = cn_out s @ out \<and>
       article_from_block L (from_lines (split_lines L out)) =
         \<lparr>art_number = None,
          art_headers = \<lparr>entries = map without_lead (entries (art_headers a)), malformed = []\<rparr>,
          art_body = parse_note a @ (if art_body a = [] then [[]] else art_body a)\<rparr>)"
proof -
  define hs where "hs = map (header_print L True) (entries (art_headers a))"
  define out where "out = concat (map (\<lambda>l. l @ [LF]) (hs @ [] # parse_note a)) @ join [CR, LF] (art_body a) @ [LF]"
  have st: "\<forall>f \<in> set (entries (art_headers a)). settled f" by (rule fetched_settled [OF assms(2)])
  have hs: "LF \<notin> set l \<and> (l = [] \<or> last l \<noteq> CR) \<and> l \<noteq> []" if "l \<in> set hs" for l
  proof -
    obtain n v where f: "(n, v) \<in> set (entries (art_headers a))" "l = header_print L True (n, v)"
      using \<open>l \<in> set hs\<close> by (auto simp: hs_def)
    with st have se: "settled (n, v)" by blast
    then have "list_all is_ascii_graphic (hn_str n)"
      by (cases n) (auto simp: settled_def valid_field_name_def header_name_parse_Inr list_all_iff)
    then have "LF \<notin> set (hn_str n)" by (auto simp: list_all_iff is_ascii_graphic_def)
    moreover have "LF \<notin> set (hv_bytes v) \<and> (hv_bytes v = [] \<or> last (hv_bytes v) \<noteq> CR)"
      using assms(3) f(1) by (auto simp: separable_def)
    ultimately show ?thesis by (auto simp: f(2) header_print_def)
  qed
  have nt: "LF \<notin> set l \<and> (l = [] \<or> last l \<noteq> CR)" if "l \<in> set (parse_note a)" for l
  proof -
    have "LF \<notin> set (dec n)" for n using dec_graphic [of n] by (auto simp: list_all_iff is_ascii_graphic_def)
    then show ?thesis using that by (auto simp: parse_note_def split: if_splits)
  qed
  have "lines_of out = (hs @ [] # parse_note a) @ lines_of (join [CR, LF] (art_body a) @ [LF])"
    unfolding out_def by (rule lines_of_lf) (use hs nt in auto)
  also have "lines_of (join [CR, LF] (art_body a) @ [LF]) = (if art_body a = [] then [[]] else art_body a)"
    using assms(3) by (intro lines_of_joined) (auto simp: separable_def)
  finally have "split_head_body (from_lines (split_lines L out)) =
      (hs, parse_note a @ (if art_body a = [] then [[]] else art_body a))"
    using split_at_blank [of hs "parse_note a @ (if art_body a = [] then [[]] else art_body a)"] hs
    by (simp add: split_lines_ok [OF assms(1)])
  then have "article_from_block L (from_lines (split_lines L out)) =
      \<lparr>art_number = None,
       art_headers = \<lparr>entries = map without_lead (entries (art_headers a)), malformed = []\<rparr>,
       art_body = parse_note a @ (if art_body a = [] then [[]] else art_body a)\<rparr>"
    using parse_raw [OF assms(1) st] by (simp add: article_from_block_def hs_def)
  moreover have "r = Inr () \<and> cn_client s' = c \<and> cn_out s' = cn_out s @ out"
    using assms(2,4) by (auto simp: print_part_def and_do_def asked_def print_headers_def printed_def put_def print_def
        done_with_def body_bytes_def out_def hs_def parse_note_def split: if_splits)
  ultimately show ?thesis by blast
qed

section \<open>Samples\<close>

definition sample_console :: console where
  "sample_console = \<lparr>cn_client = sample_client True [Data (concat (map (\<lambda>l. l @ [CR, LF])
     [''220'', ''Subject: x'', '' y'', ''junk'', [], ''text'', ''.'']))], cn_out = ''> '', cn_err = []\<rparr>"

definition sample_article :: article where
  "sample_article = \<lparr>art_number = None,
     art_headers = \<lparr>entries = [(HeaderName ''Subject'', HeaderValue ''x y'')], malformed = [''junk'']\<rparr>,
     art_body = [''text'']\<rparr>"

theorem raw_print_reads_back_witness:
  "\<exists>s' out. print_part sample_libs WholeArticle True (SpecMessageId (MessageId ''<a@b>'')) sample_console = (Inr (), s') \<and>
     cn_out s' = ''> '' @ out \<and>
     art_body (article_from_block sample_libs (from_lines (split_lines sample_libs out))) =
       [''(1 header line(s) could not be parsed)'', [], ''text'']"
proof -
  obtain c where f: "fetch_article sample_libs (SpecMessageId (MessageId ''<a@b>'')) (cn_client sample_console) = (Inr sample_article, c)"
  proof -
    have "fst (fetch_article sample_libs (SpecMessageId (MessageId ''<a@b>'')) (cn_client sample_console)) = Inr sample_article"
      by code_simp
    with that show ?thesis by (cases "fetch_article sample_libs (SpecMessageId (MessageId ''<a@b>'')) (cn_client sample_console)") auto
  qed
  obtain r s' where p: "print_part sample_libs WholeArticle True (SpecMessageId (MessageId ''<a@b>'')) sample_console = (r, s')"
    by fastforce
  have "separable sample_article" by (simp add: separable_def sample_article_def)
  moreover have "dec (Suc 0) = ''1''" by code_simp
  ultimately show ?thesis using raw_print_reads_back [OF sample_libs_ok(1) f _ p] p
    by (auto simp: sample_console_def sample_article_def parse_note_def)
qed

definition sample_files :: config_files where
  "sample_files = \<lparr>config_dir = Some ''/c'', file_exists = (\<lambda>p. p = ''/c/config.toml''), file_text = Inr,
     parse_toml = (\<lambda>_. Inr (config_default\<lparr>servers := [(''a'', settings_default\<lparr>ss_host := ''x''\<rparr>)]\<rparr>))\<rparr>"

theorem loaded_configuration_is_usable_witness:
  "\<exists>c s. config_load sample_files None = Inr c \<and> servers c = [(''a'', s)] \<and> \<not> isl (connect_options_of s (limits_of (cfg_limits c)))"
proof -
  have l: "config_load sample_files None =
      Inr (config_default\<lparr>servers := [(''a'', settings_default\<lparr>ss_host := ''x''\<rparr>)]\<rparr>)"
    by (simp add: config_load_def config_default_path_def read_config_def sample_files_def validate_def
        config_default_def settings_default_def password_sources_def) code_simp
  from loaded_configuration_is_usable [OF l] l show ?thesis by auto
qed

end
