(* ===== verification/Screen.thy ===== *)
theory Screen
  imports One_Shot
begin

text \<open>
  \<open>crates/nntp-tui/src/tui/ui.rs\<close>: what is drawn.  A widget is its title, whether its border shows
  focus, its lines and the line that is highlighted; a span is its text with the look it is given.
  How the screen is cut up and how wide a line is are what \<open>ratatui\<close> says, and parameters.
\<close>

section \<open>Widgets\<close>

datatype look =
    Unstyled | BoldLook | DimLook | AccentLook | BoldAccent | QuotedLook
  | ErrorBadge | TlsBadge | PlainBadge | LostBadge

type_synonym span = "string \<times> look"
type_synonym text_line = "span list"

record panel =
  p_title :: string
  p_focused :: bool
  p_lines :: "text_line list"
  p_selected :: "nat option"
  p_centred :: bool
  p_scroll :: u16

record rect =
  r_x :: u16
  r_y :: u16
  r_width :: u16
  r_height :: u16

record screen_env =
  screen_ui :: ui_env
  area_body :: "rect \<Rightarrow> rect"
  area_groups :: "rect \<Rightarrow> rect"
  area_articles :: "rect \<Rightarrow> rect"
  area_article :: "rect \<Rightarrow> rect"
  area_status :: "rect \<Rightarrow> rect"
  text_width :: "text_line \<Rightarrow> nat"

definition bullet :: string where
  "bullet = [CHR 0xE2, CHR 0x80, CHR 0xA2]"

definition guillemet :: string where
  "guillemet = [CHR 0xE2, CHR 0x80, CHR 0xBA]"

definition en_dash :: string where
  "en_dash = [CHR 0xE2, CHR 0x80, CHR 0x93]"

text \<open>The arrows left, up, right and down.\<close>

definition arrow :: "nat \<Rightarrow> string" where
  "arrow n = [CHR 0xE2, CHR 0x86, [CHR 0x90, CHR 0x91, CHR 0x92, CHR 0x93] ! n]"

definition pane_focused :: "app \<Rightarrow> pane \<Rightarrow> bool" where
  "pane_focused a p \<longleftrightarrow> a_focus a = p \<and> a_overlay a = NoOverlay"

definition block_title :: "pane \<Rightarrow> string option \<Rightarrow> string" where
  "block_title p subtitle =
     (case subtitle of
        Some s \<Rightarrow> '' '' @ pane_title p @ em_dash @ s @ '' ''
      | None \<Rightarrow> '' '' @ pane_title p @ '' '')"

definition highlighted :: "nat \<Rightarrow> nat \<Rightarrow> nat option" where
  "highlighted cursor n = (if n = 0 then None else Some (min cursor (n - 1)))"

section \<open>Panes\<close>

definition scope_word :: "group_scope \<Rightarrow> string" where
  "scope_word s =
     (case s of
        Subscribed patterns \<Rightarrow> if patterns = [] then [] else '' subscribed''
      | Search _ \<Rightarrow> '' found'')"

definition groups_subtitle :: "ui_env \<Rightarrow> app \<Rightarrow> string option" where
  "groups_subtitle E a =
     (let scope = scope_word (a_group_scope a) in
      if a_editing_filter a then Some (''/'' @ a_filter a)
      else if a_filter a = [] then
        (if a_groups a = [] then None else Some (dec (length (a_groups a)) @ scope))
      else Some (''/'' @ a_filter a @ em_dash @ dec (length (visible_groups E a)) @ '' of '' @
        dec (length (a_groups a)) @ scope))"

definition group_line :: "app \<Rightarrow> group_row \<Rightarrow> text_line" where
  "group_line a g =
     (let unread = app_unread_in a g in
      [(gn_str (row_name g), if unread > 0 then BoldLook else Unstyled),
       ((if row_is_empty g then ''  empty''
         else if unread = 0 then ''  read''
         else ''  '' @ at_most_sign @ u64_to_string unread), DimLook)])"

definition draw_groups :: "ui_env \<Rightarrow> app \<Rightarrow> panel" where
  "draw_groups E a =
     (let visible = visible_groups E a in
      \<lparr>p_title = block_title GroupsPane (groups_subtitle E a), p_focused = pane_focused a GroupsPane,
       p_lines = map (group_line a) (List.map_filter (get_opt (a_groups a)) visible),
       p_selected = highlighted (a_group_cursor a) (length visible), p_centred = False, p_scroll = 0\<rparr>)"

definition MAX_INDENT :: nat where
  "MAX_INDENT = 6"

definition article_line :: "app \<Rightarrow> article_row \<Rightarrow> overview_record \<Rightarrow> text_line" where
  "article_line a row r =
     (let subject = (if or_subject r = [] then ''(no subject)'' else or_subject r);
          unread = is_unread a (or_number r) in
      [((if unread then bullet else '' ''), AccentLook),
       (concat (replicate (min (row_depth row) MAX_INDENT) ''  ''), DimLook),
       ((if row_collapsed row then ''+'' @ dec (row_hidden row) @ '' ''
         else if row_depth row > 0 then guillemet @ '' '' else ''  ''), DimLook),
       (subject, if unread then BoldLook else DimLook)])"

definition articles_subtitle :: "app \<Rightarrow> string option" where
  "articles_subtitle a =
     map_option (\<lambda>s. gn_str (gs_name s) @ '' ('' @
       (if a_unread_only a then dec (length (visible_articles a)) @ ''/'' else []) @
       dec (length (a_articles a)) @ '')'') (a_group a)"

definition articles_placeholder :: "app \<Rightarrow> string" where
  "articles_placeholder a =
     (if a_group a = None then ''select a group and press Enter''
      else if a_unread_only a \<and> a_articles a \<noteq> [] then ''nothing unread'' @ em_dash @ ''u: show all''
      else ''no articles'')"

definition draw_articles :: "app \<Rightarrow> panel" where
  "draw_articles a =
     (let rows = article_rows a;
          title = block_title ArticlesPane (articles_subtitle a); focused = pane_focused a ArticlesPane in
      if rows = []
      then \<lparr>p_title = title, p_focused = focused, p_lines = [[(articles_placeholder a, DimLook)]],
            p_selected = None, p_centred = True, p_scroll = 0\<rparr>
      else \<lparr>p_title = title, p_focused = focused,
            p_lines = List.map_filter (\<lambda>row. map_option (article_line a row) (get_opt (a_articles a) (row_index row))) rows,
            p_selected = highlighted (a_article_cursor a) (length rows), p_centred = False, p_scroll = 0\<rparr>)"

definition body_look :: "string \<Rightarrow> look" where
  "body_look l =
     (if starts_with ''>'' l \<or> starts_with ''|'' l then QuotedLook
      else if l = ''-- '' \<or> l = ''--'' then DimLook else Unstyled)"

text \<open>What stands above the body.\<close>

definition view_preamble :: "article_view \<Rightarrow> text_line list" where
  "view_preamble v =
     map (\<lambda>(name, val). [(name @ '': '', BoldAccent), (val, Unstyled)]) (v_headers v) @
     (if v_signed v then [[(''signed (signature not checked)'', DimLook)]] else []) @
     (if v_attachments v = [] then []
      else [((if length (v_attachments v) = 1 then ''1 other part''
              else dec (length (v_attachments v)) @ '' other parts'') @ '':'', BoldAccent)] #
        map (\<lambda>s. [(''  '' @ bullet @ '' '' @ s, DimLook)]) (v_attachments v)) @
     [[]]"

definition body_position :: "app \<Rightarrow> article_view \<Rightarrow> string" where
  "body_position a v =
     (if v_body v = [] then ''empty''
      else dec (a_body_scroll a + 1) @ en_dash @
        dec (min (a_body_scroll a + a_body_height a) (length (v_body v))) @ '' of '' @ dec (length (v_body v)))"

definition draw_article :: "app \<Rightarrow> panel" where
  "draw_article a =
     (case a_article a of
        None \<Rightarrow> \<lparr>p_title = block_title BodyPane None, p_focused = pane_focused a BodyPane,
           p_lines = [[((if a_articles a = [] then ''nothing to show yet'' else ''press Enter on an article''), DimLook)]],
           p_selected = None, p_centred = True, p_scroll = 0\<rparr>
      | Some v \<Rightarrow> \<lparr>p_title = block_title BodyPane (Some (body_position a v)), p_focused = pane_focused a BodyPane,
           p_lines = view_preamble v @ map (\<lambda>l. [(l, body_look l)]) (drop (a_body_scroll a) (v_body v)),
           p_selected = None, p_centred = False, p_scroll = 0\<rparr>)"

section \<open>The status line\<close>

datatype status_bar = ErrorBar text_line | StatusBar u16 text_line string u16 string

definition IDLE_HINT :: string where
  "IDLE_HINT = '' ?: help  m: messages  q: quit''"

definition BUSY_HINT :: string where
  "BUSY_HINT = '' Esc: stop  ?: help  q: quit''"

definition saturated_width :: "nat \<Rightarrow> u16" where
  "saturated_width n = (if n < 2 ^ 16 then of_nat n else - 1)"

definition connection_badge :: "app \<Rightarrow> span" where
  "connection_badge a =
     (if a_connected a
      then ('' '' @ a_server a @ '' ['' @ (if a_encrypted a then ''TLS'' else ''plain'') @ ''] '',
            if a_encrypted a then TlsBadge else PlainBadge)
      else ('' disconnected '', LostBadge))"

definition draw_status :: "rect \<Rightarrow> app \<Rightarrow> status_bar" where
  "draw_status area a =
     (case a_error a of
        Some e \<Rightarrow> ErrorBar [('' error '', ErrorBadge), ('' '' @ e, Unstyled)]
      | None \<Rightarrow>
          let hint = (if a_inflight a > 0 then BUSY_HINT else IDLE_HINT); badge = connection_badge a in
          StatusBar (min (saturated_width (length (chars (fst badge)) + 2)) (r_width area))
            [badge, ('' '' @ [spinner_frame a] @ '' '', Unstyled)]
            (a_status a) (saturated_width (length (chars hint))) hint)"

section \<open>The overlay\<close>

definition clamp :: "u16 \<Rightarrow> u16 \<Rightarrow> u16 \<Rightarrow> u16" where
  "clamp low high x = (if x < low then low else if high < x then high else x)"

definition overlay_rect :: "rect \<Rightarrow> rect" where
  "overlay_rect area =
     (let w = min (clamp (min 20 (r_width area)) 80 (sat_sub (r_width area) (r_width area div 4))) (r_width area);
          h = clamp (min 5 (r_height area)) (r_height area) (sat_sub (r_height area) (r_height area div 5)) in
      \<lparr>r_x = r_x area + sat_sub (r_width area) w div 2, r_y = r_y area + sat_sub (r_height area) h div 2,
       r_width = w, r_height = h\<rparr>)"

definition div_ceil :: "nat \<Rightarrow> nat \<Rightarrow> nat" where
  "div_ceil n d = (n + d - 1) div d"

text \<open>How many rows the code counts for a text, each line's width over that of the overlay rounded up,
  and how many fit.  The count is the code's own: the widget wraps at words, which may take more
  rows.\<close>

definition wrapped_rows :: "screen_env \<Rightarrow> rect \<Rightarrow> text_line list \<Rightarrow> nat" where
  "wrapped_rows E r ls =
     sum_list (map (\<lambda>l. div_ceil (max (text_width E l) 1) (unat (max (sat_sub (r_width r) 2) 1))) ls)"

definition inner_rows :: "rect \<Rightarrow> nat" where
  "inner_rows r = unat (sat_sub (r_height r) 2)"

definition overlay_scroll_of :: "screen_env \<Rightarrow> rect \<Rightarrow> text_line list \<Rightarrow> app \<Rightarrow> nat" where
  "overlay_scroll_of E r ls a = min (unat (a_overlay_scroll a)) (wrapped_rows E r ls - inner_rows r)"

definition draw_overlay :: "screen_env \<Rightarrow> app \<Rightarrow> string \<Rightarrow> text_line list \<Rightarrow> rect \<Rightarrow> panel \<times> rect \<times> nat" where
  "draw_overlay E a title ls area =
     (let r = overlay_rect area; rows = wrapped_rows E r ls; scroll = overlay_scroll_of E r ls a;
          heading = (if rows - inner_rows r > 0
            then '' '' @ title @ em_dash @ dec (min (scroll + inner_rows r) rows) @ ''/'' @ dec rows @ '' lines, '' @
              arrow 1 @ arrow 3 @ '' to scroll, Esc to close ''
            else '' '' @ title @ em_dash @ ''Esc to close '') in
      (\<lparr>p_title = heading, p_focused = True, p_lines = ls, p_selected = None, p_centred = False,
         p_scroll = saturated_width scroll\<rparr>, r, scroll))"

definition HELP_ROWS :: "(string \<times> string) list" where
  "HELP_ROWS =
    [(''Tab / Shift-Tab'', ''next / previous pane''),
     (''h l  '' @ arrow 0 @ '' '' @ arrow 2, ''move focus left / right''),
     (''j k  '' @ arrow 3 @ '' '' @ arrow 1, ''move down / up''),
     (''Ctrl-d / Ctrl-u'', ''page down / up''),
     (''PageDown / PageUp'', ''page down / up''),
     (''g / G'', ''first / last''),
     (''Enter'', ''open the group or article under the cursor''),
     (''n / p'', ''next / previous article, opening it''),
     (''u'', ''show only unread articles, or everything''),
     (''t'', ''group the list into conversations, or show it flat''),
     (''z'', ''fold the replies under the cursor away, or bring them back''),
     (''w'', ''write a new article in the selected group''),
     (''f'', ''follow up to the article on screen''),
     (''M'', ''mark the article under the cursor read / unread''),
     (''c'', ''catch up: mark the whole group read''),
     (''/'', ''filter the groups already fetched, by name or text''),
     (arrow 1 @ '' '' @ arrow 3 @ '' while filtering'', ''move through what the filter left''),
     (''S'', ''ask the server for groups matching the filter''),
     (''Esc'', ''stop a request in progress; else clear the filter or close an overlay''),
     (''r'', ''reload the focused pane''),
     (''m'', ''show recent messages''),
     (''?  F1'', ''this help''),
     (''q  Ctrl-C'', ''quit'')]"

definition help_text :: "text_line list" where
  "help_text =
     [] # map (\<lambda>(keys, what). [(''  '' @ pad_right 20 keys, BoldAccent), (what, Unstyled)]) HELP_ROWS @
     [[],
      [(''  The number beside a group is how many articles are unread; '' @ bullet @ '' marks an unread article.'', DimLook)],
      [(''  Counts are shown as '' @ at_most_sign @ ''n: LIST ACTIVE reports watermarks, and expiry leaves gaps.'', DimLook)]]"

definition messages_text :: "app \<Rightarrow> text_line list" where
  "messages_text a =
     (if a_messages a = [] then [[(''  nothing to report'', DimLook)]]
      else map (\<lambda>m. [(''  '' @ m, Unstyled)]) (a_messages a))"

section \<open>The screen\<close>

record screen =
  s_groups :: panel
  s_articles :: panel
  s_article :: panel
  s_status :: status_bar
  s_overlay :: "(panel \<times> rect \<times> nat) option"

definition draw :: "screen_env \<Rightarrow> rect \<Rightarrow> app \<Rightarrow> screen \<times> app" where
  "draw E whole a0 =
     (let a = set_pane_heights (unat (sat_sub (r_height (area_articles E whole)) 2))
                (unat (sat_sub (r_height (area_article E whole)) 2)) a0;
          overlay = (case a_overlay a of
              NoOverlay \<Rightarrow> None
            | HelpOverlay \<Rightarrow> Some (draw_overlay E a ''Keys'' help_text (area_body E whole))
            | MessagesOverlay \<Rightarrow> Some (draw_overlay E a ''Messages'' (messages_text a) (area_body E whole))) in
      (\<lparr>s_groups = draw_groups (screen_ui E) a, s_articles = draw_articles a, s_article = draw_article a,
        s_status = draw_status (area_status E whole) a, s_overlay = overlay\<rparr>,
       case overlay of None \<Rightarrow> a | Some (_, _, scroll) \<Rightarrow> set_overlay_scroll (of_nat scroll) a))"

end
