(* ===== verification/Screen_Props.thy ===== *)
theory Screen_Props
  imports Screen Reader_List
begin

text \<open>
  What is drawn agrees with what the keys act on.
\<close>

section \<open>Lists\<close>

lemma get_opt_bound: "get_opt xs i = Some x \<longleftrightarrow> i < length xs \<and> xs ! i = x"
  by (auto simp: get_opt_def)

lemma map_filter_all: "(\<And>x. x \<in> set xs \<Longrightarrow> f x = Some (g x)) \<Longrightarrow> List.map_filter f xs = map g xs"
  by (induction xs) auto

lemma shown_articles:
  assumes "threads_ok a" "row \<in> set (article_rows a)"
  shows "row_index row < length (a_articles a)"
  using visible_shows [OF assms(1), of "row_index row"] assms(2)
  by (auto simp: visible_articles_def shows_at_def get_opt_def split: if_splits)

lemma shown_groups: "i \<in> set (visible_groups E a) \<Longrightarrow> i < length (a_groups a)"
  by (auto simp: visible_groups_def in_set_enumerate_eq split: if_splits)

text \<open>C17: What is highlighted is what the keys act on.  However the reader was driven, the list of
  groups draws one line for each visible group and the list of articles one for each row, in order;
  and when there is a group, or an article, under the cursor, the highlighted line is the one of that
  group, or that article.\<close>
theorem highlight_is_selection:
  assumes "run E inputs (started config read subscriptions sender) = (a, rs, files)"
  shows "length (p_lines (draw_groups E a)) = length (visible_groups E a) \<and>
    (article_rows a \<noteq> [] \<longrightarrow> length (p_lines (draw_articles a)) = length (article_rows a)) \<and>
    (selected_group E a = Some g \<longrightarrow>
       (\<exists>i. p_selected (draw_groups E a) = Some i \<and> i < length (p_lines (draw_groups E a)) \<and>
          p_lines (draw_groups E a) ! i = group_line a g)) \<and>
    (selected_article a = Some r \<longrightarrow>
       (\<exists>i row. p_selected (draw_articles a) = Some i \<and> i < length (p_lines (draw_articles a)) \<and>
          article_rows a ! i = row \<and> get_opt (a_articles a) (row_index row) = Some r \<and>
          p_lines (draw_articles a) ! i = article_line a row r))"
proof -
  have "list_ok False a" by (rule run_ok [OF assms started_ok]) simp
  then have t: "threads_ok a" by (simp add: list_ok_def)
  have gl: "List.map_filter (get_opt (a_groups a)) (visible_groups E a) = map (\<lambda>i. a_groups a ! i) (visible_groups E a)"
    by (rule map_filter_all) (auto simp: get_opt_def dest: shown_groups)
  have al: "List.map_filter (\<lambda>row. map_option (article_line a row) (get_opt (a_articles a) (row_index row))) (article_rows a) =
      map (\<lambda>row. article_line a row (a_articles a ! row_index row)) (article_rows a)"
    by (rule map_filter_all) (auto simp: get_opt_def dest: shown_articles [OF t])
  have "\<exists>i. p_selected (draw_groups E a) = Some i \<and> i < length (p_lines (draw_groups E a)) \<and>
      p_lines (draw_groups E a) ! i = group_line a g" if s: "selected_group E a = Some g"
  proof -
    let ?c = "a_group_cursor a"
    have "?c < length (visible_groups E a)" "a_groups a ! (visible_groups E a ! ?c) = g"
      using s by (auto simp: selected_group_def get_opt_bound split: Option.bind_split_asm)
    then show ?thesis by (intro exI [of _ ?c]) (auto simp: draw_groups_def gl highlighted_def Let_def)
  qed
  moreover have "\<exists>i row. p_selected (draw_articles a) = Some i \<and> i < length (p_lines (draw_articles a)) \<and>
      article_rows a ! i = row \<and> get_opt (a_articles a) (row_index row) = Some r \<and>
      p_lines (draw_articles a) ! i = article_line a row r" if s: "selected_article a = Some r"
  proof -
    let ?c = "a_article_cursor a"
    have c: "?c < length (article_rows a)" "get_opt (a_articles a) (row_index (article_rows a ! ?c)) = Some r"
      using s by (auto simp: selected_article_def visible_articles_def get_opt_bound split: Option.bind_split_asm)
    then show ?thesis
      by (intro exI [of _ ?c] exI [of _ "article_rows a ! ?c"])
        (auto simp: draw_articles_def al highlighted_def get_opt_bound Let_def)
  qed
  ultimately show ?thesis
    by (auto simp: draw_groups_def draw_articles_def gl al Let_def)
qed

section \<open>The article pane\<close>

text \<open>The end of a long article: the title says that the last line is shown, but the headers above
  the body take rows of the pane, so that the last line is below its bottom.\<close>

lemma end_of_article_is_below_the_pane:
  assumes "a_focus a = BodyPane" "a_article a = Some v" "0 < a_body_height a" "a_body_height a \<le> length (v_body v)"
    and "b = move_to_end E a"
  shows "a_body_height b < length (p_lines (draw_article b))"
    "body_position b v = dec (length (v_body v) - a_body_height b + 1) @ en_dash @ dec (length (v_body v)) @
       '' of '' @ dec (length (v_body v))"
proof -
  have m: "max (a_body_height a) 1 = a_body_height a" using assms(3) by simp
  show "a_body_height b < length (p_lines (draw_article b))"
    "body_position b v = dec (length (v_body v) - a_body_height b + 1) @ en_dash @ dec (length (v_body v)) @
       '' of '' @ dec (length (v_body v))"
    using assms by (auto simp: draw_article_def move_to_end_def body_length_def view_preamble_def body_position_def m simp del: One_nat_def)
qed

section \<open>Samples\<close>

theorem highlight_is_selection_witness:
  "\<exists>a rs files. run sample_env sample_inputs sample_start = (a, rs, files) \<and>
     length (p_lines (draw_groups sample_env a)) = length (visible_groups sample_env a)"
proof -
  obtain a rs files where r: "run sample_env sample_inputs sample_start = (a, rs, files)" by (metis prod_cases3)
  from highlight_is_selection [OF r [unfolded sample_start_def]] r show ?thesis by blast
qed

end
