(* ===== verification/Spec2Isabelle.thy ===== *)
theory Spec2Isabelle
  imports Read_Store Block Command Overview Capabilities Thread_Build Framing Mime_Tree Follow_Up Conversation End_To_End
    Reader_Marks Worker_Run Worker_Groups Secure_Link Editor One_Shot_Props Screen_Props
begin

text \<open>
  A verification development for rust-nntp: a Usenet protocol library (\<open>crates/nntp-proto\<close>), a
  blocking client over it (\<open>crates/nntp-client\<close>), an in-memory server to test against
  (\<open>crates/nntp-testserver\<close>) and a terminal news reader (\<open>crates/nntp-tui\<close>).  The definitions are
  translated from the Rust sources, function by function and branch by branch; the theorems are
  about these definitions.

  \<^bold>\<open>How the program fits together.\<close>  \<open>nntp-proto\<close> is pure: octets in, values or errors out.
  \<open>Connection\<close> of \<open>nntp-client\<close> frames lines and blocks over a stream, \<open>Client\<close> holds the conversation
  (greeting, capabilities, login, selected group, which verbs the server knows) and \<open>connector\<close> opens
  the stream, with TLS or by \<open>STARTTLS\<close>.  In \<open>nntp-tui\<close>, \<open>config\<close>, \<open>cli\<close> and \<open>session\<close> say which server
  and how; then either a command of \<open>commands\<close> asks and prints, or the reader opens: a worker thread
  owns the client and answers requests with events, the state of \<open>tui/app\<close> turns keys and events into
  requests, \<open>compose\<close> runs the editor on a draft, and \<open>readstate\<close> remembers what was read.

  \<^bold>\<open>Conventions.\<close>  A Rust \<open>String\<close> and a \<open>Vec<u8>\<close> are both a list of octets; that a \<open>str\<close> is valid UTF-8
  is stated where it matters.  \<open>u64\<close> and \<open>u16\<close> are words and keep their wrap-around; saturating
  operations are \<open>sat_sub\<close> and \<open>sat_add\<close>; an overflow that panics in a checked build is the value
  \<open>Overflow\<close>.  Lengths and cursors in memory are natural numbers.  \<open>Result<T, E>\<close> is a sum with the error on
  the left, \<open>Option\<close> an option; a method that changes its object and may fail is an \<open>action\<close>: the
  outcome beside the object it leaves behind, also when it fails.  A \<open>BTreeMap\<close> is the sorted list of
  its entries, a \<open>HashSet\<close> a set, an arena of nodes a record of lists with indices into them.

  \<^bold>\<open>The theories.\<close>
  \<^item> Shared: \<open>Prelude\<close> (words, vectors, slices), \<open>Rust_Str\<close> and \<open>Rust_Text\<close> (what the sources use of
    \<open>u8\<close>, \<open>str\<close>, \<open>String\<close>), \<open>Ordered_Map\<close>, \<open>Libs\<close> (third-party crates as parameters) and \<open>Sample_Libs\<close> (one
    concrete instance of them, on which the witnesses are evaluated).
  \<^item> Protocol, one theory for one module: \<open>Proto_Error\<close> (\<open>error.rs\<close>), \<open>Response\<close>, \<open>Block\<close>, \<open>Headers\<close>,
    \<open>Mime\<close>, \<open>Message_Id\<close>, \<open>Group\<close>, \<open>Spec\<close>, \<open>Command\<close>, \<open>Date_Header\<close> (\<open>date.rs\<close>), \<open>List_Resp\<close> (\<open>list.rs\<close>), \<open>Overview\<close>
    (\<open>overview.rs\<close>, \<open>hdr.rs\<close>), \<open>Capabilities\<close>, \<open>Article\<close>, \<open>Body\<close> (\<open>body.rs\<close>) with \<open>Mime_Tree\<close>, \<open>Thread\<close> (\<open>thread.rs\<close>)
    with \<open>Thread_Forest\<close> and \<open>Thread_Build\<close>, \<open>Post_Draft\<close> (\<open>post.rs\<close>) with \<open>Posting\<close> and \<open>Follow_Up\<close>.
  \<^item> Client: \<open>Client_Error\<close> (\<open>error.rs\<close>, \<open>limits.rs\<close>, \<open>cancel.rs\<close>), \<open>Connection\<close> with \<open>Framing\<close>, \<open>Client\<close>
    (\<open>client.rs\<close>) with \<open>Sending\<close>, \<open>Session\<close> and \<open>Conversation\<close>, \<open>Connector\<close> (\<open>connector.rs\<close>, \<open>tls.rs\<close>).
  \<^item> Test server: \<open>Corpus\<close> (\<open>corpus.rs\<close>, \<open>config.rs\<close>) with \<open>Filing\<close>, \<open>Server\<close> (\<open>session.rs\<close>) with \<open>Server_Session\<close>
    and \<open>Serving\<close>; \<open>End_To_End\<close> puts the client before the server.
  \<^item> Reader: \<open>Read_Set\<close> and \<open>Read_Store\<close> (\<open>readstate\<close>), \<open>Reader_Protocol\<close> (\<open>tui/protocol.rs\<close>), \<open>Reader\<close> and
    \<open>Reader_Steps\<close> (\<open>tui/app.rs\<close> and the loop of \<open>tui/mod.rs\<close>) with \<open>Reader_Run\<close>, \<open>Reader_List\<close> and
    \<open>Reader_Marks\<close>, \<open>Worker\<close> (\<open>tui/worker.rs\<close>) with \<open>Worker_Groups\<close> and \<open>Worker_Run\<close>, \<open>Settings\<close> (\<open>config.rs\<close>,
    \<open>cli.rs\<close>), \<open>Target\<close> (\<open>session.rs\<close>) with \<open>Connecting\<close> and \<open>Secure_Link\<close>, \<open>Editor\<close> (\<open>compose.rs\<close>), \<open>One_Shot\<close>
    (\<open>commands.rs\<close>, \<open>lib.rs\<close>, the choice of log in \<open>main.rs\<close>) with \<open>One_Shot_Props\<close>, \<open>Screen\<close> (\<open>tui/ui.rs\<close>) with
    \<open>Screen_Props\<close>.

  \<^bold>\<open>What stands for the outside.\<close>
  \<^item> \<open>libs\<close> are \<open>memchr\<close>, \<open>encoding_rs\<close>, \<open>base64\<close> and \<open>chrono\<close>.  A theorem that relies on one of them
    names the documented behaviour it relies on (\<open>memchr_ok\<close>, \<open>base64_ok\<close>, \<open>utf8_label_ok\<close> and the like) as a
    hypothesis; all of these hold of \<open>sample_libs\<close>.
  \<^item> A stream is a script: what each read returns, in pieces of any size, and whether each write
    succeeds.  A theorem for every script is a theorem for every server, every segmentation and every
    moment of failure.  What a look at the cancellation flag sees is a script too, so another thread may
    raise the flag at any moment.
  \<^item> Saving the read store runs over an explicit file system with a fault for every system call and
    yields every file system a reader could meet on the way.
  \<^item> \<open>ui_env\<close> (folding Unicode case, \<open>strftime\<close>, debug escapes), \<open>platform\<close> (names, sockets, certificates,
    TLS rounds), \<open>surroundings\<close> (environment, shell), \<open>config_files\<close> (directories, files, the TOML reader), \<open>desk\<close>
    (drafts, clock, editor), \<open>printer\<close> and \<open>config_desk\<close> (what the commands print through), \<open>screen_env\<close> (how
    \<open>ratatui\<close> cuts up the screen) and \<open>dial\<close> (what
    each attempt of the worker to connect gives) are records of such parameters.  \<open>dial_of\<close> of \<open>Target\<close> makes
    a \<open>dial\<close> from \<open>session::connect\<close>, so what is proved of the worker for every dial holds of the real one.

  \<^bold>\<open>Loops.\<close>  Recursion is structural or ends by a measure, with two exceptions.  The wildmat matcher runs on
  \<open>match_fuel\<close>, and \<open>match_terminates\<close> shows that this is always enough to give the verdict of the
  declarative \<open>glob\<close>; the splitting of lines by \<open>memchr\<close> runs on one step for each octet and one more, and
  \<open>split_lines_loop_ok\<close> shows that any fuel above the length gives the lines.  The MIME tree ends by its depth limit
  \<open>MAX_PART_DEPTH\<close>, threading by the number of nodes and the cap of \<open>MAX_DEPTH\<close>.

  \<^bold>\<open>What the theorems show.\<close>
  \<^item> Read state: range sets stay sorted, disjoint and merged and compute like sets of numbers; the store
    round-trips through its text for the group names the format can carry (\<open>colon_name_lost\<close> shows the others), a
    file that is read costs only its damaged lines, every failure to read it is reported, and a save that is
    interrupted anywhere leaves the old or the new file.
  \<^item> Protocol: dot-stuffing is transparent; commands cannot smuggle a line; ranges are cut into chunks
    that cover them; wildmats match as documented; multiparts split exactly and every part is shown or listed;
    encoded header values decode to what they were; threading shows every article once, whatever the
    references; a follow-up joins the thread it answers.
  \<^item> Client: a line and a block are read the same however the stream is cut, a lost connection is
    final, credentials stay off plaintext links without leave, an article is sent only when asked for, and the client
    falls back from \<open>OVER\<close> to \<open>XOVER\<close> once and remembers the verb that worked.  The locale
    \<open>client_session\<close> carries a property of single requests to all sessions.
  \<^item> Server and client together: a posted article is filed under numbers above all that its groups had, and
    nothing else is added to them; what the server serves is read by the client as it is stored.  This is for
    drafts in ASCII without a line feed in a line; \<open>line_feed_injects_header\<close> shows what one does.  Before login a session learns nothing; segmentation of the input
    does not matter.
  \<^item> Reader and worker: the system of both is a step relation (\<open>Worker_Run\<close>) in which a key, a tick, a
    return from the editor, the worker taking a request and the interface taking an event come in any
    order.  Handling a request is one step: its events wait in the channel, so that the interleavings
    with the interface are those of taking them.  The invariant counts the requests in flight; runs of the
    interface (\<open>Reader_Run\<close>) show that superseded fetches change nothing and by what a draft that is being
    posted is let go of; \<open>Reader_List\<close> and \<open>Reader_Marks\<close> show that the threads are those of the articles and
    the cursor stays on the list, folds hide what they count and what was read is
    recorded; \<open>Screen_Props\<close> that what is highlighted is what the keys act on.
  \<^item> Connecting: a link made with TLS owes nothing but the greeting to what was said in the clear, the
    worker keeps to the link that was asked for however often it reconnects, settings of one server are
    not lent to another, and a configuration that loads can be used.
  \<^item> Where the code does not do what it means to, or a document says otherwise, the lemma that shows it
    is named beside the theorem it limits (for example \<open>second_draft_removed_unposted\<close>, \<open>negation_is_lost\<close>,
    \<open>upgrade_keeps_the_greeting\<close>, \<open>unknown_server_ignored\<close>, \<open>drafts_collide\<close>).

  \<^bold>\<open>Interfaces.\<close>  Locales state what one part relies on in another, and each is interpreted on the model:
  \<open>line_codec\<close> (\<open>Block\<close>), \<open>wire_argument\<close> (message-ids, group names and wildmats as arguments of commands),
  \<open>ordered_map\<close> (\<open>Ordered_Map\<close>), \<open>number_set\<close> (\<open>Read_Set\<close>) and \<open>client_session\<close> (\<open>Session\<close>, twice).

  \<^bold>\<open>Not modelled.\<close>  Taking over the terminal and putting widgets on it: calls into \<open>ratatui\<close>; the order of
  \<open>tui::run\<close> around its loop (saving at the end, waiting for the worker) is not composed.  The listener, the
  threads and the TLS set-up of the test server (\<open>server.rs\<close>, \<open>tls.rs\<close>, \<open>main.rs\<close>): each connection runs the modelled
  session, over transports in memory.  Logging set-up and log records.  Argument parsing (\<open>clap\<close>), TOML
  (\<open>serde\<close>), texts derived by \<open>thiserror\<close> and \<open>Debug\<close>.  Threads are not modelled as such: the channels between
  interface and worker are lists, and sessions that share the corpus of the test server take turns.
\<close>

end
